(* ===== verification/Prelude.thy ===== *)
theory Prelude
  imports Complex_Main "HOL-Library.Word"
begin

text \<open>
  What every component of the development shares: the names of the types the Go
  code is translated to, the operations of the Go language that differ from those
  of HOL (division and remainder that truncate towards zero), and the collections
  the automation of the component theories draws on.

  A Go \<open>int\<close> is an unbounded \<open>int\<close> unless wrap-around is part of what the code
  does; then the definition uses a \<open>word\<close> of the width in the code.
  A Go pointer or \<open>nil\<close>-able value is an \<open>option\<close>, a Go string a list of bytes.
\<close>

section \<open>Types and collections\<close>

type_synonym byte = "8 word"
type_synonym u64 = "64 word"
type_synonym u32 = "32 word"
type_synonym uuid = "byte list"

text \<open>Facts about the shape of a value (well-formedness, invariants).\<close>

named_theorems wf_simps "well-formedness of model states"

text \<open>Facts that bound a result between values of its input.\<close>

named_theorems bound_intros "bounds of results"

section \<open>Truncating integer division\<close>

definition tdiv :: "int \<Rightarrow> int \<Rightarrow> int" where
  "tdiv a b = sgn a * sgn b * (\<bar>a\<bar> div \<bar>b\<bar>)"

definition tmod :: "int \<Rightarrow> int \<Rightarrow> int" where
  "tmod a b = a - b * tdiv a b"

lemma tdiv_nonneg [simp]: "0 \<le> a \<Longrightarrow> 0 < b \<Longrightarrow> tdiv a b = a div b"
  by (cases "a = 0") (simp_all add: tdiv_def)

lemma tmod_nonneg [simp]: "0 \<le> a \<Longrightarrow> 0 < b \<Longrightarrow> tmod a b = a mod b"
  by (simp add: tmod_def minus_mult_div_eq_mod)

lemma tdiv_neg: "a < 0 \<Longrightarrow> 0 < b \<Longrightarrow> tdiv a b = - ((- a) div b)"
  by (simp add: tdiv_def)

lemma tdiv_mono: "a \<le> b \<Longrightarrow> 0 < c \<Longrightarrow> tdiv a c \<le> tdiv b c"
proof -
  assume ab: "a \<le> b" and c: "0 < c"
  consider "0 \<le> a" | "a < 0" "b < 0" | "a < 0" "0 \<le> b" by linarith
  then show ?thesis
  proof cases
    case 1
    with ab c show ?thesis by (simp add: zdiv_mono1)
  next
    case 2
    with ab c show ?thesis by (simp add: tdiv_neg zdiv_mono1)
  next
    case 3
    with c have "tdiv a c \<le> 0" by (simp add: tdiv_neg pos_imp_zdiv_nonneg_iff)
    also have "0 \<le> tdiv b c" using 3 c by (simp add: pos_imp_zdiv_nonneg_iff)
    finally show ?thesis .
  qed
qed

section \<open>Lists\<close>

lemma sum_list_update:
  fixes xs :: "'a::ab_group_add list"
  shows "k < length xs \<Longrightarrow> sum_list (xs[k := x]) = sum_list xs - xs ! k + x"
  by (induction xs arbitrary: k) (auto split: nat.splits)

lemma fold_max_ge: "(a::int) \<le> fold max xs a"
proof (induction xs arbitrary: a)
  case (Cons x xs)
  have "a \<le> max x a" by simp
  also have "\<dots> \<le> fold max xs (max x a)" by (rule Cons.IH)
  finally show ?case by simp
qed simp

lemma int_div_less_iff:
  fixes a b c :: int
  assumes "0 < c"
  shows "a div c < b \<longleftrightarrow> a < b * c"
proof
  assume "a div c < b"
  then have "(a div c + 1) * c \<le> b * c" using assms by (intro mult_right_mono) simp_all
  moreover have "(a div c + 1) * c = a div c * c + c" by (simp add: distrib_right)
  ultimately show "a < b * c"
    using pos_mod_bound [OF assms, of a] div_mult_mod_eq [of a c] by linarith
next
  assume *: "a < b * c"
  show "a div c < b"
  proof (rule ccontr)
    assume "\<not> a div c < b"
    then have "b * c \<le> a div c * c" using assms by (intro mult_right_mono) simp_all
    then show False using * pos_mod_sign [OF assms, of a] div_mult_mod_eq [of a c] by linarith
  qed
qed

end
