(* ===== verification/Go_Float.thy ===== *)
theory Go_Float
  imports Prelude "HOL-Library.Log_Nat"
begin

text \<open>
  Go's \<open>float64\<close>. A finite value is the rational number it stands for, and every
  operation rounds its exact result with \<open>f64\<close>: to nearest, ties to even, on 53
  significant bits and down to the subnormal exponent. Infinities and NaN are not
  modelled (the code modelled here never divides by zero and stays far below
  \<open>2 ^ 1024\<close>). The locale \<open>rounding\<close> holds what the clients use of the
  rounding: it is monotone and exact on small integers.
\<close>

section \<open>Powers of two and the binary exponent\<close>

definition pow2 :: "int \<Rightarrow> rat" where
  "pow2 e = (if 0 \<le> e then 2 ^ nat e else 1 / 2 ^ nat (- e))"

lemma pow2_pos [simp]: "0 < pow2 e"
  by (simp add: pow2_def)

lemma pow2_nz [simp]: "pow2 e \<noteq> 0"
  by (simp add: pow2_def)

lemma pow2_powi: "pow2 e = power_int 2 e"
  by (simp add: pow2_def power_int_def field_simps)

lemma pow2_add: "pow2 (a + b) = pow2 a * pow2 b"
  by (simp add: pow2_powi power_int_add)

lemma pow2_mono: "a \<le> b \<Longrightarrow> pow2 a \<le> pow2 b"
  by (simp add: pow2_powi power_int_increasing)

lemma pow2_strict_mono: "a < b \<Longrightarrow> pow2 a < pow2 b"
  by (simp add: pow2_powi power_int_strict_increasing)

lemma pow2_less_iff: "pow2 a < pow2 b \<longleftrightarrow> a < b"
  by (meson leD linorder_le_less_linear pow2_mono pow2_strict_mono)

lemma pow2_int: "0 \<le> e \<Longrightarrow> pow2 e = of_int (2 ^ nat e)"
  by (simp add: pow2_def)

lemma pow2_split: "a \<le> b \<Longrightarrow> pow2 b = of_int (2 ^ nat (b - a)) * pow2 a"
  using pow2_add [of "b - a" a] by (simp add: pow2_int)

definition ilog2 :: "rat \<Rightarrow> int" where
  "ilog2 x =
     (let (p, q) = quotient_of x;
          k = bitlen p - bitlen q
      in if pow2 k \<le> x then k else k - 1)"

lemma bitlen_pow2_bounds:
  assumes "0 < n"
  shows "pow2 (bitlen n - 1) \<le> of_int n" and "of_int n < pow2 (bitlen n)"
proof -
  have b: "0 < bitlen n"
    using assms bitlen_eq_zero_iff [of n] bitlen_nonneg [of n] by linarith
  have B: "2 ^ nat (bitlen n - 1) \<le> n" "n < 2 ^ nat (bitlen n)"
    using bitlen_bounds [OF assms] by auto
  show "pow2 (bitlen n - 1) \<le> of_int n"
    using B(1) b by (simp only: pow2_int of_int_le_iff)
  show "of_int n < pow2 (bitlen n)"
    using B(2) b by (simp only: pow2_int of_int_less_iff)
qed

lemma ilog2_bounds:
  assumes "0 < x"
  shows "pow2 (ilog2 x) \<le> x" and "x < pow2 (ilog2 x + 1)"
proof -
  obtain p q where pq: "quotient_of x = (p, q)" by fastforce
  have q: "0 < q" by (rule quotient_of_denom_pos [OF pq])
  have x: "x = of_int p / of_int q" by (rule quotient_of_div [OF pq])
  have p: "0 < p" using assms q x by (simp add: zero_less_divide_iff)
  let ?k = "bitlen p - bitlen q"
  have up: "x < pow2 (?k + 1)"
  proof -
    have "of_int p < pow2 (?k + 1) * pow2 (bitlen q - 1)"
      using bitlen_pow2_bounds(2) [OF p] by (simp flip: pow2_add)
    also have "\<dots> \<le> pow2 (?k + 1) * of_int q"
      using bitlen_pow2_bounds(1) [OF q] by (simp add: less_imp_le)
    finally show ?thesis using q by (simp add: x divide_less_eq)
  qed
  have lo: "pow2 (?k - 1) \<le> x"
  proof -
    have "pow2 (?k - 1) * of_int q \<le> pow2 (?k - 1) * pow2 (bitlen q)"
      using bitlen_pow2_bounds(2) [OF q] by (simp add: less_imp_le)
    also have "\<dots> \<le> of_int p"
      using bitlen_pow2_bounds(1) [OF p] by (simp flip: pow2_add)
    finally show ?thesis using q by (simp add: x le_divide_eq)
  qed
  have i: "ilog2 x = (if pow2 ?k \<le> x then ?k else ?k - 1)"
    by (simp add: ilog2_def pq)
  show "pow2 (ilog2 x) \<le> x" using lo by (simp add: i)
  show "x < pow2 (ilog2 x + 1)" using up by (auto simp: i not_le)
qed

lemma ilog2_mono: "0 < x \<Longrightarrow> x \<le> y \<Longrightarrow> ilog2 x \<le> ilog2 y"
proof -
  assume x: "0 < x" and xy: "x \<le> y"
  have "pow2 (ilog2 x) < pow2 (ilog2 y + 1)"
    using ilog2_bounds(1) [OF x] ilog2_bounds(2) [of y] x xy by linarith
  then show ?thesis by (simp add: pow2_less_iff)
qed

section \<open>Round to nearest, ties to even\<close>

definition rne :: "rat \<Rightarrow> int" where
  "rne x =
     (let f = \<lfloor>x\<rfloor>; d = x - of_int f
      in if d < 1/2 then f else if d > 1/2 then f + 1 else if even f then f else f + 1)"

lemma rne_int [simp]: "rne (of_int n) = n"
  by (simp add: rne_def)

lemma rne_bounds: "\<lfloor>x\<rfloor> \<le> rne x" "rne x \<le> \<lfloor>x\<rfloor> + 1"
  by (simp_all add: rne_def Let_def)

lemma rne_mono: "x \<le> y \<Longrightarrow> rne x \<le> rne y"
proof -
  assume xy: "x \<le> y"
  then have f: "\<lfloor>x\<rfloor> \<le> \<lfloor>y\<rfloor>" by (rule floor_mono)
  show ?thesis
  proof (cases "\<lfloor>x\<rfloor> = \<lfloor>y\<rfloor>")
    case True
    with xy show ?thesis by (auto simp: rne_def Let_def)
  next
    case False
    with f have "\<lfloor>x\<rfloor> + 1 \<le> \<lfloor>y\<rfloor>" by simp
    with rne_bounds(2) [of x] rne_bounds(1) [of y] show ?thesis by linarith
  qed
qed

lemma rne_uminus: "rne (- x) = - rne x"
proof (cases "x = of_int \<lfloor>x\<rfloor>")
  case True
  then obtain n where "x = of_int n" by blast
  then show ?thesis by (metis of_int_minus rne_int)
next
  case False
  then have c: "\<lfloor>- x\<rfloor> = - \<lfloor>x\<rfloor> - 1"
    using ceiling_altdef [of x] by (simp add: ceiling_def)
  show ?thesis by (auto simp: rne_def Let_def c)
qed

lemma rne_le_int: "x \<le> of_int n \<Longrightarrow> rne x \<le> n"
  using rne_mono [of x "of_int n"] by simp

lemma int_le_rne: "of_int n \<le> x \<Longrightarrow> n \<le> rne x"
  using rne_mono [of "of_int n" x] by simp

section \<open>The rounding of binary64\<close>

definition f64_exp :: "rat \<Rightarrow> int" where
  "f64_exp x = max (ilog2 \<bar>x\<bar> - 52) (- 1074)"

definition f64 :: "rat \<Rightarrow> rat" where
  "f64 x = (if x = 0 then 0 else of_int (rne (x / pow2 (f64_exp x))) * pow2 (f64_exp x))"

lemma f64_0 [simp]: "f64 0 = 0"
  by (simp add: f64_def)

lemma f64_uminus: "f64 (- x) = - f64 x"
  by (simp add: f64_def f64_exp_def rne_uminus)

lemma f64_nonneg: "0 \<le> x \<Longrightarrow> 0 \<le> f64 x"
  using int_le_rne [of 0 "x / pow2 (f64_exp x)"]
  by (simp add: f64_def less_imp_le)

text \<open>A value is never rounded across a power of two that is itself representable.\<close>

lemma f64_le_pow2:
  assumes "0 < x" "x \<le> pow2 k" "f64_exp x \<le> k"
  shows "f64 x \<le> pow2 k"
proof -
  let ?e = "f64_exp x"
  have k: "pow2 k = of_int (2 ^ nat (k - ?e)) * pow2 ?e"
    by (rule pow2_split [OF assms(3)])
  have "x / pow2 ?e \<le> of_int (2 ^ nat (k - ?e))"
    using assms(2) by (simp add: k divide_le_eq)
  then have "rne (x / pow2 ?e) \<le> 2 ^ nat (k - ?e)" by (rule rne_le_int)
  then have "(of_int (rne (x / pow2 ?e)) :: rat) \<le> of_int (2 ^ nat (k - ?e))"
    by (simp only: of_int_le_iff)
  then show ?thesis
    using assms(1) by (simp add: f64_def k)
qed

lemma pow2_le_f64:
  assumes "0 < x" "pow2 k \<le> x" "f64_exp x \<le> k"
  shows "pow2 k \<le> f64 x"
proof -
  let ?e = "f64_exp x"
  have k: "pow2 k = of_int (2 ^ nat (k - ?e)) * pow2 ?e"
    by (rule pow2_split [OF assms(3)])
  have "of_int (2 ^ nat (k - ?e)) \<le> x / pow2 ?e"
    using assms(2) by (simp add: k le_divide_eq)
  then have "2 ^ nat (k - ?e) \<le> rne (x / pow2 ?e)" by (rule int_le_rne)
  then have "(of_int (2 ^ nat (k - ?e)) :: rat) \<le> of_int (rne (x / pow2 ?e))"
    by (simp only: of_int_le_iff)
  then show ?thesis
    using assms(1) by (simp add: f64_def k)
qed

lemma f64_mono_pos:
  assumes x: "0 < x" and xy: "x \<le> y"
  shows "f64 x \<le> f64 y"
proof -
  have y: "0 < y" using x xy by simp
  have le: "f64_exp x \<le> f64_exp y"
    using ilog2_mono [OF x xy] x y by (auto simp: f64_exp_def)
  show ?thesis
  proof (cases "f64_exp x = f64_exp y")
    case True
    have "rne (x / pow2 (f64_exp y)) \<le> rne (y / pow2 (f64_exp y))"
      by (rule rne_mono) (simp add: divide_right_mono less_imp_le xy)
    then show ?thesis
      using x y True by (simp add: f64_def)
  next
    case False
    with le have lt: "f64_exp x < f64_exp y" by simp
    then have ey: "f64_exp y = ilog2 y - 52" and ly: "ilog2 x < ilog2 y"
      using x y by (auto simp: f64_exp_def max_def split: if_splits)
    have "x \<le> pow2 (ilog2 y)"
      using ilog2_bounds(2) [OF x] pow2_mono [of "ilog2 x + 1" "ilog2 y"] ly by linarith
    then have "f64 x \<le> pow2 (ilog2 y)"
      using lt ey by (intro f64_le_pow2 x) auto
    also have "\<dots> \<le> f64 y"
      using ey by (intro pow2_le_f64 y ilog2_bounds(1) [OF y]) auto
    finally show ?thesis .
  qed
qed

lemma f64_mono: "x \<le> y \<Longrightarrow> f64 x \<le> f64 y"
proof -
  assume xy: "x \<le> y"
  consider "0 < x" | "x \<le> 0" "0 \<le> y" | "y < 0" by linarith
  then show ?thesis
  proof cases
    case 1
    then show ?thesis using xy by (rule f64_mono_pos)
  next
    case 2
    then have "0 \<le> f64 (- x)" "0 \<le> f64 y" by (simp_all add: f64_nonneg)
    then show ?thesis by (simp add: f64_uminus)
  next
    case 3
    then have "f64 (- y) \<le> f64 (- x)" using xy by (intro f64_mono_pos) auto
    then show ?thesis by (simp add: f64_uminus)
  qed
qed

lemma f64_of_int:
  assumes small: "\<bar>n\<bar> < 2 ^ 53"
  shows "f64 (of_int n) = of_int n"
proof (cases "n = 0")
  case False
  let ?e = "f64_exp (of_int n)"
  have pos: "0 < \<bar>rat_of_int n\<bar>" using False by simp
  have "pow2 (ilog2 \<bar>rat_of_int n\<bar>) \<le> of_int \<bar>n\<bar>"
    using ilog2_bounds(1) [OF pos] by simp
  also have "\<dots> < of_int (2 ^ 53)" using small by (simp only: of_int_less_iff)
  also have "\<dots> = pow2 53" by (simp add: pow2_def)
  finally have "ilog2 \<bar>rat_of_int n\<bar> < 53" by (simp only: pow2_less_iff)
  then have e: "?e \<le> 0" by (simp add: f64_exp_def)
  have "of_int n / pow2 ?e = of_int (n * 2 ^ nat (- ?e))"
    using e by (auto simp: pow2_def)
  then have "of_int (rne (of_int n / pow2 ?e)) * pow2 ?e = of_int n / pow2 ?e * pow2 ?e"
    by (simp only: rne_int)
  then show ?thesis using False by (simp add: f64_def)
qed simp

section \<open>The interface: a monotone rounding, exact on small integers\<close>

locale rounding =
  fixes rnd :: "rat \<Rightarrow> rat"
  assumes rnd_mono: "x \<le> y \<Longrightarrow> rnd x \<le> rnd y"
    and rnd_of_int: "\<bar>n\<bar> < 2 ^ 53 \<Longrightarrow> rnd (of_int n) = of_int n"
begin

lemma rnd_0 [simp]: "rnd 0 = 0"
  using rnd_of_int [of 0] by simp

lemma rnd_1 [simp]: "rnd 1 = 1"
  using rnd_of_int [of 1] by simp

lemma rnd_nonneg: "0 \<le> x \<Longrightarrow> 0 \<le> rnd x"
  using rnd_mono [of 0 x] by simp

lemma rnd_nonpos: "x \<le> 0 \<Longrightarrow> rnd x \<le> 0"
  using rnd_mono [of x 0] by simp

lemma rnd_ge_int: "\<bar>n\<bar> < 2 ^ 53 \<Longrightarrow> of_int n \<le> x \<Longrightarrow> of_int n \<le> rnd x"
  using rnd_mono [of "of_int n" x] by (simp add: rnd_of_int)

lemma rnd_le_int: "\<bar>n\<bar> < 2 ^ 53 \<Longrightarrow> x \<le> of_int n \<Longrightarrow> rnd x \<le> of_int n"
  using rnd_mono [of x "of_int n"] by (simp add: rnd_of_int)

text \<open>Rounding the product with a factor at most one never exceeds the integer itself.\<close>

lemma rnd_shrink:
  assumes "0 \<le> n" "n < 2 ^ 53" "c \<le> 1"
  shows "rnd (of_int n * c) \<le> of_int n"
proof (rule rnd_le_int)
  show "of_int n * c \<le> of_int n"
    using assms mult_left_le [of c "of_int n"] by simp
qed (use assms in simp)

lemmas rnd_facts = rnd_0 rnd_1 rnd_nonneg rnd_nonpos rnd_ge_int rnd_le_int

end

interpretation f64: rounding f64
  by unfold_locales (simp_all add: f64_mono f64_of_int)

section \<open>Operations\<close>

definition fadd :: "rat \<Rightarrow> rat \<Rightarrow> rat" where "fadd x y = f64 (x + y)"
definition fsub :: "rat \<Rightarrow> rat \<Rightarrow> rat" where "fsub x y = f64 (x - y)"
definition fmul :: "rat \<Rightarrow> rat \<Rightarrow> rat" where "fmul x y = f64 (x * y)"
definition fdiv :: "rat \<Rightarrow> rat \<Rightarrow> rat" where "fdiv x y = f64 (x / y)"

text \<open>Conversion from an integer, and the truncating conversion back.\<close>

definition f_of :: "int \<Rightarrow> rat" where "f_of n = f64 (of_int n)"

definition trunc :: "rat \<Rightarrow> int" where
  "trunc x = (if 0 \<le> x then \<lfloor>x\<rfloor> else - \<lfloor>- x\<rfloor>)"

text \<open>\<open>math.Round\<close> rounds half away from zero, \<open>math.Ceil\<close> rounds up.\<close>

definition round_away :: "rat \<Rightarrow> int" where
  "round_away x = (if 0 \<le> x then \<lfloor>x + 1/2\<rfloor> else - \<lfloor>- x + 1/2\<rfloor>)"

lemma trunc_mono: "x \<le> y \<Longrightarrow> trunc x \<le> trunc y"
proof -
  assume xy: "x \<le> y"
  consider "0 \<le> x" | "x < 0" "0 \<le> y" | "y < 0" by linarith
  then show ?thesis
  proof cases
    case 2
    then have "trunc x \<le> 0" "0 \<le> trunc y" by (simp_all add: trunc_def)
    then show ?thesis by simp
  qed (use xy in \<open>auto simp: trunc_def intro: floor_mono\<close>)
qed

lemma trunc_of_int [simp]: "trunc (of_int n) = n"
  by (simp add: trunc_def flip: of_int_minus)

lemma trunc_ge_int: "of_int n \<le> x \<Longrightarrow> n \<le> trunc x"
  using trunc_mono [of "of_int n" x] by simp

lemma trunc_le_int: "x \<le> of_int n \<Longrightarrow> trunc x \<le> n"
  using trunc_mono [of x "of_int n"] by simp

lemma trunc_less_int: "0 \<le> x \<Longrightarrow> x < of_int n \<Longrightarrow> trunc x < n"
  by (simp add: trunc_def floor_less_iff)

lemma f_of_int: "\<bar>n\<bar> < 2 ^ 53 \<Longrightarrow> f_of n = of_int n"
  by (simp add: f_of_def f64_of_int)

lemma f_of_mono: "m \<le> n \<Longrightarrow> f_of m \<le> f_of n"
  by (simp add: f_of_def f64_mono)

end
