(* ===== verification/Go_Time.thy ===== *)
theory Go_Time
  imports Prelude
begin

text \<open>
  The part of Go's \<open>time\<close> package the scheduling code uses. A duration is a number
  of nanoseconds; an instant is a number of nanoseconds since the Unix epoch; a
  \<open>time.Time\<close> that carries a location is a \<open>gtime\<close>. A \<open>time.Location\<close> is its
  name, the offset before its first transition and its transitions (seconds since the
  epoch, offset from then on), which is how Go reads the zone database.
  \<open>go_date\<close> is \<open>time.Date\<close> with the standard library's own rule for wall clocks
  that a transition skips or repeats.
\<close>

section \<open>Durations and instants\<close>

type_synonym duration = int
type_synonym instant = int

abbreviation (input) Second :: duration where "Second \<equiv> 1000000000"
abbreviation (input) Minute :: duration where "Minute \<equiv> 60000000000"
abbreviation (input) Hour :: duration where "Hour \<equiv> 3600000000000"
abbreviation (input) Day :: duration where "Day \<equiv> 86400000000000"

abbreviation (input) max_duration :: duration where "max_duration \<equiv> 9223372036854775807"
abbreviation (input) min_duration :: duration where "min_duration \<equiv> - 9223372036854775808"

text \<open>The zero \<open>time.Time\<close>, midnight of the first of January of year one.\<close>

definition zero_time :: instant where
  "zero_time = - 62135596800000000000"

definition is_zero :: "instant \<Rightarrow> bool" where
  "is_zero t \<longleftrightarrow> t = zero_time"

text \<open>\<open>Time.Sub\<close> saturates at the ends of the duration type.\<close>

definition tsub :: "instant \<Rightarrow> instant \<Rightarrow> duration" where
  "tsub t u = max min_duration (min max_duration (t - u))"

lemma tsub_exact: "\<bar>t - u\<bar> \<le> max_duration \<Longrightarrow> tsub t u = t - u"
  by (simp add: tsub_def)

lemma tsub_le_0_iff [simp]: "tsub t u \<le> 0 \<longleftrightarrow> t \<le> u"
  by (simp add: tsub_def min_def max_def)

lemma tsub_less_0_iff [simp]: "tsub t u < 0 \<longleftrightarrow> t < u"
  by (simp add: tsub_def min_def max_def)

lemma tsub_mono: "t \<le> t' \<Longrightarrow> u' \<le> u \<Longrightarrow> tsub t u \<le> tsub t' u'"
  by (simp add: tsub_def min_def max_def)

lemma tsub_bounds: "min_duration \<le> tsub t u" "tsub t u \<le> max_duration"
  by (simp_all add: tsub_def min_def max_def)

lemma tsub_le_diff: "u \<le> t \<Longrightarrow> tsub t u \<le> t - u"
  by (simp add: tsub_def min_def max_def)

lemma tsub_ge_iff: "0 < d \<Longrightarrow> d \<le> max_duration \<Longrightarrow> d \<le> tsub t u \<longleftrightarrow> u + d \<le> t"
  by (auto simp: tsub_def min_def max_def)

lemma tsub_less_iff: "0 < d \<Longrightarrow> d \<le> max_duration \<Longrightarrow> tsub t u < d \<longleftrightarrow> t < u + d"
  using tsub_ge_iff [of d t u] by linarith

section \<open>The proleptic Gregorian calendar\<close>

text \<open>Day numbers count from the first of January 1970; the year starts in March inside.\<close>

definition days_of_civil :: "int \<Rightarrow> int \<Rightarrow> int \<Rightarrow> int" where
  "days_of_civil y m d =
     (let y' = (if m \<le> 2 then y - 1 else y);
          mp = (if m \<le> 2 then m + 9 else m - 3)
      in 365 * y' + y' div 4 - y' div 100 + y' div 400 + (153 * mp + 2) div 5 + d - 1 - 719468)"

definition march_year :: "int \<Rightarrow> int \<times> int" where
  "march_year z =
     (let era = z div 146097; doe = z mod 146097;
          cent = min 3 (doe div 36524); doc = doe - cent * 36524;
          quad = doc div 1461; doq = doc mod 1461;
          yr = min 3 (doq div 365)
      in (400 * era + 100 * cent + 4 * quad + yr, doq - yr * 365))"

definition civil_of_days :: "int \<Rightarrow> int \<times> int \<times> int" where
  "civil_of_days n =
     (let (y, doy) = march_year (n + 719468); mp = (5 * doy + 2) div 153
      in (if mp < 10 then y else y + 1, if mp < 10 then mp + 3 else mp - 9,
          doy - (153 * mp + 2) div 5 + 1))"

lemma days_of_civil_shift: "days_of_civil y m (d + i) = days_of_civil y m d + i"
  by (simp add: days_of_civil_def Let_def)

text \<open>The fourth year of a cycle of four, and the fourth century of four, absorb the rest.\<close>

lemma split_min3:
  fixes x w :: int
  assumes "0 \<le> x" "x \<le> 4 * w" "0 < w"
  shows "0 \<le> min 3 (x div w)" "min 3 (x div w) \<le> 3"
    and "0 \<le> x - min 3 (x div w) * w" "x - min 3 (x div w) * w \<le> w"
proof -
  have e: "x = w * (x div w) + x mod w" by simp
  have m: "0 \<le> x mod w" "x mod w < w" using assms by simp_all
  have q: "0 \<le> x div w" using assms by (simp add: pos_imp_zdiv_nonneg_iff)
  show "0 \<le> min 3 (x div w)" "min 3 (x div w) \<le> 3" using q by simp_all
  have "0 \<le> x - min 3 (x div w) * w \<and> x - min 3 (x div w) * w \<le> w"
  proof (cases "x div w \<le> 3")
    case True
    then have "min 3 (x div w) = x div w" by simp
    then have "x - min 3 (x div w) * w = x mod w" by (simp add: minus_div_mult_eq_mod)
    with m show ?thesis by simp
  next
    case False
    then have 4: "4 \<le> x div w" by simp
    then have "w * 4 \<le> w * (x div w)" using assms(3) by simp
    then have "w * 4 \<le> x" using e m by linarith
    then show ?thesis using 4 assms by simp
  qed
  then show "0 \<le> x - min 3 (x div w) * w" "x - min 3 (x div w) * w \<le> w" by simp_all
qed

lemma year_cycle_div:
  fixes era cent quad yr :: int
  assumes "0 \<le> yr" "yr \<le> 3" "0 \<le> quad" "quad \<le> 24" "0 \<le> cent" "cent \<le> 3"
  shows "(400 * era + 100 * cent + 4 * quad + yr) div 4 = 100 * era + 25 * cent + quad"
    and "(400 * era + 100 * cent + 4 * quad + yr) div 100 = 4 * era + cent"
    and "(400 * era + 100 * cent + 4 * quad + yr) div 400 = era"
proof -
  show "(400 * era + 100 * cent + 4 * quad + yr) div 4 = 100 * era + 25 * cent + quad"
    by (rule int_div_pos_eq [where r = yr]) (use assms in auto)
  show "(400 * era + 100 * cent + 4 * quad + yr) div 100 = 4 * era + cent"
    by (rule int_div_pos_eq [where r = "4 * quad + yr"]) (use assms in auto)
  show "(400 * era + 100 * cent + 4 * quad + yr) div 400 = era"
    by (rule int_div_pos_eq [where r = "100 * cent + 4 * quad + yr"]) (use assms in auto)
qed

text \<open>The split of a day number into a March year and the day of that year.\<close>

lemma march_year_parts:
  assumes "march_year z = (Y, doy)"
  shows "0 \<le> doy" "doy \<le> 365"
    and "365 * Y + Y div 4 - Y div 100 + Y div 400 + doy = z"
proof -
  define doe where "doe = z mod 146097"
  define cent where "cent = min 3 (doe div 36524)"
  define doc where "doc = doe - cent * 36524"
  define quad where "quad = doc div 1461"
  define doq where "doq = doc mod 1461"
  define yr where "yr = min 3 (doq div 365)"
  have "march_year z = (400 * (z div 146097) + 100 * cent + 4 * quad + yr, doq - yr * 365)"
    unfolding march_year_def Let_def doe_def cent_def doc_def quad_def doq_def yr_def
    by (rule refl)
  then have Y: "Y = 400 * (z div 146097) + 100 * cent + 4 * quad + yr"
    and d: "doy = doq - yr * 365"
    using assms by simp_all
  have "doe < 146097" by (simp add: doe_def)
  then have doe: "0 \<le> doe" "doe \<le> 4 * 36524" by (simp_all add: doe_def)
  note c = split_min3 [OF doe zero_less_numeral, folded cent_def, folded doc_def]
  have "doq < 1461" by (simp add: doq_def)
  then have doq: "0 \<le> doq" "doq \<le> 4 * 365" by (simp_all add: doq_def)
  note r = split_min3 [OF doq zero_less_numeral, folded yr_def]
  have q: "0 \<le> quad" "quad \<le> 24" using c(3,4) by (simp_all add: quad_def)
  show "0 \<le> doy" "doy \<le> 365" using r(3,4) by (simp_all add: d)
  have z: "z = 146097 * (z div 146097) + doe" "doc = 1461 * quad + doq"
    by (simp_all add: doe_def quad_def doq_def)
  have Yd: "Y div 4 = 100 * (z div 146097) + 25 * cent + quad"
    "Y div 100 = 4 * (z div 146097) + cent" "Y div 400 = z div 146097"
    unfolding Y by (rule year_cycle_div [OF r(1,2) q c(1,2)])+
  have "365 * Y + Y div 4 - Y div 100 + Y div 400 + doy
      = 146097 * (z div 146097) + 36524 * cent + 1461 * quad + 365 * yr + doy"
    unfolding Yd unfolding Y by simp
  also have "\<dots> = z" using z by (simp add: d doc_def)
  finally show "365 * Y + Y div 4 - Y div 100 + Y div 400 + doy = z" .
qed

lemma civil_of_days_parts:
  assumes "civil_of_days n = (y, m, d)"
  obtains Y doy mp where "march_year (n + 719468) = (Y, doy)"
    "mp = (5 * doy + 2) div 153" "0 \<le> mp" "mp \<le> 11"
    "y = (if mp < 10 then Y else Y + 1)"
    "m = (if mp < 10 then mp + 3 else mp - 9)" "d = doy - (153 * mp + 2) div 5 + 1"
proof -
  obtain Y doy where my: "march_year (n + 719468) = (Y, doy)" by fastforce
  define mp where "mp = (5 * doy + 2) div 153"
  have mp: "0 \<le> mp" "mp \<le> 11"
    using march_year_parts(1,2) [OF my] by (simp_all add: mp_def)
  have "civil_of_days n = (if mp < 10 then Y else Y + 1, if mp < 10 then mp + 3 else mp - 9,
          doy - (153 * mp + 2) div 5 + 1)"
    unfolding civil_of_days_def my Let_def prod.case mp_def by (rule refl)
  with assms show thesis
    by (intro that [OF my mp_def mp]) simp_all
qed

lemma civil_of_days_month: "civil_of_days n = (y, m, d) \<Longrightarrow> 1 \<le> m \<and> m \<le> 12"
  by (erule civil_of_days_parts) (simp split: if_splits)

lemma civil_of_days_day:
  assumes "civil_of_days n = (y, m, d)"
  shows "1 \<le> d \<and> d \<le> 31"
proof -
  obtain Y doy mp where my: "march_year (n + 719468) = (Y, doy)"
    and mp: "mp = (5 * doy + 2) div 153" and d: "d = doy - (153 * mp + 2) div 5 + 1"
    using assms by (rule civil_of_days_parts)
  have a: "153 * mp \<le> 5 * doy + 2" "5 * doy + 2 < 153 * mp + 153"
    using mult_div_mod_eq [of 153 "5 * doy + 2"] pos_mod_bound [of 153 "5 * doy + 2"]
      pos_mod_sign [of 153 "5 * doy + 2"] unfolding mp by linarith+
  define q where "q = (153 * mp + 2) div 5"
  have "5 * q \<le> 153 * mp + 2" "153 * mp + 2 < 5 * q + 5"
    using mult_div_mod_eq [of 5 "153 * mp + 2"] pos_mod_bound [of 5 "153 * mp + 2"]
      pos_mod_sign [of 5 "153 * mp + 2"] unfolding q_def by linarith+
  then show ?thesis using a d [folded q_def] by linarith
qed

lemma days_of_civil_march:
  "\<not> m \<le> 2 \<Longrightarrow> days_of_civil y m d = 365 * y + y div 4 - y div 100 + y div 400
     + (153 * (m - 3) + 2) div 5 + d - 1 - 719468"
  "m \<le> 2 \<Longrightarrow> days_of_civil (y + 1) m d = 365 * y + y div 4 - y div 100 + y div 400
     + (153 * (m + 9) + 2) div 5 + d - 1 - 719468"
  by (simp_all only: days_of_civil_def Let_def if_True if_False add_diff_cancel_right')

text \<open>Converting a day number to a date and back gives the day number.\<close>

lemma days_of_civil_of_days:
  assumes "civil_of_days n = (y, m, d)"
  shows "days_of_civil y m d = n"
proof -
  obtain Y doy mp where my: "march_year (n + 719468) = (Y, doy)"
    and mp: "0 \<le> mp" "mp \<le> 11" and ymd: "y = (if mp < 10 then Y else Y + 1)"
    "m = (if mp < 10 then mp + 3 else mp - 9)" "d = doy - (153 * mp + 2) div 5 + 1"
    using assms by (rule civil_of_days_parts)
  have "days_of_civil y m d = 365 * Y + Y div 4 - Y div 100 + Y div 400 + doy - 719468"
  proof (cases "mp < 10")
    case True
    then have Y: "y = Y" and m: "m - 3 = mp" "\<not> m \<le> 2" using mp ymd by simp_all
    show ?thesis
      unfolding Y days_of_civil_march(1) [OF m(2)] ymd(3) m(1) by simp
  next
    case False
    then have Y: "y = Y + 1" and m: "m + 9 = mp" "m \<le> 2" using mp ymd by simp_all
    show ?thesis
      unfolding Y days_of_civil_march(2) [OF m(2)] ymd(3) m(1) by simp
  qed
  then show ?thesis using march_year_parts(3) [OF my] by simp
qed

text \<open>\<open>time.Weekday\<close>: Sunday is 0; the first of January 1970 was a Thursday.\<close>

definition weekday_of_days :: "int \<Rightarrow> int" where
  "weekday_of_days n = (n + 4) mod 7"

lemma weekday_range: "0 \<le> weekday_of_days n" "weekday_of_days n < 7"
  by (simp_all add: weekday_of_days_def)

section \<open>Locations\<close>

record location =
  loc_name :: string
  loc_base :: int
  loc_tx :: "(int \<times> int) list"

record gtime =
  g_inst :: instant
  g_loc :: location

definition UTC :: location where
  "UTC = \<lparr>loc_name = ''UTC'', loc_base = 0, loc_tx = []\<rparr>"

definition alpha :: int where "alpha = - 9223372036854775808"
definition omega :: int where "omega = 9223372036854775807"

text \<open>
  \<open>Location.lookup\<close>: the offset in force at a second, and the half-open stretch of
  seconds it is in force for.
\<close>

fun zone_walk :: "int \<Rightarrow> int \<Rightarrow> (int \<times> int) list \<Rightarrow> int \<Rightarrow> int \<times> int \<times> int" where
  "zone_walk off start [] s = (off, start, omega)"
| "zone_walk off start ((w, off') # tx) s =
     (if s < w then (off, start, w) else zone_walk off' w tx s)"

definition zone_at :: "location \<Rightarrow> int \<Rightarrow> int \<times> int \<times> int" where
  "zone_at l s = zone_walk (loc_base l) alpha (loc_tx l) s"

definition offset_at :: "location \<Rightarrow> int \<Rightarrow> int" where
  "offset_at l s = fst (zone_at l s)"

definition unix_of :: "gtime \<Rightarrow> int" where
  "unix_of t = g_inst t div Second"

text \<open>Seconds of the local wall clock, counted as if the wall clock were UTC.\<close>

definition local_secs :: "gtime \<Rightarrow> int" where
  "local_secs t = unix_of t + offset_at (g_loc t) (unix_of t)"

definition local_day :: "gtime \<Rightarrow> int" where
  "local_day t = local_secs t div 86400"

definition civil :: "gtime \<Rightarrow> int \<times> int \<times> int" where
  "civil t = civil_of_days (local_day t)"

definition hour_of :: "gtime \<Rightarrow> int" where
  "hour_of t = local_secs t mod 86400 div 3600"

definition minute_of :: "gtime \<Rightarrow> int" where
  "minute_of t = local_secs t mod 3600 div 60"

definition second_of :: "gtime \<Rightarrow> int" where
  "second_of t = local_secs t mod 60"

definition nsec_of :: "gtime \<Rightarrow> int" where
  "nsec_of t = g_inst t mod Second"

definition weekday_of :: "gtime \<Rightarrow> int" where
  "weekday_of t = weekday_of_days (local_day t)"

definition in_loc :: "gtime \<Rightarrow> location \<Rightarrow> gtime" where
  "in_loc t l = t\<lparr>g_loc := l\<rparr>"

definition add_dur :: "gtime \<Rightarrow> duration \<Rightarrow> gtime" where
  "add_dur t d = t\<lparr>g_inst := g_inst t + d\<rparr>"

definition after :: "gtime \<Rightarrow> gtime \<Rightarrow> bool" where
  "after t u \<longleftrightarrow> g_inst u < g_inst t"

definition before :: "gtime \<Rightarrow> gtime \<Rightarrow> bool" where
  "before t u \<longleftrightarrow> g_inst t < g_inst u"

section \<open>time.Date\<close>

definition wall_secs :: "int \<Rightarrow> int \<Rightarrow> int \<Rightarrow> int \<Rightarrow> int \<Rightarrow> int \<Rightarrow> int" where
  "wall_secs y m d h mi s =
     days_of_civil (y + (m - 1) div 12) ((m - 1) mod 12 + 1) d * 86400 + h * 3600 + mi * 60 + s"

text \<open>
  The offset is looked up as if the wall clock were UTC, and looked up again at the
  result when the result falls outside the stretch that offset is in force for.
\<close>

definition unix_of_wall :: "location \<Rightarrow> int \<Rightarrow> int" where
  "unix_of_wall l u =
     (case zone_at l u of (off, start, end') \<Rightarrow>
        if off = 0 then u
        else if u - off < start \<or> end' \<le> u - off then u - offset_at l (u - off)
        else u - off)"

definition go_date ::
  "int \<Rightarrow> int \<Rightarrow> int \<Rightarrow> int \<Rightarrow> int \<Rightarrow> int \<Rightarrow> int \<Rightarrow> location \<Rightarrow> gtime" where
  "go_date y m d h mi s ns l =
     \<lparr>g_inst = unix_of_wall l (wall_secs y m d h mi s + ns div Second) * Second + ns mod Second,
      g_loc = l\<rparr>"

text \<open>\<open>Time.AddDate\<close> with only a number of days.\<close>

definition add_days :: "gtime \<Rightarrow> int \<Rightarrow> gtime" where
  "add_days t n =
     (case civil t of (y, m, d) \<Rightarrow>
        go_date y m (d + n) (hour_of t) (minute_of t) (second_of t) (nsec_of t) (g_loc t))"

text \<open>
  \<open>Time.ZoneBounds\<close>: the instants between which the offset of \<open>t\<close> is in force,
  zero times where it has always been or will always be.
\<close>

definition zone_bounds :: "gtime \<Rightarrow> gtime \<times> gtime" where
  "zone_bounds t =
     (case zone_at (g_loc t) (unix_of t) of (_, start, end') \<Rightarrow>
        (\<lparr>g_inst = (if start = alpha then zero_time else start * Second), g_loc = g_loc t\<rparr>,
         \<lparr>g_inst = (if end' = omega then zero_time else end' * Second), g_loc = g_loc t\<rparr>))"

section \<open>Formatting a date\<close>

fun show_nat :: "nat \<Rightarrow> string" where
  "show_nat n = (if n < 10 then [char_of (48 + n)] else show_nat (n div 10) @ [char_of (48 + n mod 10)])"

declare show_nat.simps [simp del]

definition show_int :: "int \<Rightarrow> string" where
  "show_int n = (if n < 0 then CHR ''-'' # show_nat (nat (- n)) else show_nat (nat n))"

definition pad :: "nat \<Rightarrow> string \<Rightarrow> string" where
  "pad w s = replicate (w - length s) (CHR ''0'') @ s"

text \<open>\<open>Format("2006-01-02")\<close>.\<close>

definition format_date :: "gtime \<Rightarrow> string" where
  "format_date t =
     (case civil t of (y, m, d) \<Rightarrow>
        (if y < 0 then ''-'' else []) @ pad 4 (show_nat (nat \<bar>y\<bar>)) @ ''-''
        @ pad 2 (show_nat (nat m)) @ ''-'' @ pad 2 (show_nat (nat d)))"

text \<open>Reading the digits of a formatted date back, the separators skipped.\<close>

definition read_char :: "nat \<Rightarrow> char \<Rightarrow> nat" where
  "read_char a c = (if c = CHR ''-'' then a else a * 10 + (of_char c - 48))"

definition read_digits :: "nat \<Rightarrow> string \<Rightarrow> nat" where
  "read_digits a s = foldl read_char a s"

lemma read_digits_append [simp]: "read_digits a (s @ t) = read_digits (read_digits a s) t"
  by (simp add: read_digits_def)

lemma read_digits_Nil [simp]: "read_digits a [] = a"
  by (simp add: read_digits_def)

lemma read_digits_dash [simp]: "read_digits a (CHR ''-'' # s) = read_digits a s"
  by (simp add: read_digits_def read_char_def)

lemma digit_char:
  assumes "n < 10"
  shows "of_char (char_of (48 + n)) = (48 + n :: nat)" "char_of (48 + n) \<noteq> CHR ''-''"
proof -
  show *: "of_char (char_of (48 + n)) = (48 + n :: nat)" using assms by simp
  have "of_char (CHR ''-'') \<noteq> (48 + n :: nat)" by simp
  with * show "char_of (48 + n) \<noteq> CHR ''-''" by metis
qed

lemma read_digits_digit: "n < 10 \<Longrightarrow> read_digits a [char_of (48 + n)] = a * 10 + n"
  using digit_char [of n] by (simp add: read_digits_def read_char_def)

lemma read_digits_show_nat: "read_digits a (show_nat n) = a * 10 ^ length (show_nat n) + n"
proof (induction n arbitrary: a rule: show_nat.induct)
  case (1 n)
  show ?case
  proof (cases "n < 10")
    case True
    then show ?thesis by (simp add: show_nat.simps [of n] read_digits_digit del: of_char_of)
  next
    case False
    have "read_digits a (show_nat n)
        = (a * 10 ^ length (show_nat (n div 10)) + n div 10) * 10 + n mod 10"
      using False 1 by (simp add: show_nat.simps [of n] read_digits_digit)
    also have "\<dots> = a * 10 ^ length (show_nat n) + n"
      using False by (simp add: show_nat.simps [of n] algebra_simps)
    finally show ?thesis .
  qed
qed

lemma length_show_nat: "n < 10 ^ Suc k \<Longrightarrow> length (show_nat n) \<le> Suc k"
proof (induction k arbitrary: n)
  case (Suc k)
  have "n div 10 < 10 ^ Suc k" using Suc.prems by (simp add: less_mult_imp_div_less)
  then have "length (show_nat (n div 10)) \<le> Suc k" by (rule Suc.IH)
  then show ?case by (subst show_nat.simps) simp
qed (simp add: show_nat.simps)

lemma read_digits_zeros [simp]: "read_digits a (replicate k (CHR ''0'')) = a * 10 ^ k"
  by (induction k arbitrary: a) (simp_all add: read_digits_def read_char_def mult.assoc)

lemma read_digits_pad2:
  assumes "n < 100"
  shows "read_digits a (pad 2 (show_nat n)) = a * 100 + n"
proof -
  have l: "length (show_nat n) \<le> 2" using length_show_nat [of n 1] assms by simp
  then have "(10::nat) ^ (2 - length (show_nat n)) * 10 ^ length (show_nat n) = 10 ^ 2"
    by (simp flip: power_add)
  then show ?thesis
    by (simp add: pad_def read_digits_zeros read_digits_show_nat mult.assoc)
qed

lemma read_digits_pad_0: "read_digits 0 (pad w (show_nat n)) = n"
  by (simp add: pad_def read_digits_zeros read_digits_show_nat)

lemma show_nat_no_dash: "CHR ''-'' \<notin> set (show_nat n)"
proof (induction n rule: show_nat.induct)
  case (1 n)
  show ?case
  proof (cases "n < 10")
    case True
    then show ?thesis using digit_char(2) [of n] by (subst show_nat.simps) auto
  next
    case False
    have "CHR ''-'' \<notin> set (show_nat n)
        \<longleftrightarrow> CHR ''-'' \<notin> set (show_nat (n div 10)) \<and> CHR ''-'' \<noteq> char_of (48 + n mod 10)"
      using False by (subst show_nat.simps) (auto simp: eq_commute)
    then show ?thesis using False 1 digit_char(2) [of "n mod 10"] by (metis mod_less_divisor zero_less_numeral)
  qed
qed

lemma show_nat_not_Nil: "show_nat n \<noteq> []"
  by (subst show_nat.simps) simp

text \<open>A formatted date names one day.\<close>

lemma format_date_digits:
  assumes "civil t = (y, m, d)"
  shows "read_digits 0 (format_date t) = (nat \<bar>y\<bar> * 100 + nat m) * 100 + nat d"
    and "(hd (format_date t) = CHR ''-'') \<longleftrightarrow> y < 0"
proof -
  have r: "nat m < 100" "nat d < 100"
    using civil_of_days_month civil_of_days_day assms by (fastforce simp: civil_def)+
  show "read_digits 0 (format_date t) = (nat \<bar>y\<bar> * 100 + nat m) * 100 + nat d"
    using r by (simp add: format_date_def assms read_digits_pad2 read_digits_pad_0)
  define p where "p = pad 4 (show_nat (nat \<bar>y\<bar>))"
  have p: "p \<noteq> []" "CHR ''-'' \<notin> set p"
    using show_nat_no_dash [of "nat \<bar>y\<bar>"] show_nat_not_Nil by (auto simp: p_def pad_def)
  then have "hd p \<noteq> CHR ''-''" using hd_in_set by metis
  then show "(hd (format_date t) = CHR ''-'') \<longleftrightarrow> y < 0"
    using p(1) by (simp add: format_date_def assms flip: p_def)
qed

lemma base_100_inj:
  fixes a :: int
  assumes "a * 100 + b = a' * 100 + b'" "0 \<le> b" "b < 100" "0 \<le> b'" "b' < 100"
  shows "a = a' \<and> b = b'"
proof -
  have "\<not> a < a'" "\<not> a' < a" using assms by linarith+
  then have "a = a'" by simp
  then show ?thesis using assms(1) by simp
qed

lemma format_date_inj:
  assumes "format_date t = format_date u"
  shows "local_day t = local_day u" "civil t = civil u"
proof -
  obtain y m d where t: "civil t = (y, m, d)" by (metis prod_cases3)
  obtain y' m' d' where u: "civil u = (y', m', d')" by (metis prod_cases3)
  have r: "1 \<le> m" "m \<le> 12" "1 \<le> d" "d \<le> 31" "1 \<le> m'" "m' \<le> 12" "1 \<le> d'" "d' \<le> 31"
    using civil_of_days_month civil_of_days_day t u by (fastforce simp: civil_def)+
  have "(nat \<bar>y\<bar> * 100 + nat m) * 100 + nat d = (nat \<bar>y'\<bar> * 100 + nat m') * 100 + nat d'"
    using assms format_date_digits(1) [OF t] format_date_digits(1) [OF u] by simp
  then have "int ((nat \<bar>y\<bar> * 100 + nat m) * 100 + nat d)
      = int ((nat \<bar>y'\<bar> * 100 + nat m') * 100 + nat d')" by (rule arg_cong)
  then have "(\<bar>y\<bar> * 100 + m) * 100 + d = (\<bar>y'\<bar> * 100 + m') * 100 + d'"
    using r by simp
  then have "\<bar>y\<bar> * 100 + m = \<bar>y'\<bar> * 100 + m' \<and> d = d'"
    using r by (intro base_100_inj) simp_all
  then have "m = m' \<and> d = d' \<and> \<bar>y\<bar> = \<bar>y'\<bar>"
    using base_100_inj [where a = "\<bar>y\<bar>" and b = m and a' = "\<bar>y'\<bar>" and b' = m'] r by simp
  moreover have "y < 0 \<longleftrightarrow> y' < 0"
    using assms format_date_digits(2) [OF t] format_date_digits(2) [OF u] by simp
  ultimately have "m = m' \<and> d = d' \<and> y = y'" by linarith
  then show c: "civil t = civil u" using t u by simp
  show "local_day t = local_day u"
    using days_of_civil_of_days t u c by (metis civil_def prod_cases3)
qed

section \<open>Facts about wall clocks\<close>

lemma in_loc_simps [simp]:
  "g_inst (in_loc t l) = g_inst t" "g_loc (in_loc t l) = l" "unix_of (in_loc t l) = unix_of t"
  "in_loc (in_loc t l') l = in_loc t l"
  by (simp_all add: in_loc_def unix_of_def)

lemma in_loc_self [simp]: "in_loc t (g_loc t) = t"
  by (simp add: in_loc_def)

lemma add_dur_simps [simp]:
  "g_inst (add_dur t d) = g_inst t + d" "g_loc (add_dur t d) = g_loc t"
  by (simp_all add: add_dur_def)

lemma go_date_loc [simp]: "g_loc (go_date y m d h mi s ns l) = l"
  by (simp add: go_date_def)

lemma minute_of_day: "hour_of t * 60 + minute_of t = local_secs t mod 86400 div 60"
proof -
  define x where "x = local_secs t mod 86400"
  have "local_secs t mod 3600 = x mod 3600"
    by (simp add: x_def mod_mod_cancel)
  moreover have "x div 60 = 60 * (x div 3600) + x mod 3600 div 60"
  proof -
    have "x = x mod 3600 + (60 * (x div 3600)) * 60" by simp
    then have "x div 60 = (x mod 3600 + (60 * (x div 3600)) * 60) div 60" by simp
    also have "\<dots> = 60 * (x div 3600) + x mod 3600 div 60"
      by (rule div_mult_self1) simp
    finally show ?thesis .
  qed
  ultimately show ?thesis by (simp add: hour_of_def minute_of_def x_def)
qed

text \<open>The wall clock of a local date some days on, as a count of seconds.\<close>

lemma wall_secs_civil:
  assumes "civil t = (y, m, d)"
  shows "wall_secs y m (d + i) h mi s = (local_day t + i) * 86400 + h * 3600 + mi * 60 + s"
proof -
  have c: "civil_of_days (local_day t) = (y, m, d)" using assms by (simp add: civil_def)
  have m: "(m - 1) div 12 = 0" "(m - 1) mod 12 + 1 = m"
    using civil_of_days_month [OF c] by simp_all
  show ?thesis
    by (simp only: wall_secs_def m add_0_right days_of_civil_shift days_of_civil_of_days [OF c])
qed

lemma wall_secs_civil0:
  "civil t = (y, m, d) \<Longrightarrow> wall_secs y m d h mi s = local_day t * 86400 + h * 3600 + mi * 60 + s"
  using wall_secs_civil [where i = 0] by simp

text \<open>A location without transitions: local time is a constant shift.\<close>

lemma fixed_offset [simp]: "loc_tx l = [] \<Longrightarrow> offset_at l s = loc_base l"
  by (simp add: offset_at_def zone_at_def)

lemma unix_of_wall_fixed: "loc_tx l = [] \<Longrightarrow> unix_of_wall l u = u - loc_base l"
  by (simp add: unix_of_wall_def zone_at_def offset_at_def)

lemma unix_of_go_date [simp]:
  "unix_of (go_date y m d h mi s ns l) = unix_of_wall l (wall_secs y m d h mi s + ns div Second)"
  by (simp add: unix_of_def go_date_def)

lemma local_secs_go_date_fixed:
  "loc_tx l = [] \<Longrightarrow>
     local_secs (go_date y m d h mi s 0 l) = wall_secs y m d h mi s"
  by (simp add: local_secs_def unix_of_wall_fixed)

lemma local_secs_range: "local_day t * 86400 \<le> local_secs t" "local_secs t < local_day t * 86400 + 86400"
proof -
  have "local_secs t = local_day t * 86400 + local_secs t mod 86400"
    by (simp add: local_day_def)
  moreover have "0 \<le> local_secs t mod 86400" "local_secs t mod 86400 < 86400" by simp_all
  ultimately show "local_day t * 86400 \<le> local_secs t" "local_secs t < local_day t * 86400 + 86400"
    by linarith+
qed

lemma minute_of_day_range:
  "0 \<le> local_secs t mod 86400 div 60" "local_secs t mod 86400 div 60 < 1440"
proof -
  have "0 \<le> local_secs t mod 86400" "local_secs t mod 86400 < 86400" by simp_all
  then show "0 \<le> local_secs t mod 86400 div 60" "local_secs t mod 86400 div 60 < 1440"
    by linarith+
qed

end
