(* ===== verification/Bitmask.thy ===== *)
theory Bitmask
  imports Prelude
begin

text \<open>
  The weekday masks of \<open>internal/bitmask/days.go\<close>: one byte, bit 0 is Monday. The
  operations are characterised bit by bit, which gives the two round trips between
  masks and lists of day names.
\<close>

unbundle bit_operations_syntax

definition valid_days_mask :: byte where
  "valid_days_mask = push_bit 7 1 - 1"

text \<open>The error of a Go function that returns only an error: \<open>None\<close> is \<open>nil\<close>.\<close>

definition validate_days_mask :: "byte \<Rightarrow> string option" where
  "validate_days_mask m =
     (if m = 0 then Some ''1 day needed minimum''
      else if m AND NOT valid_days_mask \<noteq> 0 then Some ''invalid bit''
      else None)"

definition day_bits :: "(string \<times> byte) list" where
  "day_bits =
     [(''monday'', push_bit 0 1), (''tuesday'', push_bit 1 1), (''wednesday'', push_bit 2 1),
      (''thursday'', push_bit 3 1), (''friday'', push_bit 4 1), (''saturday'', push_bit 5 1),
      (''sunday'', push_bit 6 1)]"

text \<open>A Go map read of a missing key is the zero value.\<close>

definition day_bit :: "string \<Rightarrow> byte" where
  "day_bit d = (case map_of day_bits d of None \<Rightarrow> 0 | Some b \<Rightarrow> b)"

definition days_to_mask :: "string list \<Rightarrow> byte" where
  "days_to_mask days = foldl (\<lambda>m d. m OR day_bit d) 0 days"

definition day_names :: "string list" where
  "day_names = [''monday'', ''tuesday'', ''wednesday'', ''thursday'', ''friday'',
                ''saturday'', ''sunday'']"

definition mask_to_days :: "byte \<Rightarrow> string list" where
  "mask_to_days m =
     map snd (filter (\<lambda>(i, day). m AND push_bit i 1 \<noteq> 0) (enumerate 0 day_names))"

definition default_days :: byte where
  "default_days = days_to_mask [''monday'', ''tuesday'', ''wednesday'', ''thursday'', ''friday'']"

definition has_weekday :: "byte \<Rightarrow> int \<Rightarrow> bool" where
  "has_weekday m wd \<longleftrightarrow> m AND push_bit (nat ((wd + 6) mod 7)) 1 \<noteq> 0"

section \<open>Bits\<close>

lemma and_push_bit_1: "(w :: byte) AND push_bit n 1 \<noteq> 0 \<longleftrightarrow> bit w n"
proof -
  have "w AND push_bit n 1 = (if bit w n then push_bit n 1 else 0)"
    by (rule bit_eqI) (auto simp: bit_simps)
  moreover have "bit w n \<Longrightarrow> (push_bit n 1 :: byte) \<noteq> 0"
    using bit_imp_le_length [of w n] by (auto simp: bit_eq_iff bit_simps)
  ultimately show ?thesis by auto
qed

lemma has_weekday_bit: "has_weekday m wd \<longleftrightarrow> bit m (nat ((wd + 6) mod 7))"
  by (simp only: has_weekday_def and_push_bit_1)

lemma day_names_distinct: "distinct day_names" "length day_names = 7"
  by (simp_all add: day_names_def)

lemma day_bit_name: "n < 7 \<Longrightarrow> day_bit (day_names ! n) = push_bit n 1"
proof -
  assume "n < 7"
  then consider "n = 0" | "n = 1" | "n = 2" | "n = 3" | "n = 4" | "n = 5" | "n = 6" by linarith
  then show ?thesis by cases (simp_all add: day_bit_def day_bits_def day_names_def)
qed

lemma day_bit_other: "d \<notin> set day_names \<Longrightarrow> day_bit d = 0"
  by (simp add: day_bit_def day_bits_def day_names_def)

lemma bit_day_bit: "bit (day_bit d) n \<longleftrightarrow> n < 7 \<and> d = day_names ! n"
proof (cases "d \<in> set day_names")
  case True
  then obtain k where k: "k < 7" "d = day_names ! k"
    using day_names_distinct(2) by (auto simp: in_set_conv_nth)
  then have "bit (day_bit d) n \<longleftrightarrow> n = k" by (auto simp: day_bit_name bit_simps)
  then show ?thesis using k day_names_distinct by (auto simp: nth_eq_iff_index_eq)
next
  case False
  then show ?thesis using day_names_distinct(2) by (auto simp: day_bit_other)
qed

lemma bit_days_to_mask:
  "bit (days_to_mask ds) n \<longleftrightarrow> n < 7 \<and> day_names ! n \<in> set ds"
proof -
  have "bit (foldl (\<lambda>m d. m OR day_bit d) acc ds) n
      \<longleftrightarrow> bit acc n \<or> (\<exists>d \<in> set ds. bit (day_bit d) n)" for acc
    by (induction ds arbitrary: acc) (auto simp: bit_or_iff)
  then show ?thesis by (auto simp: days_to_mask_def bit_day_bit)
qed

lemma set_mask_to_days: "set (mask_to_days m) = (!) day_names ` {n. n < 7 \<and> bit m n}"
proof -
  have e: "enumerate 0 day_names = map (\<lambda>n. (n, day_names ! n)) [0..<7]"
    by (simp add: day_names_def upt_rec)
  have "mask_to_days m = map ((!) day_names) (filter (bit m) [0..<7])"
    by (simp only: mask_to_days_def e filter_map and_push_bit_1 o_def map_map prod.case snd_conv)
  then show ?thesis by auto
qed

lemma valid_days_mask_mask: "valid_days_mask = mask 7"
  by (simp add: valid_days_mask_def mask_eq_exp_minus_1)

lemma valid_mask_bits: "validate_days_mask m = None \<Longrightarrow> bit m n \<Longrightarrow> n < 7"
proof -
  assume "validate_days_mask m = None" and b: "bit m n"
  then have "m AND NOT valid_days_mask = 0"
    by (auto simp: validate_days_mask_def split: if_splits)
  then have "\<not> bit (m AND NOT valid_days_mask) n" by simp
  moreover have "n < 8" using bit_imp_le_length [OF b] by simp
  moreover have "bit valid_days_mask n \<longleftrightarrow> n < 7"
    unfolding valid_days_mask_mask bit_mask_iff by auto
  ultimately show "n < 7" using b by (simp add: bit_simps)
qed

text \<open>
  Any mask the validator accepts survives the trip through day names, and a
  list of names survives the trip through a mask up to order, duplicates and unknown
  names, which the map lookup drops.
\<close>

theorem days_mask_roundtrip:
  "(validate_days_mask m = None \<longrightarrow> days_to_mask (mask_to_days m) = m)
   \<and> set (mask_to_days (days_to_mask ds)) = set ds \<inter> set day_names"
proof (intro conjI impI)
  assume v: "validate_days_mask m = None"
  show "days_to_mask (mask_to_days m) = m"
  proof (rule bit_eqI)
    fix n
    have "n < 7 \<Longrightarrow> day_names ! n \<in> set (mask_to_days m) \<longleftrightarrow> bit m n"
      using day_names_distinct by (auto simp: set_mask_to_days nth_eq_iff_index_eq)
    then show "bit (days_to_mask (mask_to_days m)) n \<longleftrightarrow> bit m n"
      using valid_mask_bits [OF v, of n] by (auto simp: bit_days_to_mask)
  qed
next
  show "set (mask_to_days (days_to_mask ds)) = set ds \<inter> set day_names"
    using day_names_distinct(2)
    by (force simp: set_mask_to_days bit_days_to_mask in_set_conv_nth image_iff)
qed

theorem days_mask_roundtrip_witness:
  "validate_days_mask 31 = None \<and> days_to_mask (mask_to_days 31) = 31"
  using days_mask_roundtrip [of 31 "[]"] by (simp add: validate_days_mask_def valid_days_mask_def)

end
