(* ===== verification/Send_Behavior.thy ===== *)
theory Send_Behavior
  imports Prelude Go_Time
begin

text \<open>
  The data model of human sending behaviour, \<open>internal/models/behavior.go\<close>: a
  mailbox's profile of ranges, the patch a client sends, the validation of the result,
  and the plan of one workday with its window arithmetic. The lemmas show that
  \<open>next_open_minute\<close> is the least minute \<open>contains\<close> accepts and that
  \<open>working_minutes\<close> counts the minutes it accepts.
\<close>

unbundle bit_operations_syntax

section \<open>Limits and defaults\<close>

abbreviation (input) BehaviorDailyLimitMinDefault :: int where "BehaviorDailyLimitMinDefault \<equiv> 28"
abbreviation (input) BehaviorDailyLimitMaxDefault :: int where "BehaviorDailyLimitMaxDefault \<equiv> 32"
abbreviation (input) BehaviorDailyLimitFloor :: int where "BehaviorDailyLimitFloor \<equiv> 1"
abbreviation (input) BehaviorDailyLimitCeiling :: int where "BehaviorDailyLimitCeiling \<equiv> 500"
abbreviation (input) BehaviorHourlyLimitMinDefault :: int where "BehaviorHourlyLimitMinDefault \<equiv> 5"
abbreviation (input) BehaviorHourlyLimitMaxDefault :: int where "BehaviorHourlyLimitMaxDefault \<equiv> 9"
abbreviation (input) BehaviorHourlyLimitFloor :: int where "BehaviorHourlyLimitFloor \<equiv> 1"
abbreviation (input) BehaviorHourlyLimitCeiling :: int where "BehaviorHourlyLimitCeiling \<equiv> 200"
abbreviation (input) BehaviorGapMinSecondsDefault :: int where "BehaviorGapMinSecondsDefault \<equiv> 90"
abbreviation (input) BehaviorGapMaxSecondsDefault :: int where "BehaviorGapMaxSecondsDefault \<equiv> 420"
abbreviation (input) BehaviorGapFloor :: int where "BehaviorGapFloor \<equiv> 30"
abbreviation (input) BehaviorGapCeiling :: int where "BehaviorGapCeiling \<equiv> 86400"
abbreviation (input) BehaviorWorkStartMinDefault :: int where "BehaviorWorkStartMinDefault \<equiv> 543"
abbreviation (input) BehaviorWorkStartMaxDefault :: int where "BehaviorWorkStartMaxDefault \<equiv> 567"
abbreviation (input) BehaviorWorkEndMinDefault :: int where "BehaviorWorkEndMinDefault \<equiv> 1038"
abbreviation (input) BehaviorWorkEndMaxDefault :: int where "BehaviorWorkEndMaxDefault \<equiv> 1076"
abbreviation (input) BehaviorLunchEarliestDefault :: int where "BehaviorLunchEarliestDefault \<equiv> 720"
abbreviation (input) BehaviorLunchLatestDefault :: int where "BehaviorLunchLatestDefault \<equiv> 810"
abbreviation (input) BehaviorLunchMinMinutesDefault :: int where "BehaviorLunchMinMinutesDefault \<equiv> 30"
abbreviation (input) BehaviorLunchMaxMinutesDefault :: int where "BehaviorLunchMaxMinutesDefault \<equiv> 60"
abbreviation (input) BehaviorLunchMaxMinutesCeiling :: int where "BehaviorLunchMaxMinutesCeiling \<equiv> 240"
abbreviation (input) BehaviorWeekdaysDefault :: int where "BehaviorWeekdaysDefault \<equiv> 31"
abbreviation (input) BehaviorWeekdaysAll :: int where "BehaviorWeekdaysAll \<equiv> 127"
abbreviation (input) MinutesPerDay :: int where "MinutesPerDay \<equiv> 1440"

section \<open>The profile\<close>

record SendingBehavior =
  sb_EmailAccountID :: uuid
  sb_Enabled :: bool
  sb_DailyLimitMin :: int
  sb_DailyLimitMax :: int
  sb_HourlyLimitMin :: int
  sb_HourlyLimitMax :: int
  sb_GapMinSeconds :: int
  sb_GapMaxSeconds :: int
  sb_WorkStartMin :: int
  sb_WorkStartMax :: int
  sb_WorkEndMin :: int
  sb_WorkEndMax :: int
  sb_LunchEnabled :: bool
  sb_LunchEarliest :: int
  sb_LunchLatest :: int
  sb_LunchMinMinutes :: int
  sb_LunchMaxMinutes :: int
  sb_Weekdays :: int
  sb_Timezone :: string
  sb_CreatedAt :: instant
  sb_UpdatedAt :: instant

definition DefaultSendingBehavior :: "uuid \<Rightarrow> SendingBehavior" where
  "DefaultSendingBehavior accountID = \<lparr>
     sb_EmailAccountID = accountID,
     sb_Enabled = False,
     sb_DailyLimitMin = BehaviorDailyLimitMinDefault,
     sb_DailyLimitMax = BehaviorDailyLimitMaxDefault,
     sb_HourlyLimitMin = BehaviorHourlyLimitMinDefault,
     sb_HourlyLimitMax = BehaviorHourlyLimitMaxDefault,
     sb_GapMinSeconds = BehaviorGapMinSecondsDefault,
     sb_GapMaxSeconds = BehaviorGapMaxSecondsDefault,
     sb_WorkStartMin = BehaviorWorkStartMinDefault,
     sb_WorkStartMax = BehaviorWorkStartMaxDefault,
     sb_WorkEndMin = BehaviorWorkEndMinDefault,
     sb_WorkEndMax = BehaviorWorkEndMaxDefault,
     sb_LunchEnabled = True,
     sb_LunchEarliest = BehaviorLunchEarliestDefault,
     sb_LunchLatest = BehaviorLunchLatestDefault,
     sb_LunchMinMinutes = BehaviorLunchMinMinutesDefault,
     sb_LunchMaxMinutes = BehaviorLunchMaxMinutesDefault,
     sb_Weekdays = BehaviorWeekdaysDefault,
     sb_Timezone = [], sb_CreatedAt = zero_time, sb_UpdatedAt = zero_time\<rparr>"

definition weekdayBit :: "int \<Rightarrow> nat" where
  "weekdayBit wd = nat ((wd + 6) mod 7)"

definition WorksOn :: "SendingBehavior \<Rightarrow> int \<Rightarrow> bool" where
  "WorksOn b wd \<longleftrightarrow> sb_Weekdays b AND push_bit (weekdayBit wd) 1 \<noteq> 0"

section \<open>The patch\<close>

record UpdateSendingBehavior =
  up_Enabled :: "bool option"
  up_DailyLimitMin :: "int option"
  up_DailyLimitMax :: "int option"
  up_HourlyLimitMin :: "int option"
  up_HourlyLimitMax :: "int option"
  up_GapMinSeconds :: "int option"
  up_GapMaxSeconds :: "int option"
  up_WorkStartMin :: "int option"
  up_WorkStartMax :: "int option"
  up_WorkEndMin :: "int option"
  up_WorkEndMax :: "int option"
  up_LunchEnabled :: "bool option"
  up_LunchEarliest :: "int option"
  up_LunchLatest :: "int option"
  up_LunchMinMinutes :: "int option"
  up_LunchMaxMinutes :: "int option"
  up_Weekdays :: "int option"

text \<open>\<open>setInt\<close>: an omitted field keeps the stored value.\<close>

definition set_opt :: "'a option \<Rightarrow> 'a \<Rightarrow> 'a" where
  "set_opt src dst = (case src of None \<Rightarrow> dst | Some v \<Rightarrow> v)"

definition Apply :: "UpdateSendingBehavior \<Rightarrow> SendingBehavior \<Rightarrow> SendingBehavior" where
  "Apply u b = b\<lparr>
     sb_Enabled := set_opt (up_Enabled u) (sb_Enabled b),
     sb_LunchEnabled := set_opt (up_LunchEnabled u) (sb_LunchEnabled b),
     sb_DailyLimitMin := set_opt (up_DailyLimitMin u) (sb_DailyLimitMin b),
     sb_DailyLimitMax := set_opt (up_DailyLimitMax u) (sb_DailyLimitMax b),
     sb_HourlyLimitMin := set_opt (up_HourlyLimitMin u) (sb_HourlyLimitMin b),
     sb_HourlyLimitMax := set_opt (up_HourlyLimitMax u) (sb_HourlyLimitMax b),
     sb_GapMinSeconds := set_opt (up_GapMinSeconds u) (sb_GapMinSeconds b),
     sb_GapMaxSeconds := set_opt (up_GapMaxSeconds u) (sb_GapMaxSeconds b),
     sb_WorkStartMin := set_opt (up_WorkStartMin u) (sb_WorkStartMin b),
     sb_WorkStartMax := set_opt (up_WorkStartMax u) (sb_WorkStartMax b),
     sb_WorkEndMin := set_opt (up_WorkEndMin u) (sb_WorkEndMin b),
     sb_WorkEndMax := set_opt (up_WorkEndMax u) (sb_WorkEndMax b),
     sb_LunchEarliest := set_opt (up_LunchEarliest u) (sb_LunchEarliest b),
     sb_LunchLatest := set_opt (up_LunchLatest u) (sb_LunchLatest b),
     sb_LunchMinMinutes := set_opt (up_LunchMinMinutes u) (sb_LunchMinMinutes b),
     sb_LunchMaxMinutes := set_opt (up_LunchMaxMinutes u) (sb_LunchMaxMinutes b),
     sb_Weekdays := set_opt (up_Weekdays u) (sb_Weekdays b)\<rparr>"

section \<open>Validation\<close>

record BehaviorValidationError =
  bve_Field :: string
  bve_Message :: string

definition fail :: "string \<Rightarrow> string \<Rightarrow> BehaviorValidationError option" where
  "fail field msg = Some \<lparr>bve_Field = field, bve_Message = msg\<rparr>"

definition Validate :: "SendingBehavior \<Rightarrow> BehaviorValidationError option" where
  "Validate b =
     (if sb_DailyLimitMin b < BehaviorDailyLimitFloor
         \<or> BehaviorDailyLimitCeiling < sb_DailyLimitMax b
      then fail ''daily_limit'' ''must be between 1 and 500 emails per day''
      else if sb_DailyLimitMax b < sb_DailyLimitMin b
      then fail ''daily_limit'' ''minimum cannot be above maximum''
      else if sb_HourlyLimitMin b < BehaviorHourlyLimitFloor
         \<or> BehaviorHourlyLimitCeiling < sb_HourlyLimitMax b
      then fail ''hourly_limit'' ''must be between 1 and 200 emails per hour''
      else if sb_HourlyLimitMax b < sb_HourlyLimitMin b
      then fail ''hourly_limit'' ''minimum cannot be above maximum''
      else if sb_GapMinSeconds b < BehaviorGapFloor \<or> BehaviorGapCeiling < sb_GapMaxSeconds b
      then fail ''gap_seconds'' ''must be between 30 seconds and 24 hours''
      else if sb_GapMaxSeconds b < sb_GapMinSeconds b
      then fail ''gap_seconds'' ''minimum cannot be above maximum''
      else if sb_WorkStartMin b < 0 \<or> MinutesPerDay \<le> sb_WorkStartMax b
         \<or> sb_WorkStartMax b < sb_WorkStartMin b
      then fail ''work_start'' ''must be a valid time range within the day''
      else if sb_WorkEndMin b < 0 \<or> MinutesPerDay \<le> sb_WorkEndMax b
         \<or> sb_WorkEndMax b < sb_WorkEndMin b
      then fail ''work_end'' ''must be a valid time range within the day''
      else if sb_WorkEndMin b \<le> sb_WorkStartMax b
      then fail ''work_end'' ''the workday must end after the latest possible start''
      else if sb_LunchEarliest b < 0 \<or> MinutesPerDay \<le> sb_LunchLatest b
         \<or> sb_LunchLatest b < sb_LunchEarliest b
      then fail ''lunch_window'' ''must be a valid time range within the day''
      else if sb_LunchMinMinutes b < 0 \<or> BehaviorLunchMaxMinutesCeiling < sb_LunchMaxMinutes b
         \<or> sb_LunchMaxMinutes b < sb_LunchMinMinutes b
      then fail ''lunch_length'' ''must be between 0 and 240 minutes''
      else if sb_LunchEnabled b
         \<and> (sb_LunchEarliest b < sb_WorkStartMax b
            \<or> sb_WorkEndMin b < sb_LunchLatest b + sb_LunchMaxMinutes b)
      then fail ''lunch_window'' ''the break must fit inside the shortest possible workday''
      else if sb_Weekdays b < 0 \<or> BehaviorWeekdaysAll < sb_Weekdays b
      then fail ''weekdays'' ''must be a bitmask of Monday..Sunday''
      else if sb_Enabled b \<and> sb_Weekdays b = 0
      then fail ''weekdays'' ''pick at least one sending day''
      else None)"

text \<open>What a profile without a validation error promises the planner.\<close>

lemma Validate_None:
  assumes "Validate b = None"
  shows "1 \<le> sb_DailyLimitMin b" "sb_DailyLimitMin b \<le> sb_DailyLimitMax b"
    "sb_DailyLimitMax b \<le> 500"
    and "1 \<le> sb_HourlyLimitMin b" "sb_HourlyLimitMin b \<le> sb_HourlyLimitMax b"
    "sb_HourlyLimitMax b \<le> 200"
    and "30 \<le> sb_GapMinSeconds b" "sb_GapMinSeconds b \<le> sb_GapMaxSeconds b"
    "sb_GapMaxSeconds b \<le> 86400"
    and "0 \<le> sb_WorkStartMin b" "sb_WorkStartMin b \<le> sb_WorkStartMax b"
    "sb_WorkStartMax b < sb_WorkEndMin b" "sb_WorkEndMin b \<le> sb_WorkEndMax b"
    "sb_WorkEndMax b < 1440"
    and "0 \<le> sb_LunchEarliest b" "sb_LunchEarliest b \<le> sb_LunchLatest b"
    "0 \<le> sb_LunchMinMinutes b" "sb_LunchMinMinutes b \<le> sb_LunchMaxMinutes b"
    and "sb_LunchEnabled b \<Longrightarrow> sb_WorkStartMax b \<le> sb_LunchEarliest b"
    "sb_LunchEnabled b \<Longrightarrow> sb_LunchLatest b + sb_LunchMaxMinutes b \<le> sb_WorkEndMin b"
    and "0 \<le> sb_Weekdays b" "sb_Weekdays b \<le> 127" "sb_Enabled b \<Longrightarrow> sb_Weekdays b \<noteq> 0"
  using assms unfolding Validate_def fail_def by (simp_all split: if_split_asm)

lemma Validate_iff:
  "Validate b = None \<longleftrightarrow>
     1 \<le> sb_DailyLimitMin b \<and> sb_DailyLimitMin b \<le> sb_DailyLimitMax b \<and> sb_DailyLimitMax b \<le> 500
     \<and> 1 \<le> sb_HourlyLimitMin b \<and> sb_HourlyLimitMin b \<le> sb_HourlyLimitMax b
     \<and> sb_HourlyLimitMax b \<le> 200
     \<and> 30 \<le> sb_GapMinSeconds b \<and> sb_GapMinSeconds b \<le> sb_GapMaxSeconds b
     \<and> sb_GapMaxSeconds b \<le> 86400
     \<and> 0 \<le> sb_WorkStartMin b \<and> sb_WorkStartMin b \<le> sb_WorkStartMax b
     \<and> sb_WorkStartMax b < sb_WorkEndMin b \<and> sb_WorkEndMin b \<le> sb_WorkEndMax b
     \<and> sb_WorkEndMax b < 1440
     \<and> 0 \<le> sb_LunchEarliest b \<and> sb_LunchEarliest b \<le> sb_LunchLatest b
     \<and> sb_LunchLatest b < 1440
     \<and> 0 \<le> sb_LunchMinMinutes b \<and> sb_LunchMinMinutes b \<le> sb_LunchMaxMinutes b
     \<and> sb_LunchMaxMinutes b \<le> 240
     \<and> (sb_LunchEnabled b \<longrightarrow> sb_WorkStartMax b \<le> sb_LunchEarliest b
          \<and> sb_LunchLatest b + sb_LunchMaxMinutes b \<le> sb_WorkEndMin b)
     \<and> 0 \<le> sb_Weekdays b \<and> sb_Weekdays b \<le> 127 \<and> (sb_Enabled b \<longrightarrow> sb_Weekdays b \<noteq> 0)"
  (is "_ \<longleftrightarrow> ?ok")
proof
  assume "Validate b = None"
  then show ?ok unfolding Validate_def fail_def by (auto split: if_split_asm)
next
  assume ?ok
  then show "Validate b = None" unfolding Validate_def by auto
qed

section \<open>The plan of one workday\<close>

record DailyPlan =
  dp_EmailAccountID :: uuid
  dp_PlanDate :: string
  dp_Timezone :: string
  dp_IsWorkingDay :: bool
  dp_DailyLimit :: int
  dp_HourlyLimit :: int
  dp_WorkStartMinute :: int
  dp_WorkEndMinute :: int
  dp_LunchStartMinute :: "int option"
  dp_LunchEndMinute :: "int option"
  dp_GapMinSeconds :: int
  dp_GapMaxSeconds :: int

definition HasLunch :: "DailyPlan \<Rightarrow> bool" where
  "HasLunch p \<longleftrightarrow> dp_LunchStartMinute p \<noteq> None \<and> dp_LunchEndMinute p \<noteq> None"

definition WorkingMinutes :: "DailyPlan \<Rightarrow> int" where
  "WorkingMinutes p =
     (if \<not> dp_IsWorkingDay p then 0
      else
        let total = dp_WorkEndMinute p - dp_WorkStartMinute p;
            total = (if HasLunch p
                     then total - (the (dp_LunchEndMinute p) - the (dp_LunchStartMinute p))
                     else total)
        in if total < 0 then 0 else total)"

definition Contains :: "DailyPlan \<Rightarrow> int \<Rightarrow> bool" where
  "Contains p minute \<longleftrightarrow>
     \<not> (\<not> dp_IsWorkingDay p \<or> minute < dp_WorkStartMinute p \<or> dp_WorkEndMinute p \<le> minute)
     \<and> \<not> (HasLunch p \<and> the (dp_LunchStartMinute p) \<le> minute
           \<and> minute < the (dp_LunchEndMinute p))"

definition NextOpenMinute :: "DailyPlan \<Rightarrow> int \<Rightarrow> int option" where
  "NextOpenMinute p minute =
     (if \<not> dp_IsWorkingDay p then None
      else
        let minute = (if minute < dp_WorkStartMinute p then dp_WorkStartMinute p else minute);
            minute = (if HasLunch p \<and> the (dp_LunchStartMinute p) \<le> minute
                         \<and> minute < the (dp_LunchEndMinute p)
                      then the (dp_LunchEndMinute p) else minute)
        in if dp_WorkEndMinute p \<le> minute then None else Some minute)"

lemma NextOpenMinute_Some:
  assumes "NextOpenMinute p m = Some k"
  shows "m \<le> k" "Contains p k" "\<And>j. m \<le> j \<Longrightarrow> j < k \<Longrightarrow> \<not> Contains p j"
  using assms
  by (auto simp: NextOpenMinute_def Contains_def Let_def split: if_split_asm)

lemma NextOpenMinute_None: "NextOpenMinute p m = None \<Longrightarrow> m \<le> j \<Longrightarrow> \<not> Contains p j"
  by (auto simp: NextOpenMinute_def Contains_def Let_def split: if_split_asm)

lemma NextOpenMinute_Contains: "Contains p m \<Longrightarrow> NextOpenMinute p m = Some m"
  by (auto simp: NextOpenMinute_def Contains_def Let_def)

text \<open>
  \<open>NextOpenMinute\<close> is the least sending minute at or after the given one:
  when it answers, the answer is not earlier, lies inside the window and outside the
  break, and no earlier minute does; when it does not, the day has no minute left.
\<close>

theorem next_open_minute_least:
  "case NextOpenMinute p m of
     None \<Rightarrow> \<forall>j. m \<le> j \<longrightarrow> \<not> Contains p j
   | Some k \<Rightarrow> m \<le> k \<and> Contains p k \<and> (\<forall>j. m \<le> j \<and> j < k \<longrightarrow> \<not> Contains p j)"
  using NextOpenMinute_Some [of p m] NextOpenMinute_None [of p m]
  by (cases "NextOpenMinute p m") auto

theorem next_open_minute_least_witness:
  "let p = \<lparr>dp_EmailAccountID = [], dp_PlanDate = ''2026-01-05'', dp_Timezone = ''UTC'',
      dp_IsWorkingDay = True, dp_DailyLimit = 30, dp_HourlyLimit = 6,
      dp_WorkStartMinute = 540, dp_WorkEndMinute = 1020,
      dp_LunchStartMinute = Some 720, dp_LunchEndMinute = Some 765,
      dp_GapMinSeconds = 90, dp_GapMaxSeconds = 420\<rparr>
   in NextOpenMinute p 730 = Some 765 \<and> \<not> Contains p 764"
  (is "let p = ?p in _")
proof -
  have "NextOpenMinute ?p 730 = Some 765" by (simp add: NextOpenMinute_def HasLunch_def)
  then show ?thesis using next_open_minute_least [where p = ?p and m = 730] by (simp add: Let_def)
qed

text \<open>The shape every rolled plan has: a break lies strictly inside the workday.\<close>

definition lunch_inside :: "DailyPlan \<Rightarrow> bool" where
  "lunch_inside p \<longleftrightarrow>
     (HasLunch p \<longrightarrow>
        dp_WorkStartMinute p < the (dp_LunchStartMinute p)
        \<and> the (dp_LunchStartMinute p) < the (dp_LunchEndMinute p)
        \<and> the (dp_LunchEndMinute p) < dp_WorkEndMinute p)"

definition open_minutes :: "DailyPlan \<Rightarrow> int set" where
  "open_minutes p = {m. Contains p m}"

lemma WorkingMinutes_card:
  assumes "lunch_inside p"
  shows "WorkingMinutes p = int (card (open_minutes p))"
proof (cases "dp_IsWorkingDay p")
  case False
  then show ?thesis by (simp add: WorkingMinutes_def open_minutes_def Contains_def)
next
  case work: True
  show ?thesis
  proof (cases "HasLunch p")
    case True
    then have "open_minutes p = {dp_WorkStartMinute p..<the (dp_LunchStartMinute p)}
        \<union> {the (dp_LunchEndMinute p)..<dp_WorkEndMinute p}"
      using assms work by (auto simp: open_minutes_def Contains_def lunch_inside_def)
    moreover have "{dp_WorkStartMinute p..<the (dp_LunchStartMinute p)}
        \<inter> {the (dp_LunchEndMinute p)..<dp_WorkEndMinute p} = {}"
      using True assms by (auto simp: lunch_inside_def)
    ultimately have "card (open_minutes p) =
        nat (the (dp_LunchStartMinute p) - dp_WorkStartMinute p)
        + nat (dp_WorkEndMinute p - the (dp_LunchEndMinute p))"
      by (simp add: card_Un_disjoint)
    then show ?thesis
      using True assms work by (simp add: WorkingMinutes_def lunch_inside_def Let_def)
  next
    case False
    then have "open_minutes p = {dp_WorkStartMinute p..<dp_WorkEndMinute p}"
      using work by (auto simp: open_minutes_def Contains_def)
    then show ?thesis
      using False work by (simp add: WorkingMinutes_def Let_def)
  qed
qed

text \<open>A patch with every field omitted changes nothing.\<close>

lemma Apply_empty:
  "Apply \<lparr>up_Enabled = None, up_DailyLimitMin = None, up_DailyLimitMax = None,
     up_HourlyLimitMin = None, up_HourlyLimitMax = None, up_GapMinSeconds = None,
     up_GapMaxSeconds = None, up_WorkStartMin = None, up_WorkStartMax = None,
     up_WorkEndMin = None, up_WorkEndMax = None, up_LunchEnabled = None,
     up_LunchEarliest = None, up_LunchLatest = None, up_LunchMinMinutes = None,
     up_LunchMaxMinutes = None, up_Weekdays = None\<rparr> b = b"
  by (simp add: Apply_def set_opt_def)

lemma Apply_keeps [simp]:
  "sb_EmailAccountID (Apply u b) = sb_EmailAccountID b"
  "sb_Timezone (Apply u b) = sb_Timezone b"
  by (simp_all add: Apply_def)

lemma Validate_Default: "Validate (DefaultSendingBehavior i) = None"
  by (simp add: Validate_def DefaultSendingBehavior_def)

end
