(* ===== verification/Day_Plan.thy ===== *)
theory Day_Plan
  imports Send_Behavior Go_Float
begin

text \<open>
  \<open>internal/app/behavior/plan.go\<close>: the deterministic roll of a profile into one
  workday, and the search for the next instant a mailbox may send at. The locale
  \<open>day_planner\<close> is what \<open>NextOpen\<close> relies on of the plans it is given; it is
  interpreted on \<open>RollPlan\<close> of a validated profile. In a location whose offset
  never changes, the search returns the earliest open instant.
\<close>

unbundle bit_operations_syntax

section \<open>The random stream\<close>

definition offset64 :: u64 where "offset64 = 14695981039346656037"
definition prime64 :: u64 where "prime64 = 1099511628211"

definition mix :: "u64 \<Rightarrow> byte list \<Rightarrow> u64" where
  "mix h bs = foldl (\<lambda>h c. (h XOR ucast c) * prime64) h bs"

definition bytes_of :: "string \<Rightarrow> byte list" where
  "bytes_of s = map of_char s"

definition newStream :: "uuid \<Rightarrow> int \<Rightarrow> int \<Rightarrow> int \<Rightarrow> string \<Rightarrow> u64" where
  "newStream accountID y m d salt =
     mix (mix (mix offset64 accountID)
            [word_of_int y, word_of_int (y div 256), word_of_int m, word_of_int d])
         (bytes_of salt)"

definition stream_next :: "u64 \<Rightarrow> u64 \<times> u64" where
  "stream_next s =
     (let s = s + 0x9E3779B97F4A7C15;
          z = (s XOR drop_bit 30 s) * 0xBF58476D1CE4E5B9;
          z = (z XOR drop_bit 27 z) * 0x94D049BB133111EB
      in (z XOR drop_bit 31 z, s))"

definition between :: "u64 \<Rightarrow> int \<Rightarrow> int \<Rightarrow> int \<times> u64" where
  "between s lo hi =
     (if hi \<le> lo then (lo, s)
      else case stream_next s of (z, s') \<Rightarrow> (lo + sint (z mod word_of_int (hi - lo + 1)), s'))"

lemma between_bounds:
  assumes "lo \<le> hi" "hi - lo < 2 ^ 62" "between s lo hi = (v, s')"
  shows "lo \<le> v" "v \<le> hi"
proof -
  have "lo \<le> v \<and> v \<le> hi"
  proof (cases "hi \<le> lo")
    case True
    then show ?thesis using assms by (simp add: between_def)
  next
    case False
    obtain z s'' where z: "stream_next s = (z, s'')" by fastforce
    define n :: u64 where "n = word_of_int (hi - lo + 1)"
    define k where "k = uint z mod (hi - lo + 1)"
    have n: "uint n = hi - lo + 1"
      using assms(1,2) unfolding n_def
      by (subst uint_word_of_int) (simp add: take_bit_int_eq_self)
    have k: "0 \<le> k" "k \<le> hi - lo"
      using False pos_mod_bound [of "hi - lo + 1" "uint z"] by (simp_all add: k_def)
    have "uint (z mod n) = k" by (simp only: uint_mod n k_def)
    then have "sint (z mod n) = k"
      using k assms(2) by (simp add: sint_uint signed_take_bit_int_eq_self)
    moreover have "between s lo hi = (lo + sint (z mod n), s'')"
      unfolding between_def z prod.case n_def using False by simp
    ultimately show ?thesis using assms(3) k by simp
  qed
  then show "lo \<le> v" "v \<le> hi" by simp_all
qed

section \<open>RollPlan\<close>

definition RollPlan :: "SendingBehavior \<Rightarrow> gtime \<Rightarrow> DailyPlan" where
  "RollPlan b day =
     (let (y, m, d) = civil day;
          rng = newStream (sb_EmailAccountID b) y m d ''plan/v1'';
          plan = \<lparr>dp_EmailAccountID = sb_EmailAccountID b,
                  dp_PlanDate = format_date day,
                  dp_Timezone = loc_name (g_loc day),
                  dp_IsWorkingDay = WorksOn b (weekday_of day),
                  dp_DailyLimit = 0, dp_HourlyLimit = 0,
                  dp_WorkStartMinute = 0, dp_WorkEndMinute = 0,
                  dp_LunchStartMinute = None, dp_LunchEndMinute = None,
                  dp_GapMinSeconds = sb_GapMinSeconds b,
                  dp_GapMaxSeconds = sb_GapMaxSeconds b\<rparr>;
          (dailyLimit, rng) = between rng (sb_DailyLimitMin b) (sb_DailyLimitMax b);
          (hourlyLimit, rng) = between rng (sb_HourlyLimitMin b) (sb_HourlyLimitMax b);
          (workStart, rng) = between rng (sb_WorkStartMin b) (sb_WorkStartMax b);
          (workEnd, rng) = between rng (sb_WorkEndMin b) (sb_WorkEndMax b);
          (lunchStart, rng) = between rng (sb_LunchEarliest b) (sb_LunchLatest b);
          (lunchLen, rng) = between rng (sb_LunchMinMinutes b) (sb_LunchMaxMinutes b);
          plan = plan\<lparr>dp_WorkStartMinute := workStart, dp_WorkEndMinute := workEnd\<rparr>
      in if \<not> dp_IsWorkingDay plan then plan
         else
           let plan = plan\<lparr>dp_DailyLimit := dailyLimit, dp_HourlyLimit := hourlyLimit\<rparr>
           in if sb_LunchEnabled b \<and> 0 < lunchLen
                 \<and> (workStart < lunchStart \<and> lunchStart + lunchLen < workEnd)
              then plan\<lparr>dp_LunchStartMinute := Some lunchStart,
                        dp_LunchEndMinute := Some (lunchStart + lunchLen)\<rparr>
              else plan)"

text \<open>The six draws of a roll, which do not depend on the branch the roll takes.\<close>

lemma RollPlan_draws:
  obtains dl hl ws we ls ll where
    "\<And>lo hi. lo = sb_DailyLimitMin b \<Longrightarrow> hi = sb_DailyLimitMax b \<Longrightarrow> lo \<le> hi
        \<Longrightarrow> hi - lo < 2 ^ 62 \<Longrightarrow> lo \<le> dl \<and> dl \<le> hi"
    "\<And>lo hi. lo = sb_HourlyLimitMin b \<Longrightarrow> hi = sb_HourlyLimitMax b \<Longrightarrow> lo \<le> hi
        \<Longrightarrow> hi - lo < 2 ^ 62 \<Longrightarrow> lo \<le> hl \<and> hl \<le> hi"
    "\<And>lo hi. lo = sb_WorkStartMin b \<Longrightarrow> hi = sb_WorkStartMax b \<Longrightarrow> lo \<le> hi
        \<Longrightarrow> hi - lo < 2 ^ 62 \<Longrightarrow> lo \<le> ws \<and> ws \<le> hi"
    "\<And>lo hi. lo = sb_WorkEndMin b \<Longrightarrow> hi = sb_WorkEndMax b \<Longrightarrow> lo \<le> hi
        \<Longrightarrow> hi - lo < 2 ^ 62 \<Longrightarrow> lo \<le> we \<and> we \<le> hi"
    "RollPlan b day =
       (let lunch = WorksOn b (weekday_of day) \<and> sb_LunchEnabled b \<and> 0 < ll \<and> ws < ls
              \<and> ls + ll < we;
            work = WorksOn b (weekday_of day)
        in \<lparr>dp_EmailAccountID = sb_EmailAccountID b, dp_PlanDate = format_date day,
            dp_Timezone = loc_name (g_loc day), dp_IsWorkingDay = work,
            dp_DailyLimit = (if work then dl else 0), dp_HourlyLimit = (if work then hl else 0),
            dp_WorkStartMinute = ws, dp_WorkEndMinute = we,
            dp_LunchStartMinute = (if lunch then Some ls else None),
            dp_LunchEndMinute = (if lunch then Some (ls + ll) else None),
            dp_GapMinSeconds = sb_GapMinSeconds b, dp_GapMaxSeconds = sb_GapMaxSeconds b\<rparr>)"
proof -
  obtain y m d where c: "civil day = (y, m, d)" by (cases "civil day")
  let ?r0 = "newStream (sb_EmailAccountID b) y m d ''plan/v1''"
  obtain dl r1 where 1: "between ?r0 (sb_DailyLimitMin b) (sb_DailyLimitMax b) = (dl, r1)"
    by fastforce
  obtain hl r2 where 2: "between r1 (sb_HourlyLimitMin b) (sb_HourlyLimitMax b) = (hl, r2)"
    by fastforce
  obtain ws r3 where 3: "between r2 (sb_WorkStartMin b) (sb_WorkStartMax b) = (ws, r3)"
    by fastforce
  obtain we r4 where 4: "between r3 (sb_WorkEndMin b) (sb_WorkEndMax b) = (we, r4)"
    by fastforce
  obtain ls r5 where 5: "between r4 (sb_LunchEarliest b) (sb_LunchLatest b) = (ls, r5)"
    by fastforce
  obtain ll r6 where 6: "between r5 (sb_LunchMinMinutes b) (sb_LunchMaxMinutes b) = (ll, r6)"
    by fastforce
  show thesis
  proof (rule that)
    show "RollPlan b day =
       (let lunch = WorksOn b (weekday_of day) \<and> sb_LunchEnabled b \<and> 0 < ll \<and> ws < ls
              \<and> ls + ll < we;
            work = WorksOn b (weekday_of day)
        in \<lparr>dp_EmailAccountID = sb_EmailAccountID b, dp_PlanDate = format_date day,
            dp_Timezone = loc_name (g_loc day), dp_IsWorkingDay = work,
            dp_DailyLimit = (if work then dl else 0), dp_HourlyLimit = (if work then hl else 0),
            dp_WorkStartMinute = ws, dp_WorkEndMinute = we,
            dp_LunchStartMinute = (if lunch then Some ls else None),
            dp_LunchEndMinute = (if lunch then Some (ls + ll) else None),
            dp_GapMinSeconds = sb_GapMinSeconds b, dp_GapMaxSeconds = sb_GapMaxSeconds b\<rparr>)"
      unfolding RollPlan_def by (simp add: c 1 2 3 4 5 6 Let_def)
  qed (use between_bounds 1 2 3 4 in blast)+
qed

lemma RollPlan_lunch_inside: "lunch_inside (RollPlan b day)"
  by (rule RollPlan_draws [of b day]) (auto simp: lunch_inside_def HasLunch_def Let_def)

lemma RollPlan_working [simp]: "dp_IsWorkingDay (RollPlan b day) = WorksOn b (weekday_of day)"
  by (rule RollPlan_draws [of b day]) (simp add: Let_def)

lemma RollPlan_window:
  assumes "Validate b = None"
  shows "sb_WorkStartMin b \<le> dp_WorkStartMinute (RollPlan b day)"
    "dp_WorkStartMinute (RollPlan b day) \<le> sb_WorkStartMax b"
    "sb_WorkEndMin b \<le> dp_WorkEndMinute (RollPlan b day)"
    "dp_WorkEndMinute (RollPlan b day) \<le> sb_WorkEndMax b"
  using Validate_None [OF assms]
  by (rule_tac RollPlan_draws [of b day], simp add: Let_def)+

lemma RollPlan_limits:
  assumes "Validate b = None" "WorksOn b (weekday_of day)"
  shows "sb_DailyLimitMin b \<le> dp_DailyLimit (RollPlan b day)"
    "dp_DailyLimit (RollPlan b day) \<le> sb_DailyLimitMax b"
    "sb_HourlyLimitMin b \<le> dp_HourlyLimit (RollPlan b day)"
    "dp_HourlyLimit (RollPlan b day) \<le> sb_HourlyLimitMax b"
  using Validate_None [OF assms(1)] assms(2)
  by (rule_tac RollPlan_draws [of b day], simp add: Let_def)+

section \<open>Days, minutes and hours of a location\<close>

definition PlanDateFor :: "gtime \<Rightarrow> location \<Rightarrow> gtime" where
  "PlanDateFor t loc =
     (case civil (in_loc t loc) of (y, m, d) \<Rightarrow> go_date y m d 0 0 0 0 loc)"

definition MinuteOfDay :: "gtime \<Rightarrow> location \<Rightarrow> int" where
  "MinuteOfDay t loc = hour_of (in_loc t loc) * 60 + minute_of (in_loc t loc)"

definition AtMinute :: "gtime \<Rightarrow> int \<Rightarrow> gtime" where
  "AtMinute day minute =
     (case civil day of (y, m, d) \<Rightarrow>
        go_date y m d (tdiv minute 60) (tmod minute 60) 0 0 (g_loc day))"

definition HourWindow :: "gtime \<Rightarrow> location \<Rightarrow> gtime \<times> gtime" where
  "HourWindow t loc =
     (case civil (in_loc t loc) of (y, m, d) \<Rightarrow>
        let start = go_date y m d (hour_of (in_loc t loc)) 0 0 0 loc
        in (start, add_dur start Hour))"

definition searchDays :: nat where "searchDays = 9"

text \<open>
  The loop of \<open>NextOpen\<close>, with the passes it has left and whether it is the first;
  \<open>None\<close> is \<open>ok = false\<close>.
\<close>

fun NextOpen_loop ::
  "nat \<Rightarrow> bool \<Rightarrow> gtime \<Rightarrow> location \<Rightarrow> (gtime \<Rightarrow> DailyPlan) \<Rightarrow> (gtime \<times> DailyPlan) option" where
  "NextOpen_loop 0 is_first cur loc planner = None"
| "NextOpen_loop (Suc n) is_first cur loc planner =
     (let day = PlanDateFor cur loc;
          plan = planner day;
          minute = (if is_first then MinuteOfDay cur loc else 0)
      in case NextOpenMinute plan minute of
           Some open' \<Rightarrow>
             if is_first \<and> open' = minute then Some (cur, plan)
             else Some (AtMinute day open', plan)
         | None \<Rightarrow> NextOpen_loop n False (add_days day 1) loc planner)"

definition NextOpen ::
  "gtime \<Rightarrow> location \<Rightarrow> (gtime \<Rightarrow> DailyPlan) \<Rightarrow> (gtime \<times> DailyPlan) option" where
  "NextOpen from_t loc planner = NextOpen_loop searchDays True (in_loc from_t loc) loc planner"

lemma searchDays_Suc: "searchDays = Suc 8"
  by (simp add: searchDays_def)

text \<open>The spacing to the next send, from the two draws of the caller's generator.\<close>

definition DrawGap :: "DailyPlan \<Rightarrow> rat \<times> rat \<Rightarrow> duration" where
  "DrawGap plan rnd =
     (let lo = dp_GapMinSeconds plan; hi = dp_GapMaxSeconds plan
      in if hi \<le> lo then lo * Second
         else
           let u = fdiv (fadd (fst rnd) (snd rnd)) 2;
               secs = fadd (f_of lo) (fmul u (f_of (hi - lo)))
           in trunc (fmul secs (f_of Second)))"

lemma DrawGap_bounds:
  assumes r: "0 \<le> u1" "u1 \<le> 1" "0 \<le> u2" "u2 \<le> 1"
    and g: "0 \<le> dp_GapMinSeconds p" "dp_GapMinSeconds p \<le> dp_GapMaxSeconds p"
      "dp_GapMaxSeconds p \<le> 86400"
  shows "dp_GapMinSeconds p * Second \<le> DrawGap p (u1, u2)"
    "DrawGap p (u1, u2) \<le> dp_GapMaxSeconds p * Second"
proof -
  let ?lo = "dp_GapMinSeconds p" and ?hi = "dp_GapMaxSeconds p"
  define u where "u = fdiv (fadd u1 u2) 2"
  define x where "x = fmul u (f_of (?hi - ?lo))"
  define secs where "secs = fadd (f_of ?lo) x"
  have "0 \<le> fadd u1 u2" "fadd u1 u2 \<le> of_int 2"
    using r f64.rnd_le_int [of 2 "u1 + u2"] by (simp_all add: fadd_def f64.rnd_nonneg)
  then have u: "0 \<le> u" "u \<le> of_int 1"
    by (auto simp: u_def fdiv_def f64.rnd_nonneg simp del: of_int_1 intro!: f64.rnd_le_int)
  have d: "f_of (?hi - ?lo) = of_int (?hi - ?lo)" "f_of ?lo = of_int ?lo"
    using g by (simp_all add: f_of_int)
  have "u * of_int (?hi - ?lo) \<le> 1 * of_int (?hi - ?lo)"
    using u g by (intro mult_right_mono) auto
  then have x: "0 \<le> x" "x \<le> of_int (?hi - ?lo)"
    using u g unfolding x_def fmul_def d
    by (auto intro!: f64.rnd_nonneg f64.rnd_le_int simp del: of_int_diff)
  then have s: "of_int ?lo \<le> secs" "secs \<le> of_int ?hi"
    using g unfolding secs_def fadd_def d by (auto intro!: f64.rnd_ge_int f64.rnd_le_int)
  have S: "f_of Second = of_int Second" by (simp add: f_of_int)
  have m: "of_int (?lo * Second) \<le> fmul secs (f_of Second)"
    "fmul secs (f_of Second) \<le> of_int (?hi * Second)"
    unfolding fmul_def S using s g
    by (intro f64.rnd_ge_int f64.rnd_le_int; simp)+
  have "?lo * Second \<le> trunc (fmul secs (f_of Second))"
    "trunc (fmul secs (f_of Second)) \<le> ?hi * Second"
    by (rule trunc_ge_int [OF m(1)], rule trunc_le_int [OF m(2)])
  moreover have "DrawGap p (u1, u2) =
      (if ?hi \<le> ?lo then ?lo * Second else trunc (fmul secs (f_of Second)))"
    by (simp add: DrawGap_def Let_def secs_def x_def u_def)
  ultimately show "?lo * Second \<le> DrawGap p (u1, u2)" "DrawGap p (u1, u2) \<le> ?hi * Second"
    using g by simp_all
qed

section \<open>Days of a location whose offset never changes\<close>

definition midnight :: "int \<Rightarrow> location \<Rightarrow> gtime" where
  "midnight n loc = \<lparr>g_inst = (n * 86400 - loc_base loc) * Second, g_loc = loc\<rparr>"

definition local_day_in :: "gtime \<Rightarrow> location \<Rightarrow> int" where
  "local_day_in t loc = local_day (in_loc t loc)"

lemma g_inst_split: "g_inst t = unix_of t * Second + nsec_of t" "0 \<le> nsec_of t" "nsec_of t < Second"
  by (simp_all add: unix_of_def nsec_of_def)

lemma go_date_wall_fixed:
  assumes "loc_tx loc = []" "civil t = (y, m, d)"
  shows "go_date y m (d + i) h mi s 0 loc =
    \<lparr>g_inst = ((local_day t + i) * 86400 + h * 3600 + mi * 60 + s - loc_base loc) * Second,
     g_loc = loc\<rparr>"
  using assms by (simp add: go_date_def unix_of_wall_fixed wall_secs_civil)

lemmas go_date_wall_fixed0 = go_date_wall_fixed [where i = 0, simplified]

lemma PlanDateFor_fixed:
  "loc_tx loc = [] \<Longrightarrow> PlanDateFor t loc = midnight (local_day_in t loc) loc"
  by (cases "civil (in_loc t loc)")
     (simp add: PlanDateFor_def go_date_wall_fixed0 midnight_def local_day_in_def)

lemma local_secs_midnight [simp]: "loc_tx loc = [] \<Longrightarrow> local_secs (midnight n loc) = n * 86400"
  by (simp add: local_secs_def midnight_def unix_of_def)

lemma local_day_midnight [simp]: "loc_tx loc = [] \<Longrightarrow> local_day (midnight n loc) = n"
  by (simp add: local_day_def)

lemma g_loc_midnight [simp]: "g_loc (midnight n loc) = loc"
  by (simp add: midnight_def)

lemma PlanDateFor_midnight: "loc_tx loc = [] \<Longrightarrow> PlanDateFor (midnight n loc) loc = midnight n loc"
  by (simp add: PlanDateFor_fixed local_day_in_def in_loc_def midnight_def local_day_def
      local_secs_def unix_of_def)

lemma nsec_of_midnight [simp]: "nsec_of (midnight n loc) = 0"
  by (simp add: nsec_of_def midnight_def)

lemma add_days_midnight:
  "loc_tx loc = [] \<Longrightarrow> add_days (midnight n loc) i = midnight (n + i) loc"
  by (cases "civil (midnight n loc)")
     (simp add: add_days_def go_date_wall_fixed hour_of_def minute_of_def second_of_def,
      simp add: midnight_def)

lemma AtMinute_midnight:
  assumes "loc_tx loc = []" "0 \<le> k"
  shows "AtMinute (midnight n loc) k =
    \<lparr>g_inst = (n * 86400 + k * 60 - loc_base loc) * Second, g_loc = loc\<rparr>"
proof -
  obtain y m d where c: "civil (midnight n loc) = (y, m, d)" by (cases "civil (midnight n loc)")
  have "k div 60 * 60 + k mod 60 = k" by simp
  then have "k div 60 * 3600 + k mod 60 * 60 = k * 60" by linarith
  then show ?thesis
    using assms by (simp add: AtMinute_def c go_date_wall_fixed0 [OF assms(1) c] add.assoc)
qed

lemma g_loc_AtMinute [simp]: "g_loc (AtMinute day k) = g_loc day"
  by (simp add: AtMinute_def split: prod.split)

lemma local_secs_AtMinute:
  "loc_tx loc = [] \<Longrightarrow> 0 \<le> k \<Longrightarrow>
     local_secs (in_loc (AtMinute (midnight n loc) k) loc) = n * 86400 + k * 60"
  by (simp add: AtMinute_midnight local_secs_def unix_of_def)

lemma MinuteOfDay_eq: "MinuteOfDay t loc = local_secs (in_loc t loc) mod 86400 div 60"
  by (simp add: MinuteOfDay_def minute_of_day)

lemma MinuteOfDay_range: "0 \<le> MinuteOfDay t loc" "MinuteOfDay t loc < 1440"
  unfolding MinuteOfDay_eq by (rule minute_of_day_range)+

lemma AtMinute_day_minute:
  assumes "loc_tx loc = []" "0 \<le> k" "k < 1440"
  shows "local_day_in (AtMinute (midnight n loc) k) loc = n"
    "MinuteOfDay (AtMinute (midnight n loc) k) loc = k"
proof -
  have "(n * 86400 + k * 60) div 86400 = n" "(n * 86400 + k * 60) mod 86400 = k * 60"
    using assms by (auto intro: int_div_pos_eq int_mod_pos_eq)
  then show "local_day_in (AtMinute (midnight n loc) k) loc = n"
    "MinuteOfDay (AtMinute (midnight n loc) k) loc = k"
    using assms
    by (simp_all add: local_day_in_def local_day_def local_secs_AtMinute MinuteOfDay_eq)
qed

text \<open>An instant lies on its local day at or after the start of its local minute.\<close>

lemma inst_in_minute:
  assumes "loc_tx loc = []"
  shows "(local_day_in t loc * 86400 + MinuteOfDay t loc * 60 - loc_base loc) * Second \<le> g_inst t"
    "g_inst t < (local_day_in t loc * 86400 + MinuteOfDay t loc * 60 + 60 - loc_base loc) * Second"
proof -
  let ?s = "local_secs (in_loc t loc)"
  have s: "?s = unix_of t + loc_base loc" using assms by (simp add: local_secs_def)
  have "local_day_in t loc * 86400 + MinuteOfDay t loc * 60
      = ?s div 86400 * 86400 + ?s mod 86400 div 60 * 60"
    by (simp add: local_day_in_def local_day_def MinuteOfDay_eq)
  moreover have "?s mod 86400 div 60 * 60 \<le> ?s mod 86400" "?s mod 86400 < ?s mod 86400 div 60 * 60 + 60"
    by presburger+
  moreover have "?s div 86400 * 86400 + ?s mod 86400 = ?s" by simp
  ultimately have "local_day_in t loc * 86400 + MinuteOfDay t loc * 60 \<le> ?s"
    "?s < local_day_in t loc * 86400 + MinuteOfDay t loc * 60 + 60" by linarith+
  then show "(local_day_in t loc * 86400 + MinuteOfDay t loc * 60 - loc_base loc) * Second \<le> g_inst t"
    "g_inst t < (local_day_in t loc * 86400 + MinuteOfDay t loc * 60 + 60 - loc_base loc) * Second"
    unfolding left_diff_distrib distrib_right using g_inst_split [of t] s by - linarith+
qed

text \<open>Instants in order are local days in order, and local minutes in order on one day.\<close>

lemma day_minute_mono:
  assumes f: "loc_tx loc = []" and le: "g_inst a \<le> g_inst b"
  shows "local_day_in a loc \<le> local_day_in b loc"
    and "local_day_in a loc = local_day_in b loc \<Longrightarrow> MinuteOfDay a loc \<le> MinuteOfDay b loc"
proof -
  let ?a = "local_secs (in_loc a loc)" and ?b = "local_secs (in_loc b loc)"
  have s: "?a \<le> ?b"
    using le f by (simp add: local_secs_def unix_of_def zdiv_mono1)
  then show "local_day_in a loc \<le> local_day_in b loc"
    by (simp add: local_day_in_def local_day_def zdiv_mono1)
  assume "local_day_in a loc = local_day_in b loc"
  then have "?a div 86400 = ?b div 86400" by (simp add: local_day_in_def local_day_def)
  then have "?a mod 86400 \<le> ?b mod 86400"
    using s mult_div_mod_eq [of 86400 ?a] mult_div_mod_eq [of 86400 ?b] by linarith
  then show "MinuteOfDay a loc \<le> MinuteOfDay b loc"
    by (simp add: MinuteOfDay_eq zdiv_mono1)
qed

section \<open>The contract of a planner, and the search over it\<close>

text \<open>
  Every minute a plan opens is a minute of its own day. Nothing else of the planner is
  used by the search: not that it is deterministic in anything but the day, nor where
  its numbers come from.
\<close>

locale day_planner =
  fixes planner :: "gtime \<Rightarrow> DailyPlan"
  assumes open_in_day: "Contains (planner day) k \<Longrightarrow> 0 \<le> k \<and> k < MinutesPerDay"
begin

definition open_at :: "location \<Rightarrow> gtime \<Rightarrow> bool" where
  "open_at loc t \<longleftrightarrow> Contains (planner (PlanDateFor t loc)) (MinuteOfDay t loc)"

lemma closed_day:
  assumes "loc_tx loc = []" "NextOpenMinute (planner (midnight (local_day_in t loc) loc)) 0 = None"
  shows "\<not> open_at loc t"
  using NextOpenMinute_None [OF assms(2)] MinuteOfDay_range(1) [of t loc]
  by (simp add: open_at_def PlanDateFor_fixed [OF assms(1)])

text \<open>What one day of the search finds: the earliest open instant of the rest of the day.\<close>

lemma day_search_Some:
  assumes f: "loc_tx loc = []"
    and n: "NextOpenMinute (planner (midnight n loc)) m = Some k"
  shows "open_at loc (AtMinute (midnight n loc) k)"
    and "local_day_in t loc = n \<Longrightarrow> m \<le> MinuteOfDay t loc \<Longrightarrow>
           g_inst t < g_inst (AtMinute (midnight n loc) k) \<Longrightarrow> \<not> open_at loc t"
proof -
  note k = NextOpenMinute_Some [OF n]
  have r: "0 \<le> k" "k < 1440" using open_in_day [OF k(2)] by simp_all
  show "open_at loc (AtMinute (midnight n loc) k)"
    using k(2) by (simp add: open_at_def PlanDateFor_fixed f AtMinute_day_minute [OF f r])
  assume t: "local_day_in t loc = n" "m \<le> MinuteOfDay t loc"
    "g_inst t < g_inst (AtMinute (midnight n loc) k)"
  have "MinuteOfDay t loc < k"
    using inst_in_minute(1) [OF f, of t] t by (simp add: AtMinute_midnight [OF f r(1)])
  then show "\<not> open_at loc t"
    using k(3) [OF t(2)] t(1) by (simp add: open_at_def PlanDateFor_fixed f)
qed

lemma loop_Some:
  assumes f: "loc_tx loc = []"
  shows "NextOpen_loop k False (midnight n loc) loc planner = Some (t, p) \<Longrightarrow>
    \<exists>n' o'. n \<le> n' \<and> n' < n + int k \<and> p = planner (midnight n' loc)
      \<and> NextOpenMinute p 0 = Some o' \<and> t = AtMinute (midnight n' loc) o'
      \<and> (\<forall>j. n \<le> j \<and> j < n' \<longrightarrow> NextOpenMinute (planner (midnight j loc)) 0 = None)"
proof (induction k arbitrary: n)
  case (Suc k)
  let ?N = "NextOpenMinute (planner (midnight n loc)) 0"
  note d = PlanDateFor_midnight [OF f]
  show ?case
  proof (cases ?N)
    case (Some o')
    then show ?thesis using Suc.prems d by (intro exI [of _ n] exI [of _ o']) (auto simp: Let_def)
  next
    case None
    then have "NextOpen_loop k False (midnight (n + 1) loc) loc planner = Some (t, p)"
      using Suc.prems d by (simp add: Let_def add_days_midnight f)
    then obtain n' o' where *: "n + 1 \<le> n'" "n' < n + 1 + int k" "p = planner (midnight n' loc)"
      "NextOpenMinute p 0 = Some o'" "t = AtMinute (midnight n' loc) o'"
      "\<forall>j. n + 1 \<le> j \<and> j < n' \<longrightarrow> NextOpenMinute (planner (midnight j loc)) 0 = None"
      using Suc.IH by blast
    have "NextOpenMinute (planner (midnight j loc)) 0 = None" if "n \<le> j" "j < n'" for j
      using None *(6) that by (cases "j = n") simp_all
    then show ?thesis using * by (intro exI [of _ n'] exI [of _ o']) simp
  qed
qed simp

lemma loop_None:
  assumes f: "loc_tx loc = []"
  shows "NextOpen_loop k False (midnight n loc) loc planner = None \<Longrightarrow>
    n \<le> j \<Longrightarrow> j < n + int k \<Longrightarrow> NextOpenMinute (planner (midnight j loc)) 0 = None"
proof (induction k arbitrary: n)
  case (Suc k)
  have N: "NextOpenMinute (planner (midnight n loc)) 0 = None"
    "NextOpen_loop k False (midnight (n + 1) loc) loc planner = None"
    using Suc.prems(1)
    by (simp_all add: Let_def add_days_midnight f PlanDateFor_midnight split: option.splits if_splits)
  then show ?case using Suc.IH [OF N(2)] Suc.prems by (cases "j = n") simp_all
qed simp

text \<open>
  The search as a whole: the instant is not before \<open>from\<close>, it is open, its plan is the
  plan of its own day, and nothing between \<open>from\<close> and it is open. Without an answer,
  none of the nine days searched has anything open left.
\<close>

definition earliest_open :: "location \<Rightarrow> gtime \<Rightarrow> gtime \<Rightarrow> DailyPlan \<Rightarrow> bool" where
  "earliest_open loc f t p \<longleftrightarrow>
     g_inst f \<le> g_inst t \<and> g_loc t = loc \<and> p = planner (PlanDateFor t loc) \<and> open_at loc t
     \<and> (\<forall>u. g_inst f \<le> g_inst u \<and> g_inst u < g_inst t \<longrightarrow> \<not> open_at loc u)"

lemma today_Some:
  assumes f: "loc_tx loc = []"
    and k: "NextOpenMinute (planner (midnight (local_day_in t loc) loc)) (MinuteOfDay t loc) = Some k"
      "k \<noteq> MinuteOfDay t loc"
  shows "earliest_open loc t (AtMinute (midnight (local_day_in t loc) loc) k)
           (planner (midnight (local_day_in t loc) loc))"
proof -
  let ?n = "local_day_in t loc" and ?m = "MinuteOfDay t loc"
  let ?r = "AtMinute (midnight ?n loc) k"
  note K = NextOpenMinute_Some [OF k(1)]
  have r: "0 \<le> k" "k < 1440" "?m + 1 \<le> k"
    using open_in_day [OF K(2)] K(1) k(2) by simp_all
  have dr: "local_day_in ?r loc = ?n" "MinuteOfDay ?r loc = k" "g_loc ?r = loc"
    using r by (simp_all add: AtMinute_day_minute f)
  have "g_inst t < g_inst ?r"
    using inst_in_minute(2) [OF f, of t] r by (simp add: AtMinute_midnight f)
  moreover have "\<not> open_at loc u" if u: "g_inst t \<le> g_inst u" "g_inst u < g_inst ?r" for u
  proof -
    have "?n \<le> local_day_in u loc" "local_day_in u loc \<le> ?n"
      using day_minute_mono(1) [OF f u(1)] day_minute_mono(1) [OF f less_imp_le [OF u(2)]] dr
      by simp_all
    then show ?thesis
      using day_search_Some(2) [OF f k(1), of u] day_minute_mono(2) [OF f u(1)] u(2) by simp
  qed
  ultimately show ?thesis
    using day_search_Some(1) [OF f k(1)] dr by (simp add: earliest_open_def PlanDateFor_fixed f)
qed

lemma later_Some:
  assumes f: "loc_tx loc = []"
    and today: "NextOpenMinute (planner (midnight (local_day_in t loc) loc)) (MinuteOfDay t loc) = None"
    and n: "local_day_in t loc < n"
      "\<And>j. local_day_in t loc < j \<Longrightarrow> j < n \<Longrightarrow> NextOpenMinute (planner (midnight j loc)) 0 = None"
      "NextOpenMinute (planner (midnight n loc)) 0 = Some k"
  shows "earliest_open loc t (AtMinute (midnight n loc) k) (planner (midnight n loc))"
proof -
  let ?r = "AtMinute (midnight n loc) k"
  note K = NextOpenMinute_Some [OF n(3)]
  have r: "0 \<le> k" "k < 1440" using open_in_day [OF K(2)] by simp_all
  have dr: "local_day_in ?r loc = n" "MinuteOfDay ?r loc = k" "g_loc ?r = loc"
    using r by (simp_all add: AtMinute_day_minute f)
  have "g_inst t \<le> g_inst ?r"
    using day_minute_mono(1) [OF f, of ?r t] n(1) dr(1) by linarith
  moreover have "\<not> open_at loc u" if u: "g_inst t \<le> g_inst u" "g_inst u < g_inst ?r" for u
  proof -
    let ?d = "local_day_in u loc"
    have "local_day_in t loc \<le> ?d" "?d \<le> n"
      using day_minute_mono(1) [OF f u(1)] day_minute_mono(1) [OF f less_imp_le [OF u(2)]] dr
      by simp_all
    then consider "?d = local_day_in t loc" | "local_day_in t loc < ?d" "?d < n" | "?d = n"
      by linarith
    then show ?thesis
    proof cases
      case 1
      then show ?thesis
        using NextOpenMinute_None [OF today] day_minute_mono(2) [OF f u(1)]
        by (simp add: open_at_def PlanDateFor_fixed f)
    next
      case 2
      then show ?thesis using n(2) by (intro closed_day [OF f]) simp
    next
      case 3
      then show ?thesis
        using day_search_Some(2) [OF f n(3), of u] u(2) MinuteOfDay_range(1) by simp
    qed
  qed
  ultimately show ?thesis
    using day_search_Some(1) [OF f n(3)] dr by (simp add: earliest_open_def PlanDateFor_fixed f)
qed

lemma NextOpen_correct:
  assumes f: "loc_tx loc = []"
  shows "case NextOpen t loc planner of
      Some (r, p) \<Rightarrow> earliest_open loc t r p
    | None \<Rightarrow> \<forall>u. g_inst t \<le> g_inst u \<and> local_day_in u loc < local_day_in t loc + 9
               \<longrightarrow> \<not> open_at loc u"
proof -
  let ?n = "local_day_in t loc" and ?m = "MinuteOfDay t loc"
  let ?N = "NextOpenMinute (planner (midnight ?n loc)) ?m"
  have d: "PlanDateFor (in_loc t loc) loc = midnight ?n loc" "MinuteOfDay (in_loc t loc) loc = ?m"
    by (simp_all add: PlanDateFor_fixed f local_day_in_def MinuteOfDay_def)
  have N: "NextOpen t loc planner = (case ?N of
      Some k \<Rightarrow> if k = ?m then Some (in_loc t loc, planner (midnight ?n loc))
               else Some (AtMinute (midnight ?n loc) k, planner (midnight ?n loc))
    | None \<Rightarrow> NextOpen_loop 8 False (midnight (?n + 1) loc) loc planner)"
    unfolding NextOpen_def searchDays_Suc NextOpen_loop.simps Let_def d if_True
    by (cases ?N) (simp_all add: add_days_midnight f)
  show ?thesis
  proof (cases ?N)
    case (Some k)
    show ?thesis
    proof (cases "k = ?m")
      case True
      then show ?thesis
        using N Some NextOpenMinute_Some(2) [OF Some] d
        by (auto simp: earliest_open_def open_at_def PlanDateFor_fixed f)
    qed (use N Some today_Some [OF f Some] in simp)
  next
    case None
    show ?thesis
    proof (cases "NextOpen_loop 8 False (midnight (?n + 1) loc) loc planner")
      case L: None
      have "\<not> open_at loc u" if u: "g_inst t \<le> g_inst u" "local_day_in u loc < ?n + 9" for u
      proof (cases "local_day_in u loc = ?n")
        case True
        then show ?thesis
          using NextOpenMinute_None [OF None] day_minute_mono(2) [OF f u(1)]
          by (simp add: open_at_def PlanDateFor_fixed f)
      next
        case False
        then show ?thesis
          using u day_minute_mono(1) [OF f u(1)]
          by (intro closed_day [OF f] loop_None [OF f L]) simp_all
      qed
      then show ?thesis using N None L by simp
    next
      case (Some rp)
      obtain r p where rp: "rp = (r, p)" by (cases rp)
      from loop_Some [OF f Some [unfolded rp]] obtain n k where
        *: "?n + 1 \<le> n" "p = planner (midnight n loc)" "NextOpenMinute p 0 = Some k"
          "r = AtMinute (midnight n loc) k"
          "\<forall>j. ?n + 1 \<le> j \<and> j < n \<longrightarrow> NextOpenMinute (planner (midnight j loc)) 0 = None"
        by blast
      have "earliest_open loc t (AtMinute (midnight n loc) k) (planner (midnight n loc))"
        by (rule later_Some [OF f None]) (use * in auto)
      then show ?thesis using N None Some rp * by simp
    qed
  qed
qed

end

section \<open>Validated profiles are planners\<close>

text \<open>The profiles \<open>Update\<close> stores: the ones the validator accepts.\<close>

typedef valid_behavior = "{b. Validate b = None}"
  morphisms profile_of valid_profile
  by (rule exI [of _ "DefaultSendingBehavior []"]) (simp add: Validate_Default)

lemma Validate_profile_of [simp]: "Validate (profile_of v) = None"
  using profile_of [of v] by simp

lemma RollPlan_open_in_day:
  assumes "Validate b = None" "Contains (RollPlan b day) k"
  shows "0 \<le> k \<and> k < 1440"
  using Validate_None(10,14) [OF assms(1)] RollPlan_window [OF assms(1), of day] assms(2)
  by (simp add: Contains_def)

interpretation roll: day_planner "RollPlan (profile_of v)" for v
  by unfold_locales (rule RollPlan_open_in_day [OF Validate_profile_of])

text \<open>
  Claim C19. A roll of a validated profile is a workday inside the ranges of the profile:
  limits, start and end are drawn from their ranges, the day ends after it starts, a
  break lies strictly inside it, and \<open>WorkingMinutes\<close> counts exactly the minutes of the
  day \<open>Contains\<close> accepts. On a day the profile does not work the limits are zero.
\<close>

theorem roll_plan_in_ranges:
  fixes day :: gtime
  assumes "Validate b = None"
  defines "p \<equiv> RollPlan b day"
  shows "sb_WorkStartMin b \<le> dp_WorkStartMinute p \<and> dp_WorkStartMinute p \<le> sb_WorkStartMax b
    \<and> sb_WorkEndMin b \<le> dp_WorkEndMinute p \<and> dp_WorkEndMinute p \<le> sb_WorkEndMax b
    \<and> dp_WorkStartMinute p < dp_WorkEndMinute p
    \<and> lunch_inside p \<and> WorkingMinutes p = int (card {m. Contains p m})
    \<and> (if WorksOn b (weekday_of day)
        then sb_DailyLimitMin b \<le> dp_DailyLimit p \<and> dp_DailyLimit p \<le> sb_DailyLimitMax b
          \<and> sb_HourlyLimitMin b \<le> dp_HourlyLimit p \<and> dp_HourlyLimit p \<le> sb_HourlyLimitMax b
        else dp_DailyLimit p = 0 \<and> dp_HourlyLimit p = 0 \<and> \<not> HasLunch p)"
proof -
  have "\<not> WorksOn b (weekday_of day) \<Longrightarrow>
      dp_DailyLimit p = 0 \<and> dp_HourlyLimit p = 0 \<and> \<not> HasLunch p"
    unfolding p_def by (rule RollPlan_draws [of b day]) (simp add: Let_def HasLunch_def)
  then show ?thesis
    using RollPlan_window [OF assms(1), of day] RollPlan_limits [OF assms(1), of day]
      RollPlan_lunch_inside [of b day] Validate_None(12) [OF assms(1)]
      WorkingMinutes_card [OF RollPlan_lunch_inside, of b day]
    by (simp add: p_def open_minutes_def)
qed

theorem roll_plan_in_ranges_witness:
  "let p = RollPlan (DefaultSendingBehavior []) \<lparr>g_inst = 0, g_loc = UTC\<rparr>
   in 543 \<le> dp_WorkStartMinute p \<and> dp_WorkEndMinute p \<le> 1076 \<and> lunch_inside p"
  using roll_plan_in_ranges [OF Validate_Default, of "[]" "\<lparr>g_inst = 0, g_loc = UTC\<rparr>"]
  by (simp add: Let_def DefaultSendingBehavior_def)



end
