(* ===== verification/Behavior_Store.thy ===== *)
theory Behavior_Store
  imports Day_Plan
begin

text \<open>
  The tables behind the sending behaviour of a mailbox and the queries on them:
  \<open>internal/repository/pg_behavior.go\<close>, with the two \<open>WHERE\<close> fragments of \<open>pg_task.go\<close> that
  say which task was a send.

  A table keyed by one column is a partial function, one that is purged and counted an
  association list, and the task table the list of its rows. Any query may fail: the
  store carries the errors the database would answer with, one for each query, so a
  pass over a store that fails here and answers there is a state of the model.
\<close>

section \<open>Tables\<close>

record Email =
  em_ID :: uuid
  em_Timezone :: string
  em_OrgTimezone :: string

definition ClockTimezone :: "'a Email_scheme \<Rightarrow> string" where
  "ClockTimezone e = (if em_Timezone e \<noteq> [] then em_Timezone e else em_OrgTimezone e)"

record task_row =
  tk_id :: uuid
  tk_email_account_id :: uuid
  tk_task_type :: string
  tk_status :: string
  tk_campaign_send_isolated_at :: "instant option"
  tk_send_released_at :: "instant option"
  tk_completed_at :: "instant option"
  tk_message_id :: "string option"

datatype query =
    QGetAccount | QGetBehavior | QGetBehaviors | QUpsertBehavior | QDeleteBehavior
  | QInsertPlan | QGetPlan | QPurgePlans | QCountSends

datatype service_error =
    DBError string
  | ErrNotFound
  | Invalid BehaviorValidationError

record store =
  st_accounts :: "uuid \<Rightarrow> Email option"
  st_behaviors :: "uuid \<Rightarrow> SendingBehavior option"
  st_plans :: "((uuid \<times> string) \<times> DailyPlan) list"
  st_tasks :: "task_row list"
  st_dispatch_task_ids :: "uuid list"
  st_faults :: "query \<Rightarrow> string option"

type_synonym 'a answer = "service_error + 'a"

definition answered :: "store \<Rightarrow> query \<Rightarrow> 'a \<Rightarrow> 'a answer" where
  "answered s q r = (case st_faults s q of Some e \<Rightarrow> Inl (DBError e) | None \<Rightarrow> Inr r)"

section \<open>Profiles\<close>

definition GetBehavior :: "store \<Rightarrow> uuid \<Rightarrow> SendingBehavior option answer" where
  "GetBehavior s accountID = answered s QGetBehavior (st_behaviors s accountID)"

definition GetBehaviors :: "store \<Rightarrow> uuid list \<Rightarrow> (uuid \<Rightarrow> SendingBehavior option) answer" where
  "GetBehaviors s accountIDs =
     (if accountIDs = [] then Inr (\<lambda>_. None)
      else answered s QGetBehaviors (st_behaviors s |` set accountIDs))"

text \<open>
  The row of an upsert: the timezone is no column of the table, the creation time is
  the first writer's, and an update is always at least a microsecond after it.
\<close>

definition upsert_row :: "instant \<Rightarrow> SendingBehavior option \<Rightarrow> SendingBehavior \<Rightarrow> SendingBehavior" where
  "upsert_row now old b =
     (case old of
        None \<Rightarrow> b\<lparr>sb_Timezone := [], sb_CreatedAt := now, sb_UpdatedAt := now + 1000\<rparr>
      | Some o' \<Rightarrow> b\<lparr>sb_Timezone := [], sb_CreatedAt := sb_CreatedAt o',
                     sb_UpdatedAt := max now (sb_CreatedAt o' + 1000)\<rparr>)"

definition UpsertBehavior ::
  "instant \<Rightarrow> store \<Rightarrow> SendingBehavior \<Rightarrow> SendingBehavior answer \<times> store" where
  "UpsertBehavior now s b =
     (case st_faults s QUpsertBehavior of
        Some e \<Rightarrow> (Inl (DBError e), s)
      | None \<Rightarrow>
          let row = upsert_row now (st_behaviors s (sb_EmailAccountID b)) b
          in (Inr row, s\<lparr>st_behaviors := (st_behaviors s)(sb_EmailAccountID b \<mapsto> row)\<rparr>))"

definition DeleteBehavior :: "store \<Rightarrow> uuid \<Rightarrow> unit answer \<times> store" where
  "DeleteBehavior s accountID =
     (case st_faults s QDeleteBehavior of
        Some e \<Rightarrow> (Inl (DBError e), s)
      | None \<Rightarrow> (Inr (), s\<lparr>st_behaviors := (st_behaviors s)(accountID := None)\<rparr>))"

section \<open>Plans\<close>

definition GetPlan :: "store \<Rightarrow> uuid \<Rightarrow> string \<Rightarrow> DailyPlan option answer" where
  "GetPlan s accountID planDate =
     answered s QGetPlan (map_of (st_plans s) (accountID, planDate))"

definition plan_key :: "DailyPlan \<Rightarrow> uuid \<times> string" where
  "plan_key p = (dp_EmailAccountID p, dp_PlanDate p)"

text \<open>The insert with \<open>ON CONFLICT DO NOTHING\<close>, then the read of what is stored.\<close>

definition insert_plan :: "DailyPlan \<Rightarrow> store \<Rightarrow> store" where
  "insert_plan p s =
     (if map_of (st_plans s) (plan_key p) = None
      then s\<lparr>st_plans := (plan_key p, p) # st_plans s\<rparr> else s)"

definition EnsurePlan :: "store \<Rightarrow> DailyPlan \<Rightarrow> DailyPlan option answer \<times> store" where
  "EnsurePlan s p =
     (case st_faults s QInsertPlan of
        Some e \<Rightarrow> (Inl (DBError e), s)
      | None \<Rightarrow>
          let s' = insert_plan p s
          in (GetPlan s' (dp_EmailAccountID p) (dp_PlanDate p), s'))"

text \<open>Dates compare as dates; the digits of a date in order are a number that does.\<close>

definition PurgePlansBefore :: "store \<Rightarrow> gtime \<Rightarrow> nat answer \<times> store" where
  "PurgePlansBefore s t =
     (case st_faults s QPurgePlans of
        Some e \<Rightarrow> (Inl (DBError e), s)
      | None \<Rightarrow>
          let keep = filter (\<lambda>((_, date), _). read_digits 0 (format_date t) \<le> read_digits 0 date)
                       (st_plans s)
          in (Inr (length (st_plans s) - length keep), s\<lparr>st_plans := keep\<rparr>))"

section \<open>Sends\<close>

definition taskConsumesSendBudget :: "task_row \<Rightarrow> bool" where
  "taskConsumesSendBudget t \<longleftrightarrow>
     tk_status t = ''completed''
     \<or> (tk_campaign_send_isolated_at t \<noteq> None \<and> tk_send_released_at t = None)"

definition taskDispatchedEmail :: "uuid list \<Rightarrow> task_row \<Rightarrow> bool" where
  "taskDispatchedEmail dispatch_task_ids t \<longleftrightarrow>
     tk_task_type t \<noteq> ''campaign''
     \<or> (case tk_message_id t of None \<Rightarrow> False | Some m \<Rightarrow> m \<noteq> [])
     \<or> tk_id t \<in> set dispatch_task_ids"

definition CountSendsBetween ::
  "store \<Rightarrow> uuid \<Rightarrow> string \<Rightarrow> instant \<Rightarrow> instant \<Rightarrow> int answer" where
  "CountSendsBetween s accountID taskType from_t to_t =
     answered s QCountSends (int (length (filter (\<lambda>t.
        tk_email_account_id t = accountID
        \<and> (tk_task_type t = taskType
            \<or> (taskType = ''campaign'' \<and> tk_task_type t = ''placement''))
        \<and> taskConsumesSendBudget t
        \<and> (case tk_completed_at t of None \<Rightarrow> False | Some c \<Rightarrow> from_t \<le> c \<and> c < to_t)
        \<and> taskDispatchedEmail (st_dispatch_task_ids s) t) (st_tasks s))))"

section \<open>What the tables keep\<close>

text \<open>Every stored profile passes the validator and is filed under its own mailbox.\<close>

definition profiles_valid :: "store \<Rightarrow> bool" where
  "profiles_valid s \<longleftrightarrow>
     (\<forall>i b. st_behaviors s i = Some b \<longrightarrow> Validate b = None \<and> sb_EmailAccountID b = i)"

lemma Validate_clock [simp]:
  "Validate (b\<lparr>sb_Timezone := z\<rparr>) = Validate b"
  "Validate (b\<lparr>sb_CreatedAt := t\<rparr>) = Validate b"
  "Validate (b\<lparr>sb_UpdatedAt := t\<rparr>) = Validate b"
  "Validate (b\<lparr>sb_EmailAccountID := i\<rparr>) = Validate b"
  by (cases b; simp only: Validate_def SendingBehavior.simps)+

lemma Validate_upsert_row [simp]: "Validate (upsert_row now o' b) = Validate b"
  by (simp add: upsert_row_def split: option.splits)

lemma upsert_row_id [simp]: "sb_EmailAccountID (upsert_row now o' b) = sb_EmailAccountID b"
  by (simp add: upsert_row_def split: option.splits)

lemma profiles_valid_upsert [wf_simps]:
  "profiles_valid s \<Longrightarrow> Validate b = None \<Longrightarrow> profiles_valid (snd (UpsertBehavior now s b))"
  by (simp add: profiles_valid_def UpsertBehavior_def Let_def split: option.splits)

lemma profiles_valid_insert_plan [wf_simps]: "profiles_valid (insert_plan p s) = profiles_valid s"
  by (simp add: profiles_valid_def insert_plan_def)

lemma EnsurePlan_profiles [simp]:
  "st_behaviors (snd (EnsurePlan s p)) = st_behaviors s"
  "st_accounts (snd (EnsurePlan s p)) = st_accounts s"
  "st_faults (snd (EnsurePlan s p)) = st_faults s"
  "st_tasks (snd (EnsurePlan s p)) = st_tasks s"
  "st_dispatch_task_ids (snd (EnsurePlan s p)) = st_dispatch_task_ids s"
  by (simp_all add: EnsurePlan_def insert_plan_def Let_def split: option.splits)

text \<open>A stored plan is never replaced: inserting again leaves it, and reads it back.\<close>

lemma insert_plan_keeps:
  "map_of (st_plans s) k = Some p \<Longrightarrow> map_of (st_plans (insert_plan q s)) k = Some p"
  by (auto simp: insert_plan_def)

lemma insert_plan_lookup:
  "map_of (st_plans (insert_plan p s)) (plan_key p)
     = Some (case map_of (st_plans s) (plan_key p) of None \<Rightarrow> p | Some q \<Rightarrow> q)"
  by (auto simp: insert_plan_def split: option.splits)

lemma EnsurePlan_keeps:
  "map_of (st_plans s) k = Some p \<Longrightarrow> map_of (st_plans (snd (EnsurePlan s q))) k = Some p"
  by (simp add: EnsurePlan_def Let_def insert_plan_keeps split: option.splits)

lemma EnsurePlan_answer:
  assumes "fst (EnsurePlan s p) = Inr r"
  shows "r = Some (case map_of (st_plans s) (plan_key p) of None \<Rightarrow> p | Some q \<Rightarrow> q)"
    "map_of (st_plans (snd (EnsurePlan s p))) (plan_key p) = r"
  using assms insert_plan_lookup [of p s]
  by (auto simp: EnsurePlan_def Let_def GetPlan_def answered_def plan_key_def split: option.splits)

lemma PurgePlansBefore_keeps:
  assumes "map_of (st_plans s) (i, date) = Some p"
    "read_digits 0 (format_date t) \<le> read_digits 0 date"
  shows "map_of (st_plans (snd (PurgePlansBefore s t))) (i, date) = Some p"
proof -
  have "map_of (filter (\<lambda>((_, date), _). read_digits 0 (format_date t) \<le> read_digits 0 date) xs)
      (i, date) = map_of xs (i, date)" for xs :: "((uuid \<times> string) \<times> DailyPlan) list"
    using assms(2) by (induction xs) auto
  then show ?thesis using assms(1) by (simp add: PurgePlansBefore_def Let_def split: option.splits)
qed

lemma CountSendsBetween_nonneg: "CountSendsBetween s i ty a b = Inr n \<Longrightarrow> 0 \<le> n"
  by (auto simp: CountSendsBetween_def answered_def split: option.splits)

end
