(* ===== verification/Behavior_Service.thy ===== *)
theory Behavior_Service
  imports Behavior_Store Bitmask
begin

text \<open>
  The behaviour service, \<open>internal/app/behavior/service.go\<close>: the profile a mailbox has,
  its updates, the plan of a day as the schedulers see it, and what is left of the
  day's and the hour's budget.

  The clock is an argument (\<open>now\<close>), as is the timezone database behind
  \<open>time.LoadLocation\<close> (\<open>tzdb\<close>). A \<open>Resolved\<close> holds a map it fills as plans are asked
  for; the model returns the \<open>Resolved\<close> with the map as it is after the call.
\<close>

definition unlimited :: int where "unlimited = 9223372036854775807"

type_synonym tzdb = "string \<Rightarrow> location option"

definition loadLocation :: "tzdb \<Rightarrow> string \<Rightarrow> location" where
  "loadLocation tzdb tz =
     (if tz = [] then UTC else case tzdb tz of None \<Rightarrow> UTC | Some loc \<Rightarrow> loc)"

section \<open>Profiles\<close>

definition profileFor :: "store \<Rightarrow> uuid \<Rightarrow> SendingBehavior answer" where
  "profileFor s accountID =
     (case GetBehavior s accountID of
        Inl e \<Rightarrow> Inl e
      | Inr None \<Rightarrow> Inr (DefaultSendingBehavior accountID)
      | Inr (Some stored) \<Rightarrow> Inr stored)"

definition GetByID :: "store \<Rightarrow> uuid \<Rightarrow> Email option answer" where
  "GetByID s accountID = answered s QGetAccount (st_accounts s accountID)"

definition Get :: "store \<Rightarrow> uuid \<Rightarrow> SendingBehavior answer" where
  "Get s accountID =
     (case GetByID s accountID of
        Inl e \<Rightarrow> Inl e
      | Inr None \<Rightarrow> Inl ErrNotFound
      | Inr (Some account) \<Rightarrow>
          (case profileFor s accountID of
             Inl e \<Rightarrow> Inl e
           | Inr b \<Rightarrow> Inr (b\<lparr>sb_Timezone := ClockTimezone account\<rparr>)))"

definition Update ::
  "instant \<Rightarrow> store \<Rightarrow> uuid \<Rightarrow> UpdateSendingBehavior \<Rightarrow> SendingBehavior answer \<times> store" where
  "Update now s accountID patch =
     (case Get s accountID of
        Inl e \<Rightarrow> (Inl e, s)
      | Inr current \<Rightarrow>
          let next_b = (Apply patch current)\<lparr>sb_EmailAccountID := accountID\<rparr>
          in case Validate next_b of
               Some verr \<Rightarrow> (Inl (Invalid verr), s)
             | None \<Rightarrow>
                 (case UpsertBehavior now s next_b of
                    (Inl e, s') \<Rightarrow> (Inl e, s')
                  | (Inr saved, s') \<Rightarrow> (Inr (saved\<lparr>sb_Timezone := sb_Timezone current\<rparr>), s')))"

section \<open>Resolved\<close>

record Resolved =
  rs_Enabled :: bool
  rs_Behavior :: SendingBehavior
  rs_Loc :: location
  rs_accountID :: uuid
  rs_svc :: bool
  rs_cache :: "(string \<Rightarrow> DailyPlan option) option"
  rs_warmupDays :: int

definition NewStandalone :: "SendingBehavior \<Rightarrow> location option \<Rightarrow> Resolved" where
  "NewStandalone b loc =
     \<lparr>rs_Enabled = sb_Enabled b, rs_Behavior = b,
      rs_Loc = (case loc of None \<Rightarrow> UTC | Some l \<Rightarrow> l),
      rs_accountID = sb_EmailAccountID b, rs_svc = False, rs_cache = None, rs_warmupDays = 0\<rparr>"

definition ForWarmup :: "Resolved \<Rightarrow> int \<Rightarrow> Resolved" where
  "ForWarmup r days = (if rs_Enabled r then r\<lparr>rs_warmupDays := days\<rparr> else r)"

text \<open>
  A plan of a day, read through the cache. Today's plan of a mailbox that opted in is
  the stored one; a failing database costs nothing but that.
\<close>

definition stored_or ::
  "instant \<Rightarrow> Resolved \<Rightarrow> string \<Rightarrow> DailyPlan \<Rightarrow> store \<Rightarrow> DailyPlan \<times> store" where
  "stored_or now r key rolled s =
     (if rs_Enabled r \<and> rs_svc r
         \<and> key = format_date (PlanDateFor \<lparr>g_inst = now, g_loc = UTC\<rparr> (rs_Loc r))
      then case EnsurePlan s rolled of
             (Inr (Some stored), s') \<Rightarrow> (stored, s')
           | (_, s') \<Rightarrow> (rolled, s')
      else (rolled, s))"

definition PlanOn_cold ::
  "instant \<Rightarrow> gtime \<Rightarrow> Resolved \<times> store \<Rightarrow> DailyPlan \<times> Resolved \<times> store" where
  "PlanOn_cold now day rs =
     (let (r, s) = rs; key = format_date day
      in case rs_cache r of
           None \<Rightarrow> (RollPlan (rs_Behavior r) day, r, s)
         | Some cache \<Rightarrow>
             (case cache key of
                Some cached \<Rightarrow> (cached, r, s)
              | None \<Rightarrow>
                  let (plan, s') = stored_or now r key (RollPlan (rs_Behavior r) day) s
                  in (plan, r\<lparr>rs_cache := Some (cache(key \<mapsto> plan))\<rparr>, s')))"

definition warmup_plan :: "Resolved \<Rightarrow> gtime \<Rightarrow> DailyPlan \<Rightarrow> DailyPlan" where
  "warmup_plan r day plan =
     (if \<not> has_weekday (word_of_int (rs_warmupDays r)) (weekday_of day)
      then plan\<lparr>dp_IsWorkingDay := False\<rparr>
      else if \<not> dp_IsWorkingDay plan
      then RollPlan ((rs_Behavior r)\<lparr>sb_Weekdays := rs_warmupDays r\<rparr>) day
      else plan)"

definition PlanOn ::
  "instant \<Rightarrow> gtime \<Rightarrow> Resolved \<times> store \<Rightarrow> DailyPlan \<times> Resolved \<times> store" where
  "PlanOn now day rs =
     (if 0 < rs_warmupDays (fst rs)
      then let (plan, rs') = PlanOn_cold now day rs in (warmup_plan (fst rs) day plan, rs')
      else PlanOn_cold now day rs)"

text \<open>\<open>NextOpen\<close> over a planner that keeps a state, as \<open>Resolved.PlanOn\<close> does.\<close>

fun NextOpen_loop_st ::
  "nat \<Rightarrow> bool \<Rightarrow> gtime \<Rightarrow> location \<Rightarrow> (gtime \<Rightarrow> 'st \<Rightarrow> DailyPlan \<times> 'st) \<Rightarrow> 'st
     \<Rightarrow> (gtime \<times> DailyPlan) option \<times> 'st" where
  "NextOpen_loop_st 0 is_first cur loc planner st = (None, st)"
| "NextOpen_loop_st (Suc n) is_first cur loc planner st =
     (let day = PlanDateFor cur loc;
          (plan, st) = planner day st;
          minute = (if is_first then MinuteOfDay cur loc else 0)
      in case NextOpenMinute plan minute of
           Some open' \<Rightarrow>
             if is_first \<and> open' = minute then (Some (cur, plan), st)
             else (Some (AtMinute day open', plan), st)
         | None \<Rightarrow> NextOpen_loop_st n False (add_days day 1) loc planner st)"

definition Resolved_NextOpen ::
  "instant \<Rightarrow> gtime \<Rightarrow> Resolved \<times> store \<Rightarrow> (gtime \<times> DailyPlan) option \<times> Resolved \<times> store" where
  "Resolved_NextOpen now from_t rs =
     NextOpen_loop_st searchDays True (in_loc from_t (rs_Loc (fst rs))) (rs_Loc (fst rs))
       (PlanOn now) rs"

text \<open>The zero value of a profile, which a failed lookup leaves in the \<open>Resolved\<close>.\<close>

definition zero_behavior :: SendingBehavior where
  "zero_behavior = \<lparr>
     sb_EmailAccountID = replicate 16 0, sb_Enabled = False,
     sb_DailyLimitMin = 0, sb_DailyLimitMax = 0, sb_HourlyLimitMin = 0, sb_HourlyLimitMax = 0,
     sb_GapMinSeconds = 0, sb_GapMaxSeconds = 0, sb_WorkStartMin = 0, sb_WorkStartMax = 0,
     sb_WorkEndMin = 0, sb_WorkEndMax = 0, sb_LunchEnabled = False, sb_LunchEarliest = 0,
     sb_LunchLatest = 0, sb_LunchMinMinutes = 0, sb_LunchMaxMinutes = 0, sb_Weekdays = 0,
     sb_Timezone = [], sb_CreatedAt = zero_time, sb_UpdatedAt = zero_time\<rparr>"

definition Resolve :: "tzdb \<Rightarrow> store \<Rightarrow> Email \<Rightarrow> Resolved" where
  "Resolve tzdb s account =
     (let r = \<lparr>rs_Enabled = False, rs_Behavior = zero_behavior, rs_Loc = UTC,
               rs_accountID = em_ID account, rs_svc = True, rs_cache = Some (\<lambda>_. None),
               rs_warmupDays = 0\<rparr>
      in case profileFor s (em_ID account) of
           Inl _ \<Rightarrow> r
         | Inr b \<Rightarrow>
             let b' = b\<lparr>sb_Timezone := ClockTimezone account\<rparr>
             in r\<lparr>rs_Behavior := b', rs_Loc := loadLocation tzdb (ClockTimezone account),
                  rs_Enabled := sb_Enabled b'\<rparr>)"

text \<open>
  The batch: one profile read for the pool, each zone loaded once. The map of loaded
  locations is \<open>locs\<close>; of two accounts with one id the later entry stands.
\<close>

fun ResolveMany_loop ::
  "tzdb \<Rightarrow> (uuid \<Rightarrow> SendingBehavior option) \<Rightarrow> Email list \<Rightarrow> (string \<Rightarrow> location option)
     \<Rightarrow> (uuid \<Rightarrow> Resolved option) \<Rightarrow> (uuid \<Rightarrow> Resolved option)" where
  "ResolveMany_loop tzdb stored [] locs out = out"
| "ResolveMany_loop tzdb stored (a # accounts) locs out =
     (let zone = ClockTimezone a;
          (loc, locs) = (case locs zone of
             Some loc \<Rightarrow> (loc, locs)
           | None \<Rightarrow> let loc = loadLocation tzdb zone in (loc, locs(zone \<mapsto> loc)));
          b = (case stored (em_ID a) of Some b \<Rightarrow> b | None \<Rightarrow> DefaultSendingBehavior (em_ID a));
          b = b\<lparr>sb_Timezone := zone\<rparr>
      in ResolveMany_loop tzdb stored accounts locs (out(em_ID a \<mapsto>
           \<lparr>rs_Enabled = sb_Enabled b, rs_Behavior = b, rs_Loc = loc, rs_accountID = em_ID a,
            rs_svc = True, rs_cache = Some (\<lambda>_. None), rs_warmupDays = 0\<rparr>)))"

definition ResolveMany :: "tzdb \<Rightarrow> store \<Rightarrow> Email list \<Rightarrow> (uuid \<Rightarrow> Resolved option)" where
  "ResolveMany tzdb s accounts =
     (if accounts = [] then (\<lambda>_. None)
      else
        let stored = (case GetBehaviors s (map em_ID accounts) of
                        Inl _ \<Rightarrow> (\<lambda>_. None) | Inr m \<Rightarrow> m)
        in ResolveMany_loop tzdb stored accounts (\<lambda>_. None) (\<lambda>_. None))"

section \<open>What is left of a budget\<close>

definition localDayRange :: "gtime \<Rightarrow> location \<Rightarrow> gtime \<times> gtime" where
  "localDayRange t loc = (let start = PlanDateFor t loc in (start, add_days start 1))"

definition countSends :: "store \<Rightarrow> uuid \<Rightarrow> gtime \<times> gtime \<Rightarrow> int answer" where
  "countSends s accountID rg =
     CountSendsBetween s accountID ''campaign'' (g_inst (fst rg)) (g_inst (snd rg))"

definition sentInRange :: "store \<Rightarrow> uuid \<Rightarrow> gtime \<times> gtime \<Rightarrow> int" where
  "sentInRange s accountID rg =
     (case countSends s accountID rg of Inl _ \<Rightarrow> unlimited | Inr n \<Rightarrow> n)"

definition RemainingToday ::
  "instant \<Rightarrow> Resolved \<times> store \<Rightarrow> gtime \<Rightarrow> int \<times> Resolved \<times> store" where
  "RemainingToday now rs t =
     (if \<not> rs_Enabled (fst rs) then (unlimited, rs)
      else
        let (plan, r, s) = PlanOn now (PlanDateFor t (rs_Loc (fst rs))) rs
        in if \<not> dp_IsWorkingDay plan then (0, r, s)
           else
             let remaining = dp_DailyLimit plan
                   - sentInRange s (rs_accountID r) (localDayRange t (rs_Loc r))
             in (if remaining < 0 then 0 else remaining, r, s))"

definition RemainingThisHour ::
  "instant \<Rightarrow> Resolved \<times> store \<Rightarrow> gtime \<Rightarrow> int \<times> Resolved \<times> store" where
  "RemainingThisHour now rs t =
     (if \<not> rs_Enabled (fst rs) then (unlimited, rs)
      else
        let (plan, r, s) = PlanOn now (PlanDateFor t (rs_Loc (fst rs))) rs
        in if \<not> dp_IsWorkingDay plan then (0, r, s)
           else
             let remaining = dp_HourlyLimit plan
                   - sentInRange s (rs_accountID r) (HourWindow t (rs_Loc r))
             in (if remaining < 0 then 0 else remaining, r, s))"

record DailyPlanView =
  dv_DailyPlan :: DailyPlan
  dv_SentToday :: int
  dv_RemainingToday :: int
  dv_Behavior :: SendingBehavior

definition Today ::
  "tzdb \<Rightarrow> instant \<Rightarrow> store \<Rightarrow> uuid \<Rightarrow> DailyPlanView answer \<times> store" where
  "Today tzdb now s accountID =
     (case GetByID s accountID of
        Inl e \<Rightarrow> (Inl e, s)
      | Inr None \<Rightarrow> (Inl ErrNotFound, s)
      | Inr (Some account) \<Rightarrow>
          let r = Resolve tzdb s account; t = \<lparr>g_inst = now, g_loc = UTC\<rparr>;
              (plan, r, s') = PlanOn now (PlanDateFor t (rs_Loc r)) (r, s)
          in case countSends s' accountID (localDayRange t (rs_Loc r)) of
               Inl e \<Rightarrow> (Inl e, s')
             | Inr sent \<Rightarrow>
                 let remaining = dp_DailyLimit plan - sent
                 in (Inr \<lparr>dv_DailyPlan = plan, dv_SentToday = sent,
                          dv_RemainingToday = (if remaining < 0 then 0 else remaining),
                          dv_Behavior = rs_Behavior r\<rparr>, s'))"

section \<open>Updates\<close>

lemma Get_ok:
  assumes "profiles_valid s" "Get s i = Inr b"
  shows "sb_EmailAccountID b = i"
  using assms
  by (auto simp: Get_def profileFor_def GetBehavior_def answered_def profiles_valid_def
      DefaultSendingBehavior_def split: sum.splits option.splits)

text \<open>
  Claim C16. No update stores a profile the validator refuses, whatever the patch: the
  profiles of the store stay valid and filed under their mailbox; an accepted update
  answers a valid profile with the settings that were stored and touches no other
  mailbox, and a refused one leaves the store as it was.
\<close>

theorem update_stores_valid:
  assumes "profiles_valid s"
  shows "case Update now s i patch of
      (Inl _, s') \<Rightarrow> s' = s
    | (Inr b, s') \<Rightarrow> profiles_valid s' \<and> Validate b = None \<and> sb_EmailAccountID b = i
        \<and> st_behaviors s' = (st_behaviors s)(i \<mapsto> b\<lparr>sb_Timezone := []\<rparr>)
        \<and> (\<exists>cur. Get s i = Inr cur \<and> sb_Timezone b = sb_Timezone cur
             \<and> sb_DailyLimitMax b = set_opt (up_DailyLimitMax patch) (sb_DailyLimitMax cur)
             \<and> sb_Weekdays b = set_opt (up_Weekdays patch) (sb_Weekdays cur))"
proof (cases "Get s i")
  case (Inl e)
  then show ?thesis by (simp add: Update_def)
next
  case (Inr cur)
  let ?n = "(Apply patch cur)\<lparr>sb_EmailAccountID := i\<rparr>"
  show ?thesis
  proof (cases "Validate ?n")
    case (Some e)
    then show ?thesis using Inr by (simp add: Update_def Let_def)
  next
    case None
    have v: "profiles_valid (snd (UpsertBehavior now s ?n))"
      by (rule profiles_valid_upsert [OF assms None])
    show ?thesis
    proof (cases "st_faults s QUpsertBehavior")
      case (Some e)
      then show ?thesis using Inr None by (simp add: Update_def Let_def UpsertBehavior_def)
    next
      case ok: None
      define row where "row = upsert_row now (st_behaviors s i) ?n"
      have "row\<lparr>sb_Timezone := []\<rparr> = row"
        by (simp add: row_def upsert_row_def split: option.splits)
      moreover have "sb_DailyLimitMax row = sb_DailyLimitMax ?n" "sb_Weekdays row = sb_Weekdays ?n"
        by (simp_all add: row_def upsert_row_def split: option.splits)
      moreover have "Update now s i patch = (Inr (row\<lparr>sb_Timezone := sb_Timezone cur\<rparr>),
          s\<lparr>st_behaviors := (st_behaviors s)(i \<mapsto> row)\<rparr>)"
        using Inr None ok by (simp add: Update_def Let_def UpsertBehavior_def row_def)
      moreover have "profiles_valid (s\<lparr>st_behaviors := (st_behaviors s)(i \<mapsto> row)\<rparr>)"
        using v ok by (simp add: UpsertBehavior_def Let_def row_def)
      moreover have "Validate row = None" "sb_EmailAccountID row = i"
        using None by (simp_all add: row_def)
      ultimately show ?thesis
        using Inr by (simp add: Apply_def)
    qed
  qed
qed

text \<open>A store with one mailbox, no rows and no faults, for the witnesses.\<close>

definition one_mailbox :: "uuid \<Rightarrow> store" where
  "one_mailbox i =
     \<lparr>st_accounts = [i \<mapsto> \<lparr>em_ID = i, em_Timezone = ''UTC'', em_OrgTimezone = []\<rparr>],
      st_behaviors = Map.empty, st_plans = [], st_tasks = [], st_dispatch_task_ids = [],
      st_faults = (\<lambda>_. None)\<rparr>"

definition no_patch :: UpdateSendingBehavior where
  "no_patch = \<lparr>up_Enabled = None, up_DailyLimitMin = None, up_DailyLimitMax = None,
     up_HourlyLimitMin = None, up_HourlyLimitMax = None, up_GapMinSeconds = None,
     up_GapMaxSeconds = None, up_WorkStartMin = None, up_WorkStartMax = None,
     up_WorkEndMin = None, up_WorkEndMax = None, up_LunchEnabled = None,
     up_LunchEarliest = None, up_LunchLatest = None, up_LunchMinMinutes = None,
     up_LunchMaxMinutes = None, up_Weekdays = None\<rparr>"

lemma profiles_valid_one_mailbox: "profiles_valid (one_mailbox i)"
  by (simp add: profiles_valid_def one_mailbox_def)

text \<open>A limit above the ceiling is refused and stored nowhere.\<close>

theorem update_stores_valid_witness:
  "(let (r, s') = Update 0 (one_mailbox [7]) [7] (no_patch\<lparr>up_DailyLimitMax := Some 501\<rparr>)
    in isl r \<and> s' = one_mailbox [7])"
proof -
  let ?u = "Update 0 (one_mailbox [7]) [7] (no_patch\<lparr>up_DailyLimitMax := Some 501\<rparr>)"
  have "isl (fst ?u)"
    by (simp add: Update_def Get_def GetByID_def profileFor_def GetBehavior_def answered_def
        one_mailbox_def Let_def Validate_def fail_def Apply_def set_opt_def no_patch_def
        DefaultSendingBehavior_def)
  then show ?thesis
    using update_stores_valid [OF profiles_valid_one_mailbox [of "[7]"], where now = 0 and i = "[7]"
        and patch = "no_patch\<lparr>up_DailyLimitMax := Some 501\<rparr>"]
    by (auto simp: split: prod.splits sum.splits)
qed

section \<open>One plan for each day\<close>

text \<open>A roll depends on the day's date and zone name only.\<close>

lemma RollPlan_day_cong:
  assumes "format_date d = format_date d'" "g_loc d = g_loc d'"
  shows "RollPlan b d = RollPlan b d'"
  using format_date_inj [OF assms(1)] assms
  by (simp add: RollPlan_def weekday_of_def)

lemma stored_or_other:
  assumes "key \<noteq> key'"
  shows "fst (stored_or now r key p (snd (stored_or now r key' q s))) = fst (stored_or now r key p s)"
  using assms by (auto simp: stored_or_def)

text \<open>What a call keeps of the \<open>Resolved\<close>, and that it changes no other answer.\<close>

lemma PlanOn_cold_keeps [simp]:
  "rs_Enabled (fst (snd (PlanOn_cold now d rs))) = rs_Enabled (fst rs)"
  "rs_Behavior (fst (snd (PlanOn_cold now d rs))) = rs_Behavior (fst rs)"
  "rs_Loc (fst (snd (PlanOn_cold now d rs))) = rs_Loc (fst rs)"
  "rs_accountID (fst (snd (PlanOn_cold now d rs))) = rs_accountID (fst rs)"
  "rs_svc (fst (snd (PlanOn_cold now d rs))) = rs_svc (fst rs)"
  "rs_warmupDays (fst (snd (PlanOn_cold now d rs))) = rs_warmupDays (fst rs)"
  by (auto simp: PlanOn_cold_def Let_def split: option.splits prod.splits)

lemma snd_PlanOn: "snd (PlanOn now d rs) = snd (PlanOn_cold now d rs)"
  by (simp add: PlanOn_def split: prod.splits)

lemma fst_PlanOn: "fst (PlanOn now d rs) =
    (if 0 < rs_warmupDays (fst rs) then warmup_plan (fst rs) d (fst (PlanOn_cold now d rs))
     else fst (PlanOn_cold now d rs))"
  by (simp add: PlanOn_def split: prod.splits)

lemma stored_or_resolved [simp]: "stored_or now (r\<lparr>rs_cache := c\<rparr>) = stored_or now r"
  by (intro ext) (simp add: stored_or_def)

lemma fst_PlanOn_cold: "fst (PlanOn_cold now d (r, s)) =
    (case rs_cache r of
       None \<Rightarrow> RollPlan (rs_Behavior r) d
     | Some c \<Rightarrow>
         (case c (format_date d) of
            Some p \<Rightarrow> p
          | None \<Rightarrow> fst (stored_or now r (format_date d) (RollPlan (rs_Behavior r) d) s)))"
  by (simp add: PlanOn_cold_def Let_def split: option.splits prod.splits)

lemma PlanOn_cold_stable:
  assumes "g_loc d = g_loc d'"
  shows "fst (PlanOn_cold now d' (snd (PlanOn_cold now d rs))) = fst (PlanOn_cold now d' rs)"
proof -
  obtain r s where rs: "rs = (r, s)" by (cases rs)
  let ?k = "format_date d" and ?k' = "format_date d'"
  let ?p = "RollPlan (rs_Behavior r) d"
  show ?thesis
  proof (cases "rs_cache r")
    case None
    then show ?thesis by (simp add: PlanOn_cold_def rs)
  next
    case (Some c)
    show ?thesis
    proof (cases "c ?k")
      case hit: (Some p)
      then show ?thesis using Some by (simp add: PlanOn_cold_def rs Let_def)
    next
      case None
      obtain p s' where p: "stored_or now r ?k ?p s = (p, s')" by fastforce
      have st: "snd (PlanOn_cold now d rs) = (r\<lparr>rs_cache := Some (c(?k \<mapsto> p))\<rparr>, s')"
        using Some None p by (simp add: PlanOn_cold_def rs Let_def)
      show ?thesis
      proof (cases "?k' = ?k")
        case True
        then have "RollPlan (rs_Behavior r) d' = ?p" using assms by (intro RollPlan_day_cong) simp_all
        then show ?thesis
          unfolding st using True Some None p by (simp add: PlanOn_cold_def rs Let_def)
      next
        case False
        then have "fst (stored_or now r ?k' q s') = fst (stored_or now r ?k' q s)" for q
          using stored_or_other [of ?k' ?k now r q ?p s] p by simp
        then show ?thesis
          unfolding st using False Some
          by (cases "c ?k'") (simp_all add: rs fst_PlanOn_cold)
      qed
    qed
  qed
qed

lemma PlanOn_stable:
  "g_loc d = g_loc d' \<Longrightarrow> fst (PlanOn now d' (snd (PlanOn now d rs))) = fst (PlanOn now d' rs)"
  by (simp add: fst_PlanOn snd_PlanOn PlanOn_cold_stable warmup_plan_def)

lemma NextOpen_loop_cong:
  assumes "\<And>d. g_loc d = loc \<Longrightarrow> p d = q d"
  shows "NextOpen_loop n first cur loc p = NextOpen_loop n first cur loc q"
proof -
  have "g_loc (PlanDateFor t loc) = loc" for t
    by (simp add: PlanDateFor_def split: prod.splits)
  then show ?thesis
    using assms by (induction n arbitrary: first cur) (auto simp: Let_def split: option.splits)
qed

text \<open>
  A search over a planner that keeps a state is the search over the plans it answers,
  when no answer changes another.
\<close>

lemma NextOpen_loop_st_pure:
  assumes stable: "\<And>d d' st. g_loc d = loc \<Longrightarrow> g_loc d' = loc \<Longrightarrow>
      fst (planner d' (snd (planner d st))) = fst (planner d' st)"
  shows "fst (NextOpen_loop_st n first cur loc planner st)
    = NextOpen_loop n first cur loc (\<lambda>d. fst (planner d st))"
proof (induction n arbitrary: first cur st)
  case (Suc n)
  have l: "g_loc (PlanDateFor cur loc) = loc" by (simp add: PlanDateFor_def split: prod.splits)
  obtain plan st' where p: "planner (PlanDateFor cur loc) st = (plan, st')" by fastforce
  have "fst (planner d st') = fst (planner d st)" if "g_loc d = loc" for d
    using stable [OF l that, of st] p by simp
  then have "NextOpen_loop n f c loc (\<lambda>d. fst (planner d st'))
      = NextOpen_loop n f c loc (\<lambda>d. fst (planner d st))" for f c
    by (intro NextOpen_loop_cong)
  then show ?case using p Suc.IH by (simp add: Let_def split: option.splits)
qed simp

lemma Resolved_NextOpen_pure:
  "fst (Resolved_NextOpen now from_t rs)
     = NextOpen from_t (rs_Loc (fst rs)) (\<lambda>day. fst (PlanOn now day rs))"
  unfolding Resolved_NextOpen_def NextOpen_def
  by (rule NextOpen_loop_st_pure) (simp add: PlanOn_stable)

text \<open>
  \<open>Resolved.NextOpen\<close>, which reads and stores plans as it goes, answers what
  the plain search answers over the plans \<open>PlanOn\<close> gives for the state it started in.
\<close>

theorem resolved_next_open_pure:
  "fst (Resolved_NextOpen now from_t rs)
     = NextOpen from_t (rs_Loc (fst rs)) (\<lambda>day. fst (PlanOn now day rs))"
  by (rule Resolved_NextOpen_pure)

text \<open>What the planner's calls keep, the search keeps.\<close>

lemma NextOpen_loop_st_keeps:
  assumes "\<And>d st. Q st \<Longrightarrow> g_loc d = loc \<Longrightarrow> Q (snd (planner d st))"
  shows "Q st \<Longrightarrow> Q (snd (NextOpen_loop_st n first cur loc planner st))"
proof (induction n arbitrary: first cur st)
  case (Suc n)
  have "g_loc (PlanDateFor cur loc) = loc" by (simp add: PlanDateFor_def split: prod.splits)
  then have "Q (snd (planner (PlanDateFor cur loc) st))" using assms Suc.prems by blast
  then show ?case using Suc.IH by (auto simp: Let_def split: prod.splits option.splits)
qed simp

section \<open>The bounds of every plan a scheduler sees\<close>

definition plan_ok :: "DailyPlan \<Rightarrow> bool" where
  "plan_ok p \<longleftrightarrow>
     0 \<le> dp_WorkStartMinute p \<and> dp_WorkEndMinute p \<le> 1440
     \<and> 0 \<le> dp_DailyLimit p \<and> dp_DailyLimit p \<le> 500
     \<and> 0 \<le> dp_HourlyLimit p \<and> dp_HourlyLimit p \<le> 200"

text \<open>The plans at hand: the profile is valid, and so are the cached and the stored plans.\<close>

definition plans_ok :: "Resolved \<times> store \<Rightarrow> bool" where
  "plans_ok rs \<longleftrightarrow>
     Validate (rs_Behavior (fst rs)) = None
     \<and> rs_warmupDays (fst rs) \<le> 127
     \<and> (case rs_cache (fst rs) of None \<Rightarrow> True | Some c \<Rightarrow> \<forall>k. pred_option plan_ok (c k))
     \<and> list_all (\<lambda>e. plan_ok (snd e)) (st_plans (snd rs))"

lemma plan_ok_roll [bound_intros]:
  assumes "Validate b = None"
  shows "plan_ok (RollPlan b day)"
proof (cases "WorksOn b (weekday_of day)")
  case True
  then show ?thesis
    using RollPlan_window [OF assms, of day] RollPlan_limits [OF assms True] Validate_None [OF assms]
    by (simp add: plan_ok_def)
next
  case False
  have "dp_DailyLimit (RollPlan b day) = 0 \<and> dp_HourlyLimit (RollPlan b day) = 0"
    by (rule RollPlan_draws [of b day]) (simp add: Let_def False)
  then show ?thesis
    using RollPlan_window [OF assms, of day] Validate_None [OF assms] by (simp add: plan_ok_def)
qed

lemma Validate_weekdays:
  assumes "Validate b = None" "0 < d" "d \<le> 127"
  shows "Validate (b\<lparr>sb_Weekdays := d\<rparr>) = None"
  using assms by (simp add: Validate_iff)

lemma map_of_ok: "list_all (\<lambda>e. P (snd e)) xs \<Longrightarrow> map_of xs k = Some v \<Longrightarrow> P v"
  by (fastforce simp: list_all_iff dest: map_of_SomeD)

lemma EnsurePlan_ok:
  assumes "plan_ok p" "list_all (\<lambda>e. plan_ok (snd e)) (st_plans s)"
  shows "list_all (\<lambda>e. plan_ok (snd e)) (st_plans (snd (EnsurePlan s p)))"
  using assms by (simp add: EnsurePlan_def Let_def insert_plan_def split: option.splits)

lemma stored_or_ok:
  assumes "plan_ok p" "list_all (\<lambda>e. plan_ok (snd e)) (st_plans s)"
  shows "plan_ok (fst (stored_or now r key p s))"
    "list_all (\<lambda>e. plan_ok (snd e)) (st_plans (snd (stored_or now r key p s)))"
proof -
  obtain a s' where e: "EnsurePlan s p = (a, s')" by fastforce
  have s': "list_all (\<lambda>e. plan_ok (snd e)) (st_plans s')"
    using EnsurePlan_ok [OF assms] e by simp
  have q: "plan_ok q" if "a = Inr (Some q)" for q
    using EnsurePlan_answer(2) [of s p "Some q"] map_of_ok [OF s'] that e by simp
  show "plan_ok (fst (stored_or now r key p s))"
    using assms(1) q by (simp add: stored_or_def e split: sum.splits option.splits)
  show "list_all (\<lambda>e. plan_ok (snd e)) (st_plans (snd (stored_or now r key p s)))"
    using assms(2) s' by (simp add: stored_or_def e split: sum.splits option.splits)
qed

lemma PlanOn_cold_ok:
  assumes "plans_ok rs"
  shows "plan_ok (fst (PlanOn_cold now d rs))" "plans_ok (snd (PlanOn_cold now d rs))"
proof -
  obtain r s where rs: "rs = (r, s)" by (cases rs)
  obtain p s' where q: "stored_or now r (format_date d) (RollPlan (rs_Behavior r) d) s = (p, s')"
    by fastforce
  have roll: "plan_ok (RollPlan (rs_Behavior r) d)"
    using assms by (intro plan_ok_roll) (simp add: plans_ok_def rs)
  have st: "plan_ok p" "list_all (\<lambda>e. plan_ok (snd e)) (st_plans s')"
    using stored_or_ok [OF roll, of s now r "format_date d"] assms by (simp_all add: plans_ok_def rs q)
  have "plan_ok (fst (PlanOn_cold now d rs)) \<and> plans_ok (snd (PlanOn_cold now d rs))"
  proof (cases "rs_cache r")
    case None
    then show ?thesis using assms roll by (simp add: PlanOn_cold_def rs Let_def)
  next
    case (Some c)
    then have c: "pred_option plan_ok (c k)" for k using assms by (simp add: plans_ok_def rs)
    show ?thesis
    proof (cases "c (format_date d)")
      case hit: (Some p)
      then show ?thesis
        using assms Some c [of "format_date d"] by (simp add: PlanOn_cold_def rs Let_def)
    next
      case None
      have "\<forall>k. pred_option plan_ok ((c(format_date d \<mapsto> p)) k)" using c st(1) by simp
      then show ?thesis
        using assms Some None st by (simp add: PlanOn_cold_def rs Let_def plans_ok_def q)
    qed
  qed
  then show "plan_ok (fst (PlanOn_cold now d rs))" "plans_ok (snd (PlanOn_cold now d rs))"
    by blast+
qed

lemma PlanOn_ok [bound_intros]:
  assumes "plans_ok rs"
  shows "plan_ok (fst (PlanOn now d rs))" "plans_ok (snd (PlanOn now d rs))"
proof -
  have v: "Validate (rs_Behavior (fst rs)) = None" "rs_warmupDays (fst rs) \<le> 127"
    using assms by (simp_all add: plans_ok_def)
  have "plan_ok (RollPlan ((rs_Behavior (fst rs))\<lparr>sb_Weekdays := rs_warmupDays (fst rs)\<rparr>) d)"
    if "0 < rs_warmupDays (fst rs)"
    using v that by (intro plan_ok_roll Validate_weekdays)
  moreover have "plan_ok (p\<lparr>dp_IsWorkingDay := x\<rparr>) = plan_ok p" for p x
    by (simp add: plan_ok_def)
  ultimately show "plan_ok (fst (PlanOn now d rs))"
    using PlanOn_cold_ok(1) [OF assms, of now d] by (simp add: fst_PlanOn warmup_plan_def)
  show "plans_ok (snd (PlanOn now d rs))"
    using PlanOn_cold_ok(2) [OF assms] by (simp add: snd_PlanOn)
qed

text \<open>So the search over the plans of a mailbox is a search over a planner.\<close>

lemma PlanOn_planner:
  assumes "plans_ok rs"
  shows "day_planner (\<lambda>day. fst (PlanOn now day rs))"
proof
  fix day k
  assume "Contains (fst (PlanOn now day rs)) k"
  then show "0 \<le> k \<and> k < 1440"
    using PlanOn_ok(1) [OF assms, of now day] by (simp add: Contains_def plan_ok_def)
qed

text \<open>
  Claim C30. Every plan a scheduler is given, for a day of either kind of mail, is inside
  the fixed bounds of a profile, and the plans it leaves in the cache and in the store
  are too; so are the ones of every later call.
\<close>

theorem plan_on_bounded:
  assumes "plans_ok rs"
  shows "plan_ok (fst (PlanOn now day rs)) \<and> plans_ok (snd (PlanOn now day rs))"
  using PlanOn_ok [OF assms] by blast

theorem plan_on_bounded_witness:
  "plan_ok (fst (PlanOn 0 \<lparr>g_inst = 0, g_loc = UTC\<rparr>
     (NewStandalone (DefaultSendingBehavior []) None, one_mailbox [7])))"
proof -
  have "plans_ok (NewStandalone (DefaultSendingBehavior []) None, one_mailbox [7])"
    by (simp add: plans_ok_def NewStandalone_def Validate_Default one_mailbox_def)
  from plan_on_bounded [OF this] show ?thesis by blast
qed

section \<open>The plan of a day is decided once\<close>

text \<open>
  What happens to the store between two passes: customers change and delete profiles,
  other passes store plans, mail is sent, the database fails or recovers, and old plans
  are purged, but not yet those of the day in question.
\<close>

inductive store_step :: "string \<Rightarrow> store \<Rightarrow> store \<Rightarrow> bool" for date :: string where
  update: "store_step date s (snd (Update now s i patch))"
| delete: "store_step date s (snd (DeleteBehavior s i))"
| ensure: "store_step date s (snd (EnsurePlan s p))"
| sends: "store_step date s (s\<lparr>st_tasks := ts, st_dispatch_task_ids := ds\<rparr>)"
| faults: "store_step date s (s\<lparr>st_faults := f\<rparr>)"
| purge: "read_digits 0 (format_date t) \<le> read_digits 0 date \<Longrightarrow>
    store_step date s (snd (PurgePlansBefore s t))"

inductive_cases store_stepE: "store_step date s s'"

lemma Update_plans [simp]: "st_plans (snd (Update now s i patch)) = st_plans s"
  by (simp add: Update_def UpsertBehavior_def Let_def split: sum.splits option.splits prod.splits)

lemma store_step_keeps:
  "store_step date s s' \<Longrightarrow> map_of (st_plans s) (i, date) = Some p \<Longrightarrow>
     map_of (st_plans s') (i, date) = Some p"
  by (erule store_stepE)
    (auto simp: DeleteBehavior_def EnsurePlan_keeps PurgePlansBefore_keeps split: option.splits)

lemma store_steps_keep:
  "(store_step date)\<^sup>*\<^sup>* s s' \<Longrightarrow> map_of (st_plans s) (i, date) = Some p \<Longrightarrow>
     map_of (st_plans s') (i, date) = Some p"
  by (induction rule: rtranclp_induct) (auto intro: store_step_keeps)

text \<open>A scheduling pass over an opted-in mailbox on the local date \<open>date\<close>, with a fresh cache.\<close>

definition fresh_pass :: "string \<Rightarrow> uuid \<Rightarrow> instant \<Rightarrow> Resolved \<Rightarrow> store \<Rightarrow> bool" where
  "fresh_pass date i now r s \<longleftrightarrow>
     rs_Enabled r \<and> rs_svc r \<and> rs_cache r = Some Map.empty \<and> rs_warmupDays r = 0
     \<and> sb_EmailAccountID (rs_Behavior r) = i
     \<and> format_date (PlanDateFor \<lparr>g_inst = now, g_loc = UTC\<rparr> (rs_Loc r)) = date
     \<and> st_faults s QInsertPlan = None \<and> st_faults s QGetPlan = None"

lemma RollPlan_key [simp]:
  "plan_key (RollPlan b day) = (sb_EmailAccountID b, format_date day)"
  unfolding plan_key_def
  by (rule RollPlan_draws [of b day]) (simp add: Let_def)

lemma fresh_pass_plan:
  assumes "fresh_pass date i now r s" "format_date day = date"
  shows "fst (PlanOn now day (r, s)) = (case map_of (st_plans s) (i, date) of
           None \<Rightarrow> RollPlan (rs_Behavior r) day | Some p \<Rightarrow> p)"
    "map_of (st_plans (snd (snd (PlanOn now day (r, s))))) (i, date)
       = Some (fst (PlanOn now day (r, s)))"
proof -
  let ?p = "RollPlan (rs_Behavior r) day"
  let ?q = "case map_of (st_plans s) (i, date) of None \<Rightarrow> ?p | Some p \<Rightarrow> p"
  have k: "plan_key ?p = (i, date)" using assms by (simp add: fresh_pass_def)
  have "st_faults (insert_plan ?p s) = st_faults s" by (simp add: insert_plan_def)
  then have e: "EnsurePlan s ?p = (Inr (Some ?q), insert_plan ?p s)"
    using assms insert_plan_lookup [of ?p s] k unfolding plan_key_def [of ?p]
    by (simp add: EnsurePlan_def fresh_pass_def GetPlan_def answered_def Let_def)
  have "PlanOn now day (r, s)
      = (?q, r\<lparr>rs_cache := Some [date \<mapsto> ?q]\<rparr>, insert_plan ?p s)"
    using assms e by (simp add: PlanOn_def PlanOn_cold_def stored_or_def fresh_pass_def)
  then show "fst (PlanOn now day (r, s)) = ?q"
    "map_of (st_plans (snd (snd (PlanOn now day (r, s))))) (i, date)
       = Some (fst (PlanOn now day (r, s)))"
    using insert_plan_lookup [of ?p s] k by simp_all
qed



section \<open>Budgets\<close>

text \<open>
  What is left of the day is never negative and never more than the plan's
  limit less what was sent; nothing is left on a day off or when the sends cannot be
  counted; and a profile that is off limits nothing.
\<close>

theorem remaining_today_sound:
  fixes now :: instant and t :: gtime
  assumes "plans_ok rs"
  defines "plan \<equiv> fst (PlanOn now (PlanDateFor t (rs_Loc (fst rs))) rs)"
    and "s' \<equiv> snd (snd (PlanOn now (PlanDateFor t (rs_Loc (fst rs))) rs))"
    and "left \<equiv> fst (RemainingToday now rs t)"
  shows "if \<not> rs_Enabled (fst rs) then left = unlimited
    else 0 \<le> left \<and> left \<le> 500
      \<and> (case countSends s' (rs_accountID (fst rs)) (localDayRange t (rs_Loc (fst rs))) of
           Inl _ \<Rightarrow> left = 0
         | Inr sent \<Rightarrow> left = (if dp_IsWorkingDay plan then max 0 (dp_DailyLimit plan - sent) else 0))"
proof (cases "rs_Enabled (fst rs)")
  case True
  obtain p r s where p: "PlanOn now (PlanDateFor t (rs_Loc (fst rs))) rs = (p, r, s)"
    by (metis prod_cases3)
  have "r = fst (snd (PlanOn_cold now (PlanDateFor t (rs_Loc (fst rs))) rs))"
    using p by (metis fst_conv snd_conv snd_PlanOn)
  then have r: "rs_Loc r = rs_Loc (fst rs)" "rs_accountID r = rs_accountID (fst rs)"
    by simp_all
  have ok: "0 \<le> dp_DailyLimit p" "dp_DailyLimit p \<le> 500"
    using PlanOn_ok(1) [OF assms(1), of now "PlanDateFor t (rs_Loc (fst rs))"] p
    by (simp_all add: plan_ok_def)
  have n: "0 \<le> n" if "countSends s i rg = Inr n" for i rg n
    using that CountSendsBetween_nonneg by (simp add: countSends_def)
  show ?thesis
    using True ok n [of "rs_accountID r" "localDayRange t (rs_Loc r)"] r
    by (auto simp: left_def plan_def s'_def RemainingToday_def p Let_def sentInRange_def
        unlimited_def split: sum.splits)
qed (simp add: left_def RemainingToday_def)

text \<open>A store that cannot count sends leaves an opted-in mailbox nothing.\<close>

theorem remaining_today_sound_witness:
  "fst (RemainingToday 0 (NewStandalone ((DefaultSendingBehavior [7])\<lparr>sb_Enabled := True\<rparr>) None,
      (one_mailbox [7])\<lparr>st_faults := (\<lambda>_. Some ''down'')\<rparr>) \<lparr>g_inst = 0, g_loc = UTC\<rparr>) = 0"
  (is "fst (RemainingToday 0 (?r, ?s) ?t) = 0")
proof -
  have "plans_ok (?r, ?s)"
    using Validate_Default [of "[7]"]
    by (simp add: plans_ok_def NewStandalone_def one_mailbox_def Validate_iff DefaultSendingBehavior_def)
  note this' = remaining_today_sound [OF this, where now = 0 and t = ?t]
  have "snd (snd (PlanOn 0 d (?r, ?s))) = ?s" for d
    by (simp add: PlanOn_def PlanOn_cold_def NewStandalone_def)
  with this' show ?thesis
    by (simp add: countSends_def CountSendsBetween_def answered_def NewStandalone_def)
qed

end
