(* ===== verification/Wall_Clock.thy ===== *)
theory Wall_Clock
  imports Go_Time
begin

text \<open>
  Clock values as text, \<open>internal/models/clock.go\<close>: the reading of \<open>HH:MM\<close> and of what
  the database renders, and the rendering of the form writes accept.

  Text is ASCII here: \<open>strings.TrimSpace\<close> trims the six ASCII spaces.
\<close>

section \<open>The library functions it uses\<close>

definition is_space :: "char \<Rightarrow> bool" where
  "is_space c \<longleftrightarrow> c \<in> {CHR '' '', CHR 0x09, CHR 0x0A, CHR 0x0B, CHR 0x0C, CHR 0x0D}"

definition trim_space :: "string \<Rightarrow> string" where
  "trim_space s = rev (dropWhile is_space (rev (dropWhile is_space s)))"

fun split_on :: "char \<Rightarrow> string \<Rightarrow> string list" where
  "split_on c [] = [[]]"
| "split_on c (x # xs) =
     (if x = c then [] # split_on c xs
      else case split_on c xs of [] \<Rightarrow> [[x]] | p # ps \<Rightarrow> (x # p) # ps)"

definition is_digit :: "char \<Rightarrow> bool" where
  "is_digit c \<longleftrightarrow> 48 \<le> (of_char c :: nat) \<and> (of_char c :: nat) \<le> 57"

text \<open>\<open>strconv.Atoi\<close>: an optional sign, then digits; outside 64 bits it is an error.\<close>

definition atoi :: "string \<Rightarrow> int option" where
  "atoi s =
     (let neg = (s \<noteq> [] \<and> hd s = CHR ''-'');
          ds = (if s \<noteq> [] \<and> (hd s = CHR ''-'' \<or> hd s = CHR ''+'') then tl s else s);
          n = int (read_digits 0 ds); v = (if neg then - n else n)
      in if ds = [] \<or> \<not> list_all is_digit ds then None
         else if v < - (2 ^ 63) \<or> 2 ^ 63 - 1 < v then None
         else Some v)"

section \<open>Reading and rendering\<close>

definition ClockMinutes :: "string \<Rightarrow> int \<Rightarrow> int" where
  "ClockMinutes v fallback =
     (case split_on (CHR '':'') (trim_space v) of
        h # m # _ \<Rightarrow>
          (case atoi h of
             None \<Rightarrow> fallback
           | Some hour \<Rightarrow>
               if hour < 0 \<or> 23 < hour then fallback
               else
                 (case atoi m of
                    None \<Rightarrow> fallback
                  | Some minute \<Rightarrow>
                      if minute < 0 \<or> 59 < minute then fallback else hour * 60 + minute))
      | _ \<Rightarrow> fallback)"

definition ClockHHMM :: "string \<Rightarrow> string" where
  "ClockHHMM v =
     (let m = ClockMinutes v (- 1)
      in if m < 0 then []
         else pad 2 (show_int (m div 60)) @ [CHR '':''] @ pad 2 (show_int (m mod 60)))"

lemma ClockMinutes_range:
  "ClockMinutes v f = f \<or> (0 \<le> ClockMinutes v f \<and> ClockMinutes v f < 1440)"
  by (auto simp: ClockMinutes_def split: list.splits option.splits)

lemma ClockMinutes_fallback:
  "(\<exists>k. 0 \<le> k \<and> k < 1440 \<and> (\<forall>f. ClockMinutes v f = k)) \<or> (\<forall>f. ClockMinutes v f = f)"
proof (cases "split_on (CHR '':'') (trim_space v)")
  case (Cons h ps)
  note h = Cons
  show ?thesis
  proof (cases ps)
    case (Cons m rest)
    consider "atoi h = None" | hr where "atoi h = Some hr" "hr < 0 \<or> 23 < hr"
      | hr where "atoi h = Some hr" "0 \<le> hr" "hr \<le> 23" by force
    then show ?thesis
    proof cases
      case (3 hr)
      consider "atoi m = None" | mi where "atoi m = Some mi" "mi < 0 \<or> 59 < mi"
        | mi where "atoi m = Some mi" "0 \<le> mi" "mi \<le> 59" by force
      then show ?thesis using h Cons 3 by cases (auto simp: ClockMinutes_def)
    qed (auto simp: ClockMinutes_def h Cons)
  qed (simp add: ClockMinutes_def h)
qed (simp add: ClockMinutes_def)

section \<open>A rendered value reads back\<close>

lemma is_digit_digit: "(n::nat) < 10 \<Longrightarrow> is_digit (char_of (48 + n))"
  using digit_char(1) [of n] by (simp add: is_digit_def del: of_char_of)

lemma digits_show_nat: "list_all is_digit (show_nat n)"
proof (induction n rule: show_nat.induct)
  case (1 n)
  then show ?case by (subst show_nat.simps) (simp add: is_digit_digit)
qed

lemma digits_pad: "list_all is_digit s \<Longrightarrow> list_all is_digit (pad w s)"
  by (auto simp: pad_def list_all_iff is_digit_def)

lemma digit_not:
  "is_digit c \<Longrightarrow> c \<noteq> CHR ''-'' \<and> c \<noteq> CHR ''+'' \<and> c \<noteq> CHR '':'' \<and> \<not> is_space c"
  by (auto simp: is_digit_def is_space_def)

lemma atoi_digits:
  assumes "list_all is_digit s" "s \<noteq> []" "read_digits 0 s < 10000"
  shows "atoi s = Some (int (read_digits 0 s))"
proof -
  have "is_digit (hd s)" using assms by (cases s) simp_all
  then have "hd s \<noteq> CHR ''-''" "hd s \<noteq> CHR ''+''" using digit_not by blast+
  then show ?thesis using assms by (simp add: atoi_def Let_def)
qed

lemma atoi_pad2:
  assumes "0 \<le> k" "k < 100"
  shows "atoi (pad 2 (show_int k)) = Some k"
proof -
  have r: "read_digits 0 (pad 2 (show_nat (nat k))) = nat k"
    using read_digits_pad2 [of "nat k" 0] assms by simp
  have "pad 2 (show_nat (nat k)) \<noteq> []" using show_nat_not_Nil by (simp add: pad_def)
  then have "atoi (pad 2 (show_nat (nat k))) = Some (int (nat k))"
    using atoi_digits [of "pad 2 (show_nat (nat k))"] digits_pad [OF digits_show_nat] r assms
    by simp
  then show ?thesis using assms by (simp add: show_int_def)
qed

lemma split_on_digits:
  "list_all is_digit s \<Longrightarrow> split_on (CHR '':'') (s @ CHR '':'' # t) = s # split_on (CHR '':'') t"
  by (induction s) (auto dest: digit_not)

lemma split_on_digits_end: "list_all is_digit s \<Longrightarrow> split_on (CHR '':'') s = [s]"
  by (induction s) (auto dest: digit_not)

lemma trim_space_digits:
  assumes "list_all is_digit s" "s \<noteq> []" "list_all is_digit t" "t \<noteq> []"
  shows "trim_space (s @ u @ t) = s @ u @ t"
proof -
  have "dropWhile is_space (s @ x) = s @ x" for x
    using assms(1,2) by (cases s) (auto dest: digit_not)
  moreover have "dropWhile is_space (rev t @ x) = rev t @ x" for x
    using assms(3,4) by (cases "rev t") (auto simp: list_all_iff dest!: digit_not split: list.splits)
  ultimately show ?thesis by (simp add: trim_space_def)
qed

lemma ClockMinutes_rendered:
  assumes "0 \<le> m" "m < 1440"
  shows "ClockMinutes (pad 2 (show_int (m div 60)) @ [CHR '':''] @ pad 2 (show_int (m mod 60))) f = m"
proof -
  let ?h = "pad 2 (show_int (m div 60))" and ?m = "pad 2 (show_int (m mod 60))"
  have r: "0 \<le> m div 60" "m div 60 \<le> 23" "0 \<le> m mod 60" "m mod 60 \<le> 59"
    using assms by (simp_all add: zdiv_mono1 [of m 1439 60, simplified])
  have d: "list_all is_digit (pad 2 (show_int k))" "pad 2 (show_int k) \<noteq> []" if "0 \<le> k" for k
    using that digits_pad [OF digits_show_nat] show_nat_not_Nil
    by (simp_all add: show_int_def pad_def)
  have "split_on (CHR '':'') (trim_space (?h @ [CHR '':''] @ ?m)) = [?h, ?m]"
    using d(1) [OF r(1)] d(1) [OF r(3)]
    unfolding trim_space_digits [OF d [OF r(1)] d [OF r(3)]]
    by (simp add: split_on_digits split_on_digits_end)
  moreover have "atoi ?h = Some (m div 60)" "atoi ?m = Some (m mod 60)"
    using r by (simp_all add: atoi_pad2)
  ultimately have "ClockMinutes (?h @ [CHR '':''] @ ?m) f =
      (if m div 60 < 0 \<or> 23 < m div 60 then f
       else if m mod 60 < 0 \<or> 59 < m mod 60 then f else m div 60 * 60 + m mod 60)"
    by (simp only: ClockMinutes_def list.case option.case)
  also have "\<dots> = m" unfolding not_le [symmetric] using r by (simp only: simp_thms if_False div_mult_mod_eq)
  finally show ?thesis .
qed

text \<open>
  Claim C31. A clock value in any form that can be read, the database's rendering with
  seconds included, renders to a value that reads as the same minute; one that cannot
  be read renders to nothing.
\<close>

theorem clock_roundtrip:
  "ClockMinutes (ClockHHMM v) f = ClockMinutes v f \<and> (ClockHHMM v = [] \<or> 0 \<le> ClockMinutes v f \<and> ClockMinutes v f < 1440)"
proof -
  have e: "ClockMinutes [] f = f"
    by (simp add: ClockMinutes_def trim_space_def)
  from ClockMinutes_fallback [of v] show ?thesis
  proof
    assume "\<exists>k. 0 \<le> k \<and> k < 1440 \<and> (\<forall>f. ClockMinutes v f = k)"
    then obtain k where k: "0 \<le> k" "k < 1440" "\<And>f. ClockMinutes v f = k" by blast
    then show ?thesis using ClockMinutes_rendered [OF k(1,2)] by (simp add: ClockHHMM_def)
  next
    assume "\<forall>f. ClockMinutes v f = f"
    then show ?thesis using e by (simp add: ClockHHMM_def)
  qed
qed

end
