(* ===== verification/Go_Duration.thy ===== *)
theory Go_Duration
  imports Go_Time Go_Float
begin

text \<open>
  Durations read as floating-point numbers, package \<open>time\<close>: the whole units first, then
  the rest as a fraction, each step rounded.
\<close>

definition units_of :: "duration \<Rightarrow> duration \<Rightarrow> rat" where
  "units_of u d = fadd (f_of (tdiv d u)) (fdiv (f_of (tmod d u)) (of_int u))"

abbreviation hours_of :: "duration \<Rightarrow> rat" where "hours_of \<equiv> units_of Hour"
abbreviation minutes_of :: "duration \<Rightarrow> rat" where "minutes_of \<equiv> units_of Minute"
abbreviation seconds_of :: "duration \<Rightarrow> rat" where "seconds_of \<equiv> units_of Second"

text \<open>
  On durations of few enough units the reading is monotone and agrees with the exact value at
  whole units; every duration is short enough for that in hours, minutes and seconds.
\<close>

lemma units_of_bounds:
  assumes u: "0 < u" "u < 2 ^ 53" and d: "0 \<le> d" "d div u < 2 ^ 52"
  shows "of_int (d div u) \<le> units_of u d" "units_of u d \<le> of_int (d div u + 1)"
proof -
  let ?q = "d div u" and ?r = "d mod u"
  have q: "0 \<le> ?q" "0 \<le> ?r" "?r < u" using u d by (simp_all add: pos_imp_zdiv_nonneg_iff)
  have fr: "f_of ?r = of_int ?r" by (rule f_of_int) (use q u in linarith)
  have "(2::int) ^ 52 < 2 ^ 53" by simp
  then have fq: "f_of ?q = of_int ?q" by (intro f_of_int) (use q(1) d(2) in linarith)
  have "?r \<le> u" using q(3) by linarith
  then have "of_int ?r \<le> (of_int u :: rat)" by (rule of_int_le_iff [THEN iffD2])
  then have le1: "of_int ?r / (of_int u :: rat) \<le> of_int 1" using u(1) by simp
  have "0 \<le> fdiv (of_int ?r) (of_int u)" "fdiv (of_int ?r) (of_int u) \<le> of_int 1"
    unfolding fdiv_def using q u le1 by (auto intro!: f64.rnd_nonneg f64.rnd_le_int simp del: of_int_1)
  then show "of_int ?q \<le> units_of u d" "units_of u d \<le> of_int (?q + 1)"
    using u d q unfolding units_of_def fadd_def
    by (auto simp: fr fq intro!: f64.rnd_ge_int f64.rnd_le_int simp del: of_int_add of_int_1)
qed

lemma units_of_mono:
  assumes u: "0 < u" "u < 2 ^ 53" and d: "0 \<le> d" "d \<le> e" "e div u < 2 ^ 52"
  shows "units_of u d \<le> units_of u e"
proof -
  have qe: "d div u \<le> e div u" using u d by (simp add: zdiv_mono1)
  have e0: "0 \<le> e" using d by simp
  show ?thesis
  proof (cases "d div u = e div u")
    case True
    have "e div u * u + e mod u = e" "d div u * u + d mod u = d" by simp_all
    then have "d mod u \<le> e mod u" using True d(2) by (metis add_le_cancel_left)
    then show ?thesis
      using u d e0 unfolding units_of_def fadd_def fdiv_def
      by (auto simp: True intro!: f64.rnd_mono divide_right_mono f_of_mono)
  next
    case False
    then have "d div u + 1 \<le> e div u" using qe by simp
    moreover have "units_of u d \<le> of_int (d div u + 1)"
      using u d qe by (intro units_of_bounds) simp_all
    moreover have "of_int (e div u) \<le> units_of u e" using u d e0 by (intro units_of_bounds) simp_all
    ultimately show ?thesis by (meson of_int_le_iff order_trans)
  qed
qed

end
