(* ===== verification/Schedule_Windows.thy ===== *)
theory Schedule_Windows
  imports Behavior_Service Wall_Clock Go_Duration
begin

text \<open>
  The sending windows of a campaign: \<open>TimeInterval\<close> and \<open>ScheduleWindows\<close> of
  \<open>internal/models/campaign.go\<close>, their validator in \<open>internal/utils/validate/campaign.go\<close>,
  and the search for the next instant inside one, with the fixed business-hours band,
  of \<open>internal/scheduler/helpers.go\<close> and \<open>service.go\<close>.

  A schedule is a list of seven days, Sunday first, as the array of the code is.
\<close>

section \<open>Windows\<close>

record TimeInterval =
  iv_Start :: int
  iv_End :: int

type_synonym ScheduleWindows = "TimeInterval list list"

definition empty_windows :: ScheduleWindows where
  "empty_windows = replicate 7 []"

definition IsEmpty :: "ScheduleWindows \<Rightarrow> bool" where
  "IsEmpty w = list_all (\<lambda>day. day = []) w"

fun span_of :: "int \<Rightarrow> int \<Rightarrow> TimeInterval list \<Rightarrow> int \<times> int" where
  "span_of start end' [] = (start, end')"
| "span_of start end' (iv # ivs) =
     span_of (if iv_Start iv < start then iv_Start iv else start)
       (if end' < iv_End iv then iv_End iv else end') ivs"

definition DaySpan :: "ScheduleWindows \<Rightarrow> int \<Rightarrow> (int \<times> int) option" where
  "DaySpan w weekday =
     (if weekday < 0 \<or> 6 < weekday then None
      else case w ! nat weekday of
             [] \<Rightarrow> None
           | iv # ivs \<Rightarrow> Some (span_of (iv_Start iv) (iv_End iv) ivs))"

definition CampaignScheduleWindows :: "ScheduleWindows option \<Rightarrow> string option" where
  "CampaignScheduleWindows w =
     (case w of
        None \<Rightarrow> None
      | Some w \<Rightarrow>
          (case find (\<lambda>day. 8 < length day
                 \<or> list_ex (\<lambda>iv. iv_Start iv < 0 \<or> 1440 < iv_End iv \<or> iv_End iv \<le> iv_Start iv) day) w of
             None \<Rightarrow> None
           | Some day \<Rightarrow>
               Some (if 8 < length day then ''a day may have at most 8 sending windows''
                     else ''invalid sending window: 0 <= start < end <= 1440'')))"

text \<open>The part of a campaign its schedule is read from.\<close>

record CampaignSchedule =
  cs_Timezone :: string
  cs_EffectiveTimezone :: string
  cs_Days :: byte
  cs_StartTime :: string
  cs_EndTime :: string
  cs_ScheduleWindows :: ScheduleWindows

definition campaign_ClockTimezone :: "'a CampaignSchedule_scheme \<Rightarrow> string" where
  "campaign_ClockTimezone c =
     (if cs_Timezone c \<noteq> [] then cs_Timezone c
      else if cs_EffectiveTimezone c \<noteq> [] then cs_EffectiveTimezone c else ''UTC'')"

definition parseTimeOfDay :: "string \<Rightarrow> int" where
  "parseTimeOfDay s = ClockMinutes s 0"

definition effectiveWindows :: "'a CampaignSchedule_scheme \<Rightarrow> ScheduleWindows" where
  "effectiveWindows c =
     (if \<not> IsEmpty (cs_ScheduleWindows c) then cs_ScheduleWindows c
      else
        let start = parseTimeOfDay (cs_StartTime c); end' = parseTimeOfDay (cs_EndTime c)
        in if end' \<le> start then empty_windows
           else foldl (\<lambda>sw b.
                  if cs_Days c = 0 \<or> bit (cs_Days c) b
                  then sw[(b + 1) mod 7 := [\<lparr>iv_Start = start, iv_End = end'\<rparr>]] else sw)
                empty_windows [0..<7])"

section \<open>The next slot\<close>

text \<open>
  \<open>wallClockAt\<close>: the local reading of the resolved instant and the wanted one, both laid
  out as UTC, say on which side of a gap it fell. \<open>None\<close> is \<open>ok = false\<close>.
\<close>

definition wallClockAt :: "int \<Rightarrow> int \<Rightarrow> int \<Rightarrow> int \<Rightarrow> location \<Rightarrow> gtime option" where
  "wallClockAt y m d minute tz =
     (let t = go_date y m d (tdiv minute 60) (tmod minute 60) 0 0 tz;
          (ly, lm, ld) = civil (in_loc t tz);
          got = go_date ly lm ld (hour_of (in_loc t tz)) (minute_of (in_loc t tz)) 0 0 UTC;
          want = go_date y m d (tdiv minute 60) (tmod minute 60) 0 0 UTC;
          (start, end') = zone_bounds t;
          t = (if after got want then start else if before got want then end' else t)
      in if civil (in_loc t tz) \<noteq> (y, m, d) then None else Some t)"

text \<open>The second pass of a repeated hour: an instant before \<open>from\<close> is moved by the step back.\<close>

definition second_pass :: "gtime \<Rightarrow> gtime \<Rightarrow> gtime" where
  "second_pass from_t t =
     (if before t from_t
      then let before_off = offset_at (g_loc t) (unix_of t);
               end' = snd (zone_bounds t);
               after_off = offset_at (g_loc end') (unix_of end')
           in add_dur t ((before_off - after_off) * Second)
      else t)"

fun day_slot ::
  "gtime \<Rightarrow> bool \<Rightarrow> int \<Rightarrow> int \<times> int \<times> int \<Rightarrow> location \<Rightarrow> TimeInterval list \<Rightarrow> gtime option" where
  "day_slot from_t today nowMin ymd tz [] = None"
| "day_slot from_t today nowMin ymd tz (iv # ivs) =
     (if today \<and> iv_End iv \<le> nowMin then day_slot from_t today nowMin ymd tz ivs
      else if today \<and> iv_Start iv \<le> nowMin then Some from_t
      else case ymd of (dy, dm, dd) \<Rightarrow>
        (case wallClockAt dy dm dd (iv_Start iv) tz of
           None \<Rightarrow> day_slot from_t today nowMin ymd tz ivs
         | Some t \<Rightarrow>
             let t = second_pass from_t t
             in if before t from_t
                   \<or> iv_End iv \<le> hour_of (in_loc t tz) * 60 + minute_of (in_loc t tz)
                then day_slot from_t today nowMin ymd tz ivs
                else Some t))"

text \<open>
  The walk over the days. Sorting intervals by their start leaves equal starts in any
  order in the code; \<open>sort_key\<close> keeps the given one.
\<close>

fun slot_loop ::
  "nat \<Rightarrow> nat \<Rightarrow> gtime \<Rightarrow> int \<Rightarrow> int \<times> int \<times> int \<Rightarrow> ScheduleWindows \<Rightarrow> location \<Rightarrow> gtime option" where
  "slot_loop 0 i from_t nowMin ymd sw tz = None"
| "slot_loop (Suc n) i from_t nowMin ymd sw tz =
     (case ymd of (y, m, d) \<Rightarrow>
        let day = go_date y m (d + int i) 12 0 0 0 tz
        in case day_slot from_t (i = 0) nowMin (civil day) tz
                  (sort_key iv_Start (sw ! nat (weekday_of day))) of
             Some t \<Rightarrow> Some t
           | None \<Rightarrow> slot_loop n (i + 1) from_t nowMin ymd sw tz)"

definition nextScheduleSlot :: "gtime \<Rightarrow> ScheduleWindows \<Rightarrow> location \<Rightarrow> gtime" where
  "nextScheduleSlot from_t sw tz =
     (if IsEmpty sw then from_t
      else
        let local = in_loc from_t tz
        in case slot_loop 8 0 from_t (hour_of local * 60 + minute_of local) (civil local) sw tz of
             Some t \<Rightarrow> t
           | None \<Rightarrow> add_days from_t 8)"

section \<open>Days and bands\<close>

fun valid_day_loop :: "nat \<Rightarrow> gtime \<Rightarrow> byte \<Rightarrow> gtime option" where
  "valid_day_loop 0 candidate mask' = None"
| "valid_day_loop (Suc n) candidate mask' =
     (if has_weekday mask' (weekday_of candidate) then Some candidate
      else valid_day_loop n (add_days candidate 1) mask')"

definition findNextValidDay :: "gtime \<Rightarrow> byte \<Rightarrow> location \<Rightarrow> gtime" where
  "findNextValidDay from_t daysBitmask tz =
     (if daysBitmask = 0 then from_t
      else case valid_day_loop 7 (in_loc from_t tz) daysBitmask of
             Some candidate \<Rightarrow> candidate
           | None \<Rightarrow> from_t)"

definition ensureTimeWindow :: "gtime \<Rightarrow> string \<Rightarrow> string \<Rightarrow> location \<Rightarrow> gtime" where
  "ensureTimeWindow t startTime endTime tz =
     (let start = parseTimeOfDay startTime; end' = parseTimeOfDay endTime
      in if start = 0 \<and> end' = 0 then t
         else
           let tLocal = in_loc t tz;
               minutesOfDay = hour_of tLocal * 60 + minute_of tLocal
           in case civil tLocal of (y, m, d) \<Rightarrow>
                if minutesOfDay < start then go_date y m d (tdiv start 60) (tmod start 60) 0 0 tz
                else if end' < minutesOfDay
                then go_date y m (d + 1) (tdiv start 60) (tmod start 60) 0 0 tz
                else t)"

definition ensureBusinessHours :: "tzdb \<Rightarrow> gtime \<Rightarrow> string \<Rightarrow> gtime" where
  "ensureBusinessHours tzdb t timezone =
     ensureTimeWindow t ''08:00'' ''20:00'' (loadLocation tzdb timezone)"

definition businessHoursReopen :: "gtime \<Rightarrow> location \<Rightarrow> gtime" where
  "businessHoursReopen t loc =
     (let local = in_loc t loc
      in case civil local of (y, m, d) \<Rightarrow>
           let open' = go_date y m d 8 0 0 0 loc
           in if 20 \<le> hour_of local then add_days open' 1 else open')"

text \<open>What is left of the band, in hours, and the first slot of tomorrow.\<close>

definition hours_until :: "gtime \<Rightarrow> int \<Rightarrow> location \<Rightarrow> rat" where
  "hours_until now' endMinutes loc =
     (let now' = in_loc now' loc
      in case civil now' of (y, m, d) \<Rightarrow>
           let endOfDay = go_date y m d (tdiv endMinutes 60) (tmod endMinutes 60) 0 0 loc
           in if after now' endOfDay then 0
              else max 0 (hours_of (tsub (g_inst endOfDay) (g_inst now'))))"

definition calculateHoursRemainingUntil :: "tzdb \<Rightarrow> gtime \<Rightarrow> string \<Rightarrow> string \<Rightarrow> rat" where
  "calculateHoursRemainingUntil tzdb now' timezone endTime =
     (let endMinutes = parseTimeOfDay endTime
      in hours_until now' (if endMinutes = 0 then 20 * 60 else endMinutes) (loadLocation tzdb timezone))"

definition calculateBusinessHoursRemaining :: "tzdb \<Rightarrow> gtime \<Rightarrow> string \<Rightarrow> rat" where
  "calculateBusinessHoursRemaining tzdb now' timezone =
     hours_until now' (20 * 60) (loadLocation tzdb timezone)"

definition convertToAccountTimezone :: "tzdb \<Rightarrow> gtime \<Rightarrow> string \<Rightarrow> string \<Rightarrow> gtime" where
  "convertToAccountTimezone tzdb t campaignTZ accountTZ =
     (let local = in_loc t (loadLocation tzdb campaignTZ)
      in case civil local of (y, m, d) \<Rightarrow>
           go_date y m d (hour_of local) (minute_of local) (second_of local) 0
             (loadLocation tzdb accountTZ))"

section \<open>Minutes counted from the epoch\<close>

text \<open>
  In a location without transitions local time is one line of minutes: the instant a
  minute begins, the minute of an instant, and the order between the two.
\<close>

definition minute_at :: "location \<Rightarrow> int \<Rightarrow> gtime" where
  "minute_at loc M = \<lparr>g_inst = (M * 60 - loc_base loc) * Second, g_loc = loc\<rparr>"

definition minute_index :: "location \<Rightarrow> gtime \<Rightarrow> int" where
  "minute_index loc t = local_secs (in_loc t loc) div 60"

lemma minute_index_day: "minute_index loc t div 1440 = local_day_in t loc"
  by (simp add: minute_index_def local_day_in_def local_day_def flip: zdiv_zmult2_eq)

lemma minute_index_minute: "minute_index loc t mod 1440 = MinuteOfDay t loc"
proof -
  define x where "x = local_secs (in_loc t loc)"
  have "x mod 86400 = 60 * (x div 60 mod 1440) + x mod 60"
    using zmod_zmult2_eq [of 1440 x 60] by simp
  then have "x mod 86400 div 60 = x div 60 mod 1440" by simp
  then show ?thesis by (simp add: minute_index_def MinuteOfDay_eq x_def)
qed

lemma minute_index_le:
  assumes "loc_tx loc = []"
  shows "minute_index loc t \<le> M \<longleftrightarrow> g_inst t < g_inst (minute_at loc (M + 1))"
proof -
  let ?u = "g_inst t div Second"
  have "minute_index loc t \<le> M \<longleftrightarrow> (?u + loc_base loc) div 60 < M + 1"
    using assms by (simp add: minute_index_def local_secs_def unix_of_def)
  also have "\<dots> \<longleftrightarrow> ?u + loc_base loc < (M + 1) * 60" by (rule int_div_less_iff) simp
  also have "\<dots> \<longleftrightarrow> ?u < (M + 1) * 60 - loc_base loc" by linarith
  also have "\<dots> \<longleftrightarrow> g_inst t < ((M + 1) * 60 - loc_base loc) * Second"
    by (rule int_div_less_iff) simp
  finally show ?thesis by (simp add: minute_at_def)
qed

lemma minute_index_less:
  "loc_tx loc = [] \<Longrightarrow> minute_index loc t < M \<longleftrightarrow> g_inst t < g_inst (minute_at loc M)"
  using minute_index_le [of loc t "M - 1"] by simp

lemma minute_index_mono:
  "loc_tx loc = [] \<Longrightarrow> g_inst t \<le> g_inst u \<Longrightarrow> minute_index loc t \<le> minute_index loc u"
  by (simp add: minute_index_def local_secs_def unix_of_def zdiv_mono1)

lemma minute_index_at [simp]: "loc_tx loc = [] \<Longrightarrow> minute_index loc (minute_at loc M) = M"
  by (simp add: minute_index_def minute_at_def local_secs_def unix_of_def)

lemma g_loc_minute_at [simp]: "g_loc (minute_at loc M) = loc"
  by (simp add: minute_at_def)

text \<open>
  The earliest instant of a set of minutes, from its first minute that is not before
  the one \<open>from\<close> lies in.
\<close>

lemma earliest_minute:
  assumes f: "loc_tx loc = []" and M: "minute_index loc from_t \<le> M" "P M"
    and first: "\<And>j. minute_index loc from_t \<le> j \<Longrightarrow> j < M \<Longrightarrow> \<not> P j"
  defines "r \<equiv> if M = minute_index loc from_t then from_t else minute_at loc M"
  shows "g_inst from_t \<le> g_inst r" "P (minute_index loc r)"
    "g_inst from_t \<le> g_inst u \<Longrightarrow> g_inst u < g_inst r \<Longrightarrow> \<not> P (minute_index loc u)"
proof -
  show "P (minute_index loc r)" using M(2) f by (cases "M = minute_index loc from_t") (simp_all add: r_def)
  show "g_inst from_t \<le> g_inst r"
    using M(1) minute_index_less [OF f, of from_t M] by (auto simp: r_def)
  assume u: "g_inst from_t \<le> g_inst u" "g_inst u < g_inst r"
  then have "M \<noteq> minute_index loc from_t" by (auto simp: r_def)
  then have "minute_index loc u < M" using u(2) f by (simp add: r_def minute_index_less)
  then show "\<not> P (minute_index loc u)" using first minute_index_mono [OF f u(1)] by blast
qed

section \<open>The slot is the earliest open instant\<close>

definition in_window :: "ScheduleWindows \<Rightarrow> int \<Rightarrow> bool" where
  "in_window sw M \<longleftrightarrow>
     list_ex (\<lambda>iv. iv_Start iv \<le> M mod 1440 \<and> M mod 1440 < iv_End iv)
       (sw ! nat (weekday_of_days (M div 1440)))"

definition interval_ok :: "TimeInterval \<Rightarrow> bool" where
  "interval_ok iv \<longleftrightarrow> 0 \<le> iv_Start iv \<and> iv_Start iv < iv_End iv \<and> iv_End iv \<le> 1440"

lemma validated_intervals:
  assumes "CampaignScheduleWindows (Some sw) = None" "day \<in> set sw" "iv \<in> set day"
  shows "interval_ok iv"
  using assms
  by (fastforce simp: CampaignScheduleWindows_def interval_ok_def find_None_iff list_ex_iff not_le
      not_less split: option.splits)

lemma wallClockAt_fixed:
  assumes f: "loc_tx tz = []" and n: "civil_of_days n = (y, m, d)" and k: "0 \<le> k" "k < 1440"
  shows "wallClockAt y m d k tz = Some (minute_at tz (n * 1440 + k))"
proof -
  let ?t = "minute_at tz (n * 1440 + k)"
  have c: "civil (midnight n tz) = (y, m, d)" using n f by (simp add: civil_def)
  have k2: "k div 60 * 3600 + k mod 60 * 60 = k * 60"
    using mult_div_mod_eq [of 60 k] by linarith
  then have t: "go_date y m d (k div 60) (k mod 60) 0 0 tz = ?t"
    using go_date_wall_fixed0 [OF f c] f by (simp add: minute_at_def add.assoc algebra_simps)
  have ls: "local_secs (in_loc ?t tz) = n * 86400 + k * 60"
    using f by (simp add: local_secs_def minute_at_def unix_of_def algebra_simps)
  have md: "(n * 86400 + k * 60) div 86400 = n" "(n * 86400 + k * 60) mod 86400 = k * 60"
    using k by (auto intro: int_div_pos_eq int_mod_pos_eq)
  have civ: "civil (in_loc ?t tz) = (y, m, d)"
    using n by (simp add: civil_def local_day_def ls md)
  have "hour_of (in_loc ?t tz) = k div 60"
    using zdiv_zmult2_eq [of 60 "k * 60" 60] by (simp only: hour_of_def ls md)
  moreover have "minute_of (in_loc ?t tz) = k mod 60"
  proof -
    have "n * 86400 + k * 60 = 3600 * (n * 24) + k * 60" by simp
    then have "(n * 86400 + k * 60) mod 3600 = k * 60 mod 3600" by (metis mod_mult_self4)
    then show ?thesis
      using mult_mod_left [of k 60 60] by (simp add: minute_of_def ls)
  qed
  ultimately show ?thesis
    using k by (simp add: wallClockAt_def t civ after_def before_def Let_def split: prod.split)
qed

lemma second_pass_id: "g_inst f \<le> g_inst t \<Longrightarrow> second_pass f t = t"
  by (simp add: second_pass_def before_def)

text \<open>What one day offers, of sorted and valid intervals: its first minute that is left.\<close>

definition holds :: "TimeInterval list \<Rightarrow> int \<Rightarrow> bool" where
  "holds ivs k \<longleftrightarrow> list_ex (\<lambda>iv. iv_Start iv \<le> k \<and> k < iv_End iv) ivs"

lemma holds_simps [simp]:
  "\<not> holds [] k" "holds (iv # ivs) k \<longleftrightarrow> iv_Start iv \<le> k \<and> k < iv_End iv \<or> holds ivs k"
  by (simp_all add: holds_def)

lemma holds_sort_key [simp]: "holds (sort_key f ivs) k \<longleftrightarrow> holds ivs k"
  by (simp add: holds_def list_ex_iff)

lemma holds_start: "holds ivs k \<Longrightarrow> sorted (map iv_Start (iv # ivs)) \<Longrightarrow> iv_Start iv \<le> k"
  by (induction ivs) auto

lemma minute_at_hour:
  assumes f: "loc_tx tz = []" and k: "0 \<le> k" "k < 1440"
  shows "hour_of (in_loc (minute_at tz (n * 1440 + k)) tz) * 60
    + minute_of (in_loc (minute_at tz (n * 1440 + k)) tz) = k"
proof -
  have "MinuteOfDay (minute_at tz (n * 1440 + k)) tz = (n * 1440 + k) mod 1440"
    using f by (simp flip: minute_index_minute)
  also have "\<dots> = k" using k by (simp add: mod_pos_pos_trivial)
  finally show ?thesis by (simp add: MinuteOfDay_def)
qed

lemma day_slot_later:
  assumes f: "loc_tx tz = []" and n: "civil_of_days n = (y, m, d)" "minute_index tz from_t < n * 1440"
    and iv: "interval_ok iv"
  shows "day_slot from_t False now' (y, m, d) tz (iv # ivs)
    = Some (minute_at tz (n * 1440 + iv_Start iv))"
proof -
  have k: "0 \<le> iv_Start iv" "iv_Start iv < 1440" "iv_Start iv < iv_End iv"
    using iv by (simp_all add: interval_ok_def)
  let ?t = "minute_at tz (n * 1440 + iv_Start iv)"
  have "g_inst from_t \<le> g_inst ?t"
    using n(2) k(1) minute_index_less [OF f, of from_t "n * 1440 + iv_Start iv"] by simp
  then show ?thesis
    using k minute_at_hour [OF f k(1,2), of n]
    by (simp add: wallClockAt_fixed [OF f n(1) k(1,2)] second_pass_id before_def Let_def)
qed

lemma day_slot_today:
  assumes f: "loc_tx tz = []" and n: "civil_of_days n = (y, m, d)"
    and now': "minute_index tz from_t = n * 1440 + now'" "0 \<le> now'"
  shows "\<forall>iv\<in>set ivs. interval_ok iv \<Longrightarrow> sorted (map iv_Start ivs) \<Longrightarrow>
    case day_slot from_t True now' (y, m, d) tz ivs of
      None \<Rightarrow> \<forall>k\<ge>now'. \<not> holds ivs k
    | Some t \<Rightarrow> \<exists>k\<ge>now'. holds ivs k \<and> (\<forall>j\<ge>now'. j < k \<longrightarrow> \<not> holds ivs j)
        \<and> t = (if k = now' then from_t else minute_at tz (n * 1440 + k))"
proof (induction ivs)
  case (Cons iv ivs)
  have k: "0 \<le> iv_Start iv" "iv_Start iv < 1440" "iv_Start iv < iv_End iv"
    using Cons.prems by (simp_all add: interval_ok_def)
  consider "iv_End iv \<le> now'" | "iv_Start iv \<le> now'" "now' < iv_End iv" | "now' < iv_Start iv"
    by linarith
  then show ?case
  proof cases
    case 1
    have "\<not> (iv_Start iv \<le> j \<and> j < iv_End iv)" if "now' \<le> j" for j using 1 that by simp
    then show ?thesis
      using Cons 1 by (auto split: option.splits)
  next
    case 2
    then show ?thesis by (auto intro!: exI [of _ now'])
  next
    case 3
    let ?t = "minute_at tz (n * 1440 + iv_Start iv)"
    have "g_inst from_t \<le> g_inst ?t"
      using 3 now' minute_index_less [OF f, of from_t "n * 1440 + iv_Start iv"] by simp
    then have "day_slot from_t True now' (y, m, d) tz (iv # ivs) = Some ?t"
      using 3 k minute_at_hour [OF f k(1,2), of n]
      by (simp add: wallClockAt_fixed [OF f n(1) k(1,2)] second_pass_id before_def Let_def)
    moreover have "\<not> holds (iv # ivs) j" if "j < iv_Start iv" for j
      using holds_start [of ivs j iv] Cons.prems(2) that by auto
    ultimately show ?thesis using 3 k by (auto intro!: exI [of _ "iv_Start iv"])
  qed
qed simp

definition day_of :: "ScheduleWindows \<Rightarrow> int \<Rightarrow> TimeInterval list" where
  "day_of sw n = sw ! nat (weekday_of_days n)"

lemma in_window_day: "in_window sw M \<longleftrightarrow> holds (day_of sw (M div 1440)) (M mod 1440)"
  by (simp add: in_window_def holds_def day_of_def)

lemma noon_fixed:
  assumes "loc_tx tz = []" "civil t = (y, m, d)" "local_day t = n"
  shows "civil (go_date y m (d + i) 12 0 0 0 tz) = civil_of_days (n + i)"
    "weekday_of (go_date y m (d + i) 12 0 0 0 tz) = weekday_of_days (n + i)"
proof -
  have "local_secs (go_date y m (d + i) 12 0 0 0 tz) = (n + i) * 86400 + 43200"
    using assms by (simp add: local_secs_go_date_fixed wall_secs_civil)
  then have "local_day (go_date y m (d + i) 12 0 0 0 tz) = n + i"
    by (simp add: local_day_def int_div_pos_eq)
  then show "civil (go_date y m (d + i) 12 0 0 0 tz) = civil_of_days (n + i)"
    "weekday_of (go_date y m (d + i) 12 0 0 0 tz) = weekday_of_days (n + i)"
    by (simp_all add: civil_def weekday_of_def)
qed

lemma slot_loop_step:
  assumes "loc_tx tz = []" "civil (in_loc from_t tz) = (y, m, d)" "local_day_in from_t tz = n"
  shows "slot_loop (Suc k) i from_t now' (y, m, d) sw tz =
    (case day_slot from_t (i = 0) now' (civil_of_days (n + int i)) tz
            (sort_key iv_Start (day_of sw (n + int i))) of
       Some t \<Rightarrow> Some t
     | None \<Rightarrow> slot_loop k (i + 1) from_t now' (y, m, d) sw tz)"
  using noon_fixed [OF assms(1,2), of n] assms(3)
  by (simp add: local_day_in_def day_of_def)

text \<open>The schedule: every day's intervals are valid, and there are seven days.\<close>

definition schedule_ok :: "ScheduleWindows \<Rightarrow> bool" where
  "schedule_ok sw \<longleftrightarrow> length sw = 7 \<and> CampaignScheduleWindows (Some sw) = None"

lemma schedule_day_ok: "schedule_ok sw \<Longrightarrow> iv \<in> set (day_of sw n) \<Longrightarrow> interval_ok iv"
proof -
  assume a: "schedule_ok sw" "iv \<in> set (day_of sw n)"
  have "nat (weekday_of_days n) < length sw"
    using a(1) weekday_range [of n] by (simp add: schedule_ok_def)
  then have "day_of sw n \<in> set sw" by (simp add: day_of_def)
  then show "interval_ok iv"
    using a validated_intervals unfolding schedule_ok_def by blast
qed

lemma minute_index_now:
  "minute_index tz t = local_day_in t tz * 1440 + MinuteOfDay t tz"
  using mult_div_mod_eq [of 1440 "minute_index tz t"]
  unfolding minute_index_day minute_index_minute by linarith

lemma day_offers_start:
  assumes "schedule_ok sw" "sort_key iv_Start (day_of sw n) = iv # ivs"
  shows "0 \<le> iv_Start iv" "iv_Start iv < 1440" "holds (day_of sw n) (iv_Start iv)"
    "j < iv_Start iv \<Longrightarrow> \<not> holds (day_of sw n) j"
proof -
  have iv: "iv \<in> set (day_of sw n)" by (metis assms(2) list.set_intros(1) set_sort)
  have ok: "interval_ok iv" by (rule schedule_day_ok [OF assms(1) iv])
  have h: "holds (day_of sw n) k \<longleftrightarrow> holds (iv # ivs) k" for k
    using holds_sort_key [of iv_Start "day_of sw n" k] assms(2) by simp
  have so: "sorted (map iv_Start (iv # ivs))" unfolding assms(2) [symmetric] by simp
  show "0 \<le> iv_Start iv" "iv_Start iv < 1440" "holds (day_of sw n) (iv_Start iv)"
    using ok unfolding h by (simp_all add: interval_ok_def)
  show "j < iv_Start iv \<Longrightarrow> \<not> holds (day_of sw n) j"
    using holds_start [of ivs j iv] so unfolding h by auto
qed

lemma slot_loop_later:
  assumes f: "loc_tx tz = []" and sw: "schedule_ok sw"
    and l: "civil (in_loc from_t tz) = (y, m, d)" "local_day_in from_t tz = n"
  shows "0 < i \<Longrightarrow> case slot_loop k i from_t now' (y, m, d) sw tz of
      None \<Rightarrow> \<forall>l. n + int i \<le> l \<and> l < n + int i + int k \<longrightarrow> day_of sw l = []
    | Some t \<Rightarrow> \<exists>n' s. n + int i \<le> n' \<and> 0 \<le> s \<and> s < 1440 \<and> t = minute_at tz (n' * 1440 + s)
        \<and> holds (day_of sw n') s \<and> (\<forall>j. j < s \<longrightarrow> \<not> holds (day_of sw n') j)
        \<and> (\<forall>l. n + int i \<le> l \<and> l < n' \<longrightarrow> day_of sw l = [])"
proof (induction k arbitrary: i)
  case (Suc k)
  let ?n = "n + int i"
  show ?case
  proof (cases "sort_key iv_Start (day_of sw ?n)")
    case Nil
    then have e: "day_of sw ?n = []" by (metis set_empty set_sort)
    have step: "slot_loop (Suc k) i from_t now' (y, m, d) sw tz
        = slot_loop k (i + 1) from_t now' (y, m, d) sw tz"
      unfolding slot_loop_step [OF f l] Nil by simp
    have j: "?n \<le> j \<Longrightarrow> day_of sw j = [] \<or> n + int (i + 1) \<le> j" for j
      using e by (cases "j = ?n") auto
    show ?thesis
    proof (cases "slot_loop k (i + 1) from_t now' (y, m, d) sw tz")
      case None
      then show ?thesis using Suc.IH [of "i + 1"] j unfolding step by fastforce
    next
      case (Some t)
      then obtain n' s where *: "n + int (i + 1) \<le> n'" "0 \<le> s" "s < 1440"
        "t = minute_at tz (n' * 1440 + s)" "holds (day_of sw n') s"
        "\<forall>j. j < s \<longrightarrow> \<not> holds (day_of sw n') j"
        "\<forall>l. n + int (i + 1) \<le> l \<and> l < n' \<longrightarrow> day_of sw l = []"
        using Suc.IH [of "i + 1"] by auto
      have e': "\<forall>l. ?n \<le> l \<and> l < n' \<longrightarrow> day_of sw l = []" using j *(7) by blast
      show ?thesis
        unfolding step Some option.case by (rule exI [of _ n'], rule exI [of _ s], insert * e', simp)
    qed
  next
    case (Cons iv ivs)
    obtain y' m' d' where c: "civil_of_days ?n = (y', m', d')" by (metis prod_cases3)
    note o = day_offers_start [OF sw Cons]
    have "interval_ok iv"
      using schedule_day_ok [OF sw] Cons by (metis list.set_intros(1) set_sort)
    moreover have "minute_index tz from_t < ?n * 1440"
      using Suc.prems l(2) MinuteOfDay_range [of from_t tz] by (simp add: minute_index_now)
    ultimately have "slot_loop (Suc k) i from_t now' (y, m, d) sw tz
        = Some (minute_at tz (?n * 1440 + iv_Start iv))"
      using Suc.prems
      unfolding slot_loop_step [OF f l] Cons c by (simp add: day_slot_later [OF f c] del: day_slot.simps)
    then show ?thesis
      unfolding option.case
      by (simp only: option.case, rule_tac exI [of _ ?n], rule_tac exI [of _ "iv_Start iv"], insert o,
          auto simp del: slot_loop.simps)
  qed
qed auto

lemma some_day:
  assumes "length sw = 7" "\<not> IsEmpty sw"
  shows "\<exists>l. n < l \<and> l \<le> n + 7 \<and> day_of sw l \<noteq> []"
proof -
  obtain w where w: "w < 7" "sw ! w \<noteq> []"
    using assms by (auto simp: IsEmpty_def list_all_iff in_set_conv_nth)
  let ?l = "n + 1 + (int w - (n + 5)) mod 7"
  have "weekday_of_days ?l = (n + 5 + (int w - (n + 5)) mod 7) mod 7"
    by (simp add: weekday_of_days_def algebra_simps)
  also have "\<dots> = int w" using w(1) by (simp add: mod_add_right_eq mod_pos_pos_trivial)
  finally have "day_of sw ?l \<noteq> []" using w(2) by (simp add: day_of_def)
  moreover have "0 \<le> (int w - (n + 5)) mod 7" "(int w - (n + 5)) mod 7 < 7" by simp_all
  ultimately show ?thesis by (intro exI [of _ ?l]) linarith
qed

lemma nextScheduleSlot_earliest:
  fixes from_t :: gtime
  assumes "loc_tx tz = []" "schedule_ok sw" "\<not> IsEmpty sw"
  defines "r \<equiv> nextScheduleSlot from_t sw tz"
  shows "g_inst from_t \<le> g_inst r \<and> in_window sw (minute_index tz r)
    \<and> (\<forall>u. g_inst from_t \<le> g_inst u \<and> g_inst u < g_inst r \<longrightarrow> \<not> in_window sw (minute_index tz u))"
proof -
  note f = assms(1)
  obtain y m d where c: "civil (in_loc from_t tz) = (y, m, d)" by (metis prod_cases3)
  let ?n = "local_day_in from_t tz" and ?m = "MinuteOfDay from_t tz"
  let ?N = "minute_index tz from_t"
  have N: "?N = ?n * 1440 + ?m" by (rule minute_index_now)
  note mr = MinuteOfDay_range [of from_t tz]
  obtain y' m' d' where cd: "civil_of_days ?n = (y', m', d')" by (metis prod_cases3)
  let ?ivs = "sort_key iv_Start (day_of sw ?n)"
  let ?today = "day_slot from_t True ?m (y', m', d') tz ?ivs"
  have loop: "slot_loop 8 0 from_t ?m (y, m, d) sw tz =
      (case ?today of Some t \<Rightarrow> Some t | None \<Rightarrow> slot_loop 7 (0 + 1) from_t ?m (y, m, d) sw tz)"
    using slot_loop_step [OF f c refl, of 7 0 ?m sw] by (simp add: cd eval_nat_numeral)
  have today: "case ?today of
      None \<Rightarrow> \<forall>k\<ge>?m. \<not> holds ?ivs k
    | Some t \<Rightarrow> \<exists>k\<ge>?m. holds ?ivs k \<and> (\<forall>j\<ge>?m. j < k \<longrightarrow> \<not> holds ?ivs j)
        \<and> t = (if k = ?m then from_t else minute_at tz (?n * 1440 + k))"
    using schedule_day_ok [OF assms(2), of _ ?n]
    by (intro day_slot_today [OF f cd N mr(1)]) auto
  have dm: "(a * 1440 + k) div 1440 = a" "(a * 1440 + k) mod 1440 = k" if "0 \<le> k" "k < 1440" for a k :: int
    using that by (auto intro: int_div_pos_eq int_mod_pos_eq)
  have hr: "k < 1440" if "holds (day_of sw a) k" for a k
    using that schedule_day_ok [OF assms(2), of _ a]
    by (fastforce simp: holds_def list_ex_iff interval_ok_def)
  have r: "r = (case slot_loop 8 0 from_t ?m (y, m, d) sw tz of Some t \<Rightarrow> t | None \<Rightarrow> add_days from_t 8)"
    using assms(3) c by (simp add: r_def nextScheduleSlot_def MinuteOfDay_def Let_def)
  have "\<exists>M\<ge>?N. in_window sw M \<and> (\<forall>j. ?N \<le> j \<and> j < M \<longrightarrow> \<not> in_window sw j)
      \<and> r = (if M = ?N then from_t else minute_at tz M)"
  proof (cases ?today)
    case (Some t)
    then obtain k where k: "?m \<le> k" "holds (day_of sw ?n) k"
      "\<forall>j. ?m \<le> j \<and> j < k \<longrightarrow> \<not> holds (day_of sw ?n) j"
      "t = (if k = ?m then from_t else minute_at tz (?n * 1440 + k))"
      using today by auto
    have k1: "0 \<le> k" "k < 1440" using k(1) mr hr [OF k(2)] by linarith+
    have "\<not> in_window sw j" if "?N \<le> j" "j < ?n * 1440 + k" for j
    proof -
      have "0 \<le> j - ?n * 1440" "j - ?n * 1440 < 1440" using that N mr k1 by linarith+
      then have "in_window sw j \<longleftrightarrow> holds (day_of sw ?n) (j - ?n * 1440)"
        using dm [of "j - ?n * 1440" ?n] by (simp add: in_window_day)
      then show ?thesis using k(3) that N by simp
    qed
    then show ?thesis
      using k k1 Some dm [OF k1, of ?n] N r loop
      by (intro exI [of _ "?n * 1440 + k"]) (simp add: in_window_day)
  next
    case None
    obtain l where l: "?n < l" "l \<le> ?n + 7" "day_of sw l \<noteq> []"
      using some_day [of sw ?n] assms(2,3) by (auto simp: schedule_ok_def)
    have "slot_loop 7 1 from_t ?m (y, m, d) sw tz \<noteq> None"
      using slot_loop_later [OF f assms(2) c refl, of 1 7 ?m] l by (auto split: option.splits)
    then obtain t where t: "slot_loop 7 1 from_t ?m (y, m, d) sw tz = Some t" by blast
    then obtain n' s where *: "?n + 1 \<le> n'" "0 \<le> s" "s < 1440" "t = minute_at tz (n' * 1440 + s)"
      "holds (day_of sw n') s" "\<forall>j. j < s \<longrightarrow> \<not> holds (day_of sw n') j"
      "\<forall>l. ?n + 1 \<le> l \<and> l < n' \<longrightarrow> day_of sw l = []"
      using slot_loop_later [OF f assms(2) c refl, of 1 7 ?m] by auto
    have closed: "\<not> in_window sw j" if j: "?N \<le> j" "j < n' * 1440 + s" for j
    proof -
      have jj: "j = j div 1440 * 1440 + j mod 1440" "0 \<le> j mod 1440" "j mod 1440 < 1440" by simp_all
      then have "?n \<le> j div 1440" "j div 1440 \<le> n'" using j N mr *(2,3) by linarith+
      then consider "j div 1440 = ?n" | "?n + 1 \<le> j div 1440" "j div 1440 < n'" | "j div 1440 = n'"
        by linarith
      then show ?thesis
      proof cases
        case 1
        then have "?m \<le> j mod 1440" using jj(1) j(1) N by linarith
        then show ?thesis using today None 1 by (simp add: in_window_day)
      next
        case 2
        then have "day_of sw (j div 1440) = []" using *(7) by blast
        then show ?thesis by (simp add: in_window_day)
      next
        case 3
        then have "j mod 1440 < s" using jj(1) j(2) by linarith
        then show ?thesis using *(6) 3 by (simp add: in_window_day)
      qed
    qed
    have "?N < n' * 1440 + s" using * N mr by linarith
    moreover have "in_window sw (n' * 1440 + s)" using * dm [of s n'] by (simp add: in_window_day)
    moreover have "r = minute_at tz (n' * 1440 + s)" using r loop None t *(4) by simp
    ultimately show ?thesis using closed by (intro exI [of _ "n' * 1440 + s"]) simp
  qed
  then obtain M where M: "?N \<le> M" "in_window sw M"
    "\<And>j. ?N \<le> j \<Longrightarrow> j < M \<Longrightarrow> \<not> in_window sw j" "r = (if M = ?N then from_t else minute_at tz M)"
    by blast
  from earliest_minute [where P = "in_window sw", OF f M(1-3)]
  show ?thesis unfolding M(4) by blast
qed



section \<open>Any location\<close>

text \<open>The searches of the loop never answer an instant before \<open>from\<close>, whatever the clocks do.\<close>

lemma day_slot_not_before: "day_slot f today m ymd tz ivs = Some t \<Longrightarrow> g_inst f \<le> g_inst t"
  by (induction ivs)
    (auto simp: before_def Let_def split: if_splits prod.splits option.splits)

lemma slot_loop_not_before: "slot_loop k i f m ymd sw tz = Some t \<Longrightarrow> g_inst f \<le> g_inst t"
  by (induction k arbitrary: i)
    (auto simp: Let_def day_slot_not_before split: prod.splits option.splits)

lemma unix_of_wall_bound:
  assumes "\<And>s. \<bar>offset_at l s\<bar> \<le> B"
  shows "u - B \<le> unix_of_wall l u"
proof -
  obtain off start end' where z: "zone_at l u = (off, start, end')" by (metis prod_cases3)
  then have "\<bar>off\<bar> \<le> B" using assms [of u] by (simp add: offset_at_def)
  moreover have "\<bar>offset_at l (u - off)\<bar> \<le> B" using assms .
  moreover have "0 \<le> B" using assms [of 0] by linarith
  ultimately show ?thesis unfolding unix_of_wall_def z by (auto simp: abs_le_iff)
qed

lemma add_days_8:
  assumes "\<And>s. \<bar>offset_at (g_loc f) s\<bar> \<le> 86400"
  shows "g_inst f \<le> g_inst (add_days f 8)"
proof -
  obtain y m d where c: "civil f = (y, m, d)" by (metis prod_cases3)
  let ?W = "wall_secs y m (d + 8) (hour_of f) (minute_of f) (second_of f)"
  have s: "local_secs f = local_day f * 86400 + local_secs f mod 86400"
    by (simp add: local_day_def)
  have "0 \<le> hour_of f" "0 \<le> minute_of f" "0 \<le> second_of f"
    by (simp_all add: hour_of_def minute_of_def second_of_def)
  then have "local_day f * 86400 + 8 * 86400 \<le> ?W" unfolding wall_secs_civil [OF c] by simp
  moreover have "local_secs f < local_day f * 86400 + 86400" by (rule local_secs_range)
  moreover have "unix_of f - 86400 \<le> local_secs f"
    using assms [of "unix_of f"] unfolding local_secs_def by linarith
  ultimately have "unix_of f + 86400 \<le> ?W" by linarith
  moreover have "?W - 86400 \<le> unix_of_wall (g_loc f) ?W" by (rule unix_of_wall_bound [OF assms])
  ultimately have u: "unix_of f \<le> unix_of_wall (g_loc f) ?W" by linarith
  have "nsec_of f mod Second = nsec_of f" "nsec_of f div Second = 0"
    by (simp_all add: nsec_of_def)
  then have "g_inst (add_days f 8) = unix_of_wall (g_loc f) ?W * Second + nsec_of f"
    by (simp add: add_days_def c go_date_def)
  then show ?thesis using u g_inst_split(1) [of f] by linarith
qed

lemma nextScheduleSlot_not_before:
  assumes "\<And>s. \<bar>offset_at (g_loc f) s\<bar> \<le> 86400"
  shows "g_inst f \<le> g_inst (nextScheduleSlot f sw tz)"
  using add_days_8 [OF assms] slot_loop_not_before
  by (fastforce simp: nextScheduleSlot_def Let_def split: option.splits)

text \<open>
  In any location, daylight saving and other changes of the offset included, a
  slot is never before the instant the search starts from; the only assumption is that
  the offset of that instant's own location is within a day of UTC.
\<close>

theorem next_slot_not_before:
  assumes "\<And>s. \<bar>offset_at (g_loc f) s\<bar> \<le> 86400"
  shows "g_inst f \<le> g_inst (nextScheduleSlot f sw tz)"
  by (rule nextScheduleSlot_not_before [OF assms])

text \<open>The night the clocks of New York went back in 2026, from within the second one o'clock.\<close>

definition new_york_2026 :: location where
  "new_york_2026 = \<lparr>loc_name = ''America/New_York'', loc_base = - 14400, loc_tx = [(1793512800, - 18000)]\<rparr>"

theorem next_slot_not_before_witness:
  "1793514600 * Second \<le> g_inst (nextScheduleSlot \<lparr>g_inst = 1793514600 * Second, g_loc = new_york_2026\<rparr>
     (replicate 7 [\<lparr>iv_Start = 60, iv_End = 120\<rparr>]) new_york_2026)"
  using next_slot_not_before [of "\<lparr>g_inst = 1793514600 * Second, g_loc = new_york_2026\<rparr>"]
  by (simp add: new_york_2026_def offset_at_def zone_at_def)

end
