(* ===== verification/Behavior_Placement.thy ===== *)
theory Behavior_Placement
  imports Schedule_Windows
begin

text \<open>
  Where the schedulers touch the behaviour engine, \<open>internal/scheduler/behavior.go\<close>:
  the walk to an open instant with room in both budgets, its meeting with the campaign's
  windows, the gap after a send, and the guard that keeps a slot in the future.

  A behaviour service that is not wired (\<open>s.behaviorSvc == nil\<close>) is the argument
  \<open>wired\<close> being false. The random draws of the code are arguments.
\<close>

section \<open>The walk\<close>

definition placementAttempts :: nat where "placementAttempts = 48"

fun place_loop ::
  "(gtime \<Rightarrow> 'st \<Rightarrow> gtime option \<times> 'st) \<Rightarrow> (gtime \<Rightarrow> 'st \<Rightarrow> int \<times> 'st) \<Rightarrow> (gtime \<Rightarrow> 'st \<Rightarrow> int \<times> 'st)
     \<Rightarrow> ('st \<Rightarrow> gtime \<Rightarrow> gtime) \<Rightarrow> ('st \<Rightarrow> gtime \<Rightarrow> gtime)
     \<Rightarrow> nat \<Rightarrow> gtime \<Rightarrow> 'st \<Rightarrow> gtime option \<times> 'st" where
  "place_loop next_open left_today left_hour next_day hour_end 0 t st = (None, st)"
| "place_loop next_open left_today left_hour next_day hour_end (Suc n) t st =
     (case next_open t st of
        (None, st) \<Rightarrow> (None, st)
      | (Some open', st) \<Rightarrow>
          (case left_today open' st of (today, st) \<Rightarrow>
             if today \<le> 0
             then place_loop next_open left_today left_hour next_day hour_end n (next_day st open') st
             else
               (case left_hour open' st of (hour, st) \<Rightarrow>
                  if 0 < hour then (Some open', st)
                  else place_loop next_open left_today left_hour next_day hour_end n
                         (hour_end st open') st)))"

definition rs_next_open ::
  "instant \<Rightarrow> gtime \<Rightarrow> Resolved \<times> store \<Rightarrow> gtime option \<times> Resolved \<times> store" where
  "rs_next_open now t rs = (case Resolved_NextOpen now t rs of (ans, rs') \<Rightarrow> (map_option fst ans, rs'))"

definition rs_left_today :: "instant \<Rightarrow> gtime \<Rightarrow> Resolved \<times> store \<Rightarrow> int \<times> Resolved \<times> store" where
  "rs_left_today now t rs = RemainingToday now rs t"

definition rs_left_hour :: "instant \<Rightarrow> gtime \<Rightarrow> Resolved \<times> store \<Rightarrow> int \<times> Resolved \<times> store" where
  "rs_left_hour now t rs = RemainingThisHour now rs t"

definition rs_next_day :: "Resolved \<times> store \<Rightarrow> gtime \<Rightarrow> gtime" where
  "rs_next_day rs open' = add_days (PlanDateFor open' (rs_Loc (fst rs))) 1"

definition rs_hour_end :: "Resolved \<times> store \<Rightarrow> gtime \<Rightarrow> gtime" where
  "rs_hour_end rs open' = snd (HourWindow open' (rs_Loc (fst rs)))"

definition placeWithinBehavior ::
  "bool \<Rightarrow> instant \<Rightarrow> gtime \<Rightarrow> Resolved \<times> store \<Rightarrow> gtime option \<times> Resolved \<times> store" where
  "placeWithinBehavior wired now desired rs =
     (if \<not> rs_Enabled (fst rs) \<or> \<not> wired then (Some desired, rs)
      else place_loop (rs_next_open now) (rs_left_today now) (rs_left_hour now) rs_next_day rs_hour_end
             placementAttempts desired rs)"

section \<open>Windows and gaps\<close>

definition zero_resolved :: Resolved where
  "zero_resolved =
     \<lparr>rs_Enabled = False, rs_Behavior = zero_behavior, rs_Loc = UTC,
      rs_accountID = replicate 16 0, rs_svc = False, rs_cache = None, rs_warmupDays = 0\<rparr>"

definition behaviorFor :: "bool \<Rightarrow> tzdb \<Rightarrow> store \<Rightarrow> Email option \<Rightarrow> Resolved" where
  "behaviorFor wired tzdb s account =
     (case account of
        None \<Rightarrow> zero_resolved
      | Some a \<Rightarrow> if wired then Resolve tzdb s a else zero_resolved)"

definition behaviorForAll :: "bool \<Rightarrow> tzdb \<Rightarrow> store \<Rightarrow> Email list \<Rightarrow> (uuid \<Rightarrow> Resolved option)" where
  "behaviorForAll wired tzdb s accounts =
     (if \<not> wired then (\<lambda>_. None) else ResolveMany tzdb s accounts)"

definition behaviorWindow ::
  "instant \<Rightarrow> gtime \<Rightarrow> Resolved \<times> store \<Rightarrow> gtime option \<times> Resolved \<times> store" where
  "behaviorWindow now desired rs =
     (if \<not> rs_Enabled (fst rs) then (Some desired, rs) else rs_next_open now desired rs)"

definition behaviorGapWith ::
  "instant \<Rightarrow> gtime \<Rightarrow> int \<Rightarrow> rat \<times> rat \<Rightarrow> Resolved \<times> store \<Rightarrow> int \<times> Resolved \<times> store" where
  "behaviorGapWith now t fallbackSeconds rnd rs =
     (if \<not> rs_Enabled (fst rs) then (fallbackSeconds, rs)
      else
        let (plan, rs) = PlanOn now (PlanDateFor t (rs_Loc (fst rs))) rs;
            secs = tdiv (DrawGap plan rnd) Second
        in (if secs < 1 then fallbackSeconds else secs, rs))"

definition behaviorGapFloor ::
  "instant \<Rightarrow> gtime \<Rightarrow> int \<Rightarrow> Resolved \<times> store \<Rightarrow> int \<times> Resolved \<times> store" where
  "behaviorGapFloor now t fallbackSeconds rs = behaviorGapWith now t fallbackSeconds (0, 0) rs"

text \<open>\<open>draw\<close> is \<open>rand.Intn(55)\<close>.\<close>

definition notBefore :: "gtime \<Rightarrow> int \<Rightarrow> gtime \<Rightarrow> gtime" where
  "notBefore now draw candidate =
     (if after candidate now then candidate else add_dur now ((5 + draw) * Second))"

definition sameLocalDay :: "gtime \<Rightarrow> gtime \<Rightarrow> location option \<Rightarrow> bool" where
  "sameLocalDay a b loc =
     (let loc = (case loc of None \<Rightarrow> UTC | Some l \<Rightarrow> l)
      in civil (in_loc a loc) = civil (in_loc b loc))"

fun intersect_loop ::
  "nat \<Rightarrow> instant \<Rightarrow> gtime \<Rightarrow> ScheduleWindows \<Rightarrow> location \<Rightarrow> Resolved \<times> store
     \<Rightarrow> gtime \<times> Resolved \<times> store" where
  "intersect_loop 0 now t sw tz rs = (t, rs)"
| "intersect_loop (Suc n) now t sw tz rs =
     (let inCampaign = nextScheduleSlot t sw tz
      in case placeWithinBehavior True now inCampaign rs of
           (None, rs) \<Rightarrow> (inCampaign, rs)
         | (Some placed, rs) \<Rightarrow>
             if \<not> after placed inCampaign then (inCampaign, rs)
             else intersect_loop n now placed sw tz rs)"

definition intersectWindows ::
  "bool \<Rightarrow> instant \<Rightarrow> gtime \<Rightarrow> ScheduleWindows \<Rightarrow> location \<Rightarrow> Resolved \<times> store
     \<Rightarrow> gtime \<times> Resolved \<times> store" where
  "intersectWindows wired now t sw tz rs =
     (if \<not> rs_Enabled (fst rs) \<or> \<not> wired then (nextScheduleSlot t sw tz, rs)
      else intersect_loop 8 now t sw tz rs)"

definition behaviorDailyCap ::
  "bool \<Rightarrow> instant \<Rightarrow> int \<Rightarrow> gtime \<Rightarrow> Resolved \<times> store \<Rightarrow> int \<times> Resolved \<times> store" where
  "behaviorDailyCap wired now remaining t rs =
     (if \<not> rs_Enabled (fst rs) \<or> \<not> wired then (remaining, rs)
      else case RemainingToday now rs t of (left, rs) \<Rightarrow> (min remaining left, rs))"

section \<open>The contract of the walk\<close>

text \<open>
  What the walk asks of the service: the invariant is kept by every call, and no call
  answers an instant before the one it was given.
\<close>

locale placement =
  fixes inv :: "'st \<Rightarrow> bool"
    and next_open :: "gtime \<Rightarrow> 'st \<Rightarrow> gtime option \<times> 'st"
    and left_today left_hour :: "gtime \<Rightarrow> 'st \<Rightarrow> int \<times> 'st"
    and next_day hour_end :: "'st \<Rightarrow> gtime \<Rightarrow> gtime"
  assumes inv_next_open: "inv st \<Longrightarrow> inv (snd (next_open t st))"
    and inv_left_today: "inv st \<Longrightarrow> inv (snd (left_today t st))"
    and inv_left_hour: "inv st \<Longrightarrow> inv (snd (left_hour t st))"
    and next_open_ge: "inv st \<Longrightarrow> fst (next_open t st) = Some u \<Longrightarrow> g_inst t \<le> g_inst u"
    and next_day_ge: "inv st \<Longrightarrow> g_inst t \<le> g_inst (next_day st t)"
    and hour_end_ge: "inv st \<Longrightarrow> g_inst t \<le> g_inst (hour_end st t)"
begin

lemma place_loop_keeps:
  "inv st \<Longrightarrow> inv (snd (place_loop next_open left_today left_hour next_day hour_end n t st))"
proof (induction n arbitrary: t st)
  case (Suc n)
  obtain ans st1 where o: "next_open t st = (ans, st1)" by fastforce
  have i1: "inv st1" using inv_next_open [OF Suc.prems, of t] o by simp
  show ?case
  proof (cases ans)
    case None
    then show ?thesis using i1 by (simp add: o)
  next
    case (Some v)
    obtain k st2 where k: "left_today v st1 = (k, st2)" by fastforce
    have i2: "inv st2" using inv_left_today [OF i1, of v] k by simp
    obtain h st3 where h: "left_hour v st2 = (h, st3)" by fastforce
    have "inv st3" using inv_left_hour [OF i2, of v] h by simp
    then show ?thesis using i2 Suc.IH by (simp add: o Some k h)
  qed
qed simp

lemma place_loop_ge:
  "inv st \<Longrightarrow> fst (place_loop next_open left_today left_hour next_day hour_end n t st) = Some u \<Longrightarrow>
     g_inst t \<le> g_inst u"
proof (induction n arbitrary: t st)
  case (Suc n)
  obtain ans st1 where o: "next_open t st = (ans, st1)" by fastforce
  then obtain v where v: "ans = Some v" using Suc.prems by (cases ans) simp_all
  have i1: "inv st1" and tv: "g_inst t \<le> g_inst v"
    using inv_next_open [OF Suc.prems(1), of t] next_open_ge [OF Suc.prems(1), of t v] o v by simp_all
  obtain k st2 where k: "left_today v st1 = (k, st2)" by fastforce
  have i2: "inv st2" using inv_left_today [OF i1, of v] k by simp
  obtain h st3 where h: "left_hour v st2 = (h, st3)" by fastforce
  have i3: "inv st3" using inv_left_hour [OF i2, of v] h by simp
  have d: "g_inst v \<le> g_inst (next_day st2 v)" "g_inst v \<le> g_inst (hour_end st3 v)"
    using next_day_ge [OF i2] hour_end_ge [OF i3] by simp_all
  show ?case
    using Suc.prems(2) tv d Suc.IH [OF i2, of "next_day st2 v"] Suc.IH [OF i3, of "hour_end st3 v"]
    by (auto simp: o v k h split: if_splits)
qed simp

end

text \<open>
  A service whose answers the walk itself does not change: then the room an answer was
  found with was there from the start.
\<close>

locale stable_placement = placement +
  fixes same :: "'st \<Rightarrow> 'st \<Rightarrow> bool"
  assumes same_refl: "same st st"
    and same_trans: "same st st1 \<Longrightarrow> same st1 st2 \<Longrightarrow> same st st2"
    and same_next_open: "inv st \<Longrightarrow> same st (snd (next_open t st))"
    and same_left_today: "inv st \<Longrightarrow> same st (snd (left_today t st))"
    and same_left_hour: "inv st \<Longrightarrow> same st (snd (left_hour t st))"
    and next_open_same: "inv st \<Longrightarrow> same st st' \<Longrightarrow> fst (next_open t st') = fst (next_open t st)"
    and left_today_same: "inv st \<Longrightarrow> same st st' \<Longrightarrow> fst (left_today t st') = fst (left_today t st)"
    and left_hour_same: "inv st \<Longrightarrow> same st st' \<Longrightarrow> fst (left_hour t st') = fst (left_hour t st)"
begin

lemma place_loop_same:
  "inv st \<Longrightarrow> same st (snd (place_loop next_open left_today left_hour next_day hour_end n t st))"
proof (induction n arbitrary: t st)
  case (Suc n)
  note i0 = Suc.prems
  obtain ans st1 where o: "next_open t st = (ans, st1)" by fastforce
  have i1: "inv st1" and s1: "same st st1"
    using inv_next_open [OF i0, of t] same_next_open [OF i0, of t] o by simp_all
  show ?case
  proof (cases ans)
    case None
    then show ?thesis using s1 by (simp add: o)
  next
    case (Some v)
    obtain k st2 where k: "left_today v st1 = (k, st2)" by fastforce
    have i2: "inv st2" and s2: "same st st2"
      using inv_left_today [OF i1, of v] same_trans [OF s1] same_left_today [OF i1, of v] k by simp_all
    obtain h st3 where h: "left_hour v st2 = (h, st3)" by fastforce
    have i3: "inv st3" and s3: "same st st3"
      using inv_left_hour [OF i2, of v] same_trans [OF s2] same_left_hour [OF i2, of v] h by simp_all
    show ?thesis
      using s3 same_trans [OF s2] same_trans [OF s3] Suc.IH [OF i2] Suc.IH [OF i3]
      by (simp add: o Some k h)
  qed
qed (simp add: same_refl)

lemma place_loop_room:
  "inv st \<Longrightarrow> fst (place_loop next_open left_today left_hour next_day hour_end n t st) = Some u \<Longrightarrow>
     0 < fst (left_today u st) \<and> 0 < fst (left_hour u st)
     \<and> (\<exists>t'. g_inst t \<le> g_inst t' \<and> fst (next_open t' st) = Some u)"
proof (induction n arbitrary: t st)
  case (Suc n)
  note i0 = Suc.prems(1)
  obtain ans st1 where o: "next_open t st = (ans, st1)" by fastforce
  then obtain v where v: "ans = Some v" using Suc.prems by (cases ans) simp_all
  have i1: "inv st1" and s1: "same st st1"
    using inv_next_open [OF i0, of t] same_next_open [OF i0, of t] o by simp_all
  obtain k st2 where k: "left_today v st1 = (k, st2)" by fastforce
  have i2: "inv st2" and s2: "same st st2"
    using inv_left_today [OF i1, of v] same_trans [OF s1] same_left_today [OF i1, of v] k by simp_all
  obtain h st3 where h: "left_hour v st2 = (h, st3)" by fastforce
  have i3: "inv st3" and s3: "same st st3"
    using inv_left_hour [OF i2, of v] same_trans [OF s2] same_left_hour [OF i2, of v] h by simp_all
  have tv: "g_inst t \<le> g_inst v" using next_open_ge [OF i0, of t v] o v by simp
  have d: "g_inst v \<le> g_inst (next_day st2 v)" "g_inst v \<le> g_inst (hour_end st3 v)"
    using next_day_ge [OF i2] hour_end_ge [OF i3] by simp_all
  consider "k \<le> 0" | "0 < k" "0 < h" | "0 < k" "h \<le> 0" by linarith
  then show ?case
  proof cases
    case 1
    then have "fst (place_loop next_open left_today left_hour next_day hour_end n (next_day st2 v) st2)
        = Some u"
      using Suc.prems(2) by (simp add: o v k)
    from Suc.IH [OF i2 this] show ?thesis
      using tv d(1) left_today_same [OF i0 s2] left_hour_same [OF i0 s2] next_open_same [OF i0 s2]
      by (metis order.trans)
  next
    case 2
    then have "u = v" using Suc.prems(2) by (simp add: o v k h)
    then show ?thesis
      using 2 o v left_today_same [OF i0 s1, of v] left_hour_same [OF i0 s2, of v] k h by auto
  next
    case 3
    then have "fst (place_loop next_open left_today left_hour next_day hour_end n (hour_end st3 v) st3)
        = Some u"
      using Suc.prems(2) by (simp add: o v k h)
    from Suc.IH [OF i3 this] show ?thesis
      using tv d(2) left_today_same [OF i0 s3] left_hour_same [OF i0 s3] next_open_same [OF i0 s3]
      by (metis order.trans)
  qed
qed simp

end

section \<open>The service keeps the contract\<close>

definition place_inv :: "Resolved \<times> store \<Rightarrow> bool" where
  "place_inv rs \<longleftrightarrow> plans_ok rs \<and> loc_tx (rs_Loc (fst rs)) = []"

text \<open>Two states that give the same answers to every question of one pass.\<close>

definition same_answers :: "instant \<Rightarrow> Resolved \<times> store \<Rightarrow> Resolved \<times> store \<Rightarrow> bool" where
  "same_answers now rs rs' \<longleftrightarrow>
     rs_Enabled (fst rs') = rs_Enabled (fst rs) \<and> rs_Loc (fst rs') = rs_Loc (fst rs)
     \<and> rs_accountID (fst rs') = rs_accountID (fst rs)
     \<and> st_tasks (snd rs') = st_tasks (snd rs) \<and> st_faults (snd rs') = st_faults (snd rs)
     \<and> st_dispatch_task_ids (snd rs') = st_dispatch_task_ids (snd rs)
     \<and> (\<forall>d. g_loc d = rs_Loc (fst rs) \<longrightarrow> fst (PlanOn now d rs') = fst (PlanOn now d rs))"

lemma PlanOn_fields [simp]:
  "rs_Enabled (fst (snd (PlanOn now d rs))) = rs_Enabled (fst rs)"
  "rs_Loc (fst (snd (PlanOn now d rs))) = rs_Loc (fst rs)"
  "rs_accountID (fst (snd (PlanOn now d rs))) = rs_accountID (fst rs)"
  by (simp_all add: snd_PlanOn)

lemma stored_or_tables [simp]:
  "st_tasks (snd (stored_or now r k p s)) = st_tasks s"
  "st_faults (snd (stored_or now r k p s)) = st_faults s"
  "st_dispatch_task_ids (snd (stored_or now r k p s)) = st_dispatch_task_ids s"
proof -
  obtain a s' where e: "EnsurePlan s p = (a, s')" by fastforce
  have "st_tasks s' = st_tasks s" "st_faults s' = st_faults s"
    "st_dispatch_task_ids s' = st_dispatch_task_ids s"
    using EnsurePlan_profiles(3-5) [of s p] unfolding e by simp_all
  then show "st_tasks (snd (stored_or now r k p s)) = st_tasks s"
    "st_faults (snd (stored_or now r k p s)) = st_faults s"
    "st_dispatch_task_ids (snd (stored_or now r k p s)) = st_dispatch_task_ids s"
    by (simp_all add: stored_or_def e split: sum.splits option.splits)
qed

lemma PlanOn_tables [simp]:
  "st_tasks (snd (snd (PlanOn now d rs))) = st_tasks (snd rs)"
  "st_faults (snd (snd (PlanOn now d rs))) = st_faults (snd rs)"
  "st_dispatch_task_ids (snd (snd (PlanOn now d rs))) = st_dispatch_task_ids (snd rs)"
proof -
  obtain r s where rs: "rs = (r, s)" by (cases rs)
  obtain p s' where q: "stored_or now r (format_date d) (RollPlan (rs_Behavior r) d) s = (p, s')"
    by fastforce
  have "st_tasks s' = st_tasks s" "st_faults s' = st_faults s"
    "st_dispatch_task_ids s' = st_dispatch_task_ids s"
    using stored_or_tables [of now r "format_date d" "RollPlan (rs_Behavior r) d" s]
    unfolding q by simp_all
  then show "st_tasks (snd (snd (PlanOn now d rs))) = st_tasks (snd rs)"
    "st_faults (snd (snd (PlanOn now d rs))) = st_faults (snd rs)"
    "st_dispatch_task_ids (snd (snd (PlanOn now d rs))) = st_dispatch_task_ids (snd rs)"
    by (simp_all add: snd_PlanOn PlanOn_cold_def rs q Let_def split: option.splits)
qed

lemma same_answers_PlanOn:
  "g_loc d = rs_Loc (fst rs) \<Longrightarrow> same_answers now rs (snd (PlanOn now d rs))"
  by (simp add: same_answers_def PlanOn_stable)

lemma same_answers_refl: "same_answers now rs rs"
  by (simp add: same_answers_def)

lemma same_answers_trans:
  "same_answers now a b \<Longrightarrow> same_answers now b c \<Longrightarrow> same_answers now a c"
  by (simp add: same_answers_def)

lemma g_loc_PlanDateFor [simp]: "g_loc (PlanDateFor t loc) = loc"
  by (simp add: PlanDateFor_def split: prod.splits)

lemma same_answers_NextOpen: "same_answers now rs (snd (Resolved_NextOpen now t rs))"
  unfolding Resolved_NextOpen_def
proof (rule NextOpen_loop_st_keeps)
  fix d :: gtime and rs'
  assume "same_answers now rs rs'" "g_loc d = rs_Loc (fst rs)"
  then show "same_answers now rs (snd (PlanOn now d rs'))"
    by (metis same_answers_PlanOn same_answers_def same_answers_trans)
qed (rule same_answers_refl)

lemma place_inv_PlanOn: "place_inv rs \<Longrightarrow> place_inv (snd (PlanOn now d rs))"
  by (simp add: place_inv_def PlanOn_ok)

lemma place_inv_NextOpen: "place_inv rs \<Longrightarrow> place_inv (snd (Resolved_NextOpen now t rs))"
  unfolding Resolved_NextOpen_def by (rule NextOpen_loop_st_keeps) (rule place_inv_PlanOn)

lemma snd_Remaining:
  "snd (RemainingToday now rs t)
     = (if rs_Enabled (fst rs) then snd (PlanOn now (PlanDateFor t (rs_Loc (fst rs))) rs) else rs)"
  "snd (RemainingThisHour now rs t)
     = (if rs_Enabled (fst rs) then snd (PlanOn now (PlanDateFor t (rs_Loc (fst rs))) rs) else rs)"
  by (auto simp: RemainingToday_def RemainingThisHour_def Let_def split: prod.splits)

lemma countSends_cong:
  "st_tasks s' = st_tasks s \<Longrightarrow> st_faults s' = st_faults s \<Longrightarrow>
     st_dispatch_task_ids s' = st_dispatch_task_ids s \<Longrightarrow> sentInRange s' i rg = sentInRange s i rg"
  by (simp add: sentInRange_def countSends_def CountSendsBetween_def answered_def)

definition room :: "DailyPlan \<Rightarrow> int \<Rightarrow> int \<Rightarrow> int" where
  "room plan limit sent = (if \<not> dp_IsWorkingDay plan then 0 else max 0 (limit - sent))"

lemma fst_Remaining:
  fixes rs now t
  defines "plan \<equiv> fst (PlanOn now (PlanDateFor t (rs_Loc (fst rs))) rs)"
  shows "fst (RemainingToday now rs t) =
      (if \<not> rs_Enabled (fst rs) then unlimited
       else room plan (dp_DailyLimit plan)
              (sentInRange (snd rs) (rs_accountID (fst rs)) (localDayRange t (rs_Loc (fst rs)))))"
    "fst (RemainingThisHour now rs t) =
      (if \<not> rs_Enabled (fst rs) then unlimited
       else room plan (dp_HourlyLimit plan)
              (sentInRange (snd rs) (rs_accountID (fst rs)) (HourWindow t (rs_Loc (fst rs)))))"
proof -
  obtain p r s where p: "PlanOn now (PlanDateFor t (rs_Loc (fst rs))) rs = (p, r, s)"
    by (metis prod_cases3)
  have f: "rs_Loc r = rs_Loc (fst rs)" "rs_accountID r = rs_accountID (fst rs)"
    "st_tasks s = st_tasks (snd rs)" "st_faults s = st_faults (snd rs)"
    "st_dispatch_task_ids s = st_dispatch_task_ids (snd rs)"
    using PlanOn_fields [of now "PlanDateFor t (rs_Loc (fst rs))" rs]
      PlanOn_tables [of now "PlanDateFor t (rs_Loc (fst rs))" rs] by (simp_all add: p)
  show "fst (RemainingToday now rs t) =
      (if \<not> rs_Enabled (fst rs) then unlimited
       else room plan (dp_DailyLimit plan)
              (sentInRange (snd rs) (rs_accountID (fst rs)) (localDayRange t (rs_Loc (fst rs)))))"
    "fst (RemainingThisHour now rs t) =
      (if \<not> rs_Enabled (fst rs) then unlimited
       else room plan (dp_HourlyLimit plan)
              (sentInRange (snd rs) (rs_accountID (fst rs)) (HourWindow t (rs_Loc (fst rs)))))"
    by (simp_all add: RemainingToday_def RemainingThisHour_def plan_def p f Let_def room_def
        countSends_cong [OF f(3-5)])
qed

lemma Remaining_same:
  assumes "same_answers now rs rs'"
  shows "fst (RemainingToday now rs' t) = fst (RemainingToday now rs t)"
    "fst (RemainingThisHour now rs' t) = fst (RemainingThisHour now rs t)"
proof -
  have e: "rs_Enabled (fst rs') = rs_Enabled (fst rs)" "rs_Loc (fst rs') = rs_Loc (fst rs)"
    "rs_accountID (fst rs') = rs_accountID (fst rs)"
    "fst (PlanOn now (PlanDateFor t (rs_Loc (fst rs))) rs')
       = fst (PlanOn now (PlanDateFor t (rs_Loc (fst rs))) rs)"
    using assms by (simp_all add: same_answers_def)
  have c: "sentInRange (snd rs') i rg = sentInRange (snd rs) i rg" for i rg
    using assms by (intro countSends_cong) (simp_all add: same_answers_def)
  show "fst (RemainingToday now rs' t) = fst (RemainingToday now rs t)"
    "fst (RemainingThisHour now rs' t) = fst (RemainingThisHour now rs t)"
    by (simp_all only: fst_Remaining e c)
qed

lemma NextOpen_same:
  assumes "same_answers now rs rs'"
  shows "fst (Resolved_NextOpen now t rs') = fst (Resolved_NextOpen now t rs)"
  using assms unfolding Resolved_NextOpen_pure NextOpen_def same_answers_def
  by (auto intro!: NextOpen_loop_cong)

lemma NextOpen_ge:
  assumes "place_inv rs" "fst (Resolved_NextOpen now t rs) = Some (u, p)"
  shows "g_inst t \<le> g_inst u" "Contains p (MinuteOfDay u (rs_Loc (fst rs)))"
    "p = fst (PlanOn now (PlanDateFor u (rs_Loc (fst rs))) rs)"
proof -
  have "day_planner (\<lambda>day. fst (PlanOn now day rs))"
    using assms(1) by (intro PlanOn_planner) (simp add: place_inv_def)
  note c = day_planner.NextOpen_correct [OF this, of "rs_Loc (fst rs)" t]
    and o = day_planner.earliest_open_def [OF this] day_planner.open_at_def [OF this]
  show "g_inst t \<le> g_inst u" "Contains p (MinuteOfDay u (rs_Loc (fst rs)))"
    "p = fst (PlanOn now (PlanDateFor u (rs_Loc (fst rs))) rs)"
    using c assms unfolding Resolved_NextOpen_pure place_inv_def by (auto simp: o)
qed

lemma next_day_ge:
  assumes "loc_tx loc = []"
  shows "g_inst t \<le> g_inst (add_days (PlanDateFor t loc) 1)"
proof -
  have "minute_index loc t < (local_day_in t loc + 1) * 1440"
    using MinuteOfDay_range [of t loc] by (simp add: minute_index_now)
  then have "g_inst t < g_inst (minute_at loc ((local_day_in t loc + 1) * 1440))"
    using minute_index_less [OF assms] by blast
  then show ?thesis
    unfolding PlanDateFor_fixed [OF assms] add_days_midnight [OF assms]
    by (simp add: minute_at_def midnight_def)
qed

lemma hour_end_ge:
  assumes f: "loc_tx loc = []"
  shows "g_inst t \<le> g_inst (snd (HourWindow t loc))"
proof -
  obtain y m d where c: "civil (in_loc t loc) = (y, m, d)" by (metis prod_cases3)
  let ?s = "local_secs (in_loc t loc)"
  have "?s mod 86400 < (?s mod 86400 div 3600) * 3600 + 3600"
    using mult_div_mod_eq [of 3600 "?s mod 86400"] pos_mod_bound [of 3600 "?s mod 86400"] by linarith
  moreover have "?s = ?s div 86400 * 86400 + ?s mod 86400" by simp
  ultimately have "?s < local_day (in_loc t loc) * 86400 + hour_of (in_loc t loc) * 3600 + 3600"
    unfolding local_day_def hour_of_def by linarith
  moreover have "?s = unix_of t + loc_base loc" using f by (simp add: local_secs_def)
  ultimately have "unix_of t + 1 \<le> local_day (in_loc t loc) * 86400 + hour_of (in_loc t loc) * 3600 - loc_base loc + 3600"
    by linarith
  then have "(unix_of t + 1) * Second
      \<le> (local_day (in_loc t loc) * 86400 + hour_of (in_loc t loc) * 3600 - loc_base loc + 3600) * Second"
    by (rule mult_right_mono) simp
  then have "g_inst t \<le> (local_day (in_loc t loc) * 86400 + hour_of (in_loc t loc) * 3600 - loc_base loc) * Second + Hour"
    using g_inst_split [of t] by simp
  then show ?thesis
    by (simp add: HourWindow_def c Let_def go_date_wall_fixed0 [OF f c])
qed

lemma rs_next_open_simps [simp]:
  "fst (rs_next_open now t rs) = map_option fst (fst (Resolved_NextOpen now t rs))"
  "snd (rs_next_open now t rs) = snd (Resolved_NextOpen now t rs)"
  by (simp_all add: rs_next_open_def split: prod.splits)

text \<open>The model of the service is a provider of the walk's contract, for any clock reading.\<close>

interpretation walk: stable_placement place_inv "rs_next_open now" "rs_left_today now"
  "rs_left_hour now" rs_next_day rs_hour_end "same_answers now" for now
proof unfold_locales
  fix rs :: "Resolved \<times> store" and rs' t u
  show "place_inv (snd (rs_next_open now t rs))" if "place_inv rs"
    using place_inv_NextOpen [OF that] by simp
  show "place_inv (snd (rs_left_today now t rs))" "place_inv (snd (rs_left_hour now t rs))"
    if "place_inv rs"
    using that by (simp_all add: rs_left_today_def rs_left_hour_def snd_Remaining place_inv_PlanOn)
  show "g_inst t \<le> g_inst u" if "place_inv rs" "fst (rs_next_open now t rs) = Some u"
    using NextOpen_ge(1) [OF that(1), of now t u] that(2)
    by auto
  show "g_inst t \<le> g_inst (rs_next_day rs t)" "g_inst t \<le> g_inst (rs_hour_end rs t)"
    if "place_inv rs"
    using that next_day_ge hour_end_ge by (simp_all add: place_inv_def rs_next_day_def rs_hour_end_def)
  show "same_answers now rs rs" by (rule same_answers_refl)
  show "same_answers now rs (snd (rs_next_open now t rs))"
    using same_answers_NextOpen [of now rs t] by simp
  show "same_answers now rs (snd (rs_left_today now t rs))"
    "same_answers now rs (snd (rs_left_hour now t rs))"
    by (simp_all add: rs_left_today_def rs_left_hour_def snd_Remaining same_answers_PlanOn
        same_answers_refl)
  show "fst (rs_next_open now t rs') = fst (rs_next_open now t rs)" if "same_answers now rs rs'"
    using NextOpen_same [OF that, of t] by simp
  show "fst (rs_left_today now t rs') = fst (rs_left_today now t rs)"
    "fst (rs_left_hour now t rs') = fst (rs_left_hour now t rs)" if "same_answers now rs rs'"
    using Remaining_same [OF that] by (simp_all add: rs_left_today_def rs_left_hour_def)
qed (rule same_answers_trans)

section \<open>Placement\<close>

lemma placed_room:
  assumes "place_inv rs" "rs_Enabled (fst rs)"
    "fst (placeWithinBehavior True now desired rs) = Some t"
  shows "g_inst desired \<le> g_inst t" "0 < fst (RemainingToday now rs t)"
    "0 < fst (RemainingThisHour now rs t)"
    "Contains (fst (PlanOn now (PlanDateFor t (rs_Loc (fst rs))) rs)) (MinuteOfDay t (rs_Loc (fst rs)))"
proof -
  note p = assms(3) [unfolded placeWithinBehavior_def, simplified assms(2), simplified]
  show "g_inst desired \<le> g_inst t" by (rule walk.place_loop_ge [OF assms(1) p])
  obtain t' p' where r: "0 < fst (rs_left_today now t rs)" "0 < fst (rs_left_hour now t rs)"
    "fst (Resolved_NextOpen now t' rs) = Some (t, p')"
    using walk.place_loop_room [OF assms(1) p] by auto
  then show "0 < fst (RemainingToday now rs t)" "0 < fst (RemainingThisHour now rs t)"
    by (simp_all add: rs_left_today_def rs_left_hour_def)
  show "Contains (fst (PlanOn now (PlanDateFor t (rs_Loc (fst rs))) rs))
      (MinuteOfDay t (rs_Loc (fst rs)))"
    using NextOpen_ge(2,3) [OF assms(1) r(3)] by simp
qed


text \<open>A mailbox that works around the clock, one and the same plan every day.\<close>

definition fixed_profile :: "int \<Rightarrow> int \<Rightarrow> SendingBehavior" where
  "fixed_profile start end' = (DefaultSendingBehavior [7])\<lparr>sb_Enabled := True,
     sb_WorkStartMin := start, sb_WorkStartMax := start, sb_WorkEndMin := end', sb_WorkEndMax := end',
     sb_LunchEnabled := False, sb_Weekdays := 127, sb_DailyLimitMin := 30, sb_DailyLimitMax := 30,
     sb_HourlyLimitMin := 6, sb_HourlyLimitMax := 6\<rparr>"

lemma fixed_profile_fields [simp]:
  "sb_Enabled (fixed_profile a b)" "sb_EmailAccountID (fixed_profile a b) = [7]"
  by (simp_all add: fixed_profile_def DefaultSendingBehavior_def)

lemma Validate_fixed_profile:
  "0 \<le> a \<Longrightarrow> a < b \<Longrightarrow> b < 1440 \<Longrightarrow> Validate (fixed_profile a b) = None"
  by (simp add: fixed_profile_def Validate_iff DefaultSendingBehavior_def)

lemma WorksOn_fixed_profile:
  assumes "0 \<le> d" "d < 7"
  shows "WorksOn (fixed_profile a b) d"
proof -
  have "d \<in> {0, 1, 2, 3, 4, 5, 6}" using assms by auto
  then show ?thesis
    by (auto simp: WorksOn_def weekdayBit_def fixed_profile_def DefaultSendingBehavior_def)
qed

lemma WorksOn_weekday [simp]: "WorksOn (fixed_profile a b) (weekday_of t)"
  by (rule WorksOn_fixed_profile) (simp_all add: weekday_of_def weekday_range)

lemma RollPlan_fixed_profile:
  "dp_IsWorkingDay (RollPlan (fixed_profile a b) day)"
  "dp_WorkStartMinute (RollPlan (fixed_profile a b) day) = a"
  "dp_WorkEndMinute (RollPlan (fixed_profile a b) day) = b"
  "dp_DailyLimit (RollPlan (fixed_profile a b) day) = 30"
  "dp_HourlyLimit (RollPlan (fixed_profile a b) day) = 6"
  "\<not> HasLunch (RollPlan (fixed_profile a b) day)"
proof -
  have f: "sb_WorkStartMin (fixed_profile a b) = a" "sb_WorkStartMax (fixed_profile a b) = a"
    "sb_WorkEndMin (fixed_profile a b) = b" "sb_WorkEndMax (fixed_profile a b) = b"
    "\<not> sb_LunchEnabled (fixed_profile a b)"
    "sb_DailyLimitMin (fixed_profile a b) = 30" "sb_DailyLimitMax (fixed_profile a b) = 30"
    "sb_HourlyLimitMin (fixed_profile a b) = 6" "sb_HourlyLimitMax (fixed_profile a b) = 6"
    by (simp_all add: fixed_profile_def)
  show "dp_IsWorkingDay (RollPlan (fixed_profile a b) day)"
    "dp_WorkStartMinute (RollPlan (fixed_profile a b) day) = a"
    "dp_WorkEndMinute (RollPlan (fixed_profile a b) day) = b"
    "dp_DailyLimit (RollPlan (fixed_profile a b) day) = 30"
    "dp_HourlyLimit (RollPlan (fixed_profile a b) day) = 6"
    "\<not> HasLunch (RollPlan (fixed_profile a b) day)"
    by (simp_all add: RollPlan_def Let_def between_def HasLunch_def f split: prod.splits)
qed

lemma Contains_fixed_profile: "Contains (RollPlan (fixed_profile a b) day) k \<longleftrightarrow> a \<le> k \<and> k < b"
  using RollPlan_fixed_profile [of a b day] by (auto simp: Contains_def)

text \<open>The same mailbox previewed on its own, over a store with nothing sent.\<close>

definition preview :: "SendingBehavior \<Rightarrow> Resolved \<times> store" where
  "preview b = (NewStandalone b None, one_mailbox [7])"

lemma preview_simps [simp]:
  "rs_Enabled (fst (preview b)) = sb_Enabled b" "rs_Loc (fst (preview b)) = UTC"
  "PlanOn now d (preview b) = (RollPlan b d, preview b)"
  by (simp_all add: preview_def NewStandalone_def PlanOn_def PlanOn_cold_def)

lemma UTC_fixed [simp]: "loc_tx UTC = []" "loc_base UTC = 0"
  by (simp_all add: UTC_def)

lemma place_inv_preview: "Validate b = None \<Longrightarrow> place_inv (preview b)"
  by (simp add: place_inv_def plans_ok_def) (simp add: preview_def NewStandalone_def one_mailbox_def)

lemma NextOpen_st_preview:
  "Resolved_NextOpen now t (preview b) = (NextOpen t UTC (RollPlan b), preview b)"
proof -
  have "snd (Resolved_NextOpen now t (preview b)) = preview b"
    unfolding Resolved_NextOpen_def by (rule NextOpen_loop_st_keeps) simp_all
  moreover have "fst (Resolved_NextOpen now t (preview b)) = NextOpen t UTC (RollPlan b)"
    by (simp add: Resolved_NextOpen_pure)
  ultimately show ?thesis by (metis prod.collapse)
qed

lemma preview_nothing_sent: "sentInRange (snd (preview b)) i rg = 0"
  by (simp add: preview_def one_mailbox_def sentInRange_def countSends_def CountSendsBetween_def
      answered_def)

lemma Remaining_preview:
  "RemainingToday now (preview (fixed_profile a b)) t = (30, preview (fixed_profile a b))"
  "RemainingThisHour now (preview (fixed_profile a b)) t = (6, preview (fixed_profile a b))"
proof -
  let ?r = "preview (fixed_profile a b)"
  have "fst (RemainingToday now ?r t) = 30" "fst (RemainingThisHour now ?r t) = 6"
    by (simp_all add: fst_Remaining preview_nothing_sent room_def RollPlan_fixed_profile)
  moreover have "snd (RemainingToday now ?r t) = ?r" "snd (RemainingThisHour now ?r t) = ?r"
    by (simp_all add: snd_Remaining)
  ultimately show "RemainingToday now ?r t = (30, ?r)" "RemainingThisHour now ?r t = (6, ?r)"
    by (metis prod.collapse)+
qed

lemma NextOpen_fixed_profile:
  assumes "0 \<le> a" "a < b" "b < 1440"
  obtains u where "NextOpen t UTC (RollPlan (fixed_profile a b))
      = Some (u, RollPlan (fixed_profile a b) (PlanDateFor u UTC))"
    "g_inst t \<le> g_inst u" "a \<le> MinuteOfDay u UTC" "MinuteOfDay u UTC < b"
    "\<And>v. g_inst t \<le> g_inst v \<Longrightarrow> g_inst v < g_inst u \<Longrightarrow>
       \<not> (a \<le> MinuteOfDay v UTC \<and> MinuteOfDay v UTC < b)"
proof -
  let ?P = "RollPlan (fixed_profile a b)"
  have d: "day_planner ?P"
    using RollPlan_open_in_day [OF Validate_fixed_profile [OF assms]] by (unfold_locales) blast
  note c = day_planner.NextOpen_correct [OF d, of UTC t]
    and o = day_planner.earliest_open_def [OF d] day_planner.open_at_def [OF d] Contains_fixed_profile
  show thesis
  proof (cases "NextOpen t UTC ?P")
    case None
    let ?M = "(local_day_in t UTC + 1) * 1440 + a"
    have "minute_index UTC t < ?M"
      using MinuteOfDay_range [of t UTC] assms by (simp add: minute_index_now)
    then have "g_inst t \<le> g_inst (minute_at UTC ?M)"
      using minute_index_less [of UTC t ?M] by simp
    moreover have dm: "(x * 1440 + a) div 1440 = x" "(x * 1440 + a) mod 1440 = a" for x :: int
      using assms by (auto intro: int_div_pos_eq int_mod_pos_eq)
    have "local_day_in (minute_at UTC ?M) UTC = local_day_in t UTC + 1"
      "MinuteOfDay (minute_at UTC ?M) UTC = a"
      by (simp_all only: minute_index_at UTC_fixed minute_index_day [symmetric]
          minute_index_minute [symmetric] dm)
    ultimately have False using c None assms by (auto simp: o dm)
    then show thesis ..
  next
    case (Some up)
    obtain u p where "up = (u, p)" by (cases up)
    then show thesis using c Some by (intro that [of u]) (auto simp: o)
  qed
qed

lemma place_preview:
  assumes "0 \<le> a" "a < b" "b < 1440"
  shows "placeWithinBehavior True now t (preview (fixed_profile a b))
    = (map_option fst (NextOpen t UTC (RollPlan (fixed_profile a b))), preview (fixed_profile a b))"
proof -
  obtain u p where "NextOpen t UTC (RollPlan (fixed_profile a b)) = Some (u, p)"
    using NextOpen_fixed_profile [OF assms] by metis
  then show ?thesis
    by (simp add: placeWithinBehavior_def placementAttempts_def numeral_eq_Suc rs_next_open_def
        NextOpen_st_preview rs_left_today_def rs_left_hour_def Remaining_preview)
qed


section \<open>The two calendars together\<close>

lemma NextOpen_g_loc: "fst (Resolved_NextOpen now t rs) = Some (u, p) \<Longrightarrow> g_loc u = rs_Loc (fst rs)"
proof -
  have "NextOpen_loop n first cur loc pl = Some (u, p) \<Longrightarrow> g_loc cur = loc \<Longrightarrow> g_loc u = loc"
    for n first cur loc pl
    by (induction n arbitrary: first cur)
      (auto simp: Let_def add_days_def split: option.splits if_splits prod.splits)
  then show "fst (Resolved_NextOpen now t rs) = Some (u, p) \<Longrightarrow> g_loc u = rs_Loc (fst rs)"
    by (simp add: Resolved_NextOpen_pure NextOpen_def)
qed

lemma place_keeps:
  assumes "place_inv rs"
  shows "place_inv (snd (placeWithinBehavior True now t rs))"
    "same_answers now rs (snd (placeWithinBehavior True now t rs))"
proof -
  have "same_answers now rs (snd (place_loop (rs_next_open now) (rs_left_today now)
      (rs_left_hour now) rs_next_day rs_hour_end n t rs)) " if "place_inv rs" for n t rs
    using that by (rule walk.place_loop_same)
  then show "same_answers now rs (snd (placeWithinBehavior True now t rs))"
    using assms by (simp add: placeWithinBehavior_def same_answers_refl)
  show "place_inv (snd (placeWithinBehavior True now t rs))"
    using assms walk.place_loop_keeps by (simp add: placeWithinBehavior_def)
qed

lemma placed_loc:
  assumes "place_inv rs" "rs_Enabled (fst rs)"
    "fst (placeWithinBehavior True now desired rs) = Some t"
  shows "g_loc t = rs_Loc (fst rs)"
proof -
  note p = assms(3) [unfolded placeWithinBehavior_def, simplified assms(2), simplified]
  obtain t' where "fst (rs_next_open now t' rs) = Some t"
    using walk.place_loop_room [OF assms(1) p] by auto
  then obtain q where "fst (Resolved_NextOpen now t' rs) = Some (t, q)" by auto
  then show ?thesis by (rule NextOpen_g_loc)
qed

lemma intersect_loop_ge:
  assumes "\<bar>loc_base loc\<bar> \<le> 86400"
  shows "place_inv rs \<Longrightarrow> rs_Enabled (fst rs) \<Longrightarrow> rs_Loc (fst rs) = loc \<Longrightarrow>
    (\<And>s. \<bar>offset_at (g_loc t) s\<bar> \<le> 86400) \<Longrightarrow>
    g_inst t \<le> g_inst (fst (intersect_loop n now t sw tz rs))"
proof (induction n arbitrary: t rs)
  case (Suc n)
  let ?c = "nextScheduleSlot t sw tz"
  have c: "g_inst t \<le> g_inst ?c" by (rule nextScheduleSlot_not_before [OF Suc.prems(4)])
  obtain ans rs' where p: "placeWithinBehavior True now ?c rs = (ans, rs')"
    by (cases "placeWithinBehavior True now ?c rs")
  show ?case
  proof (cases ans)
    case None
    then show ?thesis using c p by (simp add: Let_def)
  next
    case (Some u)
    note u = placed_room(1) [OF Suc.prems(1,2), of now ?c u]
      placed_loc [OF Suc.prems(1,2), of now ?c u]
    have k: "place_inv rs'" "same_answers now rs rs'"
      using place_keeps [OF Suc.prems(1), of now ?c] p by simp_all
    have "\<bar>offset_at (g_loc u) s\<bar> \<le> 86400" for s
      using u(2) p Some Suc.prems(1,3) assms by (simp add: place_inv_def)
    then have "g_inst u \<le> g_inst (fst (intersect_loop n now u sw tz rs'))"
      using k Suc.prems(2,3) by (intro Suc.IH) (simp_all add: same_answers_def)
    then show ?thesis using c u(1) p Some by (simp add: Let_def)
  qed
qed simp

text \<open>
  Bringing the campaign's windows and the mailbox's workday together only
  delays: the instant answered is not before the one given.
\<close>

theorem intersect_only_delays:
  assumes "place_inv rs" "\<bar>loc_base (rs_Loc (fst rs))\<bar> \<le> 86400"
    "\<And>s. \<bar>offset_at (g_loc t) s\<bar> \<le> 86400"
  shows "g_inst t \<le> g_inst (fst (intersectWindows wired now t sw tz rs))"
  using intersect_loop_ge [OF assms(2,1) _ refl assms(3)] nextScheduleSlot_not_before [OF assms(3)]
  by (simp add: intersectWindows_def)

theorem intersect_only_delays_witness:
  "1793514600 * Second \<le> g_inst (fst (intersectWindows True 0
     \<lparr>g_inst = 1793514600 * Second, g_loc = new_york_2026\<rparr> (replicate 7 [\<lparr>iv_Start = 60, iv_End = 120\<rparr>])
     new_york_2026 (preview (fixed_profile 540 1020))))"
proof -
  have "place_inv (preview (fixed_profile 540 1020))"
    by (rule place_inv_preview, rule Validate_fixed_profile) simp_all
  from intersect_only_delays [OF this, of "\<lparr>g_inst = 1793514600 * Second, g_loc = new_york_2026\<rparr>"]
  show ?thesis by (simp add: new_york_2026_def offset_at_def zone_at_def)
qed

text \<open>
  When the two calendars never meet, the walk ends after its eight rounds in the
  mailbox's calendar and outside the campaign's: the comment on \<open>intersectWindows\<close> says
  that "the campaign window wins", the code answers the last placement.
\<close>

lemma intersect_disjoint:
  assumes ab: "0 \<le> a" "a < b" "b < 1440" and sw: "schedule_ok sw" "\<not> IsEmpty sw"
    and disjoint: "\<And>M. in_window sw M \<Longrightarrow> \<not> (a \<le> M mod 1440 \<and> M mod 1440 < b)"
  shows "0 < n \<or> \<not> in_window sw (minute_index UTC t) \<Longrightarrow>
    \<not> in_window sw (minute_index UTC
        (fst (intersect_loop n now t sw UTC (preview (fixed_profile a b)))))"
proof (induction n arbitrary: t)
  case (Suc n)
  let ?c = "nextScheduleSlot t sw UTC"
  have c: "in_window sw (minute_index UTC ?c)"
    using nextScheduleSlot_earliest [OF UTC_fixed(1) sw, of t] by blast
  obtain u where u: "NextOpen ?c UTC (RollPlan (fixed_profile a b))
      = Some (u, RollPlan (fixed_profile a b) (PlanDateFor u UTC))"
    "g_inst ?c \<le> g_inst u" "a \<le> MinuteOfDay u UTC" "MinuteOfDay u UTC < b"
    using NextOpen_fixed_profile [OF ab] by metis
  have out: "\<not> in_window sw (minute_index UTC u)"
    using disjoint [of "minute_index UTC u"] u(3,4) by (auto simp: minute_index_minute)
  have "after u ?c"
  proof (rule ccontr)
    assume "\<not> after u ?c"
    then have "g_inst u = g_inst ?c" using u(2) by (simp add: after_def)
    then have "minute_index UTC u = minute_index UTC ?c"
      by (simp add: minute_index_def local_secs_def unix_of_def)
    then show False using c out by simp
  qed
  then have "intersect_loop (Suc n) now t sw UTC (preview (fixed_profile a b))
      = intersect_loop n now u sw UTC (preview (fixed_profile a b))"
    using u(1) by (simp add: place_preview [OF ab] Let_def)
  then show ?case using Suc.IH [of u] out by simp
qed simp

theorem intersect_may_leave_campaign:
  "\<not> in_window (replicate 7 [\<lparr>iv_Start = 1200, iv_End = 1260\<rparr>]) (minute_index UTC
      (fst (intersectWindows True now t (replicate 7 [\<lparr>iv_Start = 1200, iv_End = 1260\<rparr>]) UTC
             (preview (fixed_profile 540 1020)))))"
proof -
  let ?sw = "replicate 7 [\<lparr>iv_Start = 1200, iv_End = 1260\<rparr>] :: ScheduleWindows"
  have sw: "schedule_ok ?sw" "\<not> IsEmpty ?sw"
    by (simp_all add: schedule_ok_def CampaignScheduleWindows_def IsEmpty_def find_None_iff
        numeral_eq_Suc)
  have "1200 \<le> M mod 1440" if "in_window ?sw M" for M
  proof -
    have "nat (weekday_of_days (M div 1440)) < 7" using weekday_range [of "M div 1440"] by simp
    then show ?thesis using that by (simp add: in_window_def)
  qed
  then have "\<not> (540 \<le> M mod 1440 \<and> M mod 1440 < 1020)" if "in_window ?sw M" for M
    using that by fastforce
  then show ?thesis
    using intersect_disjoint [of 540 1020 ?sw 8 t now] sw by (simp add: intersectWindows_def)
qed

section \<open>The repeated hour\<close>

text \<open>
  In the night the clocks go back, \<open>NextOpen\<close> can answer an instant before the one it was
  given: a minute of the repeated hour is resolved to its first pass, also when the
  search starts in the second. \<open>nextScheduleSlot\<close> guards against this; \<open>NextOpen\<close>, whose
  comment promises the first instant at or after \<open>from\<close>, does not.
\<close>

definition second_half_past_one :: gtime where
  "second_half_past_one = \<lparr>g_inst = 1793514600 * Second, g_loc = new_york_2026\<rparr>"

lemmas clock_defs = civil_def local_day_def local_secs_def unix_of_def in_loc_def new_york_2026_def
  offset_at_def zone_at_def civil_of_days_def march_year_def go_date_def wall_secs_def
  days_of_civil_def unix_of_wall_def hour_of_def minute_of_def

lemma new_york_night:
  "PlanDateFor second_half_past_one new_york_2026
     = \<lparr>g_inst = 1793505600 * Second, g_loc = new_york_2026\<rparr>"
  "MinuteOfDay second_half_past_one new_york_2026 = 90"
  "AtMinute \<lparr>g_inst = 1793505600 * Second, g_loc = new_york_2026\<rparr> 100
     = \<lparr>g_inst = 1793511600 * Second, g_loc = new_york_2026\<rparr>"
  "in_loc second_half_past_one new_york_2026 = second_half_past_one"
  by (simp add: PlanDateFor_def second_half_past_one_def clock_defs)
    (simp add: MinuteOfDay_def second_half_past_one_def clock_defs,
     simp add: AtMinute_def clock_defs,
     simp add: second_half_past_one_def in_loc_def)

theorem next_open_repeated_hour:
  "Validate (fixed_profile 100 600) = None
   \<and> map_option fst (NextOpen second_half_past_one new_york_2026 (RollPlan (fixed_profile 100 600)))
       = Some \<lparr>g_inst = 1793511600 * Second, g_loc = new_york_2026\<rparr>
   \<and> 1793511600 * Second < g_inst second_half_past_one"
proof -
  let ?d = "\<lparr>g_inst = 1793505600 * Second, g_loc = new_york_2026\<rparr>"
  have m: "NextOpenMinute (RollPlan (fixed_profile 100 600) ?d) 90 = Some 100"
    using RollPlan_fixed_profile [of 100 600 ?d] by (simp add: NextOpenMinute_def)
  have "map_option fst (NextOpen second_half_past_one new_york_2026 (RollPlan (fixed_profile 100 600)))
      = Some \<lparr>g_inst = 1793511600 * Second, g_loc = new_york_2026\<rparr>"
    unfolding NextOpen_def searchDays_Suc NextOpen_loop.simps Let_def new_york_night if_True m option.case
    using new_york_night(3) by simp
  then show ?thesis by (simp add: Validate_fixed_profile second_half_past_one_def)
qed

end
