(* ===== verification/Warmup_Ramp.thy ===== *)
theory Warmup_Ramp
  imports Go_Duration
begin

text \<open>
  How much warmup and cold mail a mailbox may send today, \<open>internal/app/warmupramp\<close>: the
  ramp that climbs by the day and is held by spam placements (\<open>ramp.go\<close>), the plan built
  from it (\<open>plan.go\<close>), the cold ceiling of a graduating mailbox (\<open>cold.go\<close>), and the
  share of replies a mailbox owes (\<open>reply.go\<close>).

  Times are instants. A reader of the repository is a pair of functions that may fail
  (\<open>None\<close>), and the whole reader may be missing.
\<close>

abbreviation (input) ActiveCampaignCap :: int where "ActiveCampaignCap \<equiv> 5"
abbreviation (input) BoostedReplyRate :: int where "BoostedReplyRate \<equiv> 60"
abbreviation (input) SoftThrottleMultiplier :: rat where "SoftThrottleMultiplier \<equiv> 3 / 4"
abbreviation (input) SoftSignalWindow :: duration where "SoftSignalWindow \<equiv> 48 * Hour"
abbreviation (input) FreezeWindow :: duration where "FreezeWindow \<equiv> 72 * Hour"
abbreviation (input) LookbackWindow :: duration where "LookbackWindow \<equiv> 60 * 24 * Hour"
abbreviation (input) ColdRampIncrement :: int where "ColdRampIncrement \<equiv> 5"
abbreviation (input) coldStart :: int where "coldStart \<equiv> 5"

section \<open>The ramp\<close>

definition SoftAdjust :: "int \<Rightarrow> rat" where
  "SoftAdjust placements = (if 0 < placements then SoftThrottleMultiplier else 1)"

definition wholeDays :: "duration \<Rightarrow> int" where
  "wholeDays d = (let days = trunc (fdiv (hours_of d) 24) in if days < 0 then 0 else days)"

text \<open>The freeze windows that count, each clipped to \<open>now\<close>.\<close>

definition freeze_spans ::
  "instant \<Rightarrow> instant list \<Rightarrow> instant \<Rightarrow> duration \<Rightarrow> (instant \<times> instant) list" where
  "freeze_spans warmupStart placements now freeze =
     filter (\<lambda>(start, end'). start < end')
       (map (\<lambda>p. (p, if now < p + freeze then now else p + freeze))
         (filter (\<lambda>p. \<not> p < warmupStart) placements))"

fun merge_spans :: "instant \<times> instant \<Rightarrow> duration \<Rightarrow> (instant \<times> instant) list \<Rightarrow> duration" where
  "merge_spans (cs, ce) acc [] = acc + tsub ce cs"
| "merge_spans (cs, ce) acc ((s, e) # spans) =
     (if ce < s then merge_spans (s, e) (acc + tsub ce cs) spans
      else merge_spans (cs, if ce < e then e else ce) acc spans)"

definition frozenDuration ::
  "instant \<Rightarrow> instant list \<Rightarrow> instant \<Rightarrow> duration \<Rightarrow> duration" where
  "frozenDuration warmupStart placements now freeze =
     (case sort_key fst (freeze_spans warmupStart placements now freeze) of
        [] \<Rightarrow> 0
      | cur # spans \<Rightarrow> merge_spans cur 0 spans)"

definition Days :: "instant \<Rightarrow> instant list \<Rightarrow> instant \<Rightarrow> duration \<Rightarrow> int" where
  "Days warmupStart placements now freeze =
     (let elapsed = tsub now warmupStart
      in if elapsed \<le> 0 then 0
         else wholeDays (elapsed - frozenDuration warmupStart placements now freeze))"

definition latest_of :: "instant list \<Rightarrow> instant" where
  "latest_of placements = foldl (\<lambda>latest p. if latest < p then p else latest) zero_time placements"

definition FrozenUntil :: "instant list \<Rightarrow> instant \<Rightarrow> duration \<Rightarrow> instant option" where
  "FrozenUntil placements now freeze =
     (let latest = latest_of placements
      in if is_zero latest then None
         else let until = latest + freeze in if \<not> now < until then None else Some until)"

definition Target :: "bool \<Rightarrow> int \<Rightarrow> int \<Rightarrow> int \<Rightarrow> int \<Rightarrow> bool \<Rightarrow> int" where
  "Target activelyWarming base increase max' days inCampaign =
     (if \<not> activelyWarming then ActiveCampaignCap
      else
        let target = base + days * increase;
            target = (if max' < target then max' else target)
        in if inCampaign \<and> ActiveCampaignCap < target then ActiveCampaignCap else target)"

definition ApplyMult :: "int \<Rightarrow> rat \<Rightarrow> int" where
  "ApplyMult target multiplier =
     (if 1 \<le> multiplier \<or> target \<le> 0 then target
      else
        let cut = trunc (fadd (fmul (f_of target) multiplier) (1 / 2));
            cut = (if cut < 1 then 1 else cut)
        in if target < cut then target else cut)"

section \<open>The plan\<close>

record reader =
  rd_SpamPlacementsSince :: "uuid \<Rightarrow> instant \<Rightarrow> instant list option"
  rd_SumWarmupSentSince :: "uuid \<Rightarrow> instant \<Rightarrow> int option"

record ramp_input =
  in_AccountID :: uuid
  in_WarmupStart :: instant
  in_ActivelyWarming :: bool
  in_Base :: int
  in_Increase :: int
  in_Max :: int
  in_InCampaign :: bool
  in_Health :: string
  in_Now :: instant

record ramp_plan =
  pl_Target :: int
  pl_Placements :: int
  pl_Sends :: int
  pl_FrozenUntil :: "instant option"

definition Cut :: "ramp_plan \<Rightarrow> bool" where
  "Cut p \<longleftrightarrow> 0 < pl_Placements p"

definition HealthVolumeMultiplier :: "string \<Rightarrow> rat" where
  "HealthVolumeMultiplier state = (if state = ''throttled'' then 1 / 2 else 1)"

definition Holds :: "string \<Rightarrow> bool" where
  "Holds s \<longleftrightarrow> s = ''quarantined'' \<or> s = ''blocked''"

definition read_placements :: "reader option \<Rightarrow> ramp_input \<Rightarrow> instant list" where
  "read_placements r i =
     (case r of None \<Rightarrow> []
      | Some r \<Rightarrow>
          (case rd_SpamPlacementsSince r (in_AccountID i) (in_Now i - LookbackWindow) of
             None \<Rightarrow> [] | Some got \<Rightarrow> got))"

text \<open>The placements fresh enough to cut, the day's ramp level, and the level after the cut.\<close>

definition fresh_placements :: "reader option \<Rightarrow> ramp_input \<Rightarrow> int" where
  "fresh_placements r i =
     int (length (filter (\<lambda>p. \<not> p < in_Now i - SoftSignalWindow) (read_placements r i)))"

definition ramp_target :: "reader option \<Rightarrow> ramp_input \<Rightarrow> int" where
  "ramp_target r i =
     Target True (in_Base i) (in_Increase i) (in_Max i)
       (Days (in_WarmupStart i) (read_placements r i) (in_Now i) FreezeWindow) (in_InCampaign i)"

definition soft_target :: "reader option \<Rightarrow> ramp_input \<Rightarrow> int" where
  "soft_target r i =
     (if in_Health i = ''healthy'' \<or> in_Health i = []
      then ApplyMult (ramp_target r i) (SoftAdjust (fresh_placements r i)) else ramp_target r i)"

definition ResolvePlan :: "reader option \<Rightarrow> ramp_input \<Rightarrow> ramp_plan" where
  "ResolvePlan r i =
     (if \<not> in_ActivelyWarming i
      then \<lparr>pl_Target = Target False (in_Base i) (in_Increase i) (in_Max i) 0 (in_InCampaign i),
            pl_Placements = 0, pl_Sends = 0, pl_FrozenUntil = None\<rparr>
      else
        \<lparr>pl_Target = ApplyMult (soft_target r i) (HealthVolumeMultiplier (in_Health i)),
         pl_Placements = fresh_placements r i,
         pl_Sends = (case r of None \<Rightarrow> 0
           | Some r' \<Rightarrow>
               if 0 < fresh_placements r i
               then (case rd_SumWarmupSentSince r' (in_AccountID i) (in_Now i - SoftSignalWindow) of
                       None \<Rightarrow> 0 | Some n \<Rightarrow> n)
               else 0),
         pl_FrozenUntil = FrozenUntil (read_placements r i) (in_Now i) FreezeWindow\<rparr>)"

section \<open>The cold ceiling\<close>

definition ColdStart :: "int \<Rightarrow> int" where
  "ColdStart warmupDays = coldStart"

definition ColdCeiling ::
  "int \<Rightarrow> instant \<Rightarrow> instant list \<Rightarrow> instant \<Rightarrow> int \<Rightarrow> int list \<Rightarrow> int" where
  "ColdCeiling warmupDays rampStart placements now mailboxCap confirmedReplies =
     (let replies = (case confirmedReplies of [] \<Rightarrow> 0 | r # _ \<Rightarrow> max 0 r);
          ceiling' = ColdStart warmupDays
            + (if \<not> is_zero rampStart
               then min replies (Days rampStart placements now FreezeWindow * ColdRampIncrement)
               else 0)
      in if mailboxCap < ceiling' then mailboxCap else ceiling')"

definition ColdHeldUntil ::
  "instant \<Rightarrow> instant list \<Rightarrow> instant \<Rightarrow> duration \<Rightarrow> instant option" where
  "ColdHeldUntil rampStart placements now freeze =
     (if is_zero rampStart then None
      else FrozenUntil (filter (\<lambda>p. \<not> p < rampStart) placements) now freeze)"

record ColdRampInfo =
  cr_Ceiling :: int
  cr_MailboxCap :: int
  cr_DaysToFullCap :: int
  cr_Held :: bool

definition Notice ::
  "instant option \<Rightarrow> instant option \<Rightarrow> instant list \<Rightarrow> int \<Rightarrow> instant \<Rightarrow> int list
     \<Rightarrow> ColdRampInfo option" where
  "Notice warmupStartedAt coldRampStartedAt placements mailboxCap now confirmedReplies =
     (case warmupStartedAt of
        None \<Rightarrow> None
      | Some started \<Rightarrow>
          let warmupDays = wholeDays (tsub now started);
              rampStart = (case coldRampStartedAt of None \<Rightarrow> zero_time | Some t \<Rightarrow> t);
              ceiling' = ColdCeiling warmupDays rampStart placements now mailboxCap confirmedReplies
          in Some \<lparr>cr_Ceiling = ceiling', cr_MailboxCap = mailboxCap,
               cr_DaysToFullCap = (if ceiling' < mailboxCap then - 1 else 0),
               cr_Held = (ColdHeldUntil rampStart placements now FreezeWindow \<noteq> None)\<rparr>)"

record ColdRampState =
  crs_ConfirmedReplies :: int
  crs_WarmupStartedAt :: "instant option"
  crs_ColdRampStartedAt :: "instant option"
  crs_WarmupStoppedAt :: "instant option"
  crs_Placements :: "instant list"

definition CeilingApplies :: "ColdRampState \<Rightarrow> bool" where
  "CeilingApplies s =
     (case crs_WarmupStartedAt s of
        None \<Rightarrow> False
      | Some started \<Rightarrow>
          (case crs_WarmupStoppedAt s of None \<Rightarrow> True | Some stopped \<Rightarrow> stopped < started))"

definition WithKnownWarmup :: "ColdRampState \<Rightarrow> instant option \<Rightarrow> ColdRampState" where
  "WithKnownWarmup s startedAt =
     (if crs_WarmupStartedAt s = None then s\<lparr>crs_WarmupStartedAt := startedAt\<rparr> else s)"

text \<open>\<open>coldCeilingFor\<close> of \<open>internal/scheduler/cold_ramp.go\<close>.\<close>

definition coldCeilingFor :: "instant \<Rightarrow> ColdRampState \<Rightarrow> int \<Rightarrow> int" where
  "coldCeilingFor now state mailboxCap =
     (if \<not> CeilingApplies state then mailboxCap
      else
        let warmupDays = wholeDays (tsub now (the (crs_WarmupStartedAt state)));
            rampStart = (case crs_ColdRampStartedAt state of None \<Rightarrow> zero_time | Some t \<Rightarrow> t)
        in ColdCeiling warmupDays rampStart (crs_Placements state) now mailboxCap
             [crs_ConfirmedReplies state])"

section \<open>Replies\<close>

definition ReplyDeficit :: "int \<Rightarrow> int \<Rightarrow> int \<Rightarrow> rat" where
  "ReplyDeficit target sent replied =
     (if target \<le> 0 then 0
      else fsub (fmul (fdiv (f_of (min target 100)) 100) (f_of (sent + 1))) (f_of replied))"

definition ReplyChance :: "int \<Rightarrow> int \<Rightarrow> int \<Rightarrow> rat" where
  "ReplyChance target sent replied =
     (if target \<le> 0 then 0
      else
        let t = fdiv (f_of (min target 100)) 100
        in if sent \<le> 0 then t
           else
             let share = fdiv (f_of replied) (f_of sent)
             in min (min (max (fsub (fmul 2 t) share) (fdiv t 2)) (fmul (3 / 2) t)) 1)"

text \<open>The reads that decide recovery engagement, each of which may be missing or fail.\<close>

record recovery_signals =
  sg_HealthState :: "(uuid \<Rightarrow> string option) option"
  sg_ConsumerMailbox :: "(uuid \<Rightarrow> bool option) option"
  sg_ActiveCampaigns :: "(uuid \<Rightarrow> int option) option"

definition Recovering :: "recovery_signals \<Rightarrow> uuid \<Rightarrow> bool" where
  "Recovering r sender =
     ((case sg_HealthState r of None \<Rightarrow> False
        | Some f \<Rightarrow> (case f sender of None \<Rightarrow> False
            | Some state \<Rightarrow> state = ''watch'' \<or> state = ''throttled''))
      \<or> (case sg_ConsumerMailbox r of None \<Rightarrow> False
           | Some f \<Rightarrow> (case f sender of None \<Rightarrow> False | Some consumer \<Rightarrow> consumer))
      \<or> (case sg_ActiveCampaigns r of None \<Rightarrow> False
           | Some f \<Rightarrow> (case f sender of None \<Rightarrow> False | Some n \<Rightarrow> 0 < n)))"

section \<open>The frozen time is the union of the freeze windows\<close>

definition frozen_set :: "instant \<Rightarrow> instant list \<Rightarrow> instant \<Rightarrow> duration \<Rightarrow> instant set" where
  "frozen_set warmupStart placements now freeze =
     (\<Union>p\<in>{p \<in> set placements. warmupStart \<le> p}. {p..<min now (p + freeze)})"

text \<open>The instants covered by a list of spans.\<close>

definition cover :: "(instant \<times> instant) list \<Rightarrow> instant set" where
  "cover spans = (\<Union>(s, e)\<in>set spans. {s..<e})"

lemma cover_simps [simp]: "cover [] = {}" "cover ((s, e) # spans) = {s..<e} \<union> cover spans"
  by (auto simp: cover_def)

lemma finite_cover [simp]: "finite (cover spans)"
  by (auto simp: cover_def)

lemma cover_sort_key [simp]: "cover (sort_key f spans) = cover spans"
  by (simp add: cover_def)

lemma merge_spans_cover:
  "sorted (map fst ((cs, ce) # spans)) \<Longrightarrow> cs < ce \<Longrightarrow> \<forall>(s, e)\<in>set spans. s < e \<Longrightarrow>
   \<forall>(s, e)\<in>set ((cs, ce) # spans). lo \<le> s \<and> e \<le> hi \<Longrightarrow> hi - lo \<le> max_duration \<Longrightarrow>
   merge_spans (cs, ce) acc spans = acc + int (card ({cs..<ce} \<union> cover spans))"
proof (induction spans arbitrary: cs ce acc)
  case Nil
  then show ?case by (simp add: tsub_exact)
next
  case (Cons se spans)
  obtain s e where se: "se = (s, e)" by (cases se)
  have in_range: "tsub ce cs = ce - cs"
    using Cons.prems by (intro tsub_exact) auto
  show ?case
  proof (cases "ce < s")
    case True
    have "s \<le> fst x" if "x \<in> set spans" for x
      using Cons.prems(1) that by (auto simp: se)
    then have "cover spans \<subseteq> {s..}" by (fastforce simp: cover_def)
    then have "{cs..<ce} \<inter> ({s..<e} \<union> cover spans) = {}"
      using True by fastforce
    then have "card ({cs..<ce} \<union> ({s..<e} \<union> cover spans)) = nat (ce - cs) + card ({s..<e} \<union> cover spans)"
      by (simp add: card_Un_disjoint)
    moreover have "merge_spans (s, e) (acc + tsub ce cs) spans
        = acc + tsub ce cs + int (card ({s..<e} \<union> cover spans))"
      using Cons.prems by (intro Cons.IH) (auto simp: se)
    ultimately show ?thesis using True Cons.prems(2) by (simp add: se in_range)
  next
    case False
    have "{cs..<if ce < e then e else ce} = {cs..<ce} \<union> {s..<e}"
      using False Cons.prems(1,2,3) by (auto simp: se)
    moreover have "merge_spans (cs, if ce < e then e else ce) acc spans
        = acc + int (card ({cs..<if ce < e then e else ce} \<union> cover spans))"
      using Cons.prems by (intro Cons.IH) (auto simp: se)
    ultimately show ?thesis using False by (simp add: se Un_assoc)
  qed
qed

lemma cover_freeze_spans:
  "cover (freeze_spans warmupStart placements now freeze) = frozen_set warmupStart placements now freeze"
proof -
  have m: "(if now < p + freeze then now else p + freeze) = min now (p + freeze)" for p
    by (simp add: min_def)
  have "t \<in> cover (freeze_spans warmupStart placements now freeze)
      \<longleftrightarrow> (\<exists>p. p \<in> set placements \<and> warmupStart \<le> p \<and> p \<le> t \<and> t < min now (p + freeze))" for t
    unfolding cover_def freeze_spans_def m by (force simp: not_less simp del: min_less_iff_conj)
  then show ?thesis by (auto simp: frozen_set_def)
qed

lemma frozen_set_bounds: "frozen_set ws ps now freeze \<subseteq> {ws..<now}"
  by (auto simp: frozen_set_def)

lemma finite_frozen_set [simp]: "finite (frozen_set ws ps now freeze)"
  by (rule finite_subset [OF frozen_set_bounds]) simp

lemma frozenDuration_card:
  assumes "now - warmupStart \<le> max_duration"
  shows "frozenDuration warmupStart placements now freeze
    = int (card (frozen_set warmupStart placements now freeze))"
proof -
  let ?spans = "freeze_spans warmupStart placements now freeze"
  let ?ss = "sort_key fst ?spans"
  have ok: "s < e \<and> warmupStart \<le> s \<and> e \<le> now" if "(s, e) \<in> set ?ss" for s e
    using that by (auto simp: freeze_spans_def split: if_splits)
  have "cover ?ss = frozen_set warmupStart placements now freeze"
    by (simp add: cover_freeze_spans)
  moreover have "frozenDuration warmupStart placements now freeze = int (card (cover ?ss))"
  proof (cases ?ss)
    case Nil
    then show ?thesis by (simp add: frozenDuration_def)
  next
    case (Cons c spans)
    obtain cs ce where c: "c = (cs, ce)" by (cases c)
    have "sorted (map fst ?ss)" by simp
    then have "sorted (map fst ((cs, ce) # spans))" unfolding Cons c .
    then have "merge_spans (cs, ce) 0 spans = 0 + int (card ({cs..<ce} \<union> cover spans))"
      using ok assms unfolding Cons c
      by (intro merge_spans_cover [where lo = warmupStart and hi = now]) auto
    then show ?thesis unfolding frozenDuration_def Cons c by simp
  qed
  ultimately show ?thesis by simp
qed

lemma frozen_le_elapsed:
  assumes "ws \<le> now"
  shows "int (card (frozen_set ws ps now freeze)) \<le> now - ws"
  using card_mono [OF _ frozen_set_bounds, of ws now ps freeze] assms by simp

lemma frozen_set_mono: "set ps \<subseteq> set qs \<Longrightarrow> frozen_set ws ps now freeze \<subseteq> frozen_set ws qs now freeze"
  by (auto simp: frozen_set_def)

text \<open>
  Claim C26. The frozen time of a ramp is exactly the time covered by the union of the
  freeze windows of its own placements, clipped to now: overlapping windows count once,
  in whatever order and however often a placement is listed, and it never exceeds the
  time elapsed.
\<close>

theorem frozen_duration_is_union:
  assumes "warmupStart \<le> now" "now - warmupStart \<le> max_duration"
  shows "frozenDuration warmupStart placements now freeze
      = int (card {t. \<exists>p. p \<in> set placements \<and> warmupStart \<le> p \<and> p \<le> t \<and> t < min now (p + freeze)})
    \<and> frozenDuration warmupStart placements now freeze \<le> now - warmupStart"
proof -
  have "{t. \<exists>p. p \<in> set placements \<and> warmupStart \<le> p \<and> p \<le> t \<and> t < min now (p + freeze)}
      = frozen_set warmupStart placements now freeze"
    by (auto simp: frozen_set_def)
  then show ?thesis
    using frozenDuration_card [OF assms(2)] frozen_le_elapsed [OF assms(1)] by simp
qed

theorem frozen_duration_is_union_witness:
  "frozenDuration 0 [20, 10, 20] 100 30 = 40"
proof -
  have e2: "(\<exists>p. p \<in> set [20, 10, 20] \<and> 0 \<le> p \<and> p \<le> t \<and> t < min 100 (p + 30)) \<longleftrightarrow> 10 \<le> t \<and> t < 50"
    for t :: int
  proof -
    have e: "(\<exists>p. p \<in> set [20, 10, 20] \<and> Q p) \<longleftrightarrow> Q 20 \<or> Q 10" for Q :: "int \<Rightarrow> bool" by auto
    have "(0 \<le> (20::int) \<and> 20 \<le> t \<and> t < min 100 (20 + 30) \<or> 0 \<le> (10::int) \<and> 10 \<le> t \<and> t < min 100 (10 + 30))
        \<longleftrightarrow> 10 \<le> t \<and> t < 50" by simp linarith
    then show ?thesis unfolding e [of "\<lambda>p. 0 \<le> p \<and> p \<le> t \<and> t < min 100 (p + 30)"] .
  qed
  have "{t. \<exists>p. p \<in> set [20, 10, 20] \<and> 0 \<le> p \<and> p \<le> t \<and> t < min 100 (p + 30)} = {10..<50::int}"
    unfolding e2 by auto
  with frozen_duration_is_union [of 0 100 "[20, 10, 20]" 30] show ?thesis by (simp only:) simp
qed

section \<open>Placements only lower the volume\<close>

lemma hour_range:
  assumes "0 \<le> d" "d \<le> max_duration"
  shows "d div Hour < 2 ^ 52"
proof -
  have "d div Hour \<le> max_duration div Hour" using assms(2) by (rule zdiv_mono1) simp
  then show ?thesis by simp
qed

lemma wholeDays_nonneg: "0 \<le> wholeDays d"
  by (simp add: wholeDays_def Let_def)

lemma wholeDays_mono: "0 \<le> d \<Longrightarrow> d \<le> e \<Longrightarrow> e \<le> max_duration \<Longrightarrow> wholeDays d \<le> wholeDays e"
proof -
  assume d: "0 \<le> d" "d \<le> e" "e \<le> max_duration"
  have "hours_of d \<le> hours_of e"
    using d hour_range [of e] by (intro units_of_mono) simp_all
  then have "trunc (fdiv (hours_of d) 24) \<le> trunc (fdiv (hours_of e) 24)"
    unfolding fdiv_def by (intro trunc_mono f64.rnd_mono) simp
  then show ?thesis by (simp add: wholeDays_def Let_def)
qed

text \<open>A ramp counts a full day once it has elapsed, and at most one it has not.\<close>

lemma wholeDays_bounds:
  assumes "0 \<le> d" "d \<le> max_duration"
  shows "d div Day \<le> wholeDays d" "wholeDays d \<le> d div Day + 1"
proof -
  define h k where "h = d div Hour" and "k = d div Day"
  have h: "0 \<le> h" "h < 2 ^ 52" using assms hour_range by (simp_all add: h_def pos_imp_zdiv_nonneg_iff)
  have "k = h div 24" by (simp add: h_def k_def flip: zdiv_zmult2_eq)
  then have k: "24 * k \<le> h" "h + 1 \<le> 24 * (k + 1)" "0 \<le> k" using h by simp_all
  have b: "of_int h \<le> hours_of d" "hours_of d \<le> of_int (h + 1)"
    unfolding h_def using assms hour_range by (intro units_of_bounds; simp)+
  have lo: "of_int (24 * k) \<le> hours_of d" using b(1) k(1) by (meson of_int_le_iff order_trans)
  have hi: "hours_of d \<le> of_int (24 * (k + 1))" using b(2) k(2) by (meson of_int_le_iff order_trans)
  have lo': "of_int k \<le> hours_of d / 24" using lo by simp
  have "of_int (24 * (k + 1)) = of_int (k + 1) * (24 :: rat)" by simp
  then have hi': "hours_of d / 24 \<le> of_int (k + 1)" using hi by (simp only: divide_le_eq) simp
  have "(2::int) ^ 52 < 2 ^ 53" by simp
  then have s: "\<bar>k\<bar> < 2 ^ 53" "\<bar>k + 1\<bar> < 2 ^ 53" using k h by linarith+
  have "of_int k \<le> fdiv (hours_of d) 24" "fdiv (hours_of d) 24 \<le> of_int (k + 1)"
    unfolding fdiv_def using lo' hi' s by (auto intro!: f64.rnd_ge_int f64.rnd_le_int simp del: of_int_add)
  then have "k \<le> trunc (fdiv (hours_of d) 24)" "trunc (fdiv (hours_of d) 24) \<le> k + 1"
    by (simp_all only: trunc_ge_int trunc_le_int)
  then show "d div Day \<le> wholeDays d" "wholeDays d \<le> d div Day + 1"
    using k(3) by (simp_all add: wholeDays_def Let_def flip: k_def)
qed

lemma Days_antitone:
  assumes "now - ws \<le> max_duration" "set ps \<subseteq> set qs"
  shows "Days ws qs now freeze \<le> Days ws ps now freeze"
proof (cases "ws < now")
  case True
  have e: "tsub now ws = now - ws" using True assms(1) by (intro tsub_exact) simp
  have c: "card (frozen_set ws ps now freeze) \<le> card (frozen_set ws qs now freeze)"
    using frozen_set_mono [OF assms(2)] by (intro card_mono) simp_all
  show ?thesis
    unfolding Days_def Let_def e frozenDuration_card [OF assms(1)]
    using True assms(1) c frozen_le_elapsed [of ws now qs freeze]
    by (auto intro!: wholeDays_mono)
qed (simp add: Days_def Let_def)

lemma Target_mono: "0 \<le> inc \<Longrightarrow> d \<le> d' \<Longrightarrow> Target a base inc mx d c \<le> Target a base inc mx d' c"
proof -
  assume "0 \<le> inc" "d \<le> d'"
  then have "d * inc \<le> d' * inc" by (rule mult_right_mono [rotated])
  then show ?thesis by (simp add: Target_def Let_def)
qed

lemma ApplyMult_le [bound_intros]: "ApplyMult t m \<le> t"
  by (simp add: ApplyMult_def Let_def)

lemma ApplyMult_pos [bound_intros]: "0 < t \<Longrightarrow> 1 \<le> ApplyMult t m"
  by (simp add: ApplyMult_def Let_def)

lemma ApplyMult_mono:
  assumes "t \<le> t'" "0 \<le> m"
  shows "ApplyMult t m \<le> ApplyMult t' m"
proof (cases "1 \<le> m \<or> t \<le> 0")
  case True
  then show ?thesis
    using assms ApplyMult_pos [of t' m] by (cases "t' \<le> 0") (auto simp: ApplyMult_def)
next
  case False
  have "trunc (fadd (fmul (f_of t) m) (1 / 2)) \<le> trunc (fadd (fmul (f_of t') m) (1 / 2))"
    unfolding fadd_def fmul_def using assms
    by (intro trunc_mono f64.rnd_mono add_right_mono mult_right_mono f_of_mono)
  then show ?thesis using False assms by (simp add: ApplyMult_def Let_def)
qed

lemma SoftAdjust_cases: "SoftAdjust n = 1 \<or> SoftAdjust n = 3 / 4"
  by (simp add: SoftAdjust_def)

lemma HealthVolumeMultiplier_nonneg: "0 \<le> HealthVolumeMultiplier s"
  by (simp add: HealthVolumeMultiplier_def)

lemma plan_target_antitone:
  assumes i: "0 \<le> in_Increase i" "in_Now i - in_WarmupStart i \<le> max_duration"
    and ps: "set (read_placements r i) \<subseteq> set (read_placements r' i)"
  shows "pl_Target (ResolvePlan r' i) \<le> pl_Target (ResolvePlan r i)"
proof (cases "in_ActivelyWarming i")
  case True
  have t: "ramp_target r' i \<le> ramp_target r i"
    unfolding ramp_target_def by (intro Target_mono Days_antitone i ps)
  have f: "0 < fresh_placements r' i" if "0 < fresh_placements r i"
    using that ps by (auto simp: fresh_placements_def filter_empty_conv)
  have "ApplyMult (ramp_target r' i) (SoftAdjust (fresh_placements r' i))
      \<le> ApplyMult (ramp_target r i) (SoftAdjust (fresh_placements r i))"
  proof (cases "0 < fresh_placements r i")
    case True
    then show ?thesis using f t by (simp add: SoftAdjust_def ApplyMult_mono)
  next
    case False
    then have "ApplyMult (ramp_target r i) (SoftAdjust (fresh_placements r i)) = ramp_target r i"
      by (simp add: SoftAdjust_def ApplyMult_def)
    then show ?thesis using t ApplyMult_le [of "ramp_target r' i"] by (metis order_trans)
  qed
  then have "soft_target r' i \<le> soft_target r i" using t by (simp add: soft_target_def)
  then have "ApplyMult (soft_target r' i) (HealthVolumeMultiplier (in_Health i))
      \<le> ApplyMult (soft_target r i) (HealthVolumeMultiplier (in_Health i))"
    by (intro ApplyMult_mono HealthVolumeMultiplier_nonneg)
  then show ?thesis using True by (simp add: ResolvePlan_def)
qed (simp add: ResolvePlan_def)

text \<open>
  Claim C32. Spam placements only ever lower a mailbox's warmup volume: with more of them
  read, whatever their order and number, the day's target is the same or lower.
\<close>

theorem placements_only_lower:
  assumes "0 \<le> in_Increase i" "in_Now i - in_WarmupStart i \<le> max_duration"
    "set (read_placements r i) \<subseteq> set (read_placements r' i)"
  shows "pl_Target (ResolvePlan r' i) \<le> pl_Target (ResolvePlan r i)"
  by (rule plan_target_antitone [OF assms])

text \<open>A mailbox ten days into its ramp, and the placements two readers report for it.\<close>

definition ten_days_in :: ramp_input where
  "ten_days_in = \<lparr>in_AccountID = [7], in_WarmupStart = 0, in_ActivelyWarming = True, in_Base = 5,
     in_Increase = 3, in_Max = 40, in_InCampaign = False, in_Health = ''healthy'', in_Now = 10 * Day\<rparr>"

definition reports :: "instant list \<Rightarrow> reader option" where
  "reports ps = Some \<lparr>rd_SpamPlacementsSince = (\<lambda>_ _. Some ps), rd_SumWarmupSentSince = (\<lambda>_ _. None)\<rparr>"

lemma read_reports [simp]: "read_placements (reports ps) i = ps"
  by (simp add: read_placements_def reports_def)

theorem placements_only_lower_witness:
  "pl_Target (ResolvePlan (reports [2 * Day, 9 * Day]) ten_days_in)
     \<le> pl_Target (ResolvePlan (reports [9 * Day]) ten_days_in)"
  using placements_only_lower [of ten_days_in "reports [9 * Day]" "reports [2 * Day, 9 * Day]"]
  by (simp add: ten_days_in_def)

text \<open>
  A warming mailbox always keeps a heartbeat and never passes its maximum:
  whatever the placements and its health, the target is at least one, at most the
  maximum, and at most the campaign cap while it backs a live campaign.
\<close>

theorem plan_target_bounds:
  assumes "in_ActivelyWarming i" "1 \<le> in_Base i" "0 \<le> in_Increase i" "1 \<le> in_Max i"
  shows "1 \<le> pl_Target (ResolvePlan r i) \<and> pl_Target (ResolvePlan r i) \<le> in_Max i
    \<and> (in_InCampaign i \<longrightarrow> pl_Target (ResolvePlan r i) \<le> 5)"
proof -
  let ?d = "Days (in_WarmupStart i) (read_placements r i) (in_Now i) FreezeWindow"
  have "0 \<le> ?d" by (simp add: Days_def Let_def wholeDays_nonneg)
  then have "0 \<le> ?d * in_Increase i" using assms(3) by simp
  then have t: "1 \<le> ramp_target r i" "ramp_target r i \<le> in_Max i"
    "in_InCampaign i \<Longrightarrow> ramp_target r i \<le> 5"
    using assms by (auto simp: ramp_target_def Target_def Let_def)
  have s: "1 \<le> soft_target r i" "soft_target r i \<le> ramp_target r i"
    using t(1) ApplyMult_pos [of "ramp_target r i"] ApplyMult_le by (simp_all add: soft_target_def)
  then have "1 \<le> pl_Target (ResolvePlan r i)" "pl_Target (ResolvePlan r i) \<le> soft_target r i"
    using assms(1) ApplyMult_pos [of "soft_target r i"] ApplyMult_le by (simp_all add: ResolvePlan_def)
  then show ?thesis using t s by auto
qed

theorem plan_target_bounds_witness:
  "1 \<le> pl_Target (ResolvePlan (reports [9 * Day]) ten_days_in)
   \<and> pl_Target (ResolvePlan (reports [9 * Day]) ten_days_in) \<le> 40"
  using plan_target_bounds [of ten_days_in "reports [9 * Day]"] by (simp add: ten_days_in_def)

section \<open>A held ramp does not climb\<close>

lemma frozen_set_later:
  assumes "p \<in> set ps" "ws \<le> p" "p \<le> now" "now \<le> now'" "now' \<le> p + freeze"
  shows "frozen_set ws ps now' freeze = frozen_set ws ps now freeze \<union> {now..<now'}"
    "frozen_set ws ps now freeze \<inter> {now..<now'} = {}"
proof
  show "frozen_set ws ps now' freeze \<subseteq> frozen_set ws ps now freeze \<union> {now..<now'}"
    by (fastforce simp: frozen_set_def)
  have "frozen_set ws ps now freeze \<subseteq> frozen_set ws ps now' freeze"
    using assms(4) by (fastforce simp: frozen_set_def)
  moreover have "{now..<now'} \<subseteq> {p..<min now' (p + freeze)}" using assms by auto
  then have "{now..<now'} \<subseteq> frozen_set ws ps now' freeze"
    using assms(1,2) by (auto simp: frozen_set_def)
  ultimately show "frozen_set ws ps now freeze \<union> {now..<now'} \<subseteq> frozen_set ws ps now' freeze" by simp
  show "frozen_set ws ps now freeze \<inter> {now..<now'} = {}"
    using frozen_set_bounds [of ws ps now freeze] by fastforce
qed

text \<open>
  While a placement's freeze runs the ramp stands still: between any two
  instants inside the freeze window of one of the ramp's own placements, the day count
  is the same.
\<close>

theorem frozen_ramp_holds:
  assumes "p \<in> set placements" "warmupStart \<le> p" "p \<le> now" "now \<le> now'" "now' \<le> p + freeze"
    "now' - warmupStart \<le> max_duration" "warmupStart < now"
  shows "Days warmupStart placements now' freeze = Days warmupStart placements now freeze"
proof -
  have "card (frozen_set warmupStart placements now' freeze)
      = card (frozen_set warmupStart placements now freeze) + nat (now' - now)"
    using frozen_set_later [OF assms(1-5)] by (simp add: card_Un_disjoint)
  then have e: "now' - warmupStart - int (card (frozen_set warmupStart placements now' freeze))
      = now - warmupStart - int (card (frozen_set warmupStart placements now freeze))"
    using assms(4) by simp
  have t: "tsub now' warmupStart = now' - warmupStart" "tsub now warmupStart = now - warmupStart"
    and n: "now - warmupStart \<le> max_duration"
    using assms by (auto intro!: tsub_exact)
  show ?thesis
    unfolding Days_def Let_def t frozenDuration_card [OF n] frozenDuration_card [OF assms(6)] e
    using assms(4,7) by simp
qed

theorem frozen_ramp_holds_witness:
  "Days 0 [9 * Day] (11 * Day) FreezeWindow = Days 0 [9 * Day] (9 * Day) FreezeWindow"
  by (rule frozen_ramp_holds [of "9 * Day"]) simp_all

section \<open>The cold ceiling\<close>

lemma cold_ceiling_parts:
  "ColdCeiling wd rs ps now cap [n] =
     min cap (5 + (if is_zero rs then 0 else min (max 0 n) (Days rs ps now FreezeWindow * 5)))"
  by (simp add: ColdCeiling_def ColdStart_def Let_def min_def)

text \<open>
  The cold ceiling of a graduating mailbox lies between its start volume and
  its own cap, never climbs by more than the replies confirmed, never falls when more of
  them are, and never rises with more placements.
\<close>

theorem cold_ceiling_bounds:
  assumes "now - rampStart \<le> max_duration" "set placements \<subseteq> set placements'" "replies \<le> replies'"
  shows "ColdCeiling wd rampStart placements' now cap [replies]
      \<le> ColdCeiling wd rampStart placements now cap [replies']
    \<and> min 5 cap \<le> ColdCeiling wd rampStart placements now cap [replies]
    \<and> ColdCeiling wd rampStart placements now cap [replies] \<le> min cap (5 + max 0 replies)"
proof -
  have "Days rampStart placements' now FreezeWindow \<le> Days rampStart placements now FreezeWindow"
    by (rule Days_antitone [OF assms(1,2)])
  moreover have "0 \<le> Days rampStart placements' now FreezeWindow"
    by (simp add: Days_def Let_def wholeDays_nonneg)
  ultimately show ?thesis using assms(3) unfolding cold_ceiling_parts by auto
qed

theorem cold_ceiling_bounds_witness:
  "ColdCeiling 30 Day [3 * Day, 5 * Day] (9 * Day) 50 [4]
     \<le> ColdCeiling 30 Day [3 * Day] (9 * Day) 50 [12]"
  using cold_ceiling_bounds [of "9 * Day" Day "[3 * Day]" "[3 * Day, 5 * Day]" 4 12 30 50] by simp

section \<open>Where the reports part from the ramp\<close>

text \<open>
  The plan's \<open>FrozenUntil\<close> reads every placement, the ramp only those of the current run:
  an hour after a placement warmup is restarted, and two days later the ramp has climbed
  while the plan still reports it frozen.
\<close>

definition restarted :: ramp_input where
  "restarted = ten_days_in\<lparr>in_WarmupStart := Hour, in_Now := 49 * Hour\<rparr>"

theorem plan_reports_stale_freeze:
  "pl_FrozenUntil (ResolvePlan (reports [0]) restarted) = Some FreezeWindow
   \<and> Days (in_WarmupStart restarted) [0] (in_Now restarted) FreezeWindow = 2"
proof -
  have "Days Hour [0] (49 * Hour) FreezeWindow = wholeDays (48 * Hour)"
    by (simp add: Days_def frozenDuration_def freeze_spans_def tsub_exact)
  also have "wholeDays (48 * Hour) = 2"
  proof -
    have h: "hours_of (48 * Hour) = 48"
      using f_of_int [of 48] f_of_int [of 0] f64.rnd_of_int [of 48]
      by (simp add: units_of_def fadd_def fdiv_def)
    have "fdiv 48 24 = 2" using f64.rnd_of_int [of 2] by (simp add: fdiv_def)
    moreover have "trunc 2 = 2" using trunc_of_int [of 2] by simp
    ultimately show ?thesis unfolding wholeDays_def Let_def h by simp
  qed
  finally show ?thesis
    by (simp add: restarted_def ten_days_in_def ResolvePlan_def FrozenUntil_def latest_of_def
        is_zero_def zero_time_def)
qed

text \<open>
  The graduation notice never counts the days left: \<open>DaysToFullCap\<close>, which its comment
  says is how many clean days remain, is \<open>-1\<close> whenever the ceiling is below the cap.
\<close>

theorem notice_never_counts_days:
  "Notice (Some started) cold ps cap now replies = Some info \<Longrightarrow>
     cr_DaysToFullCap info = (if cr_Ceiling info < cap then - 1 else 0)"
  by (auto simp: Notice_def Let_def)

text \<open>The chance of a reply is a probability within half the target either side of it.\<close>

lemma ReplyChance_range: "0 \<le> ReplyChance target sent replied" "ReplyChance target sent replied \<le> 1"
proof -
  define t where "t = fdiv (f_of (min target 100)) 100"
  have t: "0 \<le> t" "t \<le> 1" if "0 < target"
  proof -
    have r: "\<bar>min target 100\<bar> < 2 ^ 53" using that by simp
    have "0 \<le> (of_int (min target 100) / 100 :: rat)" "of_int (min target 100) / 100 \<le> (of_int 1 :: rat)"
      using that by simp_all
    then show "0 \<le> t" "t \<le> 1"
      using f64.rnd_le_int [of 1 "of_int (min target 100) / 100"]
      by (simp_all add: t_def fdiv_def f_of_int [OF r] f64.rnd_nonneg)
  qed
  have "0 \<le> fdiv t 2" "0 \<le> fmul (3 / 2) t" if "0 < target"
    using t [OF that] by (simp_all add: fdiv_def fmul_def f64.rnd_nonneg)
  then show "0 \<le> ReplyChance target sent replied" "ReplyChance target sent replied \<le> 1"
    using t by (auto simp: ReplyChance_def Let_def simp flip: t_def)
qed

end
