(* ===== verification/Send_Lifecycle.thy ===== *)
theory Send_Lifecycle
  imports Warmup_Ramp "HOL-Library.Option_ord" "HOL-Library.Product_Lexorder"
    "HOL-Library.List_Lexorder"
begin

text \<open>
  The cold-sending lifecycle of a mailbox: \<open>internal/models/send_lifecycle.go\<close>, the decision
  of \<open>internal/app/lifecycle/lifecycle.go\<close>, its table in
  \<open>internal/repository/pg_send_lifecycle.go\<close>, the background pass of
  \<open>internal/app/consumer/lifecycle_rebalancer.go\<close>, the owner's hold of
  \<open>internal/app/email/handler.go\<close>, and the risk band sweep of \<open>risk_rebalancer.go\<close>.

  What the queries read as the standing of a mailbox in the warmup pool (a join over the
  pool tables) is an argument: the health text, empty when there is none, and whether the
  cloud has no current report. Every query may fail.
\<close>

section \<open>States and the decision\<close>

type_synonym SendLifecycle = string

definition SendsCold :: "SendLifecycle \<Rightarrow> bool" where
  "SendsCold l \<longleftrightarrow> l = ''active'' \<or> l = []"

definition AutoManaged :: "SendLifecycle \<Rightarrow> bool" where
  "AutoManaged l \<longleftrightarrow> l = ''active'' \<or> l = ''resting'' \<or> l = []"

definition lifecycle_Valid :: "SendLifecycle \<Rightarrow> bool" where
  "lifecycle_Valid l \<longleftrightarrow> l \<in> {''active'', ''resting'', ''reserve''}"

record SendLifecycleState =
  ls_State :: SendLifecycle
  ls_Since :: "instant option"
  ls_Reason :: string

definition RestProbation :: duration where
  "RestProbation = 72 * Hour"

definition RestingFor :: "SendLifecycleState \<Rightarrow> instant \<Rightarrow> duration" where
  "RestingFor s now =
     (if ls_State s \<noteq> ''resting'' then 0
      else case ls_Since s of None \<Rightarrow> 0 | Some since \<Rightarrow> tsub now since)"

definition ReadyToResume :: "SendLifecycleState \<Rightarrow> instant \<Rightarrow> bool" where
  "ReadyToResume s now \<longleftrightarrow> ls_State s = ''resting'' \<and> RestProbation \<le> RestingFor s now"

record Decision =
  de_Next :: SendLifecycle
  de_Reason :: string
  de_RestartProbation :: bool

definition Changed :: "Decision \<Rightarrow> SendLifecycle \<Rightarrow> bool" where
  "Changed d current \<longleftrightarrow> de_Next d \<noteq> current"

definition Decide :: "SendLifecycle \<Rightarrow> instant option \<Rightarrow> string \<Rightarrow> bool \<Rightarrow> instant \<Rightarrow> Decision" where
  "Decide current since health cloudUnknown now =
     (let ready = ReadyToResume \<lparr>ls_State = current, ls_Since = since, ls_Reason = []\<rparr> now;
          stay = \<lparr>de_Next = current, de_Reason = [], de_RestartProbation = False\<rparr>
      in if \<not> AutoManaged current then stay
         else if health = ''quarantined'' \<or> health = ''blocked''
         then \<lparr>de_Next = ''resting'',
               de_Reason = ''warmup health is '' @ health
                           @ ''; out of cold rotation until it recovers'',
               de_RestartProbation = (current = ''resting'')\<rparr>
         else if cloudUnknown
         then \<lparr>de_Next = current,
               de_Reason = ''Warmbly Cloud has not reported a current status'',
               de_RestartProbation = (current = ''resting'')\<rparr>
         else if health = []
         then (if current = ''resting'' \<and> ready
               then \<lparr>de_Next = ''active'',
                     de_Reason = ''warmup is not running, so there was nothing to recover on; ''
                                 @ ''returned after the rest window'',
                     de_RestartProbation = False\<rparr>
               else stay)
         else if current = ''resting''
         then (if ready
               then \<lparr>de_Next = ''active'', de_Reason = ''recovered and served its rest'',
                     de_RestartProbation = False\<rparr>
               else stay)
         else \<lparr>de_Next = ''active'', de_Reason = [], de_RestartProbation = False\<rparr>)"

text \<open>A report that keeps a mailbox out: a real hold, or no current word from the cloud.\<close>

definition bad_report :: "string \<Rightarrow> bool \<Rightarrow> bool" where
  "bad_report health cloudUnknown \<longleftrightarrow> Holds health \<or> cloudUnknown"

section \<open>The table\<close>

record lifecycle_row =
  lr_id :: uuid
  lr_status :: string
  lr_send_lifecycle :: SendLifecycle
  lr_since :: "instant option"
  lr_reason :: "string option"
  lr_checked_at :: "instant option"

type_synonym lifecycle_table = "lifecycle_row list"
type_synonym standing = "uuid \<Rightarrow> string \<times> bool"

record LifecycleCandidate =
  lc_EmailAccountID :: uuid
  lc_Current :: SendLifecycle
  lc_Since :: "instant option"
  lc_HealthState :: string
  lc_CloudEvidenceUnknown :: bool

text \<open>An \<open>UPDATE\<close> of one row under a guard, with whether it affected a row.\<close>

definition update_row ::
  "uuid \<Rightarrow> (lifecycle_row \<Rightarrow> bool) \<Rightarrow> (lifecycle_row \<Rightarrow> lifecycle_row)
   \<Rightarrow> lifecycle_table \<Rightarrow> lifecycle_table \<times> bool" where
  "update_row i g f tb =
     (map (\<lambda>r. if lr_id r = i \<and> g r then f r else r) tb, \<exists>r \<in> set tb. lr_id r = i \<and> g r)"

definition GetSendLifecycles :: "lifecycle_table \<Rightarrow> uuid list \<Rightarrow> uuid \<Rightarrow> SendLifecycleState option" where
  "GetSendLifecycles tb ids i =
     (if i \<notin> set ids then None
      else map_option
             (\<lambda>r. \<lparr>ls_State = lr_send_lifecycle r, ls_Since = lr_since r,
                   ls_Reason = (case lr_reason r of None \<Rightarrow> [] | Some x \<Rightarrow> x)\<rparr>)
             (find (\<lambda>r. lr_id r = i) tb))"

definition SetSendLifecycle ::
  "instant \<Rightarrow> uuid \<Rightarrow> SendLifecycle \<Rightarrow> string \<Rightarrow> bool \<Rightarrow> lifecycle_table \<Rightarrow> lifecycle_table \<times> bool" where
  "SetSendLifecycle db_now i state reason force =
     update_row i (\<lambda>r. lr_send_lifecycle r \<noteq> state \<and> (force \<or> lr_send_lifecycle r \<noteq> ''reserve''))
       (\<lambda>r. r\<lparr>lr_send_lifecycle := state, lr_since := Some db_now,
              lr_reason := (if reason = [] then None else Some reason)\<rparr>)"

definition RestartProbation :: "instant \<Rightarrow> uuid \<Rightarrow> lifecycle_table \<Rightarrow> lifecycle_table" where
  "RestartProbation db_now i tb =
     fst (update_row i (\<lambda>r. lr_send_lifecycle r = ''resting'') (\<lambda>r. r\<lparr>lr_since := Some db_now\<rparr>) tb)"

definition MarkLifecycleChecked :: "instant \<Rightarrow> uuid list \<Rightarrow> lifecycle_table \<Rightarrow> lifecycle_table" where
  "MarkLifecycleChecked db_now ids =
     map (\<lambda>r. if lr_id r \<in> set ids then r\<lparr>lr_checked_at := Some db_now\<rparr> else r)"

definition candidate_of :: "standing \<Rightarrow> lifecycle_row \<Rightarrow> LifecycleCandidate" where
  "candidate_of st r =
     \<lparr>lc_EmailAccountID = lr_id r, lc_Current = lr_send_lifecycle r, lc_Since = lr_since r,
      lc_HealthState = fst (st (lr_id r)), lc_CloudEvidenceUnknown = snd (st (lr_id r))\<rparr>"

definition is_candidate :: "lifecycle_row \<Rightarrow> bool" where
  "is_candidate r \<longleftrightarrow> lr_status r = ''active'' \<and> lr_send_lifecycle r \<in> {''active'', ''resting''}"

definition check_order :: "lifecycle_row \<Rightarrow> instant option \<times> uuid" where
  "check_order r = (lr_checked_at r, lr_id r)"

definition ListLifecycleCandidates ::
  "standing \<Rightarrow> int \<Rightarrow> lifecycle_table \<Rightarrow> LifecycleCandidate list" where
  "ListLifecycleCandidates st limit tb =
     map (candidate_of st)
       (take (nat (if limit \<le> 0 then 500 else limit)) (sort_key check_order (filter is_candidate tb)))"

definition GetLifecycleCandidate ::
  "standing \<Rightarrow> uuid \<Rightarrow> lifecycle_table \<Rightarrow> LifecycleCandidate option" where
  "GetLifecycleCandidate st i tb = map_option (candidate_of st) (find (\<lambda>r. lr_id r = i) tb)"

section \<open>The rebalancer\<close>

text \<open>
  One candidate of the pass: the decision was taken on what the pass read, the write goes
  to the table as it is now. \<open>ok\<close> says whether the write succeeds.
\<close>

definition decide_for :: "instant \<Rightarrow> LifecycleCandidate \<Rightarrow> Decision" where
  "decide_for now c =
     Decide (lc_Current c) (lc_Since c) (lc_HealthState c) (lc_CloudEvidenceUnknown c) now"

definition rebalance_one ::
  "instant \<Rightarrow> instant \<Rightarrow> bool \<Rightarrow> LifecycleCandidate \<Rightarrow> lifecycle_table \<Rightarrow> lifecycle_table \<times> bool" where
  "rebalance_one now db_now ok c tb =
     (let d = decide_for now c
      in if de_RestartProbation d
         then ((if ok then RestartProbation db_now (lc_EmailAccountID c) tb else tb), False)
         else if \<not> Changed d (lc_Current c) then (tb, False)
         else if \<not> ok then (tb, False)
         else SetSendLifecycle db_now (lc_EmailAccountID c) (de_Next d) (de_Reason d) False tb)"

text \<open>
  The whole pass. The database clock is read once by each statement, in order; the counts
  of rested and resumed mailboxes are what the pass logs.
\<close>

record pass_env =
  pe_list_ok :: bool
  pe_standing :: standing
  pe_now :: instant
  pe_clock :: "nat \<Rightarrow> instant"
  pe_write_ok :: "uuid \<Rightarrow> bool"
  pe_mark_ok :: bool

fun rebalance_loop ::
  "pass_env \<Rightarrow> nat \<Rightarrow> LifecycleCandidate list \<Rightarrow> lifecycle_table \<times> int \<times> int
   \<Rightarrow> lifecycle_table \<times> int \<times> int" where
  "rebalance_loop e n [] acc = acc"
| "rebalance_loop e n (c # cs) (tb, rested, resumed) =
     (case rebalance_one (pe_now e) (pe_clock e n) (pe_write_ok e (lc_EmailAccountID c)) c tb of
        (tb', moved) \<Rightarrow>
          rebalance_loop e (Suc n) cs
            (tb',
             rested + (if moved \<and> de_Next (decide_for (pe_now e) c) = ''resting'' then 1 else 0),
             resumed + (if moved \<and> de_Next (decide_for (pe_now e) c) \<noteq> ''resting'' then 1 else 0)))"

definition rebalanceLifecycles :: "pass_env \<Rightarrow> lifecycle_table \<Rightarrow> lifecycle_table \<times> int \<times> int" where
  "rebalanceLifecycles e tb =
     (if \<not> pe_list_ok e then (tb, 0, 0)
      else let cs = ListLifecycleCandidates (pe_standing e) 500 tb;
               seen = map lc_EmailAccountID cs
           in case rebalance_loop e 0 cs (tb, 0, 0) of
                (tb', counts) \<Rightarrow>
                  ((if pe_mark_ok e \<and> seen \<noteq> []
                    then MarkLifecycleChecked (pe_clock e (length cs)) seen tb' else tb'), counts))"

section \<open>The owner's hold\<close>

text \<open>
  \<open>SetSendHold\<close> for a mailbox the workspace has: the state it writes, forced, and the state
  it answers. \<open>None\<close> is the internal error of a query that failed.
\<close>

definition hold_target :: "standing \<Rightarrow> instant \<Rightarrow> bool \<Rightarrow> LifecycleCandidate \<Rightarrow> SendLifecycle \<times> string" where
  "hold_target st now hold c =
     (if hold then (''reserve'', ''held back by its owner'')
      else let d = Decide ''active'' None (lc_HealthState c) (lc_CloudEvidenceUnknown c) now
           in (de_Next d,
               if de_Reason d \<noteq> [] then ''released by its owner; '' @ de_Reason d
               else if lc_Current c = ''resting'' then ''put back by its owner''
               else ''released by its owner''))"

definition SetSendHold ::
  "standing \<Rightarrow> instant \<Rightarrow> instant \<Rightarrow> uuid \<Rightarrow> bool \<Rightarrow> lifecycle_table
   \<Rightarrow> SendLifecycleState option \<times> lifecycle_table" where
  "SetSendHold st now db_now i hold tb =
     (case GetLifecycleCandidate st i tb of
        None \<Rightarrow> (None, tb)
      | Some c \<Rightarrow>
          (case hold_target st now hold c of
             (next', reason) \<Rightarrow>
               let tb' = fst (SetSendLifecycle db_now i next' reason True tb)
               in (GetSendLifecycles tb' [i] i, tb')))"

section \<open>Risk bands\<close>

definition RiskBandFromHealth :: "string \<Rightarrow> string" where
  "RiskBandFromHealth s =
     (if s = ''watch'' \<or> s = ''throttled'' then ''risky''
      else if s = ''quarantined'' \<or> s = ''blocked'' then ''quarantine'' else ''clean'')"

record RiskCandidate =
  rc_EmailAccountID :: uuid
  rc_CurrentBand :: string
  rc_HealthState :: string
  rc_CloudEvidenceUnknown :: bool

text \<open>The sweep over the bands of the mailboxes; a write that fails leaves the band.\<close>

fun rebalanceRisk ::
  "(uuid \<Rightarrow> bool) \<Rightarrow> RiskCandidate list \<Rightarrow> (uuid \<Rightarrow> string) \<times> int \<Rightarrow> (uuid \<Rightarrow> string) \<times> int" where
  "rebalanceRisk write_ok [] acc = acc"
| "rebalanceRisk write_ok (c # cs) (bands, updated) =
     (let newBand = RiskBandFromHealth (rc_HealthState c)
      in if rc_CloudEvidenceUnknown c \<and> \<not> Holds (rc_HealthState c)
         then rebalanceRisk write_ok cs (bands, updated)
         else if newBand = rc_CurrentBand c then rebalanceRisk write_ok cs (bands, updated)
         else if \<not> write_ok (rc_EmailAccountID c) then rebalanceRisk write_ok cs (bands, updated)
         else rebalanceRisk write_ok cs (bands(rc_EmailAccountID c := newBand), updated + 1))"

section \<open>Interleaving with the owner\<close>

text \<open>
  The pass lists its candidates, reads the clock, and then writes one candidate at a time,
  while owners hold and release mailboxes, mailboxes change status and new ones are
  connected. \<open>Listed T\<close> and \<open>Examining T now\<close> carry the time \<open>T\<close> of the listing. The field
  \<open>sy_bad\<close> is history: the reports that kept a mailbox out and that the pass acted on, each with
  the time it was read.
\<close>

datatype phase =
    Idle
  | Listed instant "LifecycleCandidate list"
  | Examining instant instant "LifecycleCandidate list" "uuid list"

record lifecycle_system =
  sy_rows :: lifecycle_table
  sy_phase :: phase
  sy_time :: instant
  sy_bad :: "(uuid \<times> instant) set"

definition acted_on :: "LifecycleCandidate \<Rightarrow> instant \<Rightarrow> (uuid \<times> instant) set" where
  "acted_on c T =
     (if bad_report (lc_HealthState c) (lc_CloudEvidenceUnknown c) then {(lc_EmailAccountID c, T)} else {})"

definition set_status :: "uuid \<Rightarrow> string \<Rightarrow> lifecycle_table \<Rightarrow> lifecycle_table" where
  "set_status i x = map (\<lambda>r. if lr_id r = i then r\<lparr>lr_status := x\<rparr> else r)"

inductive lifecycle_step :: "uuid set \<Rightarrow> lifecycle_system \<Rightarrow> lifecycle_system \<Rightarrow> bool" for owned where
  wait: "sy_time s \<le> t \<Longrightarrow> lifecycle_step owned s (s\<lparr>sy_time := t\<rparr>)"
| listing: "sy_phase s = Idle
    \<Longrightarrow> lifecycle_step owned s
          (s\<lparr>sy_phase := Listed (sy_time s) (ListLifecycleCandidates st 500 (sy_rows s))\<rparr>)"
| read_clock: "sy_phase s = Listed T cs
    \<Longrightarrow> lifecycle_step owned s (s\<lparr>sy_phase := Examining T (sy_time s) cs []\<rparr>)"
| examine: "sy_phase s = Examining T now (c # cs) seen
    \<Longrightarrow> rebalance_one now (sy_time s) True c (sy_rows s) = (rows, moved)
    \<Longrightarrow> lifecycle_step owned s
          (s\<lparr>sy_rows := rows, sy_phase := Examining T now cs (lc_EmailAccountID c # seen),
             sy_bad := sy_bad s \<union> acted_on c T\<rparr>)"
| examine_fails: "sy_phase s = Examining T now (c # cs) seen
    \<Longrightarrow> lifecycle_step owned s (s\<lparr>sy_phase := Examining T now cs (lc_EmailAccountID c # seen)\<rparr>)"
| mark: "sy_phase s = Examining T now [] seen
    \<Longrightarrow> lifecycle_step owned s
          (s\<lparr>sy_rows := MarkLifecycleChecked (sy_time s) seen (sy_rows s), sy_phase := Idle\<rparr>)"
| mark_fails: "sy_phase s = Examining T now [] seen
    \<Longrightarrow> lifecycle_step owned s (s\<lparr>sy_phase := Idle\<rparr>)"
| owner: "i \<in> owned
    \<Longrightarrow> SetSendHold st (sy_time s) (sy_time s) i hold (sy_rows s) = (answer, rows)
    \<Longrightarrow> lifecycle_step owned s (s\<lparr>sy_rows := rows\<rparr>)"
| status: "lifecycle_step owned s (s\<lparr>sy_rows := set_status i x (sy_rows s)\<rparr>)"
| connect: "lr_id r \<notin> lr_id ` set (sy_rows s) \<Longrightarrow> lr_send_lifecycle r = ''active''
    \<Longrightarrow> lr_since r = None
    \<Longrightarrow> lifecycle_step owned s (s\<lparr>sy_rows := r # sy_rows s\<rparr>)"

inductive_cases lifecycle_stepE: "lifecycle_step owned s s'"

section \<open>What one write does\<close>

lemma ids_update_row [simp]: "(\<And>r. lr_id (f r) = lr_id r)
  \<Longrightarrow> map lr_id (fst (update_row i g f tb)) = map lr_id tb"
  by (auto simp: update_row_def)

lemma ids_RestartProbation [simp]: "map lr_id (RestartProbation db i tb) = map lr_id tb"
  by (simp add: RestartProbation_def)

lemma ids_SetSendLifecycle [simp]:
  "map lr_id (fst (SetSendLifecycle db i x why force tb)) = map lr_id tb"
  by (simp add: SetSendLifecycle_def)

lemma ids_MarkLifecycleChecked [simp]: "map lr_id (MarkLifecycleChecked db ids tb) = map lr_id tb"
  by (auto simp: MarkLifecycleChecked_def)

lemma ids_set_status [simp]: "map lr_id (set_status i x tb) = map lr_id tb"
  by (auto simp: set_status_def)

text \<open>
  Every row of the table after a write comes from one before with the same id, and is either
  as it was or newly stamped. The first argument says which rows a write may stamp.
\<close>

definition stamped :: "(lifecycle_row \<Rightarrow> bool) \<Rightarrow> instant \<Rightarrow> lifecycle_row \<Rightarrow> lifecycle_row \<Rightarrow> bool" where
  "stamped may db r r' \<longleftrightarrow>
     lr_id r' = lr_id r
     \<and> (lr_send_lifecycle r' = lr_send_lifecycle r \<and> lr_since r' = lr_since r
          \<and> lr_reason r' = lr_reason r
        \<or> may r \<and> lr_since r' = Some db)"

definition only_stamps ::
  "(lifecycle_row \<Rightarrow> bool) \<Rightarrow> instant \<Rightarrow> lifecycle_table \<Rightarrow> lifecycle_table \<Rightarrow> bool" where
  "only_stamps may db tb tb' \<longleftrightarrow> list_all2 (stamped may db) tb tb'"

lemma only_stamps_refl [simp, intro]: "only_stamps may db tb tb"
  by (simp add: only_stamps_def stamped_def list.rel_refl)

lemma only_stamps_ids: "only_stamps may db tb tb' \<Longrightarrow> map lr_id tb' = map lr_id tb"
  unfolding only_stamps_def by (induction rule: list_all2_induct) (simp_all add: stamped_def)

lemma only_stamps_row:
  assumes "only_stamps may db tb tb'" "r' \<in> set tb'"
  obtains r where "r \<in> set tb" "stamped may db r r'"
  using assms unfolding only_stamps_def
  by (metis in_set_conv_nth list_all2_conv_all_nth)

lemma only_stamps_update_row:
  assumes "\<And>r. lr_id r = i \<Longrightarrow> g r \<Longrightarrow> stamped may db r (f r)"
  shows "only_stamps may db tb (fst (update_row i g f tb))"
  using assms
  by (auto simp: only_stamps_def update_row_def list.rel_map stamped_def intro!: list.rel_refl_strong)

lemma only_stamps_RestartProbation:
  "only_stamps (\<lambda>r. lr_id r = i \<and> lr_send_lifecycle r = ''resting'') db tb (RestartProbation db i tb)"
  unfolding RestartProbation_def by (rule only_stamps_update_row) (simp add: stamped_def)

lemma only_stamps_SetSendLifecycle:
  "only_stamps (\<lambda>r. lr_id r = i \<and> lr_send_lifecycle r \<noteq> x \<and> (force \<or> lr_send_lifecycle r \<noteq> ''reserve''))
     db tb (fst (SetSendLifecycle db i x why force tb))"
  unfolding SetSendLifecycle_def by (rule only_stamps_update_row) (simp add: stamped_def)

lemma only_stamps_mono:
  assumes "only_stamps may db tb tb'" "\<And>r. may r \<Longrightarrow> may' r"
  shows "only_stamps may' db tb tb'"
  using assms(1) unfolding only_stamps_def
  by (rule list_all2_mono) (use assms(2) in \<open>auto simp: stamped_def\<close>)

lemma only_stamps_rebalance_one:
  "only_stamps (\<lambda>r. lr_id r = lc_EmailAccountID c \<and> lr_send_lifecycle r \<noteq> ''reserve'') db tb
     (fst (rebalance_one now db ok c tb))"
  unfolding rebalance_one_def Let_def
  by (auto intro: only_stamps_mono [OF only_stamps_RestartProbation]
      only_stamps_mono [OF only_stamps_SetSendLifecycle])

lemma only_stamps_SetSendHold:
  "only_stamps (\<lambda>r. lr_id r = i) db tb (snd (SetSendHold st now db i hold tb))"
  by (auto simp: SetSendHold_def Let_def split: option.splits prod.splits
      intro: only_stamps_mono [OF only_stamps_SetSendLifecycle])

lemma only_stamps_mark: "only_stamps may db tb (MarkLifecycleChecked db' ids tb)"
  by (auto simp: only_stamps_def MarkLifecycleChecked_def list.rel_map stamped_def
      intro!: list.rel_refl_strong)

lemma only_stamps_status: "only_stamps may db tb (set_status i x tb)"
  by (auto simp: only_stamps_def set_status_def list.rel_map stamped_def
      intro!: list.rel_refl_strong)

section \<open>The invariant of the interleaved system\<close>

text \<open>A candidate still to be examined, read at \<open>T\<close>: what its snapshot promises.\<close>

definition pending_ok ::
  "lifecycle_table \<Rightarrow> (uuid \<times> instant) set \<Rightarrow> instant \<Rightarrow> LifecycleCandidate \<Rightarrow> bool" where
  "pending_ok rows bad T c \<longleftrightarrow>
     lc_Current c \<in> {''active'', ''resting''}
     \<and> (lc_Current c = ''resting'' \<longrightarrow>
          (\<forall>sn t. lc_Since c = Some sn \<longrightarrow> (lc_EmailAccountID c, t) \<in> bad \<longrightarrow> t \<le> sn))
     \<and> (lc_Current c \<noteq> ''resting'' \<longrightarrow>
          (\<forall>r \<in> set rows. lr_id r = lc_EmailAccountID c \<longrightarrow> lr_send_lifecycle r = ''resting''
             \<longrightarrow> (\<exists>sn. lr_since r = Some sn \<and> T \<le> sn)))"

definition row_ok :: "(uuid \<times> instant) set \<Rightarrow> instant \<Rightarrow> lifecycle_row \<Rightarrow> bool" where
  "row_ok bad now r \<longleftrightarrow>
     (\<forall>sn. lr_since r = Some sn \<longrightarrow>
        sn \<le> now \<and> (lr_send_lifecycle r = ''resting'' \<longrightarrow> (\<forall>t. (lr_id r, t) \<in> bad \<longrightarrow> t \<le> sn)))"

fun phase_ok :: "lifecycle_table \<Rightarrow> (uuid \<times> instant) set \<Rightarrow> instant \<Rightarrow> phase \<Rightarrow> bool" where
  "phase_ok rows bad time Idle = True"
| "phase_ok rows bad time (Listed T cs) =
     (T \<le> time \<and> distinct (map lc_EmailAccountID cs) \<and> (\<forall>c \<in> set cs. pending_ok rows bad T c))"
| "phase_ok rows bad time (Examining T now cs seen) =
     (T \<le> time \<and> now \<le> time \<and> distinct (map lc_EmailAccountID cs)
      \<and> (\<forall>c \<in> set cs. pending_ok rows bad T c))"

definition lifecycle_inv :: "lifecycle_system \<Rightarrow> bool" where
  "lifecycle_inv s \<longleftrightarrow>
     distinct (map lr_id (sy_rows s))
     \<and> (\<forall>x \<in> sy_bad s. snd x \<le> sy_time s)
     \<and> (\<forall>r \<in> set (sy_rows s). row_ok (sy_bad s) (sy_time s) r)
     \<and> phase_ok (sy_rows s) (sy_bad s) (sy_time s) (sy_phase s)"

definition lifecycle_start :: "lifecycle_system \<Rightarrow> bool" where
  "lifecycle_start s \<longleftrightarrow>
     distinct (map lr_id (sy_rows s)) \<and> sy_phase s = Idle \<and> sy_bad s = {}
     \<and> (\<forall>r \<in> set (sy_rows s). \<forall>sn. lr_since r = Some sn \<longrightarrow> sn \<le> sy_time s)"

lemma start_inv: "lifecycle_start s \<Longrightarrow> lifecycle_inv s"
  by (auto simp: lifecycle_start_def lifecycle_inv_def row_ok_def)

lemma pending_ok_stamps:
  assumes "pending_ok tb bad T c" "only_stamps may db tb tb'" "T \<le> db"
  shows "pending_ok tb' bad T c"
proof -
  have "\<exists>sn. lr_since r' = Some sn \<and> T \<le> sn"
    if "r' \<in> set tb'" "lr_id r' = lc_EmailAccountID c" "lr_send_lifecycle r' = ''resting''"
      "lc_Current c \<noteq> ''resting''" for r'
  proof -
    from \<open>r' \<in> set tb'\<close> obtain r where "r \<in> set tb" "stamped may db r r'"
      by (rule only_stamps_row [OF assms(2)])
    with that assms(1,3) show ?thesis by (auto simp: pending_ok_def stamped_def)
  qed
  with assms(1) show ?thesis by (auto simp: pending_ok_def)
qed

lemma row_ok_stamps:
  assumes "\<forall>r \<in> set tb. row_ok bad db r" "only_stamps may db tb tb'" "\<forall>x \<in> bad. snd x \<le> db"
  shows "\<forall>r' \<in> set tb'. row_ok bad db r'"
proof
  fix r' assume "r' \<in> set tb'"
  then obtain r where "r \<in> set tb" "stamped may db r r'" using only_stamps_row [OF assms(2)] by blast
  with assms(1,3) show "row_ok bad db r'" by (fastforce simp: row_ok_def stamped_def)
qed

lemma phase_ok_stamps:
  assumes "phase_ok tb bad db p" "only_stamps may db tb tb'"
  shows "phase_ok tb' bad db p"
  using assms by (cases p) (auto intro: pending_ok_stamps)

lemma inv_only_stamps:
  assumes "lifecycle_inv s" "only_stamps may (sy_time s) (sy_rows s) rows"
  shows "lifecycle_inv (s\<lparr>sy_rows := rows\<rparr>)"
  using assms row_ok_stamps [of "sy_rows s" "sy_bad s" "sy_time s" may rows]
    phase_ok_stamps [of "sy_rows s" "sy_bad s" "sy_time s" "sy_phase s" may rows]
  by (auto simp: lifecycle_inv_def only_stamps_ids)

lemma inv_listing:
  assumes "lifecycle_inv s" "sy_phase s = Idle"
  shows "lifecycle_inv
    (s\<lparr>sy_phase := Listed (sy_time s) (ListLifecycleCandidates st limit (sy_rows s))\<rparr>)"
proof -
  let ?rows = "take (nat (if limit \<le> 0 then 500 else limit))
     (sort_key check_order (filter is_candidate (sy_rows s)))"
  have sub: "set ?rows \<subseteq> set (filter is_candidate (sy_rows s))"
    by (rule order_trans [OF set_take_subset]) simp
  have d: "distinct (map lr_id (sy_rows s))" using assms(1) by (simp add: lifecycle_inv_def)
  have "distinct (map lr_id (filter is_candidate (sy_rows s)))"
    using d by (rule distinct_map_filter)
  then have "distinct (map lr_id (sort_key check_order (filter is_candidate (sy_rows s))))"
    by (simp add: distinct_map)
  then have "distinct (map lr_id ?rows)"
    by (metis distinct_take take_map)
  moreover have "lc_EmailAccountID \<circ> candidate_of st = lr_id"
    by (simp add: candidate_of_def fun_eq_iff)
  moreover have "pending_ok (sy_rows s) (sy_bad s) (sy_time s) (candidate_of st r)"
    if "r \<in> set ?rows" for r
  proof -
    have r: "r \<in> set (sy_rows s)" "is_candidate r" using that sub by auto
    have u: "r' = r" if "r' \<in> set (sy_rows s)" "lr_id r' = lr_id r" for r'
      using d that r(1) by (simp add: distinct_map inj_on_def)
    have "row_ok (sy_bad s) (sy_time s) r" using assms(1) r(1) by (simp add: lifecycle_inv_def)
    then show ?thesis using r(2) u
      by (auto simp: pending_ok_def candidate_of_def is_candidate_def row_ok_def)
  qed
  ultimately show ?thesis
    using assms by (auto simp: lifecycle_inv_def ListLifecycleCandidates_def)
qed

text \<open>A report that keeps out a mailbox and is acted on leaves no older probation clock.\<close>

lemma acted_on_stamped:
  assumes "pending_ok (fst (rebalance_one now db True c tb)) bad T c" "T \<le> db"
    and "bad_report (lc_HealthState c) (lc_CloudEvidenceUnknown c)"
    and "r \<in> set (fst (rebalance_one now db True c tb))" "lr_id r = lc_EmailAccountID c"
    and "lr_send_lifecycle r = ''resting''"
  shows "\<exists>sn. lr_since r = Some sn \<and> T \<le> sn"
proof (cases "lc_Current c = ''resting''")
  case True
  with assms(3) have "de_RestartProbation (decide_for now c)"
    by (auto simp: decide_for_def Decide_def AutoManaged_def bad_report_def Holds_def Let_def)
  with assms(4) have "r \<in> set (RestartProbation db (lc_EmailAccountID c) tb)"
    by (simp add: rebalance_one_def Let_def)
  with assms(5,6) have "lr_since r = Some db"
    by (auto simp: RestartProbation_def update_row_def split: if_splits)
  with assms(2) show ?thesis by simp
next
  case False
  with assms show ?thesis by (simp add: pending_ok_def)
qed

lemma inv_examine:
  assumes inv: "lifecycle_inv s" and ph: "sy_phase s = Examining T now (c # cs) seen"
    and one: "rebalance_one now (sy_time s) True c (sy_rows s) = (rows, moved)"
  shows "lifecycle_inv
    (s\<lparr>sy_rows := rows, sy_phase := Examining T now cs (lc_EmailAccountID c # seen),
       sy_bad := sy_bad s \<union> acted_on c T\<rparr>)"
proof -
  have rows: "rows = fst (rebalance_one now (sy_time s) True c (sy_rows s))" using one by simp
  have i: "lifecycle_inv (s\<lparr>sy_rows := rows\<rparr>)"
    unfolding rows by (rule inv_only_stamps [OF inv only_stamps_rebalance_one])
  then have d: "distinct (map lr_id rows)" and b: "\<forall>x \<in> sy_bad s. snd x \<le> sy_time s"
    and rk: "\<forall>r \<in> set rows. row_ok (sy_bad s) (sy_time s) r"
    and t: "T \<le> sy_time s" "now \<le> sy_time s"
    and p: "pending_ok rows (sy_bad s) T c" "\<forall>c' \<in> set cs. pending_ok rows (sy_bad s) T c'"
    and e: "lc_EmailAccountID c \<notin> lc_EmailAccountID ` set cs" "distinct (map lc_EmailAccountID cs)"
    using ph by (auto simp: lifecycle_inv_def)
  let ?bad = "sy_bad s \<union> acted_on c T"
  have "\<forall>x \<in> ?bad. snd x \<le> sy_time s" using b t by (auto simp: acted_on_def)
  moreover have "row_ok ?bad (sy_time s) r" if r: "r \<in> set rows" for r
  proof -
    have "T \<le> sn" if "lr_since r = Some sn" "lr_send_lifecycle r = ''resting''"
      "(lr_id r, t') \<in> acted_on c T" for sn t'
      using acted_on_stamped [OF p(1) [unfolded rows] t(1), of r] that r
      by (auto simp: acted_on_def rows split: if_splits)
    with rk r show ?thesis by (fastforce simp: row_ok_def acted_on_def split: if_splits)
  qed
  moreover have "pending_ok rows ?bad T c'" if "c' \<in> set cs" for c'
  proof -
    have "lc_EmailAccountID c' \<noteq> lc_EmailAccountID c" using e(1) that by (metis imageI)
    then show ?thesis using p(2) that by (auto simp: pending_ok_def acted_on_def)
  qed
  ultimately show ?thesis using d t e(2) by (simp add: lifecycle_inv_def)
qed

lemma inv_step:
  assumes "lifecycle_step owned s s'" "lifecycle_inv s"
  shows "lifecycle_inv s'"
  using assms
proof (induction rule: lifecycle_step.induct)
  case (wait s t)
  then show ?case
    by (cases "sy_phase s") (fastforce simp: lifecycle_inv_def row_ok_def)+
next
  case (listing s st)
  then show ?case by (rule inv_listing [rotated])
next
  case (read_clock s T cs)
  then show ?case by (simp add: lifecycle_inv_def)
next
  case (examine s T now c cs seen rows moved)
  then show ?case by (intro inv_examine)
next
  case (examine_fails s T now c cs seen)
  then show ?case by (simp add: lifecycle_inv_def)
next
  case (mark s T now seen)
  then have "lifecycle_inv (s\<lparr>sy_rows := MarkLifecycleChecked (sy_time s) seen (sy_rows s)\<rparr>)"
    by (intro inv_only_stamps [OF _ only_stamps_mark])
  then show ?case by (simp add: lifecycle_inv_def)
next
  case (mark_fails s T now seen)
  then show ?case by (simp add: lifecycle_inv_def)
next
  case (owner i st s hold answer rows)
  then have "rows = snd (SetSendHold st (sy_time s) (sy_time s) i hold (sy_rows s))" by simp
  with owner show ?case by (auto intro: inv_only_stamps [OF _ only_stamps_SetSendHold])
next
  case (status s i x)
  then show ?case by (intro inv_only_stamps [OF _ only_stamps_status])
next
  case (connect r s)
  moreover have "pending_ok (r # sy_rows s) (sy_bad s) T c"
    if "pending_ok (sy_rows s) (sy_bad s) T c" for T c
    using that connect by (auto simp: pending_ok_def)
  ultimately show ?case
    by (cases "sy_phase s") (auto simp: lifecycle_inv_def row_ok_def)
qed

lemma inv_run:
  assumes "(lifecycle_step owned)\<^sup>*\<^sup>* s s'" "lifecycle_inv s"
  shows "lifecycle_inv s'"
  using assms by (induction rule: rtranclp_induct) (auto intro: inv_step)

section \<open>A reserve is its owner's\<close>

definition same_lifecycle :: "lifecycle_row \<Rightarrow> lifecycle_row \<Rightarrow> bool" where
  "same_lifecycle r r' \<longleftrightarrow>
     lr_id r' = lr_id r \<and> lr_send_lifecycle r' = lr_send_lifecycle r
     \<and> lr_since r' = lr_since r \<and> lr_reason r' = lr_reason r"

lemma stamps_spare:
  assumes "only_stamps may db tb tb'" "r \<in> set tb" "\<not> may r"
  shows "\<exists>r' \<in> set tb'. same_lifecycle r r'"
proof -
  from assms(1,2) obtain r' where "r' \<in> set tb'" "stamped may db r r'"
    unfolding only_stamps_def by (metis in_set_conv_nth list_all2_conv_all_nth)
  with assms(3) show ?thesis by (auto simp: stamped_def same_lifecycle_def)
qed

lemma reserve_step:
  assumes "lifecycle_step owned s s'" "r \<in> set (sy_rows s)" "lr_send_lifecycle r = ''reserve''"
    and "lr_id r \<notin> owned"
  shows "\<exists>r' \<in> set (sy_rows s'). same_lifecycle r r'"
  using assms
proof (induction rule: lifecycle_step.induct)
  case (examine s T now c cs seen rows moved)
  then have "rows = fst (rebalance_one now (sy_time s) True c (sy_rows s))" by simp
  with examine show ?case by (auto intro: stamps_spare [OF only_stamps_rebalance_one])
next
  case (mark s T now seen)
  then show ?case by (auto intro: stamps_spare [OF only_stamps_mark [of "\<lambda>_. False"]])
next
  case (owner i st s hold answer rows)
  then have "rows = snd (SetSendHold st (sy_time s) (sy_time s) i hold (sy_rows s))" by simp
  with owner show ?case by (auto intro!: stamps_spare [OF only_stamps_SetSendHold])
next
  case (status s i x)
  then show ?case by (auto intro: stamps_spare [OF only_stamps_status [of "\<lambda>_. False"]])
qed (auto simp: same_lifecycle_def)

text \<open>
  Claim C33. A mailbox its owner put in reserve stays in reserve, with the same clock and
  reason, through every interleaving of rebalancer passes, other owners' holds, status
  changes and failures, as long as its owner does nothing.
\<close>

theorem reserve_is_the_owners:
  assumes "(lifecycle_step owned)\<^sup>*\<^sup>* s s'" "r \<in> set (sy_rows s)" "lr_send_lifecycle r = ''reserve''"
    and "lr_id r \<notin> owned"
  shows "\<exists>r' \<in> set (sy_rows s'). same_lifecycle r r'"
  using assms(1)
proof (induction rule: rtranclp_induct)
  case base
  then show ?case using assms(2) by (auto simp: same_lifecycle_def)
next
  case (step s' s'')
  then obtain r' where r': "r' \<in> set (sy_rows s')" "same_lifecycle r r'" by blast
  then have "lr_send_lifecycle r' = ''reserve''" "lr_id r' \<notin> owned"
    using assms(3,4) by (simp_all add: same_lifecycle_def)
  then obtain r'' where "r'' \<in> set (sy_rows s'')" "same_lifecycle r' r''"
    using reserve_step [OF step(2) r'(1)] by blast
  with r'(2) show ?case by (auto simp: same_lifecycle_def)
qed

definition mailbox_row :: "SendLifecycle \<Rightarrow> instant option \<Rightarrow> lifecycle_row" where
  "mailbox_row l since =
     \<lparr>lr_id = [1], lr_status = ''active'', lr_send_lifecycle = l, lr_since = since,
      lr_reason = None, lr_checked_at = None\<rparr>"

definition system_of :: "lifecycle_row \<Rightarrow> phase \<Rightarrow> instant \<Rightarrow> (uuid \<times> instant) set \<Rightarrow> lifecycle_system" where
  "system_of r ph t bad = \<lparr>sy_rows = [r], sy_phase = ph, sy_time = t, sy_bad = bad\<rparr>"

theorem reserve_is_the_owners_witness:
  "\<exists>r' \<in> set (sy_rows (system_of (mailbox_row ''reserve'' (Some 0)) (Listed 9 []) 9 {})).
     same_lifecycle (mailbox_row ''reserve'' (Some 0)) r'"
proof (rule reserve_is_the_owners)
  let ?s = "\<lambda>ph t. system_of (mailbox_row ''reserve'' (Some 0)) ph t {}"
  have "lifecycle_step {} (?s Idle 0) (?s Idle 9)"
    using wait [of "?s Idle 0" 9 "{}"] by (simp add: system_of_def)
  moreover have "lifecycle_step {} (?s Idle 9) (?s (Listed 9 []) 9)"
    using listing [of "?s Idle 9" "{}"]
    by (simp add: system_of_def mailbox_row_def ListLifecycleCandidates_def is_candidate_def)
  ultimately show "(lifecycle_step {})\<^sup>*\<^sup>* (?s Idle 0) (?s (Listed 9 []) 9)" by auto
qed (simp_all add: system_of_def mailbox_row_def)

section \<open>Probation measures healthy time\<close>

lemma Decide_leaves_resting:
  assumes "de_Next (Decide current since health unknown now) \<noteq> ''resting''"
    and "de_Next (Decide current since health unknown now) \<noteq> current"
    and "current \<in> {''active'', ''resting''}"
  shows "current = ''resting'' \<and> \<not> bad_report health unknown
    \<and> (\<exists>sn. since = Some sn \<and> RestProbation \<le> now - sn)"
  using assms
  by (auto simp: Decide_def Let_def AutoManaged_def bad_report_def Holds_def ReadyToResume_def
      RestingFor_def RestProbation_def tsub_def split: if_splits option.splits)

lemma row_unique:
  "distinct (map lr_id tb) \<Longrightarrow> r \<in> set tb \<Longrightarrow> r' \<in> set tb \<Longrightarrow> lr_id r' = lr_id r \<Longrightarrow> r' = r"
  by (simp add: distinct_map inj_on_def)

lemma stamps_ids:
  assumes "only_stamps may db tb tb'" "r \<in> set tb" "r' \<in> set tb'" "lr_id r' = lr_id r"
    and "distinct (map lr_id tb)"
  shows "stamped may db r r'"
proof -
  obtain q where "q \<in> set tb" "stamped may db q r'" by (rule only_stamps_row [OF assms(1,3)])
  with assms row_unique [OF assms(5,2), of q] show ?thesis by (auto simp: stamped_def)
qed

lemma resumption:
  assumes inv: "lifecycle_inv s" and step: "lifecycle_step owned s s'"
    and ph: "sy_phase s' \<noteq> sy_phase s"
    and r: "r \<in> set (sy_rows s)" "lr_send_lifecycle r = ''resting''"
    and r': "r' \<in> set (sy_rows s')" "lr_id r' = lr_id r" "lr_send_lifecycle r' \<noteq> ''resting''"
    and bad: "(lr_id r, t) \<in> sy_bad s"
  shows "RestProbation \<le> sy_time s - t"
proof -
  have d: "distinct (map lr_id (sy_rows s))" using inv by (simp add: lifecycle_inv_def)
  have same: "r' \<notin> set (sy_rows s)" using row_unique [OF d r(1)] r r' by blast
  from step show ?thesis
  proof (cases rule: lifecycle_step.cases)
    case (examine T now c cs seen rows moved)
    let ?d = "decide_for now c"
    have p: "pending_ok (sy_rows s) (sy_bad s) T c" "now \<le> sy_time s"
      using inv examine by (auto simp: lifecycle_inv_def)
    have rows: "r' \<in> set (fst (rebalance_one now (sy_time s) True c (sy_rows s)))"
      using examine r' by simp
    have nr: "\<not> de_RestartProbation ?d"
    proof
      assume "de_RestartProbation ?d"
      with rows have "r' \<in> set (RestartProbation (sy_time s) (lc_EmailAccountID c) (sy_rows s))"
        by (simp add: rebalance_one_def Let_def)
      with same r'(3) show False by (auto simp: RestartProbation_def update_row_def split: if_splits)
    qed
    moreover have ch: "Changed ?d (lc_Current c)"
      using rows same nr by (auto simp: rebalance_one_def Let_def split: if_splits)
    ultimately have r'2: "r' \<in> set (fst (SetSendLifecycle (sy_time s) (lc_EmailAccountID c)
        (de_Next ?d) (de_Reason ?d) False (sy_rows s)))"
      using rows by (simp add: rebalance_one_def Let_def)
    then have "lr_id r' = lc_EmailAccountID c" "lr_send_lifecycle r' = de_Next ?d"
      using same by (auto simp: SetSendLifecycle_def update_row_def split: if_splits)
    then have "lc_Current c = ''resting''
        \<and> (\<exists>sn. lc_Since c = Some sn \<and> RestProbation \<le> now - sn)"
      using Decide_leaves_resting ch r'(3) p(1)
      by (auto simp: decide_for_def Changed_def pending_ok_def)
    then obtain sn where sn: "lc_Current c = ''resting''" "lc_Since c = Some sn"
      "RestProbation \<le> now - sn" by blast
    have "t \<le> sn" using p(1) sn bad r'(2) \<open>lr_id r' = lc_EmailAccountID c\<close>
      by (simp add: pending_ok_def)
    with sn(3) p(2) show ?thesis by linarith
  next
    case (mark T now seen)
    have "stamped (\<lambda>_. False) (sy_time s) r r'"
      using stamps_ids [OF only_stamps_mark r(1) _ r'(2) d] r'(1) mark by simp
    with r r' show ?thesis by (simp add: stamped_def)
  qed (use same r'(1) ph in auto)
qed

text \<open>
  Claim C7. Probation measures healthy time: whatever owners and mailboxes do meanwhile, when
  the rebalancer brings a resting mailbox back into rotation, at least seventy-two hours have
  passed since the last report that kept it out (a quarantine, a block or no word from the
  cloud) which the rebalancer acted on.
\<close>

theorem resumes_only_after_probation:
  assumes "lifecycle_start s0" "(lifecycle_step UNIV)\<^sup>*\<^sup>* s0 s" "lifecycle_step UNIV s s'"
    and "sy_phase s' \<noteq> sy_phase s"
    and "r \<in> set (sy_rows s)" "lr_send_lifecycle r = ''resting''"
    and "r' \<in> set (sy_rows s')" "lr_id r' = lr_id r" "lr_send_lifecycle r' \<noteq> ''resting''"
    and "(lr_id r, t) \<in> sy_bad s"
  shows "RestProbation \<le> sy_time s - t"
  by (rule resumption [OF inv_run [OF assms(2) start_inv [OF assms(1)]] assms(3-)])

definition watched :: "string \<Rightarrow> SendLifecycle \<Rightarrow> instant option \<Rightarrow> LifecycleCandidate" where
  "watched health l since =
     \<lparr>lc_EmailAccountID = [1], lc_Current = l, lc_Since = since, lc_HealthState = health,
      lc_CloudEvidenceUnknown = False\<rparr>"

lemma list_one:
  "ListLifecycleCandidates (\<lambda>_. (health, False)) 500 [mailbox_row ''resting'' since]
   = [watched health ''resting'' since]"
  by (simp add: ListLifecycleCandidates_def is_candidate_def mailbox_row_def candidate_of_def watched_def)

theorem resumes_only_after_probation_witness:
  "RestProbation \<le> sy_time (system_of (mailbox_row ''resting'' (Some 5))
     (Examining (5 + 72 * Hour) (5 + 72 * Hour) [watched ''healthy'' ''resting'' (Some 5)] [])
     (5 + 72 * Hour) {([1], 5)}) - 5"
proof -
  let ?R = "mailbox_row ''resting''"
  let ?s0 = "system_of (?R (Some 0)) Idle 5 {}"
  let ?s1 = "system_of (?R (Some 0)) (Listed 5 [watched ''blocked'' ''resting'' (Some 0)]) 5 {}"
  let ?s2 = "system_of (?R (Some 0)) (Examining 5 5 [watched ''blocked'' ''resting'' (Some 0)] []) 5 {}"
  let ?s3 = "system_of (?R (Some 5)) (Examining 5 5 [] [[1]]) 5 {([1], 5)}"
  let ?s4 = "system_of (?R (Some 5)) Idle 5 {([1], 5)}"
  let ?t = "5 + 72 * Hour"
  let ?c = "watched ''healthy'' ''resting'' (Some 5)"
  let ?s5 = "system_of (?R (Some 5)) Idle ?t {([1], 5)}"
  let ?s6 = "system_of (?R (Some 5)) (Listed ?t [?c]) ?t {([1], 5)}"
  let ?s7 = "system_of (?R (Some 5)) (Examining ?t ?t [?c] []) ?t {([1], 5)}"
  let ?r = "?R (Some 5)\<lparr>lr_send_lifecycle := ''active'', lr_since := Some ?t,
    lr_reason := Some ''recovered and served its rest''\<rparr>"
  let ?s8 = "system_of ?r (Examining ?t ?t [] [[1]]) ?t {([1], 5)}"
  have start: "lifecycle_start ?s0" by (simp add: lifecycle_start_def system_of_def mailbox_row_def)
  have "lifecycle_step UNIV ?s0 ?s1"
    using listing [of ?s0 UNIV "\<lambda>_. (''blocked'', False)"] by (simp add: system_of_def list_one)
  moreover have "lifecycle_step UNIV ?s1 ?s2"
    using read_clock [of ?s1 _ _ UNIV] by (simp add: system_of_def)
  moreover have "lifecycle_step UNIV ?s2 ?s3"
    using examine [of ?s2 5 5 "watched ''blocked'' ''resting'' (Some 0)" "[]" "[]" "[?R (Some 5)]" False UNIV]
    by (simp add: system_of_def watched_def acted_on_def bad_report_def Holds_def mailbox_row_def
        rebalance_one_def decide_for_def Decide_def AutoManaged_def RestartProbation_def update_row_def)
  moreover have "lifecycle_step UNIV ?s3 ?s4"
    using mark_fails [of ?s3 _ _ _ UNIV] by (simp add: system_of_def)
  moreover have "lifecycle_step UNIV ?s4 ?s5"
    using wait [of ?s4 ?t UNIV] by (simp add: system_of_def)
  moreover have "lifecycle_step UNIV ?s5 ?s6"
    using listing [of ?s5 UNIV "\<lambda>_. (''healthy'', False)"] by (simp add: system_of_def list_one)
  moreover have "lifecycle_step UNIV ?s6 ?s7"
    using read_clock [of ?s6 _ _ UNIV] by (simp add: system_of_def)
  ultimately have run: "(lifecycle_step UNIV)\<^sup>*\<^sup>* ?s0 ?s7"
    by (meson rtranclp.rtrancl_into_rtrancl rtranclp.rtrancl_refl)
  have step: "lifecycle_step UNIV ?s7 ?s8"
    using examine [of ?s7 ?t ?t ?c "[]" "[]" "[?r]" True UNIV]
    by (simp add: system_of_def watched_def acted_on_def bad_report_def Holds_def mailbox_row_def
        rebalance_one_def decide_for_def Decide_def AutoManaged_def SetSendLifecycle_def update_row_def
        Changed_def ReadyToResume_def RestingFor_def RestProbation_def tsub_def)
  show ?thesis
    by (rule resumes_only_after_probation [OF start run step, of "?R (Some 5)" ?r])
      (simp_all add: system_of_def mailbox_row_def)
qed

section \<open>The pass is a run of the interleaved system\<close>

lemma rebalance_one_fails [simp]: "rebalance_one now db False c tb = (tb, False)"
  by (simp add: rebalance_one_def Let_def)

lemma MarkLifecycleChecked_set:
  "set ids = set ids' \<Longrightarrow> MarkLifecycleChecked db ids tb = MarkLifecycleChecked db ids' tb"
  by (simp add: MarkLifecycleChecked_def)

lemma MarkLifecycleChecked_Nil [simp]: "MarkLifecycleChecked db [] tb = tb"
  by (simp add: MarkLifecycleChecked_def)

lemma loop_is_run:
  assumes "sy_phase s = Examining T (pe_now e) cs seen" "sy_time s \<le> pe_clock e n"
    and "mono (pe_clock e)"
  shows "\<exists>s'. (lifecycle_step owned)\<^sup>*\<^sup>* s s'
    \<and> sy_rows s' = fst (rebalance_loop e n cs (sy_rows s, x, y))
    \<and> sy_phase s' = Examining T (pe_now e) [] (rev (map lc_EmailAccountID cs) @ seen)
    \<and> sy_time s' \<le> pe_clock e (n + length cs)"
  using assms
proof (induction cs arbitrary: s n x y seen)
  case Nil
  then show ?case by (intro exI [of _ s]) simp
next
  case (Cons c cs)
  define s1 where "s1 = s\<lparr>sy_time := pe_clock e n\<rparr>"
  have w: "lifecycle_step owned s s1" unfolding s1_def by (rule wait [OF Cons.prems(2)])
  obtain rows moved where one:
    "rebalance_one (pe_now e) (pe_clock e n) (pe_write_ok e (lc_EmailAccountID c)) c (sy_rows s)
     = (rows, moved)" by fastforce
  have "\<exists>s2. lifecycle_step owned s1 s2 \<and> sy_rows s2 = rows \<and> sy_time s2 = pe_clock e n
      \<and> sy_phase s2 = Examining T (pe_now e) cs (lc_EmailAccountID c # seen)"
  proof (cases "pe_write_ok e (lc_EmailAccountID c)")
    case True
    then show ?thesis using one Cons.prems(1) examine [of s1 T "pe_now e" c cs seen rows moved owned]
      by (intro exI [of _ "s1\<lparr>sy_rows := rows,
           sy_phase := Examining T (pe_now e) cs (lc_EmailAccountID c # seen),
           sy_bad := sy_bad s1 \<union> acted_on c T\<rparr>"]) (simp add: s1_def)
  next
    case False
    then show ?thesis using one Cons.prems(1) examine_fails [of s1 T "pe_now e" c cs seen owned]
      by (intro exI [of _ "s1\<lparr>sy_phase := Examining T (pe_now e) cs (lc_EmailAccountID c # seen)\<rparr>"])
        (simp add: s1_def)
  qed
  then obtain s2 where s2: "lifecycle_step owned s1 s2" "sy_rows s2 = rows"
    "sy_time s2 = pe_clock e n" "sy_phase s2 = Examining T (pe_now e) cs (lc_EmailAccountID c # seen)"
    by blast
  have "sy_time s2 \<le> pe_clock e (Suc n)"
    using s2(3) Cons.prems(3) by (simp add: monoD)
  define x' where "x' = x + (if moved \<and> de_Next (decide_for (pe_now e) c) = ''resting'' then 1 else 0)"
  define y' where "y' = y + (if moved \<and> de_Next (decide_for (pe_now e) c) \<noteq> ''resting'' then 1 else 0)"
  have fold: "rebalance_loop e n (c # cs) (sy_rows s, x, y) = rebalance_loop e (Suc n) cs (sy_rows s2, x', y')"
    using one s2(2) by (simp add: x'_def y'_def)
  have run2: "(lifecycle_step owned)\<^sup>*\<^sup>* s s2" using w s2(1) by auto
  from Cons.IH [OF s2(4) \<open>sy_time s2 \<le> pe_clock e (Suc n)\<close> Cons.prems(3), of x' y']
  obtain s' where "(lifecycle_step owned)\<^sup>*\<^sup>* s2 s'"
    "sy_rows s' = fst (rebalance_loop e (Suc n) cs (sy_rows s2, x', y'))"
    "sy_phase s' = Examining T (pe_now e) [] (rev (map lc_EmailAccountID cs) @ lc_EmailAccountID c # seen)"
    "sy_time s' \<le> pe_clock e (Suc n + length cs)" by blast
  with run2 fold show ?case by (intro exI [of _ s']) (auto intro: rtranclp_trans)
qed

text \<open>
  Claim C23. The pass as the code runs it, from its listing to its mark, is a run of the
  interleaved system in which no owner acts, whatever queries fail; so what holds of every
  interleaving holds of it.
\<close>

theorem pass_is_run:
  assumes "sy_phase s = Idle" "sy_time s \<le> pe_now e" "pe_now e \<le> pe_clock e 0" "mono (pe_clock e)"
  shows "\<exists>s'. (lifecycle_step owned)\<^sup>*\<^sup>* s s' \<and> sy_phase s' = Idle
    \<and> sy_rows s' = fst (rebalanceLifecycles e (sy_rows s))"
proof (cases "pe_list_ok e")
  case False
  then show ?thesis using assms(1) by (intro exI [of _ s]) (simp add: rebalanceLifecycles_def)
next
  case True
  let ?cs = "ListLifecycleCandidates (pe_standing e) 500 (sy_rows s)"
  define s1 where "s1 = s\<lparr>sy_phase := Listed (sy_time s) ?cs\<rparr>"
  define s2 where "s2 = s1\<lparr>sy_time := pe_now e\<rparr>"
  define s3 where "s3 = s2\<lparr>sy_phase := Examining (sy_time s) (pe_now e) ?cs []\<rparr>"
  have "lifecycle_step owned s s1" unfolding s1_def by (rule listing [OF assms(1)])
  moreover have "lifecycle_step owned s1 s2"
    unfolding s2_def by (rule wait) (simp add: s1_def assms(2))
  moreover have "lifecycle_step owned s2 s3"
    using read_clock [of s2 "sy_time s" ?cs owned] by (simp add: s3_def s2_def s1_def)
  ultimately have run3: "(lifecycle_step owned)\<^sup>*\<^sup>* s s3" by auto
  have "sy_phase s3 = Examining (sy_time s) (pe_now e) ?cs []" "sy_time s3 \<le> pe_clock e 0"
    "sy_rows s3 = sy_rows s"
    using assms(3) by (simp_all add: s3_def s2_def s1_def)
  then obtain s4 where s4: "(lifecycle_step owned)\<^sup>*\<^sup>* s3 s4"
    "sy_rows s4 = fst (rebalance_loop e 0 ?cs (sy_rows s, 0, 0))"
    "sy_phase s4 = Examining (sy_time s) (pe_now e) [] (rev (map lc_EmailAccountID ?cs))"
    "sy_time s4 \<le> pe_clock e (length ?cs)"
    using loop_is_run [of s3 "sy_time s" e ?cs "[]" 0 owned 0 0] assms(4) by auto
  define s5 where "s5 = s4\<lparr>sy_time := pe_clock e (length ?cs)\<rparr>"
  have w: "lifecycle_step owned s4 s5" unfolding s5_def by (rule wait [OF s4(4)])
  have ph5: "sy_phase s5 = Examining (sy_time s) (pe_now e) [] (rev (map lc_EmailAccountID ?cs))"
    using s4(3) by (simp add: s5_def)
  have run5: "(lifecycle_step owned)\<^sup>*\<^sup>* s s5" using run3 s4(1) w by auto
  obtain counts where l: "rebalance_loop e 0 ?cs (sy_rows s, 0, 0) = (sy_rows s4, counts)"
    using s4(2) by (metis prod.collapse)
  show ?thesis
  proof (cases "pe_mark_ok e")
    case True
    have "MarkLifecycleChecked (sy_time s5) (rev (map lc_EmailAccountID ?cs)) (sy_rows s5)
        = fst (rebalanceLifecycles e (sy_rows s))"
      using True \<open>pe_list_ok e\<close> l
      by (auto simp: rebalanceLifecycles_def Let_def s5_def intro: MarkLifecycleChecked_set)
    with run5 mark [OF ph5, of owned] show ?thesis
      by (intro exI [of _ "s5\<lparr>sy_rows := fst (rebalanceLifecycles e (sy_rows s)), sy_phase := Idle\<rparr>"])
        (auto intro: rtranclp.rtrancl_into_rtrancl)
  next
    case False
    then have "sy_rows s5 = fst (rebalanceLifecycles e (sy_rows s))"
      using \<open>pe_list_ok e\<close> l by (simp add: rebalanceLifecycles_def Let_def s5_def)
    with run5 mark_fails [OF ph5, of owned] show ?thesis
      by (intro exI [of _ "s5\<lparr>sy_phase := Idle\<rparr>"]) (auto intro: rtranclp.rtrancl_into_rtrancl)
  qed
qed

theorem pass_is_run_witness:
  "\<exists>s'. (lifecycle_step {})\<^sup>*\<^sup>* (system_of (mailbox_row ''active'' None) Idle 0 {}) s' \<and> sy_phase s' = Idle
    \<and> sy_rows s' = fst (rebalanceLifecycles
        \<lparr>pe_list_ok = True, pe_standing = (\<lambda>_. (''blocked'', False)), pe_now = 1,
         pe_clock = (\<lambda>n. 2 + int n), pe_write_ok = (\<lambda>_. True), pe_mark_ok = True\<rparr>
        (sy_rows (system_of (mailbox_row ''active'' None) Idle 0 {})))"
  by (rule pass_is_run) (simp_all add: system_of_def mono_def)

section \<open>Every mailbox is reached\<close>

text \<open>What a pass leaves of a row as far as the order of examination goes.\<close>

definition kept :: "lifecycle_row \<Rightarrow> lifecycle_row \<Rightarrow> bool" where
  "kept r r' \<longleftrightarrow> lr_id r' = lr_id r \<and> lr_checked_at r' = lr_checked_at r
     \<and> is_candidate r' = is_candidate r"

lemma kept_refl [simp]: "kept r r"
  by (simp add: kept_def)

lemma Decide_range:
  "current \<in> {''active'', ''resting''} \<Longrightarrow>
   de_Next (Decide current since health unknown now) \<in> {''active'', ''resting''}"
  by (auto simp: Decide_def Let_def)

lemma kept_rebalance_one:
  assumes "lc_Current c \<in> {''active'', ''resting''}"
    and "\<forall>r \<in> set tb. lr_id r = lc_EmailAccountID c \<longrightarrow> is_candidate r"
  shows "list_all2 kept tb (fst (rebalance_one now db ok c tb))"
proof -
  have n: "de_Next (decide_for now c) \<in> {''active'', ''resting''}"
    unfolding decide_for_def by (rule Decide_range [OF assms(1)])
  have "kept r (r\<lparr>lr_since := x\<rparr>)" for r x by (simp add: kept_def is_candidate_def)
  moreover have "kept r (r\<lparr>lr_send_lifecycle := de_Next (decide_for now c), lr_since := x, lr_reason := y\<rparr>)"
    if "is_candidate r" for r x y
    using that n by (auto simp: kept_def is_candidate_def)
  ultimately show ?thesis
    using assms(2)
    by (auto simp: rebalance_one_def Let_def RestartProbation_def SetSendLifecycle_def update_row_def
        list.rel_map list.rel_refl intro!: list.rel_refl_strong)
qed

lemma kept_loop:
  assumes "\<forall>c \<in> set cs. lc_Current c \<in> {''active'', ''resting''}
      \<and> (\<forall>r \<in> set tb. lr_id r = lc_EmailAccountID c \<longrightarrow> is_candidate r)"
  shows "list_all2 kept tb (fst (rebalance_loop e n cs (tb, x, y)))"
  using assms
proof (induction cs arbitrary: n tb x y)
  case Nil
  then show ?case by (simp add: list.rel_refl)
next
  case (Cons c cs)
  obtain tb1 moved where one:
    "rebalance_one (pe_now e) (pe_clock e n) (pe_write_ok e (lc_EmailAccountID c)) c tb = (tb1, moved)"
    by fastforce
  have k: "list_all2 kept tb tb1"
    using kept_rebalance_one [of c tb "pe_now e" "pe_clock e n" "pe_write_ok e (lc_EmailAccountID c)"]
      Cons.prems one by simp
  have "\<exists>r \<in> set tb. kept r r'" if "r' \<in> set tb1" for r'
    using k that by (metis in_set_conv_nth list_all2_conv_all_nth)
  then have "list_all2 kept tb1 (fst (rebalance_loop e (Suc n) cs (tb1, x', y')))" for x' y'
    using Cons.prems by (intro Cons.IH) (fastforce simp: kept_def)
  moreover have "kept r q \<Longrightarrow> kept q r' \<Longrightarrow> kept r r'" for r q r' by (simp add: kept_def)
  ultimately have "list_all2 kept tb (fst (rebalance_loop e (Suc n) cs (tb1, x', y')))" for x' y'
    using k by (blast intro: list_all2_trans)
  then show ?case using one by simp
qed

lemma kept_pass:
  assumes "distinct (map lr_id tb)" "pe_list_ok e" "pe_mark_ok e"
  defines "ids \<equiv> map lc_EmailAccountID (ListLifecycleCandidates (pe_standing e) 500 tb)"
  shows "list_all2 (\<lambda>r r'. lr_id r' = lr_id r \<and> is_candidate r' = is_candidate r
      \<and> lr_checked_at r' = (if lr_id r \<in> set ids then Some (pe_clock e (length ids)) else lr_checked_at r))
    tb (fst (rebalanceLifecycles e tb))"
proof -
  let ?cs = "ListLifecycleCandidates (pe_standing e) 500 tb"
  have src: "\<exists>r \<in> set tb. is_candidate r \<and> c = candidate_of (pe_standing e) r" if "c \<in> set ?cs" for c
    using that by (auto simp: ListLifecycleCandidates_def dest!: in_set_takeD)
  have "\<forall>c \<in> set ?cs. lc_Current c \<in> {''active'', ''resting''}
      \<and> (\<forall>r \<in> set tb. lr_id r = lc_EmailAccountID c \<longrightarrow> is_candidate r)"
  proof
    fix c assume "c \<in> set ?cs"
    then obtain q where q: "q \<in> set tb" "is_candidate q" "c = candidate_of (pe_standing e) q"
      using src by blast
    then have "lr_id r = lc_EmailAccountID c \<longrightarrow> is_candidate r" if "r \<in> set tb" for r
      using row_unique [OF assms(1) q(1) that] by (auto simp: candidate_of_def)
    with q show "lc_Current c \<in> {''active'', ''resting''}
      \<and> (\<forall>r \<in> set tb. lr_id r = lc_EmailAccountID c \<longrightarrow> is_candidate r)"
      by (auto simp: candidate_of_def is_candidate_def)
  qed
  from kept_loop [OF this] have k: "list_all2 kept tb (fst (rebalance_loop e 0 ?cs (tb, 0, 0)))" .
  have "fst (rebalanceLifecycles e tb)
      = MarkLifecycleChecked (pe_clock e (length ids)) ids (fst (rebalance_loop e 0 ?cs (tb, 0, 0)))"
    using assms(2,3) by (auto simp: rebalanceLifecycles_def ids_def Let_def split: prod.splits)
  then show ?thesis
    unfolding MarkLifecycleChecked_def
    using k by (auto simp: list.rel_map kept_def is_candidate_def elim!: list_all2_mono)
qed

text \<open>How many candidates are looked at before a row with the given place in the order.\<close>

definition ahead :: "lifecycle_table \<Rightarrow> instant option \<times> uuid \<Rightarrow> lifecycle_row list" where
  "ahead tb key = filter (\<lambda>r. is_candidate r \<and> check_order r < key) tb"

lemma filter_list_all2:
  assumes "list_all2 (\<lambda>r r'. P r' \<longleftrightarrow> Q r) tb tb'"
  shows "length (filter P tb') = length (filter Q tb)"
  using assms by (induction rule: list_all2_induct) auto

lemma unlisted_ahead:
  assumes d: "distinct (map lr_id tb)" and q: "q \<in> set tb" "is_candidate q"
    and "lr_id q \<notin> set (map lc_EmailAccountID (ListLifecycleCandidates st 500 tb))"
  shows "500 \<le> length (filter (\<lambda>r. is_candidate r \<and> check_order r < check_order q
    \<and> lr_id r \<in> set (map lc_EmailAccountID (ListLifecycleCandidates st 500 tb))) tb)"
    (is "500 \<le> length (filter ?P tb)")
proof -
  let ?xs = "sort_key check_order (filter is_candidate tb)"
  have ids: "lc_EmailAccountID ` set (ListLifecycleCandidates st 500 tb) = lr_id ` set (take 500 ?xs)"
    by (simp add: ListLifecycleCandidates_def candidate_of_def image_image)
  have notin: "q \<notin> set (take 500 ?xs)" using assms(4) ids by auto
  have "q \<in> set ?xs" using q by simp
  then have qd: "q \<in> set (drop 500 ?xs)"
    using notin by (metis Un_iff append_take_drop_id set_append)
  then have len: "length (take 500 ?xs) = 500" by (cases "length ?xs \<le> 500") auto
  have dx: "distinct ?xs" using d by (auto simp: distinct_map)
  have "sorted (map check_order (take 500 ?xs @ drop 500 ?xs))" by simp
  then have le: "check_order r \<le> check_order q" if "r \<in> set (take 500 ?xs)" for r
    using that qd by (auto simp: sorted_append simp del: append_take_drop_id)
  have "check_order r < check_order q" if "r \<in> set (take 500 ?xs)" for r
  proof -
    have "r \<in> set tb" using that by (auto dest: in_set_takeD)
    then have "lr_id r \<noteq> lr_id q" using row_unique [OF d q(1)] that notin by metis
    then have "check_order r \<noteq> check_order q" by (auto simp: check_order_def)
    with le [OF that] show ?thesis by (rule order.not_eq_order_implies_strict [rotated])
  qed
  then have "set (take 500 ?xs) \<subseteq> set (filter ?P tb)"
    by (auto simp: ids dest: in_set_takeD)
  then have "card (set (take 500 ?xs)) \<le> card (set (filter ?P tb))" by (intro card_mono) simp_all
  also have "\<dots> \<le> length (filter ?P tb)" by (rule card_length)
  finally show ?thesis using len dx by (simp add: distinct_card)
qed

lemma kept_pass_row:
  assumes "distinct (map lr_id tb)" "pe_list_ok e" "pe_mark_ok e" "q \<in> set tb"
    and "lr_id q \<notin> set (map lc_EmailAccountID (ListLifecycleCandidates (pe_standing e) 500 tb))"
  shows "\<exists>q' \<in> set (fst (rebalanceLifecycles e tb)).
    lr_id q' = lr_id q \<and> is_candidate q' = is_candidate q \<and> check_order q' = check_order q"
  using kept_pass [OF assms(1-3)] assms(4,5)
  by (fastforce simp: in_set_conv_nth list_all2_conv_all_nth check_order_def)

lemma pass_moves_up:
  assumes d: "distinct (map lr_id tb)" and e: "pe_list_ok e" "pe_mark_ok e"
    and q: "q \<in> set tb" "is_candidate q"
    and clock: "\<forall>r \<in> set tb. \<forall>t n. lr_checked_at r = Some t \<longrightarrow> t < pe_clock e n"
    and "lr_id q \<notin> set (map lc_EmailAccountID (ListLifecycleCandidates (pe_standing e) 500 tb))"
  shows "length (ahead (fst (rebalanceLifecycles e tb)) (check_order q)) + 500
    \<le> length (ahead tb (check_order q))"
proof -
  let ?ids = "map lc_EmailAccountID (ListLifecycleCandidates (pe_standing e) 500 tb)"
  let ?A = "\<lambda>r. is_candidate r \<and> check_order r < check_order q"
  have later: "\<not> (Some (pe_clock e n), i) < check_order q" for n i
  proof (cases "lr_checked_at q")
    case (Some t)
    then have "t < pe_clock e n" using clock q(1) by blast
    with Some show ?thesis by (auto simp: check_order_def)
  qed (auto simp: check_order_def)
  have "list_all2 (\<lambda>r r'. ?A r' \<longleftrightarrow> ?A r \<and> lr_id r \<notin> set ?ids) tb (fst (rebalanceLifecycles e tb))"
    by (rule list_all2_mono [OF kept_pass [OF d e]])
      (use later in \<open>auto simp: check_order_def split: if_splits\<close>)
  from filter_list_all2 [OF this]
  have "length (ahead (fst (rebalanceLifecycles e tb)) (check_order q))
      = length (filter (\<lambda>r. ?A r \<and> lr_id r \<notin> set ?ids) tb)"
    by (simp add: ahead_def)
  moreover have "length (filter ?A tb)
      = length (filter (\<lambda>r. ?A r \<and> lr_id r \<in> set ?ids) tb)
        + length (filter (\<lambda>r. ?A r \<and> lr_id r \<notin> set ?ids) tb)"
    using sum_length_filter_compl [of "\<lambda>r. lr_id r \<in> set ?ids" "filter ?A tb"]
    by (simp add: conj_commute)
  ultimately show ?thesis
    using unlisted_ahead [OF d q assms(7)] by (simp add: ahead_def conj_assoc)
qed

primrec run_passes :: "(nat \<Rightarrow> pass_env) \<Rightarrow> nat \<Rightarrow> lifecycle_table \<Rightarrow> lifecycle_table" where
  "run_passes e 0 tb = tb"
| "run_passes e (Suc k) tb = fst (rebalanceLifecycles (e k) (run_passes e k tb))"

definition examined :: "(nat \<Rightarrow> pass_env) \<Rightarrow> nat \<Rightarrow> lifecycle_table \<Rightarrow> uuid \<Rightarrow> bool" where
  "examined e k tb i \<longleftrightarrow>
     i \<in> set (map lc_EmailAccountID (ListLifecycleCandidates (pe_standing (e k)) 500 (run_passes e k tb)))"

definition clocks_advance :: "(nat \<Rightarrow> pass_env) \<Rightarrow> lifecycle_table \<Rightarrow> bool" where
  "clocks_advance e tb \<longleftrightarrow>
     (\<forall>r \<in> set tb. \<forall>t n. lr_checked_at r = Some t \<longrightarrow> t < pe_clock (e 0) n)
     \<and> (\<forall>k i j. pe_clock (e k) i < pe_clock (e (Suc k)) j)"

lemma run_passes_inv:
  assumes d: "distinct (map lr_id tb)" and e: "\<forall>k. pe_list_ok (e k) \<and> pe_mark_ok (e k)"
    and c: "clocks_advance e tb"
  shows "distinct (map lr_id (run_passes e k tb))
    \<and> (\<forall>r \<in> set (run_passes e k tb). \<forall>t n. lr_checked_at r = Some t \<longrightarrow> t < pe_clock (e k) n)"
proof (induction k)
  case 0
  then show ?case using d c by (auto simp: clocks_advance_def)
next
  case (Suc k)
  let ?tb = "run_passes e k tb"
  have d': "distinct (map lr_id ?tb)" using Suc.IH by blast
  note k = kept_pass [OF d', of "e k"]
  have ids: "map lr_id (run_passes e (Suc k) tb) = map lr_id ?tb"
    using k e by (auto simp: list_all2_conv_all_nth intro!: nth_equalityI)
  have lt: "pe_clock (e k) i < pe_clock (e (Suc k)) j" for i j using c by (simp add: clocks_advance_def)
  have "t < pe_clock (e (Suc k)) n"
    if r': "r' \<in> set (run_passes e (Suc k) tb)" "lr_checked_at r' = Some t" for r' t n
  proof -
    obtain r where "r \<in> set ?tb" "lr_checked_at r' = lr_checked_at r
        \<or> (\<exists>m. lr_checked_at r' = Some (pe_clock (e k) m))"
      using k e r'(1) by (fastforce simp: in_set_conv_nth list_all2_conv_all_nth)
    then show ?thesis using Suc.IH r'(2) lt less_trans [OF _ lt] by (metis option.sel)
  qed
  with ids d' show ?case by simp
qed

lemma waiting_moves_up:
  assumes d: "distinct (map lr_id tb)" and e: "\<forall>k. pe_list_ok (e k) \<and> pe_mark_ok (e k)"
    and c: "clocks_advance e tb" and q: "q \<in> set tb" "is_candidate q"
    and un: "\<forall>k < n. \<not> examined e k tb (lr_id q)"
  shows "\<exists>q' \<in> set (run_passes e n tb). lr_id q' = lr_id q \<and> is_candidate q'
    \<and> check_order q' = check_order q
    \<and> length (ahead (run_passes e n tb) (check_order q)) + 500 * n \<le> length (ahead tb (check_order q))"
  using un
proof (induction n)
  case 0
  then show ?case using q by auto
next
  case (Suc n)
  then obtain q' where q': "q' \<in> set (run_passes e n tb)" "lr_id q' = lr_id q" "is_candidate q'"
      "check_order q' = check_order q"
      "length (ahead (run_passes e n tb) (check_order q)) + 500 * n \<le> length (ahead tb (check_order q))"
    by auto
  note inv = run_passes_inv [OF d e c, of n]
  have un': "lr_id q' \<notin> set (map lc_EmailAccountID
      (ListLifecycleCandidates (pe_standing (e n)) 500 (run_passes e n tb)))"
    using Suc.prems q'(2) by (simp add: examined_def)
  have e': "pe_list_ok (e n)" "pe_mark_ok (e n)" using e by auto
  have "length (ahead (run_passes e (Suc n) tb) (check_order q)) + 500
      \<le> length (ahead (run_passes e n tb) (check_order q))"
    using pass_moves_up [OF _ e' q'(1,3) _ un'] inv q'(4) by simp
  moreover obtain q'' where "q'' \<in> set (run_passes e (Suc n) tb)" "lr_id q'' = lr_id q'"
      "is_candidate q''" "check_order q'' = check_order q'"
    using kept_pass_row [OF _ e' q'(1) un'] inv q'(3) by auto
  ultimately show ?case using q' by force
qed

text \<open>
  Claim C22. Every mailbox is reached: of a table with at most five hundred candidates for
  each of \<open>n\<close> passes, every candidate is examined by one of the first \<open>n\<close> passes, when their
  listings and marks succeed and the clock advances from pass to pass. Writes may fail, and
  what the passes decide for the mailboxes does not matter.
\<close>

theorem every_mailbox_examined:
  assumes "distinct (map lr_id tb)" "\<forall>k. pe_list_ok (e k) \<and> pe_mark_ok (e k)"
    and "clocks_advance e tb" "q \<in> set tb" "is_candidate q"
    and "length (filter is_candidate tb) \<le> 500 * n"
  shows "\<exists>k < n. examined e k tb (lr_id q)"
proof (rule ccontr)
  assume "\<not> ?thesis"
  then have "500 * n \<le> length (ahead tb (check_order q))"
    using waiting_moves_up [OF assms(1-5), of n] by auto
  also have "\<dots> < length (filter is_candidate tb)"
  proof -
    have "ahead tb (check_order q) = filter (\<lambda>r. check_order r < check_order q) (filter is_candidate tb)"
      by (simp add: ahead_def conj_commute)
    then show ?thesis
      using length_filter_less [of q "filter is_candidate tb" "\<lambda>r. check_order r < check_order q"]
        assms(4,5) by simp
  qed
  finally show False using assms(6) by simp
qed

theorem every_mailbox_examined_witness:
  "\<exists>k < 1. examined
     (\<lambda>k. \<lparr>pe_list_ok = True, pe_standing = (\<lambda>_. (''blocked'', False)), pe_now = int k,
           pe_clock = (\<lambda>_. int k), pe_write_ok = (\<lambda>_. False), pe_mark_ok = True\<rparr>)
     k [mailbox_row ''active'' None] (lr_id (mailbox_row ''active'' None))"
  by (rule every_mailbox_examined) (simp_all add: mailbox_row_def clocks_advance_def is_candidate_def)

end
