(* ===== verification/Send_Time.thy ===== *)
theory Send_Time
  imports Behavior_Placement Wall_Clock
begin

text \<open>
  Aiming a send at the recipient's clock, \<open>internal/scheduler/send_time.go\<close>: the policy of
  the workspace, where the recipient is, the next preferred hour there, and the first moment
  both calendars accept.

  Text is ASCII. The timezone database is an argument; the names \<open>time.LoadLocation\<close> answers
  by itself, the empty one and \<open>UTC\<close>, are written out.
\<close>

section \<open>The policy\<close>

record SendTimeOptimizationSettings =
  sto_Enabled :: bool
  sto_UseContactTimezone :: bool
  sto_DefaultContactTimezone :: string
  sto_PreferredHours :: "int list"
  sto_WeekendWeightMultiplier :: rat

record sendTimePreference =
  stp_enabled :: bool
  stp_useContactTZ :: bool
  stp_defaultTZ :: string
  stp_preferredHours :: "int list"
  stp_avoidWeekends :: bool

definition defaultPreferredHours :: "int list" where
  "defaultPreferredHours = [9, 10, 11, 14, 15, 16]"

fun keep_hours :: "int list \<Rightarrow> int list \<Rightarrow> int list" where
  "keep_hours out [] = out"
| "keep_hours out (h # hs) =
     (if h < 0 \<or> 23 < h \<or> h \<in> set out then keep_hours out hs else keep_hours (out @ [h]) hs)"

definition normalizeHours :: "int list \<Rightarrow> int list" where
  "normalizeHours hours =
     (let out = keep_hours [] hours in if out = [] then defaultPreferredHours else sort out)"

definition sendTimePreferenceFrom :: "SendTimeOptimizationSettings option \<Rightarrow> sendTimePreference" where
  "sendTimePreferenceFrom s =
     (case s of
        Some o' \<Rightarrow>
          if sto_Enabled o'
          then \<lparr>stp_enabled = True, stp_useContactTZ = sto_UseContactTimezone o',
                stp_defaultTZ = sto_DefaultContactTimezone o',
                stp_preferredHours = normalizeHours (sto_PreferredHours o'),
                stp_avoidWeekends = (sto_WeekendWeightMultiplier o' < 1)\<rparr>
          else \<lparr>stp_enabled = False, stp_useContactTZ = False, stp_defaultTZ = [],
                stp_preferredHours = [], stp_avoidWeekends = False\<rparr>
      | None \<Rightarrow> \<lparr>stp_enabled = False, stp_useContactTZ = False, stp_defaultTZ = [],
                 stp_preferredHours = [], stp_avoidWeekends = False\<rparr>)"

section \<open>Where the recipient is\<close>

definition ccTLDTimezone :: "(string \<times> string) list" where
  "ccTLDTimezone =
    [(''uk'', ''Europe/London''), (''ie'', ''Europe/Dublin''), (''fr'', ''Europe/Paris''),
     (''de'', ''Europe/Berlin''), (''at'', ''Europe/Vienna''), (''ch'', ''Europe/Zurich''),
     (''nl'', ''Europe/Amsterdam''), (''be'', ''Europe/Brussels''), (''es'', ''Europe/Madrid''),
     (''pt'', ''Europe/Lisbon''), (''it'', ''Europe/Rome''), (''dk'', ''Europe/Copenhagen''),
     (''se'', ''Europe/Stockholm''), (''no'', ''Europe/Oslo''), (''fi'', ''Europe/Helsinki''),
     (''pl'', ''Europe/Warsaw''), (''cz'', ''Europe/Prague''), (''sk'', ''Europe/Bratislava''),
     (''hu'', ''Europe/Budapest''), (''ro'', ''Europe/Bucharest''), (''bg'', ''Europe/Sofia''),
     (''gr'', ''Europe/Athens''), (''tr'', ''Europe/Istanbul''), (''ua'', ''Europe/Kyiv''),
     (''il'', ''Asia/Jerusalem''), (''ae'', ''Asia/Dubai''), (''sa'', ''Asia/Riyadh''),
     (''in'', ''Asia/Kolkata''), (''pk'', ''Asia/Karachi''), (''sg'', ''Asia/Singapore''),
     (''my'', ''Asia/Kuala_Lumpur''), (''th'', ''Asia/Bangkok''), (''vn'', ''Asia/Ho_Chi_Minh''),
     (''id'', ''Asia/Jakarta''), (''ph'', ''Asia/Manila''), (''hk'', ''Asia/Hong_Kong''),
     (''jp'', ''Asia/Tokyo''), (''kr'', ''Asia/Seoul''), (''cn'', ''Asia/Shanghai''),
     (''tw'', ''Asia/Taipei''), (''nz'', ''Pacific/Auckland''), (''za'', ''Africa/Johannesburg''),
     (''ng'', ''Africa/Lagos''), (''ke'', ''Africa/Nairobi''), (''eg'', ''Africa/Cairo''),
     (''mx'', ''America/Mexico_City''), (''br'', ''America/Sao_Paulo''),
     (''ar'', ''America/Argentina/Buenos_Aires''), (''cl'', ''America/Santiago''),
     (''co'', ''America/Bogota''), (''pe'', ''America/Lima''),
     (''au'', ''Australia/Sydney''), (''ca'', ''America/Toronto''), (''us'', ''America/New_York''),
     (''ru'', ''Europe/Moscow'')]"

definition to_lower :: "string \<Rightarrow> string" where
  "to_lower = map (\<lambda>c. let n = of_char c :: nat in if 65 \<le> n \<and> n \<le> 90 then char_of (n + 32) else c)"

text \<open>What follows the last \<open>@\<close>, if there is one.\<close>

definition after_last :: "char \<Rightarrow> string \<Rightarrow> string option" where
  "after_last c s = (if c \<in> set s then Some (rev (takeWhile (\<lambda>x. x \<noteq> c) (rev s))) else None)"

definition timezoneForEmailDomain :: "string \<Rightarrow> string" where
  "timezoneForEmailDomain email =
     (case after_last (CHR ''@'') email of
        None \<Rightarrow> []
      | Some rest \<Rightarrow>
          let labels = split_on (CHR ''.'') (to_lower (trim_space rest))
          in if length labels < 2 then []
             else case map_of ccTLDTimezone (last labels) of None \<Rightarrow> [] | Some tz \<Rightarrow> tz)"

record contact_tz =
  ct_Email :: string
  ct_CustomFields :: "string \<Rightarrow> string option"

definition contactEmail :: "contact_tz option \<Rightarrow> string" where
  "contactEmail c = (case c of None \<Rightarrow> [] | Some c \<Rightarrow> ct_Email c)"

definition go_LoadLocation :: "tzdb \<Rightarrow> string \<Rightarrow> location option" where
  "go_LoadLocation tzdb name = (if name = [] \<or> name = ''UTC'' then Some UTC else tzdb name)"

definition recipientLocation :: "tzdb \<Rightarrow> contact_tz option \<Rightarrow> sendTimePreference \<Rightarrow> location" where
  "recipientLocation tzdb contact pref =
     (let from_default = loadLocation tzdb (stp_defaultTZ pref);
          from_domain = (let tz = timezoneForEmailDomain (contactEmail contact)
                         in if tz = [] then from_default
                            else case go_LoadLocation tzdb tz of Some loc \<Rightarrow> loc | None \<Rightarrow> from_default)
      in case (stp_useContactTZ pref, contact) of
           (True, Some c) \<Rightarrow>
             (case ct_CustomFields c ''timezone'' of
                Some tz \<Rightarrow> (case go_LoadLocation tzdb (trim_space tz) of
                              Some loc \<Rightarrow> loc | None \<Rightarrow> from_domain)
              | None \<Rightarrow> from_domain)
         | _ \<Rightarrow> from_default)"

section \<open>The next preferred hour\<close>

definition isWeekend :: "gtime \<Rightarrow> bool" where
  "isWeekend t \<longleftrightarrow> weekday_of t = 6 \<or> weekday_of t = 0"

fun snap_hours :: "gtime \<Rightarrow> gtime \<Rightarrow> bool \<Rightarrow> gtime \<Rightarrow> location \<Rightarrow> int list \<Rightarrow> gtime option" where
  "snap_hours t local today candidateDay loc [] = None"
| "snap_hours t local today candidateDay loc (h # hs) =
     (if today \<and> h < hour_of local then snap_hours t local today candidateDay loc hs
      else if today \<and> h = hour_of local then Some t
      else
        let candidate = (case civil candidateDay of
                           (y, m, d) \<Rightarrow> go_date y m d h (minute_of local) 0 0 loc)
        in if \<not> before candidate local then Some candidate
           else snap_hours t local today candidateDay loc hs)"

fun snap_days :: "nat \<Rightarrow> nat \<Rightarrow> gtime \<Rightarrow> gtime \<Rightarrow> location \<Rightarrow> int list \<Rightarrow> bool \<Rightarrow> gtime option" where
  "snap_days 0 day t local loc hours avoidWeekends = None"
| "snap_days (Suc n) day t local loc hours avoidWeekends =
     (let candidateDay = add_days local (int day)
      in if avoidWeekends \<and> isWeekend candidateDay
         then snap_days n (Suc day) t local loc hours avoidWeekends
         else case snap_hours t local (day = 0) candidateDay loc hours of
                Some r \<Rightarrow> Some r
              | None \<Rightarrow> snap_days n (Suc day) t local loc hours avoidWeekends)"

definition snapToPreferredHour :: "gtime \<Rightarrow> location \<Rightarrow> int list \<Rightarrow> bool \<Rightarrow> gtime" where
  "snapToPreferredHour t loc hours avoidWeekends =
     (if hours = [] then t
      else case snap_days 8 0 t (in_loc t loc) loc hours avoidWeekends of Some r \<Rightarrow> r | None \<Rightarrow> t)"

section \<open>A moment both calendars accept\<close>

definition maxRecipientSlotProbes :: nat where
  "maxRecipientSlotProbes = 8"

fun recipient_loop ::
  "nat \<Rightarrow> bool \<Rightarrow> instant \<Rightarrow> gtime \<Rightarrow> gtime \<Rightarrow> ScheduleWindows \<Rightarrow> location \<Rightarrow> location
   \<Rightarrow> sendTimePreference \<Rightarrow> instant option \<Rightarrow> Resolved \<times> store
   \<Rightarrow> gtime option \<times> Resolved \<times> store" where
  "recipient_loop 0 wired now at' from_t windows campaignTZ loc pref endDate rs = (None, rs)"
| "recipient_loop (Suc n) wired now at' from_t windows campaignTZ loc pref endDate rs =
     (let snapped = snapToPreferredHour at' loc (stp_preferredHours pref) (stp_avoidWeekends pref)
      in if \<not> after snapped from_t then (Some from_t, rs)
         else if (case endDate of None \<Rightarrow> False | Some e \<Rightarrow> e < g_inst snapped) then (None, rs)
         else case intersectWindows wired now snapped windows campaignTZ rs of
                (legal, rs) \<Rightarrow>
                  if \<not> after legal snapped then (Some snapped, rs)
                  else recipient_loop n wired now legal from_t windows campaignTZ loc pref endDate rs)"

definition recipientSlot ::
  "tzdb \<Rightarrow> bool \<Rightarrow> instant \<Rightarrow> gtime \<Rightarrow> ScheduleWindows \<Rightarrow> location \<Rightarrow> contact_tz option
   \<Rightarrow> sendTimePreference \<Rightarrow> instant option \<Rightarrow> Resolved \<times> store
   \<Rightarrow> gtime option \<times> Resolved \<times> store" where
  "recipientSlot tzdb wired now from_t windows campaignTZ contact pref endDate rs =
     recipient_loop maxRecipientSlotProbes wired now from_t from_t windows campaignTZ
       (recipientLocation tzdb contact pref) pref endDate rs"

section \<open>Hours that can be met\<close>

lemma distinct_keep_hours: "distinct out \<Longrightarrow> distinct (keep_hours out hs)"
  by (induction out hs rule: keep_hours.induct) simp_all

lemma set_keep_hours: "set (keep_hours out hs) = set out \<union> {h \<in> set hs. 0 \<le> h \<and> h \<le> 23}"
proof (induction out hs rule: keep_hours.induct)
  case (2 out h hs)
  show ?case
  proof (cases "h < 0 \<or> 23 < h \<or> h \<in> set out")
    case True
    then have "keep_hours out (h # hs) = keep_hours out hs" by simp
    with 2(1) [OF True] True show ?thesis by (simp only:) force
  next
    case False
    then have "keep_hours out (h # hs) = keep_hours (out @ [h]) hs" by simp
    with 2(2) [OF False] False show ?thesis by (simp only:) force
  qed
qed simp

lemma normalizeHours_ok:
  "sorted (normalizeHours hs) \<and> distinct (normalizeHours hs) \<and> normalizeHours hs \<noteq> []
   \<and> set (normalizeHours hs) \<subseteq> {0..23}"
proof -
  have k: "distinct (keep_hours [] hs)" "set (keep_hours [] hs) \<subseteq> {0..23}"
    by (simp add: distinct_keep_hours) (auto simp: set_keep_hours)
  then show ?thesis
    by (cases "keep_hours [] hs = []")
      (simp_all add: normalizeHours_def Let_def defaultPreferredHours_def flip: set_empty)
qed

lemma normalizeHours_set:
  assumes "h \<in> set hs" "0 \<le> h" "h \<le> 23"
  shows "set (normalizeHours hs) = {h \<in> set hs. 0 \<le> h \<and> h \<le> 23}"
proof -
  have k: "set (keep_hours [] hs) = {h \<in> set hs. 0 \<le> h \<and> h \<le> 23}"
    by (simp add: set_keep_hours)
  then have "keep_hours [] hs \<noteq> []" using assms by (metis (mono_tags, lifting) empty_iff empty_set mem_Collect_eq)
  with k show ?thesis by (simp add: normalizeHours_def Let_def)
qed

section \<open>The next preferred hour is the earliest\<close>

lemma local_secs_parts:
  "local_secs t = local_day t * 86400 + hour_of t * 3600 + minute_of t * 60 + second_of t"
proof -
  define x where "x = local_secs t mod 86400"
  have m: "local_secs t mod 3600 = x mod 3600" "local_secs t mod 60 = x mod 60"
    by (simp_all add: x_def mod_mod_cancel)
  have "x mod 3600 mod 60 = x mod 60" by (simp add: mod_mod_cancel)
  then have "x = x div 3600 * 3600 + x mod 3600 div 60 * 60 + x mod 60"
    by (metis add.assoc div_mult_mod_eq)
  then have "x = hour_of t * 3600 + minute_of t * 60 + second_of t"
    unfolding hour_of_def minute_of_def second_of_def m x_def [symmetric] .
  moreover have "local_secs t = local_day t * 86400 + x" by (simp add: local_day_def x_def)
  ultimately show ?thesis by linarith
qed

lemma clock_ranges:
  "0 \<le> hour_of t" "hour_of t < 24" "0 \<le> minute_of t" "minute_of t < 60" "0 \<le> second_of t" "second_of t < 60"
proof -
  have x: "0 \<le> local_secs t mod 86400" "local_secs t mod 86400 < 86400" by simp_all
  show "0 \<le> hour_of t" "hour_of t < 24" using x unfolding hour_of_def by linarith+
  have y: "0 \<le> local_secs t mod 3600" "local_secs t mod 3600 < 3600" by simp_all
  show "0 \<le> minute_of t" "minute_of t < 60" using y unfolding minute_of_def by linarith+
  show "0 \<le> second_of t" "second_of t < 60" by (simp_all add: second_of_def)
qed

text \<open>The hour of an instant counted from the epoch on the local clock.\<close>

definition hour_index :: "location \<Rightarrow> gtime \<Rightarrow> int" where
  "hour_index loc t = local_day (in_loc t loc) * 24 + hour_of (in_loc t loc)"

lemma hour_index_div: "hour_index loc t = local_secs (in_loc t loc) div 3600"
proof -
  let ?t = "in_loc t loc"
  have "local_secs ?t = (local_day ?t * 24 + hour_of ?t) * 3600 + (minute_of ?t * 60 + second_of ?t)"
    by (subst local_secs_parts) (simp add: algebra_simps)
  moreover have "0 \<le> minute_of ?t * 60 + second_of ?t" "minute_of ?t * 60 + second_of ?t < 3600"
    using clock_ranges [of ?t] by linarith+
  ultimately show ?thesis
    unfolding hour_index_def using int_div_pos_eq [of "local_secs ?t" 3600] by (simp add: mult.commute)
qed

lemma add_days_fixed:
  assumes "loc_tx (g_loc t) = []"
  shows "local_day (add_days t n) = local_day t + n" "g_loc (add_days t n) = g_loc t"
proof -
  obtain y m d where c: "civil t = (y, m, d)" by (metis prod_cases3)
  show "g_loc (add_days t n) = g_loc t" by (simp add: add_days_def c)
  have ns: "nsec_of t div Second = 0" by (simp add: nsec_of_def)
  have "local_secs (add_days t n) = wall_secs y m (d + n) (hour_of t) (minute_of t) (second_of t)"
    using assms ns by (simp add: add_days_def c local_secs_def unix_of_wall_fixed)
  then have "local_secs (add_days t n)
      = (local_day t + n) * 86400 + (hour_of t * 3600 + minute_of t * 60 + second_of t)"
    using wall_secs_civil [OF c, of n] by simp
  moreover have "0 \<le> hour_of t * 3600 + minute_of t * 60 + second_of t"
    "hour_of t * 3600 + minute_of t * 60 + second_of t < 86400"
    using clock_ranges [of t] by linarith+
  ultimately show "local_day (add_days t n) = local_day t + n"
    unfolding local_day_def using int_div_pos_eq [of "local_secs (add_days t n)" 86400] by (simp add: mult.commute)
qed

definition preferred :: "int list \<Rightarrow> bool \<Rightarrow> location \<Rightarrow> gtime \<Rightarrow> bool" where
  "preferred hours avoidWeekends loc u \<longleftrightarrow>
     hour_of (in_loc u loc) \<in> set hours \<and> \<not> (avoidWeekends \<and> isWeekend (in_loc u loc))"

text \<open>The candidate of a day and an hour in a location without transitions.\<close>

definition hour_on :: "gtime \<Rightarrow> location \<Rightarrow> int \<Rightarrow> int \<Rightarrow> gtime" where
  "hour_on t loc day h =
     (case civil (add_days (in_loc t loc) day) of
        (y, m, d) \<Rightarrow> go_date y m d h (minute_of (in_loc t loc)) 0 0 loc)"

lemma hour_on_secs:
  assumes "loc_tx loc = []"
  shows "local_secs (hour_on t loc day h)
    = (local_day (in_loc t loc) + day) * 86400 + h * 3600 + minute_of (in_loc t loc) * 60"
    "g_loc (hour_on t loc day h) = loc"
proof -
  let ?c = "add_days (in_loc t loc) day"
  obtain y m d where c: "civil ?c = (y, m, d)" by (metis prod_cases3)
  show "g_loc (hour_on t loc day h) = loc" by (simp add: hour_on_def c)
  have "local_secs (hour_on t loc day h) = wall_secs y m d h (minute_of (in_loc t loc)) 0"
    using assms by (simp add: hour_on_def c local_secs_go_date_fixed)
  also have "\<dots> = local_day ?c * 86400 + h * 3600 + minute_of (in_loc t loc) * 60"
    by (simp add: wall_secs_civil0 [OF c])
  finally show "local_secs (hour_on t loc day h)
    = (local_day (in_loc t loc) + day) * 86400 + h * 3600 + minute_of (in_loc t loc) * 60"
    using assms by (simp add: add_days_fixed)
qed

lemma hour_on_parts:
  assumes "loc_tx loc = []" "0 \<le> h" "h < 24"
  shows "local_day (hour_on t loc day h) = local_day (in_loc t loc) + day"
    "hour_of (hour_on t loc day h) = h"
proof -
  let ?x = "h * 3600 + minute_of (in_loc t loc) * 60"
  have s: "local_secs (hour_on t loc day h) = (local_day (in_loc t loc) + day) * 86400 + ?x"
    using hour_on_secs [OF assms(1)] by simp
  have b: "0 \<le> ?x" "?x < 86400" using assms(2,3) clock_ranges [of "in_loc t loc"] by linarith+
  show "local_day (hour_on t loc day h) = local_day (in_loc t loc) + day"
    unfolding local_day_def s using b int_div_pos_eq [of _ 86400 _ ?x] by (simp add: mult.commute local_day_def)
  have "local_secs (hour_on t loc day h) mod 86400 = ?x"
    by (rule int_mod_pos_eq [of _ _ "local_day (in_loc t loc) + day"]) (use s b in linarith)+
  moreover have "?x div 3600 = h"
    using clock_ranges [of "in_loc t loc"] int_div_pos_eq [of ?x 3600 h "minute_of (in_loc t loc) * 60"]
    by (simp add: mult.commute)
  ultimately show "hour_of (hour_on t loc day h) = h" by (simp add: hour_of_def)
qed

lemma inst_le_secs:
  assumes "loc_tx loc = []" "local_secs (in_loc t loc) < local_secs u" "g_loc u = loc"
  shows "g_inst t < g_inst u"
proof -
  have "unix_of t < unix_of u" using assms by (simp add: local_secs_def)
  show ?thesis
  proof (rule ccontr)
    assume "\<not> ?thesis"
    then have "unix_of u \<le> unix_of t" unfolding unix_of_def by (intro zdiv_mono1) simp_all
    with \<open>unix_of t < unix_of u\<close> show False by simp
  qed
qed

text \<open>The scan of one day.\<close>

lemma hour_on_not_before:
  assumes "loc_tx loc = []" "0 < day \<and> 0 \<le> h \<or> day = 0 \<and> hour_of (in_loc t loc) < h"
  shows "g_inst t < g_inst (hour_on t loc day h)"
proof (rule inst_le_secs [OF assms(1)])
  let ?l = "in_loc t loc"
  have "local_secs ?l = local_day ?l * 86400 + hour_of ?l * 3600 + minute_of ?l * 60 + second_of ?l"
    by (rule local_secs_parts)
  then show "local_secs ?l < local_secs (hour_on t loc day h)"
    unfolding hour_on_secs(1) [OF assms(1)] distrib_right
    using assms(2) clock_ranges [of ?l] by (elim disjE conjE) linarith+
qed (simp add: hour_on_secs(2) [OF assms(1)])

lemma snap_hours_step:
  "snap_hours t (in_loc t loc) today (add_days (in_loc t loc) day) loc (h # hs) =
     (if today \<and> h < hour_of (in_loc t loc)
      then snap_hours t (in_loc t loc) today (add_days (in_loc t loc) day) loc hs
      else if today \<and> h = hour_of (in_loc t loc) then Some t
      else if \<not> g_inst (hour_on t loc day h) < g_inst t then Some (hour_on t loc day h)
      else snap_hours t (in_loc t loc) today (add_days (in_loc t loc) day) loc hs)"
  by (simp add: hour_on_def before_def)

lemma snap_hours_later:
  assumes "loc_tx loc = []" "0 < day" "hours \<noteq> []" "set hours \<subseteq> {0..23}"
  shows "snap_hours t (in_loc t loc) False (add_days (in_loc t loc) day) loc hours
    = Some (hour_on t loc day (hd hours))"
proof -
  obtain h hs where h: "hours = h # hs" using assms(3) by (cases hours) auto
  then have "g_inst t < g_inst (hour_on t loc day h)"
    using assms by (intro hour_on_not_before) auto
  then show ?thesis unfolding h snap_hours_step by simp
qed

lemma snap_hours_today:
  assumes "loc_tx loc = []" "sorted hours"
  shows "case snap_hours t (in_loc t loc) True (add_days (in_loc t loc) 0) loc hours of
      None \<Rightarrow> \<forall>h \<in> set hours. h < hour_of (in_loc t loc)
    | Some r \<Rightarrow> r = t \<and> hour_of (in_loc t loc) \<in> set hours
        \<or> (\<exists>h \<in> set hours. hour_of (in_loc t loc) < h \<and> r = hour_on t loc 0 h
             \<and> (\<forall>h' \<in> set hours. hour_of (in_loc t loc) \<le> h' \<longrightarrow> h \<le> h'))"
  using assms(2)
proof (induction hours)
  case (Cons h hs)
  let ?H = "hour_of (in_loc t loc)"
  consider "h < ?H" | "h = ?H" | "?H < h" by linarith
  then show ?case
  proof cases
    case 1
    with Cons show ?thesis unfolding snap_hours_step by (auto split: option.splits)
  next
    case 2
    then show ?thesis unfolding snap_hours_step by simp
  next
    case 3
    then have "g_inst t < g_inst (hour_on t loc 0 h)" by (intro hour_on_not_before [OF assms(1)]) simp
    with 3 Cons.prems show ?thesis unfolding snap_hours_step by auto
  qed
qed simp

lemma weekend_days: "isWeekend t \<longleftrightarrow> weekday_of_days (local_day t) \<in> {0, 6}"
  by (auto simp: isWeekend_def weekday_of_def)

lemma weekday_soon: "\<exists>k. 1 \<le> k \<and> k \<le> 3 \<and> weekday_of_days (D + k) \<notin> {0, 6}"
proof -
  have r: "0 \<le> (D + 4) mod 7" "(D + 4) mod 7 < 7" by simp_all
  have "weekday_of_days (D + k) = ((D + 4) mod 7 + k) mod 7" for k
    by (simp add: weekday_of_days_def mod_simps algebra_simps)
  moreover have "(D + 4) mod 7 \<in> {0, 1, 2, 3, 4, 5, 6}" using r by auto
  ultimately have "weekday_of_days (D + 1) \<notin> {0, 6} \<or> weekday_of_days (D + 3) \<notin> {0, 6}" by auto
  then show ?thesis
  proof
    assume "weekday_of_days (D + 1) \<notin> {0, 6}"
    then show ?thesis by (intro exI [of _ 1] conjI) simp_all
  next
    assume "weekday_of_days (D + 3) \<notin> {0, 6}"
    then show ?thesis by (intro exI [of _ 3] conjI) simp_all
  qed
qed

text \<open>The search over the days after today stops at the first day that is not skipped.\<close>

lemma snap_days_later:
  assumes "loc_tx loc = []" "hours \<noteq> []" "set hours \<subseteq> {0..23}" "0 < day" "day \<le> k" "k < day + n"
    and "\<not> (avoid \<and> isWeekend (add_days (in_loc t loc) (int k)))"
  shows "\<exists>j. day \<le> j \<and> j \<le> k \<and> \<not> (avoid \<and> isWeekend (add_days (in_loc t loc) (int j)))
    \<and> (\<forall>i. day \<le> i \<and> i < j \<longrightarrow> avoid \<and> isWeekend (add_days (in_loc t loc) (int i)))
    \<and> snap_days n day t (in_loc t loc) loc hours avoid = Some (hour_on t loc (int j) (hd hours))"
  using assms(4-6)
proof (induction n arbitrary: day)
  case 0
  then show ?case by simp
next
  case (Suc n)
  show ?case
  proof (cases "avoid \<and> isWeekend (add_days (in_loc t loc) (int day))")
    case True
    then have "day \<noteq> k" using assms(7) by auto
    then have "Suc day \<le> k" "k < Suc day + n" using Suc.prems by auto
    from Suc.IH [OF _ this] obtain j where j: "Suc day \<le> j" "j \<le> k"
      "\<not> (avoid \<and> isWeekend (add_days (in_loc t loc) (int j)))"
      "\<forall>i. Suc day \<le> i \<and> i < j \<longrightarrow> avoid \<and> isWeekend (add_days (in_loc t loc) (int i))"
      "snap_days n (Suc day) t (in_loc t loc) loc hours avoid = Some (hour_on t loc (int j) (hd hours))"
      by auto
    have "avoid \<and> isWeekend (add_days (in_loc t loc) (int i))" if "day \<le> i" "i < j" for i
      using that j(4) True by (cases "i = day") auto
    with j True show ?thesis by (intro exI [of _ j]) (auto simp: Let_def)
  next
    case False
    have "snap_hours t (in_loc t loc) False (add_days (in_loc t loc) (int day)) loc hours
        = Some (hour_on t loc (int day) (hd hours))"
      using Suc.prems by (intro snap_hours_later assms) simp
    with False Suc.prems show ?thesis by (intro exI [of _ day]) (auto simp: Let_def)
  qed
qed

lemma hour_index_mono: "loc_tx loc = [] \<Longrightarrow> g_inst t \<le> g_inst u \<Longrightarrow> hour_index loc t \<le> hour_index loc u"
  unfolding hour_index_div local_secs_def unix_of_def by (simp add: zdiv_mono1)

lemma hour_index_day:
  "hour_index loc t < hour_index loc u \<Longrightarrow> local_day (in_loc t loc) \<le> local_day (in_loc u loc)"
  "local_day (in_loc t loc) < local_day (in_loc u loc) \<Longrightarrow> hour_index loc t < hour_index loc u"
  using clock_ranges [of "in_loc t loc"] clock_ranges [of "in_loc u loc"]
  by (auto simp: hour_index_def)

definition is_next_hour :: "int list \<Rightarrow> bool \<Rightarrow> location \<Rightarrow> gtime \<Rightarrow> gtime \<Rightarrow> bool" where
  "is_next_hour hours avoid loc t r \<longleftrightarrow>
     g_inst t \<le> g_inst r \<and> preferred hours avoid loc r
     \<and> (\<forall>u. g_inst t \<le> g_inst u \<longrightarrow> preferred hours avoid loc u \<longrightarrow> hour_index loc r \<le> hour_index loc u)"

lemma in_loc_hour_on: "loc_tx loc = [] \<Longrightarrow> in_loc (hour_on t loc day h) loc = hour_on t loc day h"
  by (metis hour_on_secs(2) in_loc_self)

lemma hour_on_preferred:
  assumes "loc_tx loc = []" "h \<in> set hours" "set hours \<subseteq> {0..23}"
    and "\<not> (avoid \<and> isWeekend (add_days (in_loc t loc) day))"
  shows "preferred hours avoid loc (hour_on t loc day h)"
    "hour_index loc (hour_on t loc day h) = (local_day (in_loc t loc) + day) * 24 + h"
proof -
  have h: "0 \<le> h" "h < 24" using assms(2,3) by force+
  note p = hour_on_parts [OF assms(1) h, of t day]
  have "local_day (add_days (in_loc t loc) day) = local_day (in_loc t loc) + day"
    using assms(1) by (simp add: add_days_fixed)
  with assms p show "preferred hours avoid loc (hour_on t loc day h)"
    by (simp add: preferred_def in_loc_hour_on weekend_days)
  show "hour_index loc (hour_on t loc day h) = (local_day (in_loc t loc) + day) * 24 + h"
    using assms(1) p by (simp add: hour_index_def in_loc_hour_on)
qed

text \<open>Nothing acceptable is left today: the answer is the first hour of the first day taken.\<close>

lemma next_hour_later:
  assumes f: "loc_tx loc = []" and h: "sorted hours" "hours \<noteq> []" "set hours \<subseteq> {0..23}"
    and none: "\<forall>u. g_inst t \<le> g_inst u \<longrightarrow> preferred hours avoid loc u
        \<longrightarrow> local_day (in_loc t loc) < local_day (in_loc u loc)"
    and n: "3 \<le> n"
  shows "\<exists>r. snap_days n 1 t (in_loc t loc) loc hours avoid = Some r \<and> is_next_hour hours avoid loc t r"
proof -
  let ?D = "local_day (in_loc t loc)"
  have day: "local_day (add_days (in_loc t loc) i) = ?D + i" for i
    using f by (simp add: add_days_fixed)
  obtain k where k: "1 \<le> k" "k \<le> 3" "weekday_of_days (?D + k) \<notin> {0, 6}" using weekday_soon by blast
  then have a: "\<not> (avoid \<and> isWeekend (add_days (in_loc t loc) (int (nat k))))"
    by (simp add: weekend_days day)
  have b: "(1::nat) \<le> nat k" "nat k < 1 + n" using k n by linarith+
  obtain j where j: "1 \<le> j" "\<not> (avoid \<and> isWeekend (add_days (in_loc t loc) (int j)))"
    "\<forall>i. 1 \<le> i \<and> i < j \<longrightarrow> avoid \<and> isWeekend (add_days (in_loc t loc) (int i))"
    "snap_days n 1 t (in_loc t loc) loc hours avoid = Some (hour_on t loc (int j) (hd hours))"
    using snap_days_later [OF f h(2,3) zero_less_one b a] by blast
  have hd: "hd hours \<in> set hours" "\<forall>h' \<in> set hours. hd hours \<le> h'" "0 \<le> hd hours"
    using h by (cases hours; auto)+
  let ?r = "hour_on t loc (int j) (hd hours)"
  have "g_inst t < g_inst ?r" using hd(3) j(1) by (intro hour_on_not_before [OF f]) simp
  moreover note p = hour_on_preferred [OF f hd(1) h(3) j(2)]
  moreover have "hour_index loc ?r \<le> hour_index loc u"
    if u: "g_inst t \<le> g_inst u" "preferred hours avoid loc u" for u
  proof -
    let ?E = "local_day (in_loc u loc)"
    have e: "?D < ?E" using none u by blast
    have "int j \<le> ?E - ?D"
    proof (rule ccontr)
      assume "\<not> ?thesis"
      then have "1 \<le> nat (?E - ?D) \<and> nat (?E - ?D) < j" using e by linarith
      with j(3) have "avoid \<and> isWeekend (add_days (in_loc t loc) (int (nat (?E - ?D))))" by blast
      with e u(2) show False by (simp add: preferred_def weekend_days day)
    qed
    moreover have "hd hours \<le> hour_of (in_loc u loc)" using u(2) hd(2) by (simp add: preferred_def)
    ultimately show ?thesis unfolding p(2) by (simp add: hour_index_def)
  qed
  ultimately show ?thesis using j(4) by (auto simp: is_next_hour_def)
qed

lemma snap_next_hour:
  assumes f: "loc_tx loc = []" and h: "sorted hours" "hours \<noteq> []" "set hours \<subseteq> {0..23}"
  shows "is_next_hour hours avoid loc t (snapToPreferredHour t loc hours avoid)"
proof -
  let ?l = "in_loc t loc"
  have day0: "local_day (add_days ?l 0) = local_day ?l" using f by (simp add: add_days_fixed)
  have eight: "snap_days 8 0 t ?l loc hours avoid =
      (if avoid \<and> isWeekend (add_days ?l 0) then snap_days 7 1 t ?l loc hours avoid
       else case snap_hours t ?l True (add_days ?l 0) loc hours of
              Some r \<Rightarrow> Some r | None \<Rightarrow> snap_days 7 1 t ?l loc hours avoid)"
    using snap_days.simps(2) [of 7 0 t ?l loc hours avoid]
    by (simp add: Let_def cong: option.case_cong)
  have later: "is_next_hour hours avoid loc t (snapToPreferredHour t loc hours avoid)"
    if e: "snap_days 8 0 t ?l loc hours avoid = snap_days 7 1 t ?l loc hours avoid"
      and n: "\<forall>u. g_inst t \<le> g_inst u \<longrightarrow> preferred hours avoid loc u \<longrightarrow> local_day ?l \<noteq> local_day (in_loc u loc)"
  proof -
    have "local_day ?l < local_day (in_loc u loc)" if "g_inst t \<le> g_inst u" "preferred hours avoid loc u" for u
      using n that hour_index_mono [OF f that(1)] hour_index_day(2) [of u loc t] by fastforce
    then obtain r where "snap_days 7 1 t ?l loc hours avoid = Some r" "is_next_hour hours avoid loc t r"
      using next_hour_later [OF f h, of t avoid 7] by auto
    with e h(2) show ?thesis by (simp add: snapToPreferredHour_def)
  qed
  have le: "hour_of ?l \<le> hour_of (in_loc u loc)"
    if "g_inst t \<le> g_inst u" "local_day ?l = local_day (in_loc u loc)" for u
    using hour_index_mono [OF f that(1)] that(2) by (simp add: hour_index_def)
  show ?thesis
  proof (cases "avoid \<and> isWeekend (add_days ?l 0)")
    case True
    show ?thesis
    proof (rule later)
      show "\<forall>u. g_inst t \<le> g_inst u \<longrightarrow> preferred hours avoid loc u \<longrightarrow> local_day ?l \<noteq> local_day (in_loc u loc)"
        using True day0 by (auto simp: preferred_def weekend_days)
    qed (subst eight, use True in simp)
  next
    case False
    note today = snap_hours_today [OF f h(1), of t]
    show ?thesis
    proof (cases "snap_hours t ?l True (add_days ?l 0) loc hours")
      case None
      show ?thesis
      proof (rule later)
        show "\<forall>u. g_inst t \<le> g_inst u \<longrightarrow> preferred hours avoid loc u \<longrightarrow> local_day ?l \<noteq> local_day (in_loc u loc)"
          using today le by (fastforce simp: None preferred_def)
      qed (subst eight, use False None in simp)
    next
      case (Some r)
      then have r: "snapToPreferredHour t loc hours avoid = r"
        using h(2) unfolding snapToPreferredHour_def eight if_not_P [OF False] Some by simp
      have w: "\<not> (avoid \<and> isWeekend ?l)" using False day0 by (simp add: weekend_days)
      from today consider "r = t" "hour_of ?l \<in> set hours"
        | h' where "h' \<in> set hours" "hour_of ?l < h'" "r = hour_on t loc 0 h'"
            "\<forall>x \<in> set hours. hour_of ?l \<le> x \<longrightarrow> h' \<le> x"
        unfolding Some by auto
      then show ?thesis
      proof cases
        case 1
        with w show ?thesis unfolding r by (simp add: is_next_hour_def preferred_def hour_index_mono [OF f])
      next
        case 2
        note p = hour_on_preferred [OF f 2(1) h(3) False]
        have "hour_index loc r \<le> hour_index loc u" if u: "g_inst t \<le> g_inst u" "preferred hours avoid loc u" for u
        proof (cases "local_day ?l = local_day (in_loc u loc)")
          case True
          then have "h' \<le> hour_of (in_loc u loc)" using 2(4) u le by (simp add: preferred_def)
          with True show ?thesis unfolding 2(3) p(2) by (simp add: hour_index_def)
        next
          case False
          then have "local_day ?l + 1 \<le> local_day (in_loc u loc)"
            using hour_index_mono [OF f u(1)] hour_index_day(2) [of u loc t] by fastforce
          moreover have "h' < 24" using 2(1) h(3) by force
          ultimately show ?thesis unfolding 2(3) p(2) using clock_ranges [of "in_loc u loc"]
            by (simp add: hour_index_def)
        qed
        moreover have "g_inst t < g_inst r" unfolding 2(3) using 2(2) by (intro hour_on_not_before [OF f]) simp
        ultimately show ?thesis unfolding r using p(1) 2(3) by (simp add: is_next_hour_def)
      qed
    qed
  qed
qed



section \<open>A slot both calendars accept\<close>

lemma snap_hours_not_before:
  "snap_hours t local today c loc hours = Some r \<Longrightarrow> r = t \<or> \<not> before r local"
  by (induction hours) (auto simp: Let_def split: if_splits prod.splits)

lemma snap_days_not_before:
  "snap_days n day t local loc hours avoid = Some r \<Longrightarrow> r = t \<or> \<not> before r local"
  by (induction n arbitrary: day)
    (auto simp: Let_def snap_hours_not_before split: if_splits option.splits)

lemma snap_not_before: "g_inst t \<le> g_inst (snapToPreferredHour t loc hours avoid)"
  using snap_days_not_before [of 8 0 t "in_loc t loc" loc hours avoid]
  by (auto simp: snapToPreferredHour_def before_def not_less split: option.splits)

text \<open>What an accepted slot is.\<close>

definition accepted_slot ::
  "bool \<Rightarrow> instant \<Rightarrow> gtime \<Rightarrow> ScheduleWindows \<Rightarrow> location \<Rightarrow> location \<Rightarrow> sendTimePreference
   \<Rightarrow> instant option \<Rightarrow> gtime \<Rightarrow> bool" where
  "accepted_slot wired now from_t windows campaignTZ loc pref endDate r \<longleftrightarrow>
     g_inst from_t < g_inst r
     \<and> (case endDate of None \<Rightarrow> True | Some e \<Rightarrow> g_inst r \<le> e)
     \<and> (\<exists>at'. g_inst from_t \<le> g_inst at'
          \<and> r = snapToPreferredHour at' loc (stp_preferredHours pref) (stp_avoidWeekends pref))
     \<and> (\<exists>rs legal rs'. intersectWindows wired now r windows campaignTZ rs = (legal, rs')
          \<and> g_inst legal \<le> g_inst r)"

lemma recipient_loop_slot:
  assumes "g_inst from_t \<le> g_inst at'"
    and "fst (recipient_loop n wired now at' from_t windows tz loc pref endDate rs) = Some r"
  shows "r = from_t \<and> (\<exists>u. g_inst from_t \<le> g_inst u \<and> \<not> after (snapToPreferredHour u loc
        (stp_preferredHours pref) (stp_avoidWeekends pref)) from_t)
    \<or> accepted_slot wired now from_t windows tz loc pref endDate r"
  using assms
proof (induction n arbitrary: at' rs)
  case (Suc n)
  let ?s = "snapToPreferredHour at' loc (stp_preferredHours pref) (stp_avoidWeekends pref)"
  obtain legal rs' where l: "intersectWindows wired now ?s windows tz rs = (legal, rs')"
    by (cases "intersectWindows wired now ?s windows tz rs")
  show ?case
  proof (cases "after ?s from_t")
    case False
    with Suc.prems show ?thesis by auto
  next
    case True
    show ?thesis
    proof (cases "case endDate of None \<Rightarrow> False | Some e \<Rightarrow> e < g_inst ?s")
      case e: False
      show ?thesis
      proof (cases "after legal ?s")
        case False
        with True e l Suc.prems(2) have r: "r = ?s" by (simp add: Let_def)
        have "\<exists>rs legal rs'. intersectWindows wired now ?s windows tz rs = (legal, rs')
            \<and> g_inst legal \<le> g_inst ?s"
        proof -
          have "g_inst legal \<le> g_inst ?s" using False by (simp add: after_def not_less)
          with l show ?thesis by blast
        qed
        then have "accepted_slot wired now from_t windows tz loc pref endDate r"
          using True e Suc.prems(1) unfolding r accepted_slot_def
          by (auto simp: after_def not_less split: option.splits)
        then show ?thesis by blast
      next
        case a: True
        then have "g_inst from_t \<le> g_inst legal" using True by (simp add: after_def)
        with Suc.IH [of legal rs'] Suc.prems(2) True e l a show ?thesis by (simp add: Let_def)
      qed
    next
      case True
      with \<open>after ?s from_t\<close> Suc.prems(2) show ?thesis by (simp add: Let_def)
    qed
  qed
qed simp


definition aim_at_nine :: sendTimePreference where
  "aim_at_nine =
     \<lparr>stp_enabled = True, stp_useContactTZ = True, stp_defaultTZ = [], stp_preferredHours = [9],
      stp_avoidWeekends = False\<rparr>"

lemma snap_to_nine:
  "snapToPreferredHour \<lparr>g_inst = 0, g_loc = UTC\<rparr> UTC [9] False = \<lparr>g_inst = 9 * Hour, g_loc = UTC\<rparr>"
  by code_simp


text \<open>
  A blank timezone field of a contact is read as UTC: \<open>time.LoadLocation\<close> resolves the empty
  name, so neither the address nor the workspace default is asked.
\<close>

lemma blank_timezone_is_utc:
  assumes "stp_useContactTZ pref" "ct_CustomFields c ''timezone'' = Some tz" "trim_space tz = []"
  shows "recipientLocation tzdb (Some c) pref = UTC"
  using assms by (simp add: recipientLocation_def go_LoadLocation_def)

end
