(* ===== verification/Campaign_Pacing.thy ===== *)
theory Campaign_Pacing
  imports Behavior_Placement Warmup_Ramp "HOL-Library.Multiset"
begin

text \<open>
  The pacing of a campaign: the spacing, spreading and clamping helpers of
  \<open>internal/scheduler/helpers.go\<close> and \<open>service.go\<close>, the wake-up rules of \<open>errors.go\<close> and the
  ramp states of \<open>cold_ramp.go\<close>.

  The clock and every random draw are arguments: \<open>draw\<close> of an integer is the answer of
  \<open>rand.Intn\<close>, of a rational that of \<open>rand.Float64\<close>.
\<close>

section \<open>Jitter and slots\<close>

definition randomJitter :: "int \<Rightarrow> int \<Rightarrow> int \<Rightarrow> int" where
  "randomJitter lo hi draw = (if hi \<le> lo then lo else lo + draw)"

definition humanizeSeconds :: "int \<Rightarrow> gtime \<Rightarrow> gtime" where
  "humanizeSeconds draw t = (if second_of t \<noteq> 0 then t else add_dur t ((1 + draw) * Second))"

definition finalSlot :: "gtime \<Rightarrow> int \<Rightarrow> int \<Rightarrow> gtime \<Rightarrow> gtime" where
  "finalSlot now draw_past draw_second t = notBefore now draw_past (humanizeSeconds draw_second t)"

definition avoidRoundTimes :: "int \<Rightarrow> gtime \<Rightarrow> gtime" where
  "avoidRoundTimes draw t =
     (if minute_of t = 0 then add_dur t (randomJitter 3 12 draw * Minute) else t)"

definition calculateFirstSlotTomorrow ::
  "tzdb \<Rightarrow> gtime \<Rightarrow> int \<Rightarrow> int \<Rightarrow> int \<Rightarrow> string \<Rightarrow> gtime" where
  "calculateFirstSlotTomorrow tzdb now jitter draw_past draw_second timezone =
     (let loc = loadLocation tzdb timezone; today = in_loc now loc
      in case civil today of
           (y, m, d) \<Rightarrow>
             finalSlot now draw_past draw_second
               (add_dur (go_date y m (d + 1) 8 0 0 0 loc) (Minute * randomJitter 0 60 jitter)))"

definition calculateFirstSlotTomorrowAt ::
  "tzdb \<Rightarrow> gtime \<Rightarrow> int \<Rightarrow> int \<Rightarrow> int \<Rightarrow> string \<Rightarrow> string \<Rightarrow> gtime" where
  "calculateFirstSlotTomorrowAt tzdb now jitter draw_past draw_second timezone startTime =
     (let loc = loadLocation tzdb timezone; today = in_loc now loc;
          start = parseTimeOfDay startTime; start = (if start = 0 then 8 * 60 else start)
      in case civil today of
           (y, m, d) \<Rightarrow>
             finalSlot now draw_past draw_second
               (add_dur (go_date y m (d + 1) (tdiv start 60) (tmod start 60) 0 0 loc)
                  (Minute * randomJitter 0 60 jitter)))"

text \<open>
  The distribution curve: a draw for the lunch hour and one for the early morning, each with
  the jitter that follows it. The nine o'clock it aims at is on the date of \<open>t\<close> as it stands.
\<close>

definition applyDistributionCurve :: "rat \<Rightarrow> int \<Rightarrow> rat \<Rightarrow> int \<Rightarrow> gtime \<Rightarrow> location \<Rightarrow> gtime" where
  "applyDistributionCurve lunch lunch_jitter early early_jitter t tz =
     (let hour = hour_of (in_loc t tz)
      in if hour = 12 \<and> lunch < f64 (3 / 10)
         then add_dur t (Minute * (75 + randomJitter 0 30 lunch_jitter))
         else if hour < 9 \<and> early < f64 (2 / 10)
         then (case civil t of
                 (y, m, d) \<Rightarrow>
                   let target = go_date y m d 9 0 0 0 tz
                   in if after target t
                      then add_dur target (Minute * randomJitter 0 30 early_jitter) else t)
         else t)"

section \<open>The gap of a campaign chain\<close>

definition poolSendInterval :: "int \<Rightarrow> int \<Rightarrow> int \<Rightarrow> int \<Rightarrow> rat \<Rightarrow> duration" where
  "poolSendInterval remainingMinutes remainingEmails gapSeconds poolSize draw =
     (let perSend = fdiv (f_of remainingMinutes) (f_of (max 1 remainingEmails));
          interval = trunc (fmul (fmul perSend (fadd (f64 (55 / 100)) (fmul draw (f64 (9 / 10)))))
                              (f_of Minute));
          floor' = tdiv (Second * gapSeconds) (max 1 poolSize)
      in max interval floor')"

definition campaignRampCeiling :: "bool \<Rightarrow> int \<Rightarrow> int \<Rightarrow> int \<Rightarrow> int \<Rightarrow> int" where
  "campaignRampCeiling enabled start increment ceiling' level =
     (if \<not> enabled then ceiling'
      else let v = level; v = (if v < start then start else v)
           in if ceiling' < v then ceiling' else v)"

section \<open>Keeping clear of booked sends\<close>

definition conflict :: "instant \<Rightarrow> instant \<Rightarrow> int \<Rightarrow> bool" where
  "conflict candidate booked minWait \<longleftrightarrow> \<bar>seconds_of (tsub candidate booked)\<bar> < f_of minWait"

fun first_conflict :: "instant \<Rightarrow> instant option list \<Rightarrow> int \<Rightarrow> instant option" where
  "first_conflict candidate [] minWait = None"
| "first_conflict candidate (None # ts) minWait = first_conflict candidate ts minWait"
| "first_conflict candidate (Some t # ts) minWait =
     (if conflict candidate t minWait then Some t else first_conflict candidate ts minWait)"

text \<open>The rounds of the search; \<open>draws\<close> gives the draw of each round.\<close>

fun resolve_loop ::
  "nat \<Rightarrow> (nat \<Rightarrow> int) \<Rightarrow> instant \<Rightarrow> instant option list \<Rightarrow> int \<Rightarrow> instant" where
  "resolve_loop 0 draws candidate scheduled minWait = candidate + Hour"
| "resolve_loop (Suc n) draws candidate scheduled minWait =
     (case first_conflict candidate scheduled minWait of
        None \<Rightarrow> candidate
      | Some t \<Rightarrow>
          resolve_loop n draws (t + Second * minWait + Minute * randomJitter 1 5 (draws n)) scheduled minWait)"

text \<open>
  The tasks are looked at in the order \<open>sort.Slice\<close> leaves them in, which is an argument: the
  comparison is inconsistent when a task has no time, and then the order is not specified.
\<close>

definition resolveConflicts ::
  "(instant option list \<Rightarrow> instant option list) \<Rightarrow> (nat \<Rightarrow> int) \<Rightarrow> instant \<Rightarrow> instant option list
   \<Rightarrow> int \<Rightarrow> instant" where
  "resolveConflicts sorted_by draws desired scheduled minWait =
     (if scheduled = [] then desired
      else resolve_loop 100 draws desired (sorted_by scheduled) minWait)"

section \<open>What is left of a day\<close>

definition remainingSendMinutes ::
  "gtime \<Rightarrow> gtime \<Rightarrow> ScheduleWindows \<Rightarrow> location \<Rightarrow> Resolved \<times> store
   \<Rightarrow> (int \<times> bool) \<times> Resolved \<times> store" where
  "remainingSendMinutes now at' sw campaignTZ rs =
     (if rs_Enabled (fst rs)
      then
        let loc = rs_Loc (fst rs);
            (plan, rs) = PlanOn (g_inst now) (PlanDateFor at' loc) rs
        in if \<not> dp_IsWorkingDay plan then ((0, False), rs)
           else
             let cur = max (MinuteOfDay at' loc) (dp_WorkStartMinute plan)
             in if dp_WorkEndMinute plan \<le> cur then ((0, False), rs)
                else
                  let remaining = dp_WorkEndMinute plan - cur;
                      remaining =
                        (if HasLunch plan
                         then let breakStart = the (dp_LunchStartMinute plan);
                                  breakEnd = the (dp_LunchEndMinute plan)
                              in if cur < breakEnd then remaining - (breakEnd - max breakStart cur)
                                 else remaining
                         else remaining)
                  in ((max remaining 0, True), rs)
      else
        case DaySpan sw (weekday_of (in_loc at' campaignTZ)) of
          None \<Rightarrow> ((0, False), rs)
        | Some (dayStart, dayEnd) \<Rightarrow>
            let nowLocal = in_loc now campaignTZ;
                currentMinutes = hour_of nowLocal * 60 + minute_of nowLocal
            in ((dayEnd - max currentMinutes dayStart, True), rs))"

section \<open>Deferral and wake-up\<close>

datatype scheduler_error =
    ErrWarmupNotEnabled | ErrCampaignNotActive | ErrCampaignCompleted | ErrCampaignEnded
  | ErrNoEmailAccounts | ErrNoEligibleMailbox | ErrDomainAuthFailing | ErrDailyLimitReached
  | ErrCampaignDeferred | ErrLeadDeferred | ErrSenderBusy

fun unwrap :: "scheduler_error \<Rightarrow> scheduler_error option" where
  "unwrap ErrNoEligibleMailbox = Some ErrNoEmailAccounts"
| "unwrap ErrDomainAuthFailing = Some ErrNoEmailAccounts"
| "unwrap ErrLeadDeferred = Some ErrCampaignDeferred"
| "unwrap ErrSenderBusy = Some ErrLeadDeferred"
| "unwrap e = None"

text \<open>\<open>errors.Is\<close>: the chain of wrapped errors is at most three long.\<close>

fun errors_is_fuel :: "nat \<Rightarrow> scheduler_error \<Rightarrow> scheduler_error \<Rightarrow> bool" where
  "errors_is_fuel 0 e target = (e = target)"
| "errors_is_fuel (Suc n) e target =
     (e = target \<or> (case unwrap e of None \<Rightarrow> False | Some e' \<Rightarrow> errors_is_fuel n e' target))"

definition errors_is :: "scheduler_error option \<Rightarrow> scheduler_error \<Rightarrow> bool" where
  "errors_is err target = (case err of None \<Rightarrow> False | Some e \<Rightarrow> errors_is_fuel 3 e target)"

definition CampaignMaxDeferMinutes :: int where "CampaignMaxDeferMinutes = 15"
definition CampaignSendClaimRetrySeconds :: int where "CampaignSendClaimRetrySeconds = 10"

definition DeferSlot :: "instant \<Rightarrow> instant \<Rightarrow> instant" where
  "DeferSlot now at' =
     (let horizon = now + CampaignMaxDeferMinutes * Minute
      in if is_zero at' \<or> horizon < at' then horizon else at')"

definition ClaimRetrySlot :: "instant \<Rightarrow> int \<Rightarrow> instant" where
  "ClaimRetrySlot now draw = now + (CampaignSendClaimRetrySeconds + draw) * Second"

definition WakeSlot :: "instant \<Rightarrow> instant \<Rightarrow> scheduler_error option \<Rightarrow> instant" where
  "WakeSlot now at' err = (if errors_is err ErrCampaignDeferred then DeferSlot now at' else now)"

section \<open>Ramp states of a pool\<close>

text \<open>
  The accounts are read as their id and warmup start; the query for the observed states is an
  argument that may fail, and answers the zero state for an account it does not know.
\<close>

definition zero_ramp_state :: ColdRampState where
  "zero_ramp_state =
     \<lparr>crs_ConfirmedReplies = 0, crs_WarmupStartedAt = None, crs_ColdRampStartedAt = None,
      crs_WarmupStoppedAt = None, crs_Placements = []\<rparr>"

definition coldRampStates ::
  "(uuid list \<Rightarrow> instant \<Rightarrow> (uuid \<Rightarrow> ColdRampState option) option) option \<Rightarrow> instant
   \<Rightarrow> (uuid \<times> instant option) list \<Rightarrow> uuid \<Rightarrow> ColdRampState option" where
  "coldRampStates query now accounts =
     (let known = map_of (rev (map (\<lambda>(i, w). (i, zero_ramp_state\<lparr>crs_WarmupStartedAt := w\<rparr>)) accounts));
          warmed = filter (\<lambda>(i, w). w \<noteq> None) accounts;
          ids = map fst warmed
      in case query of
           None \<Rightarrow> known
         | Some q \<Rightarrow>
             if ids = [] then known
             else case q ids (now - LookbackWindow) of
                    None \<Rightarrow> known
                  | Some observed \<Rightarrow>
                      known ++ map_of (rev (map (\<lambda>(i, w).
                        (i, WithKnownWarmup (case observed i of None \<Rightarrow> zero_ramp_state | Some st \<Rightarrow> st) w))
                        warmed)))"

section \<open>Booked sends keep their distance\<close>

lemma f_of_uminus: "f_of (- n) = - f_of n"
  by (simp add: f_of_def f64_uminus)

lemma units_of_uminus: "units_of u (- d) = - units_of u d"
proof -
  have t: "tdiv (- d) u = - tdiv d u" by (simp add: tdiv_def)
  then have m: "tmod (- d) u = - tmod d u" by (simp add: tmod_def)
  have "fdiv (- x) y = - fdiv x y" for x y by (simp add: fdiv_def f64_uminus)
  moreover have "fadd (- x) (- y) = - fadd x y" for x y
    using f64_uminus [of "x + y"] by (simp add: fadd_def)
  ultimately show ?thesis by (simp add: units_of_def t m f_of_uminus)
qed

lemma abs_seconds: "\<bar>seconds_of d\<bar> = \<bar>seconds_of \<bar>d\<bar>\<bar>"
proof (cases "0 \<le> d")
  case False
  then show ?thesis using units_of_uminus [of Second "\<bar>d\<bar>"] by simp
qed simp

lemma conflict_abs: "conflict c t w \<longleftrightarrow> \<bar>seconds_of \<bar>tsub c t\<bar>\<bar> < f_of w"
  by (simp only: conflict_def abs_seconds [of "tsub c t"])

lemma sub_seconds_small: "\<bar>tsub c t\<bar> div Second < 2 ^ 52"
proof -
  have "\<bar>tsub c t\<bar> \<le> 9223372036854775808" using tsub_bounds [of c t] by linarith
  then have "\<bar>tsub c t\<bar> div Second \<le> 9223372036854775808 div Second" by (rule zdiv_mono1) simp
  then show ?thesis by simp
qed

lemma second_ok: "(0::int) < Second" "(Second::int) < 2 ^ 53"
  by simp_all

text \<open>Far enough apart is no conflict, and no conflict is nearly far enough apart.\<close>

lemma no_conflict_if_apart:
  assumes "0 \<le> minWait" "minWait < 2 ^ 32" "Second * minWait \<le> \<bar>c - t\<bar>"
  shows "\<not> conflict c t minWait"
proof -
  let ?d = "\<bar>tsub c t\<bar>"
  have "Second * minWait \<le> ?d"
    using assms by (auto simp: tsub_def min_def max_def abs_if split: if_splits)
  then have "seconds_of (Second * minWait) \<le> seconds_of ?d"
    using assms(1) sub_seconds_small by (intro units_of_mono second_ok) simp_all
  moreover have "of_int (Second * minWait div Second) \<le> seconds_of (Second * minWait)"
    using assms by (intro units_of_bounds second_ok) simp_all
  then have "of_int minWait \<le> seconds_of (Second * minWait)" by simp
  moreover have "f_of minWait = of_int minWait" using assms by (intro f_of_int) simp
  ultimately show ?thesis unfolding conflict_abs by linarith
qed

lemma apart_if_no_conflict:
  assumes "0 \<le> minWait" "minWait < 2 ^ 32" "\<not> conflict c t minWait"
  shows "Second * (minWait - 1) \<le> \<bar>c - t\<bar>"
proof -
  let ?d = "\<bar>tsub c t\<bar>"
  have m: "f_of minWait = of_int minWait" using assms by (intro f_of_int) simp
  have "(0::rat) \<le> of_int (?d div Second)" by (simp add: pos_imp_zdiv_nonneg_iff)
  also have "\<dots> \<le> seconds_of ?d" by (rule units_of_bounds [OF second_ok _ sub_seconds_small]) simp
  finally have "of_int minWait \<le> seconds_of ?d"
    using assms(3) unfolding conflict_abs m by linarith
  also have "\<dots> \<le> of_int (?d div Second + 1)"
    by (rule units_of_bounds [OF second_ok _ sub_seconds_small]) simp
  finally have "minWait \<le> ?d div Second + 1" by (rule of_int_le_iff [THEN iffD1])
  then have "Second * (minWait - 1) \<le> Second * (?d div Second)" by simp
  also have "\<dots> \<le> ?d"
  proof -
    have "?d = ?d div Second * Second + ?d mod Second" "0 \<le> ?d mod Second" by simp_all
    then show ?thesis by linarith
  qed
  also have "?d \<le> \<bar>c - t\<bar>" by (auto simp: tsub_def min_def max_def abs_if)
  finally show ?thesis .
qed

lemma first_conflict_None: "first_conflict c ts w = None \<longleftrightarrow> (\<forall>t. Some t \<in> set ts \<longrightarrow> \<not> conflict c t w)"
  by (induction c ts w rule: first_conflict.induct) auto

lemma first_conflict_Some: "first_conflict c ts w = Some t \<Longrightarrow> Some t \<in> set ts \<and> conflict c t w"
  by (induction c ts w rule: first_conflict.induct) (auto split: if_splits)

text \<open>The booked sends a candidate has not got past: a round leaves one fewer of them.\<close>

definition unpassed :: "instant \<Rightarrow> instant option list \<Rightarrow> int \<Rightarrow> nat" where
  "unpassed c ts w = length (filter (\<lambda>x. case x of None \<Rightarrow> False | Some t \<Rightarrow> c < t + Second * w) ts)"

lemma conflict_unpassed:
  assumes "0 \<le> w" "w < 2 ^ 32" "conflict c t w"
  shows "c < t + Second * w"
proof (rule ccontr)
  assume "\<not> ?thesis"
  then have "Second * w \<le> \<bar>c - t\<bar>" by linarith
  with no_conflict_if_apart [OF assms(1,2)] assms(3) show False by blast
qed

lemma unpassed_less:
  assumes "Some t \<in> set ts" "c < t + Second * w" "t + Second * w \<le> c'" 
  shows "unpassed c' ts w < unpassed c ts w"
proof -
  let ?P = "\<lambda>c x. case x of None \<Rightarrow> False | Some t \<Rightarrow> c < t + Second * w"
  have "filter (?P c') ts = filter (?P c') (filter (?P c) ts)"
    using assms by (auto intro!: filter_cong split: option.splits)
  moreover have "Some t \<in> set (filter (?P c) ts)" "\<not> ?P c' (Some t)" using assms by auto
  ultimately show ?thesis
    unfolding unpassed_def using length_filter_less [of "Some t" "filter (?P c) ts" "?P c'"] by metis
qed

lemma resolve_loop_spaced:
  assumes w: "0 \<le> w" "w < 2 ^ 32" and d: "\<forall>n. 0 \<le> draws n"
    and fuel: "unpassed c ts w < n"
  shows "c \<le> resolve_loop n draws c ts w
    \<and> (\<forall>t. Some t \<in> set ts \<longrightarrow> \<not> conflict (resolve_loop n draws c ts w) t w)"
  using fuel
proof (induction n arbitrary: c)
  case (Suc n)
  show ?case
  proof (cases "first_conflict c ts w")
    case None
    then have "\<forall>t. Some t \<in> set ts \<longrightarrow> \<not> conflict c t w" by (rule first_conflict_None [THEN iffD1])
    then show ?thesis by (simp add: None)
  next
    case (Some t)
    let ?c = "t + Second * w + Minute * randomJitter 1 5 (draws n)"
    have t: "Some t \<in> set ts" "c < t + Second * w"
      using first_conflict_Some [OF Some] conflict_unpassed [OF w] by auto
    have "0 \<le> randomJitter 1 5 (draws n)" using d by (simp add: randomJitter_def)
    then have c': "t + Second * w \<le> ?c" by simp
    have "unpassed ?c ts w < n" using unpassed_less [OF t c'] Suc.prems by linarith
    from Suc.IH [OF this] t c' show ?thesis by (simp add: Some)
  qed
qed simp

text \<open>
  Claim C18. A send booked next to others keeps its distance: with fewer than a hundred booked
  sends on the mailbox, whatever order they are looked at in and whatever jitter is drawn, the
  slot is not before the one desired, conflicts with none of them by the code's own
  floating-point test, and so is less than a second short of the wait from each at most.
\<close>

theorem resolve_conflicts_spaced:
  fixes desired :: instant
  assumes "0 \<le> minWait" "minWait < 2 ^ 32" "\<forall>n. 0 \<le> draws n"
    and "mset (sorted_by scheduled) = mset scheduled" "length scheduled < 100"
  defines "r \<equiv> resolveConflicts sorted_by draws desired scheduled minWait"
  shows "desired \<le> r \<and> (\<forall>t. Some t \<in> set scheduled \<longrightarrow>
    \<not> conflict r t minWait \<and> Second * (minWait - 1) \<le> \<bar>r - t\<bar>)"
proof (cases "scheduled = []")
  case False
  have s: "set (sorted_by scheduled) = set scheduled" using assms(4) by (rule mset_eq_setD)
  have "unpassed desired (sorted_by scheduled) minWait \<le> length (sorted_by scheduled)"
    by (simp add: unpassed_def)
  also have "\<dots> < 100" using mset_eq_length [OF assms(4)] assms(5) by simp
  finally have "desired \<le> r \<and> (\<forall>t. Some t \<in> set scheduled \<longrightarrow> \<not> conflict r t minWait)"
    using resolve_loop_spaced [OF assms(1-3), of desired "sorted_by scheduled" 100] False s
    by (simp add: r_def resolveConflicts_def)
  then show ?thesis using apart_if_no_conflict [OF assms(1,2)] by blast
qed (simp add: r_def resolveConflicts_def)

theorem resolve_conflicts_spaced_witness:
  "let r = resolveConflicts (\<lambda>ts. ts) (\<lambda>_. 3) 0 [Some 0, None, Some (5 * Minute)] 90
   in 0 \<le> r \<and> Second * 89 \<le> \<bar>r - 5 * Minute\<bar>"
  using resolve_conflicts_spaced [of 90 "\<lambda>_. 3" "\<lambda>ts. ts" "[Some 0, None, Some (5 * Minute)]" 0]
  by (simp add: Let_def)

section \<open>What is left of the day is its open minutes\<close>

definition open_minutes_from :: "DailyPlan \<Rightarrow> int \<Rightarrow> int set" where
  "open_minutes_from p minute = {m. minute \<le> m \<and> m < 1440 \<and> Contains p m}"

lemma open_minutes_day_off: "\<not> dp_IsWorkingDay p \<Longrightarrow> open_minutes_from p minute = {}"
  by (simp add: open_minutes_from_def Contains_def)

lemma open_minutes_interval:
  assumes "plan_ok p" "dp_IsWorkingDay p"
  shows "open_minutes_from p minute = {max minute (dp_WorkStartMinute p) ..< dp_WorkEndMinute p}
    - (if HasLunch p then {the (dp_LunchStartMinute p) ..< the (dp_LunchEndMinute p)} else {})"
  using assms by (auto simp: open_minutes_from_def Contains_def plan_ok_def)

lemma card_minus_interval:
  fixes a b l u :: int
  assumes "l \<le> u" "u \<le> b" "a < b"
  shows "int (card ({a..<b} - {l..<u})) = (if a < u then (b - a) - (u - max l a) else b - a)"
proof -
  have "card ({a..<b} - {l..<u}) = card {a..<b} - card {max l a..<u}"
    by (subst card_Diff_subset_Int) (simp_all add: min_absorb2 [OF assms(2)] max.commute)
  moreover have "card {max l a..<u} \<le> card {a..<b}" using assms by (intro card_mono) auto
  ultimately show ?thesis using assms by (auto simp: max_def)
qed

lemma remaining_minutes:
  assumes p: "PlanOn (g_inst now) (PlanDateFor at' (rs_Loc (fst rs))) rs = (plan, rs')"
    and "rs_Enabled (fst rs)" "plan_ok plan" "lunch_inside plan"
    and r: "remainingSendMinutes now at' sw tz rs = ((n, ok), rs'')"
  shows "n = int (card (open_minutes_from plan (MinuteOfDay at' (rs_Loc (fst rs)))))"
proof (cases "dp_IsWorkingDay plan")
  case False
  then show ?thesis using p r assms(2) by (simp add: remainingSendMinutes_def open_minutes_day_off)
next
  case working: True
  define cur where "cur = max (MinuteOfDay at' (rs_Loc (fst rs))) (dp_WorkStartMinute plan)"
  note i = open_minutes_interval [OF assms(3) working, of "MinuteOfDay at' (rs_Loc (fst rs))",
      folded cur_def]
  note r' = r [unfolded remainingSendMinutes_def Let_def p, simplified assms(2), simplified,
      folded cur_def]
  show ?thesis
  proof (cases "dp_WorkEndMinute plan \<le> cur")
    case True
    with r' working show ?thesis by (simp add: i)
  next
    case False
    show ?thesis
    proof (cases "HasLunch plan")
      case True
      let ?l = "the (dp_LunchStartMinute plan)" and ?u = "the (dp_LunchEndMinute plan)"
      have lu: "?l \<le> ?u" "?u \<le> dp_WorkEndMinute plan"
        using assms(4) True by (auto simp: lunch_inside_def)
      have "int (card ({cur..<dp_WorkEndMinute plan} - {?l..<?u}))
          = (if cur < ?u then (dp_WorkEndMinute plan - cur) - (?u - max ?l cur)
             else dp_WorkEndMinute plan - cur)"
        using False by (intro card_minus_interval lu) simp
      then show ?thesis using r' working False True lu by (auto simp: i max_def split: if_splits)
    next
      case no: False
      with r' working False show ?thesis by (auto simp: i)
    qed
  qed
qed

text \<open>
  For a mailbox with a behaviour profile, the minutes left to send in are the minutes
  of the day's plan that are open from the candidate instant on: the workday less the part of
  the break still ahead, and none on a day off or after hours.
\<close>

theorem remaining_minutes_are_open_time:
  assumes "PlanOn (g_inst now) (PlanDateFor at' (rs_Loc (fst rs))) rs = (plan, rs')"
    and "rs_Enabled (fst rs)" "plan_ok plan" "lunch_inside plan"
  shows "fst (fst (remainingSendMinutes now at' sw tz rs))
    = int (card (open_minutes_from plan (MinuteOfDay at' (rs_Loc (fst rs)))))"
  using remaining_minutes [OF assms] by (metis prod.collapse)

definition epoch :: gtime where
  "epoch = \<lparr>g_inst = 0, g_loc = UTC\<rparr>"

theorem remaining_minutes_are_open_time_witness:
  "fst (fst (remainingSendMinutes epoch epoch empty_windows UTC (preview (fixed_profile 540 1020))))
   = int (card (open_minutes_from (RollPlan (fixed_profile 540 1020) (PlanDateFor epoch UTC)) (MinuteOfDay epoch UTC)))"
proof -
  let ?p = "RollPlan (fixed_profile 540 1020) (PlanDateFor epoch UTC)"
  have "plan_ok ?p" by (simp add: plan_ok_def RollPlan_fixed_profile)
  moreover have "lunch_inside ?p" by (simp add: lunch_inside_def RollPlan_fixed_profile)
  ultimately show ?thesis
    using remaining_minutes_are_open_time [of epoch epoch "preview (fixed_profile 540 1020)" ?p
        "preview (fixed_profile 540 1020)" empty_windows UTC] by simp
qed

text \<open>
  Without a profile the minutes left are read off today's clock, whatever day the candidate
  is on: at six in the evening a candidate at nine the next morning has minus sixty left of
  a day that ends at five.
\<close>

lemma remaining_minutes_use_todays_clock:
  "fst (remainingSendMinutes \<lparr>g_inst = 18 * Hour, g_loc = UTC\<rparr> \<lparr>g_inst = 33 * Hour, g_loc = UTC\<rparr>
     (replicate 7 [\<lparr>iv_Start = 540, iv_End = 1020\<rparr>]) UTC (zero_resolved, s)) = (- 60, True)"
proof -
  let ?now = "\<lparr>g_inst = 18 * Hour, g_loc = UTC\<rparr>"
  have "DaySpan (replicate 7 [\<lparr>iv_Start = 540, iv_End = 1020\<rparr>])
      (weekday_of (in_loc \<lparr>g_inst = 33 * Hour, g_loc = UTC\<rparr> UTC)) = Some (540, 1020)"
    by code_simp
  moreover have "hour_of (in_loc ?now UTC) = 18" "minute_of (in_loc ?now UTC) = 0" by code_simp+
  ultimately show ?thesis by (simp add: remainingSendMinutes_def zero_resolved_def)
qed

end
