(* ===== verification/Mailbox_Rotation.thy ===== *)
theory Mailbox_Rotation
  imports Campaign_Pacing "HOL-Library.Option_ord" "HOL-Library.Product_Lexorder"
begin

text \<open>
  Which mailbox of a campaign's pool sends next: the candidates of
  \<open>internal/scheduler/helpers.go\<close>, what the pool still has of a day, and the three rotation
  modes with their tie-break.

  The weights of the candidates are given; the logarithm that computes them is not modelled.
\<close>

section \<open>Candidates\<close>

record AccountCandidate =
  ac_ID :: uuid
  ac_RemainingToday :: int
  ac_WarmupAgeDays :: int
  ac_Weight :: rat
  ac_SenderWeight :: int
  ac_RotationPosition :: int
  ac_SenderLastSentAt :: "instant option"
  ac_HasSenderMetadata :: bool
  ac_ProviderMatch :: bool
  ac_Behavior :: Resolved
  ac_OpenAt :: "gtime option"
  ac_OpenLoc :: "location option"

fun pool_total :: "int \<Rightarrow> gtime \<Rightarrow> 'a AccountCandidate_scheme list \<Rightarrow> int" where
  "pool_total acc at' [] = acc"
| "pool_total acc at' (c # cs) =
     (if ac_RemainingToday c \<le> 0 then pool_total acc at' cs
      else
        case (ac_OpenAt c, ac_OpenLoc c) of
          (Some open', Some loc) \<Rightarrow>
            if after open' at' \<and> \<not> sameLocalDay open' at' (Some loc) then pool_total acc at' cs
            else pool_total (acc + ac_RemainingToday c) at' cs
        | _ \<Rightarrow> pool_total (acc + ac_RemainingToday c) at' cs)"

definition poolRemainingOn :: "'a AccountCandidate_scheme list \<Rightarrow> gtime \<Rightarrow> int" where
  "poolRemainingOn pool at' = pool_total 0 at' pool"

section \<open>Rotation\<close>

text \<open>FNV-1a over the campaign's id and the mailbox's.\<close>

definition tieRank :: "uuid \<Rightarrow> uuid \<Rightarrow> u64" where
  "tieRank salt i = mix (mix offset64 salt) i"

definition lruLess :: "'a AccountCandidate_scheme \<Rightarrow> 'a AccountCandidate_scheme \<Rightarrow> uuid \<Rightarrow> bool" where
  "lruLess a b salt =
     (case (ac_SenderLastSentAt a, ac_SenderLastSentAt b) of
        (None, None) \<Rightarrow> tieRank salt (ac_ID a) < tieRank salt (ac_ID b)
      | (None, Some _) \<Rightarrow> True
      | (Some _, None) \<Rightarrow> False
      | (Some x, Some y) \<Rightarrow>
          if x = y then tieRank salt (ac_ID a) < tieRank salt (ac_ID b) else x < y)"

definition rrLess :: "'a AccountCandidate_scheme \<Rightarrow> 'a AccountCandidate_scheme \<Rightarrow> uuid \<Rightarrow> bool" where
  "rrLess a b salt \<longleftrightarrow>
     ac_RotationPosition a < ac_RotationPosition b
     \<or> (ac_RotationPosition a = ac_RotationPosition b
        \<and> tieRank salt (ac_ID a) < tieRank salt (ac_ID b))"

text \<open>The loop the two modes share: the best so far is replaced by a viable one that is less.\<close>

fun pick_best :: "('a \<Rightarrow> bool) \<Rightarrow> ('a \<Rightarrow> 'a \<Rightarrow> bool) \<Rightarrow> 'a option \<Rightarrow> 'a list \<Rightarrow> 'a option" where
  "pick_best viable lt best [] = best"
| "pick_best viable lt best (c # cs) =
     (if \<not> viable c then pick_best viable lt best cs
      else case best of
             None \<Rightarrow> pick_best viable lt (Some c) cs
           | Some b \<Rightarrow> pick_best viable lt (if lt c b then Some c else best) cs)"

definition selectAccountLeastRecentlyUsed :: "'a AccountCandidate_scheme list \<Rightarrow> uuid \<Rightarrow> 'a AccountCandidate_scheme option" where
  "selectAccountLeastRecentlyUsed candidates salt =
     pick_best (\<lambda>c. 0 < ac_Weight c) (\<lambda>a b. lruLess a b salt) None candidates"

definition selectAccountRoundRobin :: "'a AccountCandidate_scheme list \<Rightarrow> uuid \<Rightarrow> 'a AccountCandidate_scheme option" where
  "selectAccountRoundRobin candidates salt =
     pick_best (\<lambda>c. 0 < ac_Weight c) (\<lambda>a b. rrLess a b salt) None candidates"

definition effectiveWeight :: "'a AccountCandidate_scheme \<Rightarrow> rat" where
  "effectiveWeight c =
     (if ac_HasSenderMetadata c \<and> 0 < ac_SenderWeight c
      then fmul (ac_Weight c) (f_of (ac_SenderWeight c)) else ac_Weight c)"

fun weigh :: "rat \<times> 'a AccountCandidate_scheme list \<Rightarrow> 'a AccountCandidate_scheme list \<Rightarrow> rat \<times> 'a AccountCandidate_scheme list" where
  "weigh acc [] = acc"
| "weigh (acc, viable) (c # cs) =
     (let w = effectiveWeight c
      in if 0 < w then weigh (fadd acc w, viable @ [c\<lparr>ac_Weight := w\<rparr>]) cs
         else weigh (acc, viable) cs)"

fun draw_weighted :: "rat \<Rightarrow> rat \<Rightarrow> 'a AccountCandidate_scheme list \<Rightarrow> 'a AccountCandidate_scheme option" where
  "draw_weighted r cumulative [] = None"
| "draw_weighted r cumulative (c # cs) =
     (let cumulative = fadd cumulative (ac_Weight c)
      in if r \<le> cumulative then Some c else draw_weighted r cumulative cs)"

definition selectAccountWeighted :: "rat \<Rightarrow> 'a AccountCandidate_scheme list \<Rightarrow> 'a AccountCandidate_scheme option" where
  "selectAccountWeighted draw candidates =
     (case weigh (0, []) candidates of
        (totalWeight, viable) \<Rightarrow>
          if viable = [] then None
          else case draw_weighted (fmul draw totalWeight) 0 viable of
                 Some c \<Rightarrow> Some c | None \<Rightarrow> Some (last viable))"

definition needsRotationFallback :: "string \<Rightarrow> bool" where
  "needsRotationFallback mode \<longleftrightarrow> mode = ''round_robin'' \<or> mode = ''least_recently_used''"

definition selectAccountByRotationMode ::
  "string \<Rightarrow> 'a AccountCandidate_scheme list \<Rightarrow> uuid \<Rightarrow> rat \<Rightarrow> 'a AccountCandidate_scheme option" where
  "selectAccountByRotationMode mode candidates salt draw =
     (if mode = ''round_robin'' then selectAccountRoundRobin candidates salt
      else if mode = ''least_recently_used'' then selectAccountLeastRecentlyUsed candidates salt
      else selectAccountWeighted draw candidates)"

section \<open>The loop finds the least\<close>

text \<open>
  A comparison that agrees with a key of a linear order: then the loop answers the first
  viable candidate with the least key.
\<close>

locale ranked =
  fixes lt :: "'a \<Rightarrow> 'a \<Rightarrow> bool" and key :: "'a \<Rightarrow> 'k::linorder"
  assumes lt_key: "lt a b \<longleftrightarrow> key a < key b"
begin

lemma pick_best_from:
  "case pick_best viable lt best cs of
     None \<Rightarrow> best = None \<and> (\<forall>c \<in> set cs. \<not> viable c)
   | Some m \<Rightarrow> (best = Some m \<or> m \<in> set cs \<and> viable m)
       \<and> (\<forall>b. best = Some b \<longrightarrow> key m \<le> key b)
       \<and> (\<forall>c \<in> set cs. viable c \<longrightarrow> key m \<le> key c)"
proof (induction cs arbitrary: best)
  case Nil
  then show ?case by (auto split: option.splits)
next
  case (Cons c cs)
  show ?case
  proof (cases "viable c")
    case False
    then show ?thesis using Cons.IH [of best] by (auto split: option.splits)
  next
    case True
    define best' where "best' = (case best of None \<Rightarrow> Some c | Some b \<Rightarrow> if lt c b then Some c else Some b)"
    have "pick_best viable lt best (c # cs) = pick_best viable lt best' cs"
      using True by (auto simp: best'_def split: option.splits)
    then show ?thesis
      using Cons.IH [of best'] True
      by (auto simp: best'_def lt_key split: option.splits if_splits)
  qed
qed

lemma pick_best_least:
  assumes "pick_best viable lt None cs = Some m"
  shows "m \<in> set cs" "viable m" "c \<in> set cs \<Longrightarrow> viable c \<Longrightarrow> key m \<le> key c"
  using pick_best_from [where viable = viable and best = None and cs = cs] assms by auto

lemma pick_best_None: "pick_best viable lt None cs = None \<longleftrightarrow> (\<forall>c \<in> set cs. \<not> viable c)"
proof
  show "pick_best viable lt None cs = None \<Longrightarrow> \<forall>c \<in> set cs. \<not> viable c"
    using pick_best_from [where viable = viable and best = None and cs = cs] by simp
  show "\<forall>c \<in> set cs. \<not> viable c \<Longrightarrow> pick_best viable lt None cs = None"
    by (induction cs) auto
qed

end

definition lru_key :: "uuid \<Rightarrow> 'a AccountCandidate_scheme \<Rightarrow> instant option \<times> u64" where
  "lru_key salt c = (ac_SenderLastSentAt c, tieRank salt (ac_ID c))"

definition rr_key :: "uuid \<Rightarrow> 'a AccountCandidate_scheme \<Rightarrow> int \<times> u64" where
  "rr_key salt c = (ac_RotationPosition c, tieRank salt (ac_ID c))"

interpretation lru: ranked "\<lambda>a b. lruLess a b salt" "lru_key salt" for salt
  by unfold_locales (auto simp: lruLess_def lru_key_def split: option.splits)

interpretation rr: ranked "\<lambda>a b. rrLess a b salt" "rr_key salt" for salt
  by unfold_locales (auto simp: rrLess_def rr_key_def)

section \<open>The weighted draw\<close>

definition weighed :: "'a AccountCandidate_scheme list \<Rightarrow> 'a AccountCandidate_scheme list" where
  "weighed cs = map (\<lambda>c. c\<lparr>ac_Weight := effectiveWeight c\<rparr>) (filter (\<lambda>c. 0 < effectiveWeight c) cs)"

lemma weigh_viable: "snd (weigh (acc, viable) cs) = viable @ weighed cs"
  by (induction cs arbitrary: acc viable) (simp_all add: weighed_def Let_def)

lemma weigh_total: "fst (weigh (acc, viable) cs) = foldl fadd acc (map ac_Weight (weighed cs))"
  by (induction cs arbitrary: acc viable) (simp_all add: weighed_def Let_def)

lemma draw_weighted_member: "draw_weighted r acc cs = Some c \<Longrightarrow> c \<in> set cs"
  by (induction cs arbitrary: acc) (auto simp: Let_def split: if_splits)

lemma draw_weighted_None:
  "draw_weighted r acc cs = None \<Longrightarrow> cs = [] \<or> foldl fadd acc (map ac_Weight cs) < r"
proof (induction cs arbitrary: acc)
  case (Cons c cs)
  then have n: "\<not> r \<le> fadd acc (ac_Weight c)" "draw_weighted r (fadd acc (ac_Weight c)) cs = None"
    by (auto simp: Let_def split: if_splits)
  from Cons.IH [OF n(2)] n(1) show ?case by auto
qed simp

lemma selectAccountWeighted_member:
  assumes "selectAccountWeighted draw cs = Some m"
  shows "m \<in> set (weighed cs)"
proof -
  obtain w where w: "weigh (0, []) cs = (w, weighed cs)"
    using weigh_viable [of 0 "[]" cs] by (metis append_Nil prod.collapse)
  show ?thesis
    using assms w draw_weighted_member last_in_set
    by (auto simp: selectAccountWeighted_def split: if_splits option.splits)
qed

lemma selectAccountWeighted_None:
  "selectAccountWeighted draw cs = None \<longleftrightarrow> (\<forall>c \<in> set cs. \<not> 0 < effectiveWeight c)"
proof -
  obtain w where w: "weigh (0, []) cs = (w, weighed cs)"
    using weigh_viable [of 0 "[]" cs] by (metis append_Nil prod.collapse)
  show ?thesis
    by (auto simp: selectAccountWeighted_def w weighed_def filter_empty_conv split: option.splits)
qed

text \<open>
  The last viable candidate is only a fallback of the code: a draw below one always falls into
  the interval of some candidate, because the interval ends are summed as the total was.
\<close>

lemma weighted_draw_hits:
  assumes "0 \<le> draw" "draw < 1" "weigh (0, []) cs = (w, viable)" "viable \<noteq> []" "f64 w = w"
  shows "draw_weighted (fmul draw w) 0 viable \<noteq> None"
proof
  assume none: "draw_weighted (fmul draw w) 0 viable = None"
  have v: "viable = weighed cs" and t: "w = foldl fadd 0 (map ac_Weight viable)"
    using weigh_viable [of 0 "[]" cs] weigh_total [of 0 "[]" cs] assms(3) by simp_all
  have "w < fmul draw w" using draw_weighted_None [OF none] assms(4) t by simp
  moreover have "0 \<le> foldl fadd acc (map ac_Weight xs)" if "0 \<le> acc" "\<forall>c \<in> set xs. 0 < ac_Weight c" for acc xs
    using that
  proof (induction xs arbitrary: acc)
    case (Cons x xs)
    then have "0 \<le> fadd acc (ac_Weight x)" unfolding fadd_def by (intro f64.rnd_nonneg) auto
    with Cons show ?case by simp
  qed simp
  from this [of 0 viable] have "0 \<le> w" unfolding t v by (auto simp: weighed_def)
  then have "draw * w \<le> w" using assms(1,2) by (simp add: mult_left_le_one_le)
  then have "fmul draw w \<le> f64 w" unfolding fmul_def by (rule f64.rnd_mono)
  ultimately show False using assms(5) by simp
qed

section \<open>What a rotation answers\<close>

text \<open>The position of a candidate in the order of the two modes that keep one.\<close>

definition rotation_least :: "string \<Rightarrow> uuid \<Rightarrow> 'a AccountCandidate_scheme list \<Rightarrow> 'a AccountCandidate_scheme \<Rightarrow> bool" where
  "rotation_least mode salt cs m \<longleftrightarrow>
     m \<in> set cs \<and> 0 < ac_Weight m
     \<and> (\<forall>c \<in> set cs. 0 < ac_Weight c \<longrightarrow>
          (if mode = ''round_robin'' then rr_key salt m \<le> rr_key salt c
           else lru_key salt m \<le> lru_key salt c))"

lemma round_robin_least:
  "case selectAccountRoundRobin cs salt of
     None \<Rightarrow> \<forall>c \<in> set cs. \<not> 0 < ac_Weight c | Some m \<Rightarrow> rotation_least ''round_robin'' salt cs m"
proof (cases "selectAccountRoundRobin cs salt")
  case None
  then show ?thesis
    using rr.pick_best_None [of "\<lambda>c. 0 < ac_Weight c" salt cs] by (simp add: selectAccountRoundRobin_def)
next
  case (Some m)
  then have p: "pick_best (\<lambda>c. 0 < ac_Weight c) (\<lambda>a b. rrLess a b salt) None cs = Some m"
    by (simp add: selectAccountRoundRobin_def)
  show ?thesis using rr.pick_best_least [OF p] by (simp add: Some rotation_least_def)
qed

lemma least_recently_used_least:
  "case selectAccountLeastRecentlyUsed cs salt of
     None \<Rightarrow> \<forall>c \<in> set cs. \<not> 0 < ac_Weight c
   | Some m \<Rightarrow> rotation_least ''least_recently_used'' salt cs m"
proof (cases "selectAccountLeastRecentlyUsed cs salt")
  case None
  then show ?thesis
    using lru.pick_best_None [of "\<lambda>c. 0 < ac_Weight c" salt cs]
    by (simp add: selectAccountLeastRecentlyUsed_def)
next
  case (Some m)
  then have p: "pick_best (\<lambda>c. 0 < ac_Weight c) (\<lambda>a b. lruLess a b salt) None cs = Some m"
    by (simp add: selectAccountLeastRecentlyUsed_def)
  show ?thesis using lru.pick_best_least [OF p] by (simp add: Some rotation_least_def)
qed

text \<open>
  Claim C34. The rotation answers a mailbox exactly when one is viable. In the two cursor modes
  it is the one that comes first: the lowest position, or the longest unused with the never
  used ahead of all, ties broken by the hash under the campaign's id. In the weighted mode it
  is a mailbox of positive effective weight, whatever is drawn.
\<close>

theorem rotation_picks_first:
  "case selectAccountByRotationMode mode cs salt draw of
     None \<Rightarrow> (if needsRotationFallback mode then \<forall>c \<in> set cs. \<not> 0 < ac_Weight c
              else \<forall>c \<in> set cs. \<not> 0 < effectiveWeight c)
   | Some m \<Rightarrow> (if needsRotationFallback mode then rotation_least mode salt cs m
                else \<exists>c \<in> set cs. 0 < effectiveWeight c \<and> m = c\<lparr>ac_Weight := effectiveWeight c\<rparr>)"
proof -
  consider "mode = ''round_robin''" | "mode = ''least_recently_used''" | "\<not> needsRotationFallback mode"
    by (auto simp: needsRotationFallback_def)
  then show ?thesis
  proof cases
    case 1
    then show ?thesis
      using round_robin_least [of cs salt]
      by (simp add: selectAccountByRotationMode_def needsRotationFallback_def cong: option.case_cong)
  next
    case 2
    then show ?thesis
      using least_recently_used_least [of cs salt]
      by (simp add: selectAccountByRotationMode_def needsRotationFallback_def cong: option.case_cong)
  next
    case 3
    then have e: "selectAccountByRotationMode mode cs salt draw = selectAccountWeighted draw cs"
      by (simp add: selectAccountByRotationMode_def needsRotationFallback_def)
    show ?thesis
    proof (cases "selectAccountWeighted draw cs")
      case None
      then show ?thesis using 3 selectAccountWeighted_None [of draw cs] by (simp add: e)
    next
      case (Some m)
      then show ?thesis
        using 3 selectAccountWeighted_member [OF Some] by (auto simp: e weighed_def)
    qed
  qed
qed

definition rotation_candidate :: "byte \<Rightarrow> instant option \<Rightarrow> AccountCandidate" where
  "rotation_candidate i t =
     \<lparr>ac_ID = [i], ac_RemainingToday = 1, ac_WarmupAgeDays = 0, ac_Weight = 1, ac_SenderWeight = 1,
      ac_RotationPosition = 0, ac_SenderLastSentAt = t, ac_HasSenderMetadata = True,
      ac_ProviderMatch = True, ac_Behavior = zero_resolved, ac_OpenAt = None, ac_OpenLoc = None\<rparr>"

lemma rotation_candidate_fields:
  "ac_Weight (rotation_candidate i t) = 1" "ac_SenderLastSentAt (rotation_candidate i t) = t"
  by (simp_all add: rotation_candidate_def)

theorem rotation_picks_first_witness:
  "rotation_least ''least_recently_used'' [9]
     [rotation_candidate 1 (Some 5), rotation_candidate 2 None, rotation_candidate 3 (Some 0)]
     (rotation_candidate 2 None)"
proof -
  have "selectAccountByRotationMode ''least_recently_used''
      [rotation_candidate 1 (Some 5), rotation_candidate 2 None, rotation_candidate 3 (Some 0)] [9] 0
      = Some (rotation_candidate 2 None)"
  proof -
    have less: "lruLess (rotation_candidate 2 None) (rotation_candidate 1 (Some 5)) [9]"
      "\<not> lruLess (rotation_candidate 3 (Some 0)) (rotation_candidate 2 None) [9]"
      unfolding lruLess_def rotation_candidate_fields by simp_all
    have v: "0 < ac_Weight (rotation_candidate i t)" for i t by (simp add: rotation_candidate_fields)
    have m: "(''least_recently_used'' = ''round_robin'') = False" by simp
    show ?thesis
      unfolding selectAccountByRotationMode_def m selectAccountLeastRecentlyUsed_def if_False
      by (simp only: pick_best.simps option.case less v not_True_eq_False if_True if_False refl)
  qed
  moreover have "needsRotationFallback ''least_recently_used''" by (simp add: needsRotationFallback_def)
  ultimately show ?thesis
    using rotation_picks_first [of "''least_recently_used''"
      "[rotation_candidate 1 (Some 5), rotation_candidate 2 None, rotation_candidate 3 (Some 0)]" "[9]" 0]
    by (simp only: option.case if_True)
qed

end
