(* ===== verification/Mail_Host.thy ===== *)
theory Mail_Host
  imports Send_Time
begin

text \<open>
  Who hosts a domain's mail, \<open>internal/pkg/mailhost/mailhost.go\<close> and the DNS-free part of
  \<open>recipient.go\<close>: the providers, their servers, the classification of a server name, and the
  families campaigns match senders and recipients by.

  The public suffix list is a third-party package: \<open>psl\<close> is its \<open>EffectiveTLDPlusOne\<close>, \<open>None\<close>
  its error. Text is ASCII.
\<close>

section \<open>Providers\<close>

type_synonym Host = string
type_synonym suffix_list = "string \<Rightarrow> string option"

definition Hosts :: "Host list" where
  "Hosts =
     [''google_workspace'', ''gmail'', ''microsoft365'', ''outlook'', ''zoho'', ''yahoo'', ''aol'',
      ''icloud'', ''fastmail'', ''godaddy'', ''namecheap'', ''ionos'', ''hostinger'', ''ovh'', ''migadu'',
      ''purelymail'', ''rackspace'', ''yandex'', ''gmx'', ''proton'', ''other'']"

definition labels :: "(Host \<times> string) list" where
  "labels =
     [(''google_workspace'', ''Google Workspace''), (''gmail'', ''Gmail''),
      (''microsoft365'', ''Microsoft 365''), (''outlook'', ''Outlook.com''), (''zoho'', ''Zoho Mail''),
      (''yahoo'', ''Yahoo Mail''), (''aol'', ''AOL Mail''), (''icloud'', ''iCloud Mail''),
      (''fastmail'', ''Fastmail''), (''godaddy'', ''GoDaddy''), (''namecheap'', ''Namecheap Private Email''),
      (''ionos'', ''IONOS''), (''hostinger'', ''Hostinger''), (''ovh'', ''OVHcloud''), (''migadu'', ''Migadu''),
      (''purelymail'', ''Purelymail''), (''rackspace'', ''Rackspace Email''), (''yandex'', ''Yandex Mail''),
      (''gmx'', ''GMX''), (''proton'', ''Proton Mail''), (''other'', ''Other provider'')]"

definition Label :: "Host \<Rightarrow> string" where
  "Label h = (case map_of labels h of None \<Rightarrow> [] | Some l \<Rightarrow> l)"

definition host_Valid :: "string \<Rightarrow> bool" where
  "host_Valid s \<longleftrightarrow> s = [] \<or> map_of labels s \<noteq> None"

definition Google :: "Host \<Rightarrow> bool" where
  "Google h \<longleftrightarrow> h = ''google_workspace'' \<or> h = ''gmail''"

definition Microsoft :: "Host \<Rightarrow> bool" where
  "Microsoft h \<longleftrightarrow> h = ''microsoft365'' \<or> h = ''outlook''"

record Endpoint =
  ep_Host :: string
  ep_Port :: int
  ep_Security :: string

record Settings =
  se_SMTP :: Endpoint
  se_IMAP :: Endpoint

record variant =
  va_zone :: string
  va_personal :: bool

definition no_variant :: variant where
  "no_variant = \<lparr>va_zone = [], va_personal = False\<rparr>"

definition ep :: "string \<Rightarrow> int \<Rightarrow> string \<Rightarrow> Endpoint" where
  "ep host port sec = \<lparr>ep_Host = host, ep_Port = port, ep_Security = sec\<rparr>"

definition server_pair :: "string \<Rightarrow> int \<Rightarrow> string \<Rightarrow> string \<Rightarrow> Settings option" where
  "server_pair smtpHost smtpPort smtpSec imapHost =
     Some \<lparr>se_SMTP = ep smtpHost smtpPort smtpSec, se_IMAP = ep imapHost 993 ''tls''\<rparr>"

text \<open>The conventional servers of a host, by the table of the \<open>switch\<close>.\<close>

definition fixed_servers :: "(Host \<times> Settings option) list" where
  "fixed_servers =
     [(''google_workspace'', server_pair ''smtp.gmail.com'' 587 ''starttls'' ''imap.gmail.com''),
      (''gmail'', server_pair ''smtp.gmail.com'' 587 ''starttls'' ''imap.gmail.com''),
      (''microsoft365'', server_pair ''smtp.office365.com'' 587 ''starttls'' ''outlook.office365.com''),
      (''outlook'', server_pair ''smtp-mail.outlook.com'' 587 ''starttls'' ''outlook.office365.com''),
      (''yahoo'', server_pair ''smtp.mail.yahoo.com'' 465 ''tls'' ''imap.mail.yahoo.com''),
      (''aol'', server_pair ''smtp.aol.com'' 465 ''tls'' ''imap.aol.com''),
      (''icloud'', server_pair ''smtp.mail.me.com'' 587 ''starttls'' ''imap.mail.me.com''),
      (''fastmail'', server_pair ''smtp.fastmail.com'' 465 ''tls'' ''imap.fastmail.com''),
      (''godaddy'', server_pair ''smtpout.secureserver.net'' 465 ''tls'' ''imap.secureserver.net''),
      (''namecheap'', server_pair ''mail.privateemail.com'' 465 ''tls'' ''mail.privateemail.com''),
      (''hostinger'', server_pair ''smtp.hostinger.com'' 465 ''tls'' ''imap.hostinger.com''),
      (''ovh'', server_pair ''ssl0.ovh.net'' 465 ''tls'' ''ssl0.ovh.net''),
      (''migadu'', server_pair ''smtp.migadu.com'' 465 ''tls'' ''imap.migadu.com''),
      (''purelymail'', server_pair ''smtp.purelymail.com'' 465 ''tls'' ''imap.purelymail.com''),
      (''rackspace'', server_pair ''secure.emailsrvr.com'' 465 ''tls'' ''secure.emailsrvr.com''),
      (''yandex'', server_pair ''smtp.yandex.com'' 465 ''tls'' ''imap.yandex.com'')]"

definition settingsFor :: "Host \<Rightarrow> variant \<Rightarrow> Settings option" where
  "settingsFor h v =
     (if h = ''zoho''
      then let zone = (if va_zone v = [] then ''zoho.com'' else va_zone v)
           in if va_personal v then server_pair (''smtp.'' @ zone) 465 ''tls'' (''imap.'' @ zone)
              else server_pair (''smtppro.'' @ zone) 465 ''tls'' (''imappro.'' @ zone)
      else if h = ''ionos''
      then let tld = (if va_zone v = [] then ''com'' else va_zone v)
           in server_pair (''smtp.ionos.'' @ tld) 587 ''starttls'' (''imap.ionos.'' @ tld)
      else if h = ''gmx''
      then let tld = (if va_zone v = [] then ''com'' else va_zone v)
           in server_pair (''mail.gmx.'' @ tld) 587 ''starttls'' (''imap.gmx.'' @ tld)
      else case map_of fixed_servers h of None \<Rightarrow> None | Some s \<Rightarrow> s)"

definition SettingsFor :: "Host \<Rightarrow> Settings option" where
  "SettingsFor h = settingsFor h no_variant"

definition PasswordAuthFor :: "Host \<Rightarrow> string" where
  "PasswordAuthFor h =
     (if h \<in> {''google_workspace'', ''gmail'', ''yahoo'', ''aol'', ''icloud'', ''fastmail'', ''yandex''}
      then ''app_password''
      else if h \<in> {''microsoft365'', ''outlook''} then ''oauth_only''
      else if h = ''proton'' then ''unsupported'' else ''password'')"

definition AppPasswordURL :: "Host \<Rightarrow> string" where
  "AppPasswordURL h =
     (if Google h then ''https://myaccount.google.com/apppasswords''
      else if h = ''yahoo'' then ''https://login.yahoo.com/account/security''
      else if h = ''aol'' then ''https://login.aol.com/account/security''
      else if h = ''icloud'' then ''https://account.apple.com/account/manage''
      else if h = ''fastmail'' then ''https://app.fastmail.com/settings/security/apps''
      else if h = ''yandex'' then ''https://id.yandex.com/security/app-passwords''
      else if h = ''zoho'' then ''https://accounts.zoho.com/home#security/app_password''
      else [])"

definition zohoAppPasswordURL :: "string \<Rightarrow> string" where
  "zohoAppPasswordURL zone =
     (if zone = [] \<or> zone = ''zoho.com'' then AppPasswordURL ''zoho''
      else if zone = ''zohocloud.ca'' then ''https://accounts.zohocloud.ca/home#security/app_password''
      else ''https://accounts.'' @ zone @ ''/home#security/app_password'')"

record Detection =
  dt_Domain :: string
  dt_Host :: Host
  dt_Source :: string
  dt_Settings :: "Settings option"
  dt_PasswordAuth :: string
  dt_AppPasswordURL :: string
  dt_MX :: "string list"

definition detection :: "string \<Rightarrow> Host \<Rightarrow> variant \<Rightarrow> string \<Rightarrow> string list \<Rightarrow> Detection" where
  "detection domain h v source mx =
     \<lparr>dt_Domain = domain, dt_Host = h, dt_Source = source, dt_Settings = settingsFor h v,
      dt_PasswordAuth = PasswordAuthFor h,
      dt_AppPasswordURL = (if h = ''zoho'' then zohoAppPasswordURL (va_zone v) else AppPasswordURL h),
      dt_MX = mx\<rparr>"

section \<open>Names\<close>

definition trim_suffix :: "string \<Rightarrow> string \<Rightarrow> string" where
  "trim_suffix suf s =
     (if length suf \<le> length s \<and> drop (length s - length suf) s = suf
      then take (length s - length suf) s else s)"

definition has_suffix :: "string \<Rightarrow> string \<Rightarrow> bool" where
  "has_suffix suf s \<longleftrightarrow> length suf \<le> length s \<and> drop (length s - length suf) s = suf"

definition normHost :: "string \<Rightarrow> string" where
  "normHost s = trim_suffix ''.'' (to_lower (trim_space s))"

definition under :: "string \<Rightarrow> string \<Rightarrow> bool" where
  "under host d \<longleftrightarrow> host = d \<or> has_suffix (CHR ''.'' # d) host"

text \<open>The first label and what follows it, when there is a label before the first dot.\<close>

definition registrable :: "suffix_list \<Rightarrow> string \<Rightarrow> string \<times> string" where
  "registrable psl host =
     (case psl host of
        None \<Rightarrow> ([], [])
      | Some e \<Rightarrow>
          let label = takeWhile (\<lambda>c. c \<noteq> CHR ''.'') e
          in if label = e \<or> label = [] then ([], []) else (label, drop (Suc (length label)) e))"

definition zohoZones :: "string list" where
  "zohoZones =
     [''zoho.com'', ''zoho.eu'', ''zoho.in'', ''zoho.com.au'', ''zoho.jp'', ''zohocloud.ca'', ''zoho.sa'',
      ''zoho.uk'']"

definition ionosTLDs :: "string list" where
  "ionosTLDs = [''com'', ''de'', ''co.uk'', ''es'', ''fr'', ''it'', ''ca'', ''mx'']"

definition gmxZone :: "string \<Rightarrow> string" where
  "gmxZone suffix = (if suffix \<in> {''net'', ''de'', ''at'', ''ch''} then ''net'' else ''com'')"

text \<open>The cases of the \<open>switch\<close> over server names, in order, with what they answer.\<close>

definition server_cases :: "((string \<Rightarrow> bool) \<times> Host \<times> string) list" where
  "server_cases =
     [(\<lambda>h. under h ''google.com'' \<or> under h ''gmail.com'' \<or> under h ''googlemail.com'', ''gmail'', []),
      (\<lambda>h. h = ''outlook-com.olc.protection.outlook.com'' \<or> h = ''smtp-mail.outlook.com''
           \<or> h = ''imap-mail.outlook.com'', ''outlook'', []),
      (\<lambda>h. under h ''outlook.com'' \<or> under h ''office365.com'' \<or> under h ''office.com''
           \<or> under h ''mx.microsoft'' \<or> under h ''hotmail.com'', ''microsoft365'', []),
      (\<lambda>h. under h ''yahoodns.net'' \<or> under h ''yahoo.com'', ''yahoo'', []),
      (\<lambda>h. under h ''aol.com'', ''aol'', []),
      (\<lambda>h. under h ''icloud.com'' \<or> under h ''me.com'' \<or> under h ''mac.com'', ''icloud'', []),
      (\<lambda>h. under h ''messagingengine.com'' \<or> under h ''fastmail.com'' \<or> under h ''fastmail.fm'',
           ''fastmail'', []),
      (\<lambda>h. under h ''secureserver.net'', ''godaddy'', []),
      (\<lambda>h. under h ''privateemail.com'', ''namecheap'', []),
      (\<lambda>h. under h ''perfora.net'', ''ionos'', ''com''),
      (\<lambda>h. under h ''kundenserver.de'', ''ionos'', ''de''),
      (\<lambda>h. under h ''hostinger.com'', ''hostinger'', []),
      (\<lambda>h. under h ''ovh.net'', ''ovh'', []),
      (\<lambda>h. under h ''migadu.com'', ''migadu'', []),
      (\<lambda>h. under h ''purelymail.com'', ''purelymail'', []),
      (\<lambda>h. under h ''emailsrvr.com'', ''rackspace'', []),
      (\<lambda>h. under h ''protonmail.ch'' \<or> under h ''proton.me'' \<or> under h ''protonmail.com'', ''proton'', [])]"

definition classify :: "suffix_list \<Rightarrow> string \<Rightarrow> Host \<times> variant" where
  "classify psl host =
     (let h = normHost host
      in if h = [] then ([], no_variant)
         else case find (\<lambda>c. fst c h) server_cases of
           Some (_, who, zone) \<Rightarrow> (who, no_variant\<lparr>va_zone := zone\<rparr>)
         | None \<Rightarrow>
             (case find (under h) zohoZones of
                Some z \<Rightarrow> (''zoho'', no_variant\<lparr>va_zone := z\<rparr>)
              | None \<Rightarrow>
                  (case registrable psl h of
                     (label, suffix) \<Rightarrow>
                       if label = ''ionos'' \<or> label = ''1and1''
                       then (''ionos'', no_variant\<lparr>va_zone := if suffix \<in> set ionosTLDs then suffix else ''com''\<rparr>)
                       else if label = ''yandex'' then (''yandex'', no_variant)
                       else if label = ''gmx'' then (''gmx'', no_variant\<lparr>va_zone := gmxZone suffix\<rparr>)
                       else ([], no_variant))))"

definition FromServer :: "suffix_list \<Rightarrow> string \<Rightarrow> Host" where
  "FromServer psl host = fst (classify psl host)"

section \<open>Consumer domains\<close>

definition known_domains :: "(string \<times> Host \<times> string \<times> bool) list" where
  "known_domains =
     [(''gmail.com'', ''gmail'', [], False), (''googlemail.com'', ''gmail'', [], False),
      (''msn.com'', ''outlook'', [], False), (''passport.com'', ''outlook'', [], False),
      (''windowslive.com'', ''outlook'', [], False), (''ymail.com'', ''yahoo'', [], False),
      (''rocketmail.com'', ''yahoo'', [], False), (''aol.com'', ''aol'', [], False),
      (''aim.com'', ''aol'', [], False), (''icloud.com'', ''icloud'', [], False),
      (''me.com'', ''icloud'', [], False), (''mac.com'', ''icloud'', [], False),
      (''zoho.com'', ''zoho'', ''zoho.com'', True), (''zohomail.com'', ''zoho'', ''zoho.com'', True),
      (''zoho.eu'', ''zoho'', ''zoho.eu'', True), (''zohomail.eu'', ''zoho'', ''zoho.eu'', True),
      (''zohomail.in'', ''zoho'', ''zoho.in'', True), (''ya.ru'', ''yandex'', [], False),
      (''proton.me'', ''proton'', [], False), (''protonmail.com'', ''proton'', [], False),
      (''protonmail.ch'', ''proton'', [], False), (''pm.me'', ''proton'', [], False),
      (''fastmail.com'', ''fastmail'', [], False), (''fastmail.fm'', ''fastmail'', [], False)]"

definition known :: "suffix_list \<Rightarrow> string \<Rightarrow> (Host \<times> variant) option" where
  "known psl domain =
     (case map_of known_domains domain of
        Some (h, zone, personal) \<Rightarrow> Some (h, \<lparr>va_zone = zone, va_personal = personal\<rparr>)
      | None \<Rightarrow>
          if domain = ''yahoo.co.jp'' then None
          else if psl domain \<noteq> Some domain then None
          else
            (case registrable psl domain of
               (label, suffix) \<Rightarrow>
                 if label \<in> {''hotmail'', ''live'', ''outlook''} then Some (''outlook'', no_variant)
                 else if label = ''yahoo'' then Some (''yahoo'', no_variant)
                 else if label = ''gmx'' then Some (''gmx'', no_variant\<lparr>va_zone := gmxZone suffix\<rparr>)
                 else if label = ''yandex'' then Some (''yandex'', no_variant)
                 else None))"

definition knownDomain :: "suffix_list \<Rightarrow> string \<Rightarrow> Host option" where
  "knownDomain psl domain = map_option fst (known psl domain)"

definition Refine :: "suffix_list \<Rightarrow> Host \<Rightarrow> string \<Rightarrow> Host" where
  "Refine psl h domain =
     (let domain = normHost domain
      in if domain = [] then h
         else if Google h
         then (if domain = ''gmail.com'' \<or> domain = ''googlemail.com'' then ''gmail''
               else ''google_workspace'')
         else if h = ''microsoft365''
         then (if knownDomain psl domain = Some ''outlook'' then ''outlook'' else h)
         else h)"

section \<open>Domains as users write them\<close>

text \<open>\<open>to_ascii\<close> is \<open>idna.Lookup.ToASCII\<close>, a third-party conversion; \<open>None\<close> is its error.\<close>

type_synonym idna = "string \<Rightarrow> string option"

definition label_char :: "char \<Rightarrow> bool" where
  "label_char c \<longleftrightarrow>
     (let n = of_char c :: nat
      in 97 \<le> n \<and> n \<le> 122 \<or> 48 \<le> n \<and> n \<le> 57 \<or> c = CHR ''-'' \<or> c = CHR ''_'')"

definition valid_label :: "string \<Rightarrow> bool" where
  "valid_label l \<longleftrightarrow>
     \<not> (l = [] \<or> 63 < length l \<or> hd l = CHR ''-'' \<or> last l = CHR ''-'') \<and> list_all label_char l"

definition maxDomainSize :: nat where
  "maxDomainSize = 253"

definition validHostname :: "string \<Rightarrow> bool" where
  "validHostname s \<longleftrightarrow>
     s \<noteq> [] \<and> length s \<le> maxDomainSize \<and> list_all valid_label (split_on (CHR ''.'') s)"

definition NormalizeDomain :: "idna \<Rightarrow> string \<Rightarrow> string" where
  "NormalizeDomain to_ascii s =
     (let s = trim_space s;
          s = (case after_last (CHR ''@'') s of Some rest \<Rightarrow> rest | None \<Rightarrow> s);
          s = trim_suffix ''.'' (to_lower s)
      in if s = [] then []
         else case to_ascii s of
                None \<Rightarrow> []
              | Some ascii \<Rightarrow>
                  if \<not> validHostname ascii \<or> CHR ''.'' \<notin> set ascii then [] else ascii)"

definition SharedProvider :: "suffix_list \<Rightarrow> idna \<Rightarrow> string \<Rightarrow> bool" where
  "SharedProvider psl to_ascii domain \<longleftrightarrow> knownDomain psl (NormalizeDomain to_ascii domain) \<noteq> None"

definition ForMailbox :: "suffix_list \<Rightarrow> idna \<Rightarrow> string \<Rightarrow> string \<Rightarrow> string \<Rightarrow> Host" where
  "ForMailbox psl to_ascii stored provider address =
     (let domain = (case after_last (CHR ''@'') address of
                      None \<Rightarrow> [] | Some rest \<Rightarrow> NormalizeDomain to_ascii rest)
      in if stored \<noteq> [] \<and> host_Valid stored then Refine psl stored domain
         else if provider = ''gmail'' then Refine psl ''gmail'' domain
         else if provider = ''outlook'' then Refine psl ''microsoft365'' domain
         else case knownDomain psl domain of Some h \<Rightarrow> h | None \<Rightarrow> ''other'')"

section \<open>Recipients\<close>

definition recipientKnown :: "suffix_list \<Rightarrow> string \<Rightarrow> Host" where
  "recipientKnown psl domain =
     (case knownDomain psl domain of
        Some h \<Rightarrow> h
      | None \<Rightarrow> if has_suffix ''.onmicrosoft.com'' domain then ''microsoft365'' else [])"

definition KnownDomain :: "suffix_list \<Rightarrow> idna \<Rightarrow> string \<Rightarrow> Host" where
  "KnownDomain psl to_ascii s = recipientKnown psl (NormalizeDomain to_ascii s)"

definition ESPFamily :: "Host \<Rightarrow> string" where
  "ESPFamily h =
     (if h = [] then [] else if Google h then ''gmail'' else if Microsoft h then ''outlook'' else ''other'')"

text \<open>The mechanisms of an SPF record that include another name.\<close>

definition fields :: "string \<Rightarrow> string list" where
  "fields s = filter (\<lambda>p. p \<noteq> []) (split_on (CHR '' '') (map (\<lambda>c. if is_space c then CHR '' '' else c) s))"

definition spf_include :: "string \<Rightarrow> string option" where
  "spf_include f =
     (let f = dropWhile (\<lambda>c. c \<in> {CHR ''+'', CHR ''~'', CHR ''?''}) f
      in if take 8 f = ''include:'' then Some (drop 8 f) else None)"

fun spf_fields :: "suffix_list \<Rightarrow> string \<Rightarrow> string list \<Rightarrow> Host" where
  "spf_fields psl domain [] = []"
| "spf_fields psl domain (f # fs) =
     (case spf_include f of
        None \<Rightarrow> spf_fields psl domain fs
      | Some inc \<Rightarrow>
          let h = fst (classify psl inc)
          in if Google h \<or> Microsoft h \<or> h = ''zoho'' then Refine psl h domain
             else spf_fields psl domain fs)"

fun fromSPF :: "suffix_list \<Rightarrow> string \<Rightarrow> string list \<Rightarrow> Host" where
  "fromSPF psl domain [] = []"
| "fromSPF psl domain (t # ts) =
     (case fields (to_lower (trim_space t)) of
        first # rest \<Rightarrow>
          if first \<noteq> ''v=spf1'' then fromSPF psl domain ts
          else let h = spf_fields psl domain rest
               in if h \<noteq> [] then h else fromSPF psl domain ts
      | [] \<Rightarrow> fromSPF psl domain ts)"

section \<open>Passwords\<close>

definition ascii_letter :: "char \<Rightarrow> bool" where
  "ascii_letter c \<longleftrightarrow>
     (let n = of_char c :: nat in 97 \<le> n \<and> n \<le> 122 \<or> 65 \<le> n \<and> n \<le> 90)"

definition strip_spaces :: "string \<Rightarrow> string" where
  "strip_spaces s = filter (\<lambda>c. c \<noteq> CHR '' '') (trim_space s)"

definition LooksLikeGoogleAppPassword :: "string \<Rightarrow> bool" where
  "LooksLikeGoogleAppPassword s \<longleftrightarrow>
     length (strip_spaces s) = 16 \<and> list_all ascii_letter (strip_spaces s)"

definition NormalizeAppPassword :: "Host \<Rightarrow> string \<Rightarrow> string" where
  "NormalizeAppPassword h s =
     (if Google h \<and> LooksLikeGoogleAppPassword s then strip_spaces s else s)"

definition AuthMethodFor :: "Host \<Rightarrow> string \<Rightarrow> string" where
  "AuthMethodFor h pa =
     (let pa = (if pa = [] then PasswordAuthFor h else pa)
      in if pa = ''app_password'' then ''app_password'' else ''password'')"

section \<open>Matching senders and recipients\<close>

text \<open>\<open>senderESP\<close> and \<open>recipientESP\<close> of \<open>internal/scheduler/helpers.go\<close>, on the fields they read.\<close>

definition senderESP :: "string \<Rightarrow> string \<Rightarrow> string" where
  "senderESP provider mailHost =
     (let esp = ESPFamily mailHost
      in if provider = ''smtp_imap'' \<and> (esp = ''gmail'' \<or> esp = ''outlook'') then esp else provider)"

definition recipientESP :: "suffix_list \<Rightarrow> idna \<Rightarrow> string \<Rightarrow> string \<Rightarrow> string \<Rightarrow> string" where
  "recipientESP psl to_ascii espProvider mailHost email =
     (let esp = (if mailHost = [] \<and> espProvider = [] then ESPFamily (KnownDomain psl to_ascii email)
                 else espProvider)
      in if esp = ''gmail'' \<or> esp = ''outlook'' then esp else [])"

section \<open>Normal forms\<close>

lemma trim_space_no_space:
  assumes "\<forall>c \<in> set s. \<not> is_space c"
  shows "trim_space s = s"
proof -
  have "dropWhile is_space xs = xs" if "set xs \<subseteq> set s" for xs
    using that assms by (cases xs) auto
  from this [of s] this [of "rev s"] show ?thesis by (simp add: trim_space_def)
qed

lemma label_char_facts:
  assumes "label_char c"
  shows "\<not> is_space c" "c \<noteq> CHR ''@''" "c \<noteq> CHR ''.''"
    "\<not> (65 \<le> (of_char c :: nat) \<and> (of_char c :: nat) \<le> 90)"
  using assms by (auto simp: label_char_def is_space_def Let_def)

lemma set_split_on: "p \<in> set (split_on x s) \<Longrightarrow> set p \<subseteq> set s"
  by (induction s arbitrary: p) (auto split: if_splits list.splits, blast+)

lemma split_on_not_Nil: "split_on x s \<noteq> []"
  by (cases s) (auto split: list.splits)

lemma split_on_cover: "c \<in> set s \<Longrightarrow> c = x \<or> (\<exists>p \<in> set (split_on x s). c \<in> set p)"
proof (induction s)
  case (Cons a s)
  obtain p ps where p: "split_on x s = p # ps" using split_on_not_Nil by (cases "split_on x s") auto
  from Cons show ?case by (auto simp: p)
qed simp

lemma split_on_snoc: "split_on x (s @ [x]) = split_on x s @ [[]]"
proof (induction s)
  case (Cons a s)
  obtain p ps where "split_on x s = p # ps" using split_on_not_Nil by (cases "split_on x s") auto
  with Cons show ?case by simp
qed simp

lemma validHostname_chars:
  assumes "validHostname s" "c \<in> set s"
  shows "c = CHR ''.'' \<or> label_char c"
proof -
  from split_on_cover [OF assms(2), of "CHR ''.''"] consider "c = CHR ''.''"
    | p where "p \<in> set (split_on (CHR ''.'') s)" "c \<in> set p" by blast
  then show ?thesis
  proof cases
    case (2 p)
    then show ?thesis using assms(1) by (auto simp: validHostname_def valid_label_def list_all_iff)
  qed simp
qed

lemma validHostname_no_trailing_dot:
  assumes "validHostname s"
  shows "trim_suffix ''.'' s = s"
proof (rule ccontr)
  assume "trim_suffix ''.'' s \<noteq> s"
  then have "drop (length s - 1) s = ''.''" by (auto simp: trim_suffix_def split: if_splits)
  then have "s = take (length s - 1) s @ ''.''" by (metis append_take_drop_id)
  then have "[] \<in> set (split_on (CHR ''.'') s)" by (metis split_on_snoc in_set_conv_decomp)
  with assms show False by (auto simp: validHostname_def valid_label_def list_all_iff)
qed

lemma to_lower_same:
  "\<forall>c \<in> set s. \<not> (65 \<le> (of_char c :: nat) \<and> (of_char c :: nat) \<le> 90) \<Longrightarrow> to_lower s = s"
  unfolding to_lower_def by (rule map_idI) (auto simp: Let_def)

lemma validHostname_plain:
  assumes "validHostname s"
  shows "trim_space s = s" "after_last (CHR ''@'') s = None" "to_lower s = s"
proof -
  have c: "\<not> is_space c" "c \<noteq> CHR ''@''" "\<not> (65 \<le> (of_char c :: nat) \<and> (of_char c :: nat) \<le> 90)"
    if "c \<in> set s" for c
    using validHostname_chars [OF assms that] label_char_facts [of c] by (auto simp: is_space_def)
  then show "trim_space s = s" by (intro trim_space_no_space) blast
  show "after_last (CHR ''@'') s = None" using c(2) by (auto simp: after_last_def)
  show "to_lower s = s" using c(3) by (intro to_lower_same) blast
qed

lemma NormalizeDomain_valid:
  "NormalizeDomain to_ascii s = [] \<or>
     (validHostname (NormalizeDomain to_ascii s) \<and> CHR ''.'' \<in> set (NormalizeDomain to_ascii s)
      \<and> (\<exists>x. to_ascii x = Some (NormalizeDomain to_ascii s)))"
  by (auto simp: NormalizeDomain_def Let_def split: option.splits)

text \<open>A converter that leaves what it has converted alone.\<close>

definition settled :: "idna \<Rightarrow> bool" where
  "settled to_ascii \<longleftrightarrow> (\<forall>x a. to_ascii x = Some a \<longrightarrow> to_ascii a = Some a)"

lemma NormalizeDomain_idem:
  assumes "settled to_ascii"
  shows "NormalizeDomain to_ascii (NormalizeDomain to_ascii s) = NormalizeDomain to_ascii s"
proof (cases "NormalizeDomain to_ascii s = []")
  case True
  then show ?thesis by (simp add: NormalizeDomain_def trim_space_def after_last_def to_lower_def trim_suffix_def)
next
  case False
  let ?n = "NormalizeDomain to_ascii s"
  have v: "validHostname ?n" "CHR ''.'' \<in> set ?n" and "\<exists>x. to_ascii x = Some ?n"
    using NormalizeDomain_valid [of to_ascii s] False by auto
  then have a: "to_ascii ?n = Some ?n" using assms by (auto simp: settled_def)
  note p = validHostname_plain [OF v(1)] validHostname_no_trailing_dot [OF v(1)]
  show ?thesis
    by (subst (1) NormalizeDomain_def) (simp add: Let_def p a v False)
qed

end
