(* ===== verification/Mail_Detection.thy ===== *)
theory Mail_Detection
  imports Mail_Host
begin

text \<open>
  Detecting the mail servers of a domain, \<open>internal/pkg/mailhost/detect.go\<close> and the choice of
  servers of \<open>autoconfig.go\<close>: the chain from built-in domains over MX, autoconfig, the ISPDB and
  SRV records, the cache around it, and the detection of many domains.

  The network is an argument: what each lookup answers, and whether the time budget has run
  out where the code asks. A downloaded document is its decoded servers, or nothing when the
  download or the XML fails.
\<close>

section \<open>Configuration documents\<close>

record serverConfig =
  sc_Type :: string
  sc_Hostname :: string
  sc_Port :: string
  sc_SocketType :: string
  sc_Auth :: "string list"

definition imapRank :: "Endpoint \<Rightarrow> int" where
  "imapRank e =
     (if ep_Security e = ''tls'' \<and> ep_Port e = 993 then 0 else if ep_Security e = ''tls'' then 1 else 2)"

definition smtpRank :: "Endpoint \<Rightarrow> int" where
  "smtpRank e =
     (if ep_Security e = ''starttls'' \<and> ep_Port e = 587 then 0
      else if ep_Security e = ''tls'' \<and> ep_Port e = 465 then 1
      else if ep_Security e = ''tls'' then 2 else 3)"

definition passwordAuth :: "string list \<Rightarrow> bool" where
  "passwordAuth methods \<longleftrightarrow>
     methods = []
     \<or> list_ex (\<lambda>m. to_lower (trim_space m)
                  \<in> {''password-cleartext'', ''password-encrypted'', ''plain'', ''secure''}) methods"

definition defaultPort :: "string \<Rightarrow> string \<Rightarrow> int" where
  "defaultPort kind sec =
     (if kind = ''imap'' \<and> sec = ''tls'' then 993 else if kind = ''imap'' then 143
      else if sec = ''tls'' then 465 else 587)"

text \<open>\<open>strings.ReplaceAll\<close> for a pattern that is not empty.\<close>

fun replace_all :: "nat \<Rightarrow> string \<Rightarrow> string \<Rightarrow> string \<Rightarrow> string" where
  "replace_all 0 old new s = s"
| "replace_all (Suc n) old new s =
     (case s of
        [] \<Rightarrow> []
      | c # cs \<Rightarrow>
          if take (length old) s = old then new @ replace_all n old new (drop (length old) s)
          else c # replace_all n old new cs)"

definition endpoint :: "serverConfig \<Rightarrow> string \<Rightarrow> string \<Rightarrow> Endpoint option" where
  "endpoint s kind domain =
     (let host = trim_space (sc_Hostname s);
          host = normHost (replace_all (length host) ''%EMAILDOMAIN%'' domain host);
          socket = to_lower (trim_space (sc_SocketType s))
      in if host = [] \<or> \<not> validHostname host \<or> CHR ''.'' \<notin> set host then None
         else if socket \<noteq> ''ssl'' \<and> socket \<noteq> ''tls'' \<and> socket \<noteq> ''starttls'' then None
         else
           let sec = (if socket = ''starttls'' then ''starttls'' else ''tls'');
               port = (case atoi (trim_space (sc_Port s)) of
                         None \<Rightarrow> defaultPort kind sec
                       | Some p \<Rightarrow> if p \<le> 0 \<or> 65535 < p then defaultPort kind sec else p)
           in Some (ep host port sec))"

fun pick_loop ::
  "string \<Rightarrow> string \<Rightarrow> (Endpoint \<Rightarrow> int) \<Rightarrow> (Endpoint \<times> int) option \<Rightarrow> serverConfig list
   \<Rightarrow> (Endpoint \<times> int) option" where
  "pick_loop kind domain rank best [] = best"
| "pick_loop kind domain rank best (s # ss) =
     (if to_lower (trim_space (sc_Type s)) \<noteq> kind \<or> \<not> passwordAuth (sc_Auth s)
      then pick_loop kind domain rank best ss
      else
        case endpoint s kind domain of
          None \<Rightarrow> pick_loop kind domain rank best ss
        | Some e \<Rightarrow>
            if (case best of None \<Rightarrow> True | Some (_, bestRank) \<Rightarrow> rank e < bestRank)
            then pick_loop kind domain rank (Some (e, rank e)) ss
            else pick_loop kind domain rank best ss)"

definition pick :: "serverConfig list \<Rightarrow> string \<Rightarrow> string \<Rightarrow> (Endpoint \<Rightarrow> int) \<Rightarrow> Endpoint option" where
  "pick servers kind domain rank = map_option fst (pick_loop kind domain rank None servers)"

definition parseClientConfig ::
  "(serverConfig list \<times> serverConfig list) option \<Rightarrow> string \<Rightarrow> Settings option" where
  "parseClientConfig cfg domain =
     (case cfg of
        None \<Rightarrow> None
      | Some (incoming, outgoing) \<Rightarrow>
          (case (pick incoming ''imap'' domain imapRank, pick outgoing ''smtp'' domain smtpRank) of
             (Some imap, Some smtp) \<Rightarrow> Some \<lparr>se_SMTP = smtp, se_IMAP = imap\<rparr>
           | _ \<Rightarrow> None))"

section \<open>The network\<close>

datatype dns_error = NotFound | Transient

datatype budget_check = BeforeFetch string | BeforeISPDB string | BeforeSRV string | AtTheEnd

record network =
  nw_MX :: "string \<Rightarrow> (int \<times> string) list \<times> dns_error option"
  nw_SRV :: "string \<Rightarrow> string \<Rightarrow> (string \<times> int) list \<times> dns_error option"
  nw_document :: "string \<Rightarrow> (serverConfig list \<times> serverConfig list) option"
  nw_expired :: "string \<Rightarrow> budget_check \<Rightarrow> bool"

record detector =
  de_ispdbBase :: string
  de_escape :: "string \<Rightarrow> string"

definition autoconfigURLs :: "string \<Rightarrow> string list" where
  "autoconfigURLs domain =
     [''https://autoconfig.'' @ domain @ ''/mail/config-v1.1.xml?emailaddress=info@'' @ domain,
      ''https://'' @ domain @ ''/.well-known/autoconfig/mail/config-v1.1.xml'']"

fun autoconfig :: "network \<Rightarrow> string \<Rightarrow> string list \<Rightarrow> Settings option" where
  "autoconfig nw domain [] = None"
| "autoconfig nw domain (u # us) =
     (if nw_expired nw domain (BeforeFetch u) then None
      else case parseClientConfig (nw_document nw u) domain of
             Some s \<Rightarrow> Some s | None \<Rightarrow> autoconfig nw domain us)"

definition ispdb :: "network \<Rightarrow> detector \<Rightarrow> string \<Rightarrow> string \<Rightarrow> Settings option" where
  "ispdb nw d lookup domain =
     (if nw_expired nw domain (BeforeISPDB lookup) \<or> de_ispdbBase d = [] then None
      else parseClientConfig (nw_document nw (de_ispdbBase d @ de_escape d lookup)) domain)"

fun keep_hosts :: "string list \<Rightarrow> string list \<Rightarrow> string list" where
  "keep_hosts out [] = out"
| "keep_hosts out (h # hs) =
     (let h = normHost h
      in if h = [] \<or> h \<in> set out then keep_hosts out hs else keep_hosts (out @ [h]) hs)"

definition lookupMX :: "network \<Rightarrow> string \<Rightarrow> string list \<times> dns_error option" where
  "lookupMX nw domain =
     (case nw_MX nw domain of
        (recs, err) \<Rightarrow>
          let out = keep_hosts [] (map snd (sort_key fst recs))
          in if out \<noteq> [] then (out, None) else ([], err))"

text \<open>A usable record, a record that says the service is not offered, or no word yet.\<close>

fun srv_record :: "string \<Rightarrow> (string \<times> int) list \<Rightarrow> Endpoint option option" where
  "srv_record security [] = None"
| "srv_record security ((target, port) # rs) =
     (let host = normHost target
      in if host = [] then Some None
         else if \<not> validHostname host \<or> port = 0 then srv_record security rs
         else Some (Some (ep host port security)))"

definition lookupSRV :: "network \<Rightarrow> string \<Rightarrow> string \<times> string \<Rightarrow> Endpoint option \<times> dns_error option" where
  "lookupSRV nw domain sp =
     (case nw_SRV nw domain (fst sp) of
        (recs, err) \<Rightarrow>
          (case srv_record (snd sp) recs of
             Some e \<Rightarrow> (e, None)
           | None \<Rightarrow> (None, case err of Some Transient \<Rightarrow> Some Transient | _ \<Rightarrow> None)))"

definition srvSMTP :: "(string \<times> string) list" where
  "srvSMTP = [(''submission'', ''starttls''), (''submissions'', ''tls'')]"

definition srvIMAP :: "(string \<times> string) list" where
  "srvIMAP = [(''imaps'', ''tls''), (''imap'', ''starttls'')]"

fun firstSRV ::
  "network \<Rightarrow> string \<Rightarrow> dns_error option \<Rightarrow> (string \<times> string) list
   \<Rightarrow> Endpoint option \<times> dns_error option" where
  "firstSRV nw domain lastErr [] = (None, lastErr)"
| "firstSRV nw domain lastErr (sp # sps) =
     (if nw_expired nw domain (BeforeSRV (fst sp)) then (None, Some Transient)
      else case lookupSRV nw domain sp of
             (Some e, _) \<Rightarrow> (Some e, None)
           | (None, err) \<Rightarrow> firstSRV nw domain (if err = None then lastErr else err) sps)"

definition srv :: "network \<Rightarrow> string \<Rightarrow> Settings option \<times> dns_error option" where
  "srv nw domain =
     (case firstSRV nw domain None srvSMTP of
        (None, errS) \<Rightarrow> (None, errS)
      | (Some smtp, _) \<Rightarrow>
          (case firstSRV nw domain None srvIMAP of
             (None, errI) \<Rightarrow> (None, errI)
           | (Some imap, _) \<Rightarrow> (Some \<lparr>se_SMTP = smtp, se_IMAP = imap\<rparr>, None)))"

section \<open>The chain\<close>

definition fromSettings :: "suffix_list \<Rightarrow> string \<Rightarrow> string \<Rightarrow> Settings \<Rightarrow> string list \<Rightarrow> Detection" where
  "fromSettings psl domain source s mx =
     (let hv = classify psl (ep_Host (se_SMTP s));
          hv = (if fst hv = [] then classify psl (ep_Host (se_IMAP s)) else hv)
      in if fst hv = []
         then \<lparr>dt_Domain = domain, dt_Host = ''other'', dt_Source = source, dt_Settings = Some s,
               dt_PasswordAuth = ''password'', dt_AppPasswordURL = [], dt_MX = mx\<rparr>
         else (detection domain (Refine psl (fst hv) domain) (snd hv) source mx)\<lparr>dt_Settings := Some s\<rparr>)"

definition registrableDomain :: "suffix_list \<Rightarrow> string \<Rightarrow> string" where
  "registrableDomain psl host =
     (case registrable psl host of (label, suffix) \<Rightarrow> if label = [] then [] else label @ ''.'' @ suffix)"

fun first_classified :: "suffix_list \<Rightarrow> string list \<Rightarrow> (Host \<times> variant) option" where
  "first_classified psl [] = None"
| "first_classified psl (h # hs) =
     (if fst (classify psl h) \<noteq> [] then Some (classify psl h) else first_classified psl hs)"

definition orElse :: "'a option \<Rightarrow> 'a option \<Rightarrow> 'a option" where
  "orElse x y = (case x of None \<Rightarrow> y | Some _ \<Rightarrow> x)"

definition ispdb_of_mx :: "suffix_list \<Rightarrow> network \<Rightarrow> detector \<Rightarrow> string \<Rightarrow> string list \<Rightarrow> Settings option" where
  "ispdb_of_mx psl nw d domain mx =
     (case mx of
        [] \<Rightarrow> None
      | m # _ \<Rightarrow>
          let reg = registrableDomain psl m
          in if reg \<noteq> [] \<and> reg \<noteq> domain then ispdb nw d reg domain else None)"

definition nothing_found :: "string \<Rightarrow> string list \<Rightarrow> Detection" where
  "nothing_found domain mx =
     \<lparr>dt_Domain = domain, dt_Host = (if mx \<noteq> [] then ''other'' else []), dt_Source = ''none'',
      dt_Settings = None, dt_PasswordAuth = (if mx \<noteq> [] then ''password'' else ''unsupported''),
      dt_AppPasswordURL = [], dt_MX = mx\<rparr>"

definition detect_chain :: "suffix_list \<Rightarrow> network \<Rightarrow> detector \<Rightarrow> string \<Rightarrow> Detection \<times> bool" where
  "detect_chain psl nw d domain =
     (case known psl domain of
        Some (h, v) \<Rightarrow> (detection domain h v ''known'' [], True)
      | None \<Rightarrow>
          (case lookupMX nw domain of
             (mx, mxErr) \<Rightarrow>
               (case first_classified psl mx of
                  Some (h, v) \<Rightarrow> (detection domain (Refine psl h domain) v ''mx'' mx, True)
                | None \<Rightarrow>
                    (case autoconfig nw domain (autoconfigURLs domain) of
                       Some s \<Rightarrow> (fromSettings psl domain ''autoconfig'' s mx, True)
                     | None \<Rightarrow>
                         (case orElse (ispdb nw d domain domain) (ispdb_of_mx psl nw d domain mx) of
                            Some s \<Rightarrow> (fromSettings psl domain ''ispdb'' s mx, True)
                          | None \<Rightarrow>
                              (case srv nw domain of
                                 (Some s, _) \<Rightarrow> (fromSettings psl domain ''srv'' s mx, True)
                               | (None, err) \<Rightarrow>
                                   (nothing_found domain mx,
                                    \<not> (mxErr = Some Transient \<or> err \<noteq> None
                                       \<or> nw_expired nw domain AtTheEnd))))))))"

text \<open>The cache is the map it holds, if there is one.\<close>

type_synonym detections = "(string \<Rightarrow> Detection option) option"

definition Detect ::
  "suffix_list \<Rightarrow> idna \<Rightarrow> network \<Rightarrow> detector \<Rightarrow> detections \<Rightarrow> string \<Rightarrow> Detection \<times> detections" where
  "Detect psl to_ascii nw d cache domain =
     (let norm = NormalizeDomain to_ascii domain
      in if norm = []
         then (\<lparr>dt_Domain = to_lower (trim_space domain), dt_Host = [], dt_Source = ''none'',
                dt_Settings = None, dt_PasswordAuth = ''unsupported'', dt_AppPasswordURL = [], dt_MX = []\<rparr>,
               cache)
         else case (case cache of None \<Rightarrow> None | Some c \<Rightarrow> c norm) of
                Some hit \<Rightarrow> (hit, cache)
              | None \<Rightarrow>
                  (case detect_chain psl nw d norm of
                     (det, cacheable) \<Rightarrow>
                       (det, if cacheable then map_option (\<lambda>c. c(norm \<mapsto> det)) cache else cache)))"

text \<open>
  Many domains: one detection for each distinct normal form, under the first input that has
  it, then every input gets its form's answer. The detections run concurrently over a cache
  that may change between them, so each is given the cache it sees.
\<close>

definition many_key :: "idna \<Rightarrow> string \<Rightarrow> string" where
  "many_key to_ascii i =
     (let n = NormalizeDomain to_ascii i in if n = [] then CHR 0x00 # i else n)"

fun group_inputs :: "idna \<Rightarrow> (string \<times> string list) list \<Rightarrow> string list \<Rightarrow> (string \<times> string list) list" where
  "group_inputs to_ascii acc [] = acc"
| "group_inputs to_ascii acc (i # is) =
     (if trim_space i = [] then group_inputs to_ascii acc is
      else let n = many_key to_ascii i
           in if n \<in> fst ` set acc
              then group_inputs to_ascii (map (\<lambda>(k, xs). (k, if k = n then xs @ [i] else xs)) acc) is
              else group_inputs to_ascii (acc @ [(n, [i])]) is)"

definition DetectMany ::
  "suffix_list \<Rightarrow> idna \<Rightarrow> network \<Rightarrow> detector \<Rightarrow> (string \<Rightarrow> detections) \<Rightarrow> string list
   \<Rightarrow> string \<Rightarrow> Detection option" where
  "DetectMany psl to_ascii nw d seen_cache domains =
     map_of (concat (map (\<lambda>(n, ins). map (\<lambda>i. (i, fst (Detect psl to_ascii nw d (seen_cache n) (hd ins)))) ins)
                      (group_inputs to_ascii [] domains)))"

text \<open>
  Who hosts a recipient's domain, from DNS alone; \<open>txt\<close> is the TXT lookup, \<open>None\<close> its error.
  The flag is false when the answer should be asked again.
\<close>

definition Recipient ::
  "suffix_list \<Rightarrow> idna \<Rightarrow> network \<Rightarrow> (string \<Rightarrow> string list option) \<Rightarrow> string \<Rightarrow> Host \<times> bool" where
  "Recipient psl to_ascii nw txt domain =
     (let norm = NormalizeDomain to_ascii domain
      in if norm = [] then ([], True)
         else if recipientKnown psl norm \<noteq> [] then (recipientKnown psl norm, True)
         else case lookupMX nw norm of
           (mx, Some e) \<Rightarrow> ([], e = NotFound)
         | (mx, None) \<Rightarrow>
             if mx = [] then ([], True)
             else case first_classified psl mx of
               Some (h, _) \<Rightarrow> (Refine psl h norm, True)
             | None \<Rightarrow>
                 let h = (case txt norm of None \<Rightarrow> [] | Some txts \<Rightarrow> fromSPF psl norm txts)
                 in (if h \<noteq> [] then h else ''other'', True))"

section \<open>Servers that can be dialled\<close>

definition usable_endpoint :: "Endpoint \<Rightarrow> bool" where
  "usable_endpoint e \<longleftrightarrow>
     validHostname (ep_Host e) \<and> 1 \<le> ep_Port e \<and> ep_Port e \<le> 65535
     \<and> ep_Security e \<in> {''tls'', ''starttls''}"

definition usable :: "Settings \<Rightarrow> bool" where
  "usable s \<longleftrightarrow> usable_endpoint (se_SMTP s) \<and> usable_endpoint (se_IMAP s)"

lemma endpoint_usable: "endpoint s kind domain = Some e \<Longrightarrow> usable_endpoint e"
  by (auto simp: endpoint_def usable_endpoint_def ep_def Let_def defaultPort_def
      split: if_splits option.splits)

lemma pick_loop_usable:
  assumes "pick_loop kind domain rank best ss = Some (e, r)"
    and "\<And>e r. best = Some (e, r) \<Longrightarrow> usable_endpoint e"
  shows "usable_endpoint e"
  using assms
proof (induction ss arbitrary: best)
  case (Cons s ss)
  show ?case
  proof (cases "endpoint s kind domain")
    case None
    then show ?thesis using Cons.IH [OF _ Cons.prems(2)] Cons.prems(1) by (simp split: if_splits)
  next
    case (Some x)
    then have "usable_endpoint x" by (rule endpoint_usable)
    then show ?thesis
      using Cons.IH [OF _ Cons.prems(2)] Cons.IH [of "Some (x, rank x)"] Cons.prems(1) Some
      by (auto split: if_splits)
  qed
qed simp

lemma parse_usable:
  assumes "parseClientConfig cfg domain = Some s"
  shows "usable s"
proof -
  have p: "usable_endpoint e" if "pick servers kind domain rank = Some e" for servers kind rank e
    using that pick_loop_usable [of kind domain rank None servers] by (auto simp: pick_def)
  show ?thesis
    using assms by (auto simp: parseClientConfig_def usable_def split: option.splits prod.splits intro: p)
qed

lemma autoconfig_usable: "autoconfig nw domain us = Some s \<Longrightarrow> usable s"
  by (induction us) (auto split: if_splits option.splits intro: parse_usable)

lemma ispdb_usable: "ispdb nw d lookup domain = Some s \<Longrightarrow> usable s"
  by (auto simp: ispdb_def split: if_splits intro: parse_usable)

lemma ispdb_of_mx_usable: "ispdb_of_mx psl nw d domain mx = Some s \<Longrightarrow> usable s"
  by (auto simp: ispdb_of_mx_def Let_def split: list.splits if_splits intro: ispdb_usable)

text \<open>Ports of SRV records are 16-bit numbers.\<close>

definition ports_ok :: "network \<Rightarrow> bool" where
  "ports_ok nw \<longleftrightarrow> (\<forall>domain service. \<forall>r \<in> set (fst (nw_SRV nw domain service)). 0 \<le> snd r \<and> snd r \<le> 65535)"

lemma srv_record_usable:
  assumes "srv_record sec rs = Some (Some e)" "\<forall>r \<in> set rs. 0 \<le> snd r \<and> snd r \<le> 65535"
    and "sec \<in> {''tls'', ''starttls''}"
  shows "usable_endpoint e"
  using assms
proof (induction rs)
  case (Cons r rs)
  obtain target port where r: "r = (target, port)" by fastforce
  from Cons show ?case unfolding r
    by (auto simp: Let_def usable_endpoint_def ep_def split: if_splits)
qed simp

lemma firstSRV_usable:
  assumes "firstSRV nw domain err sps = (Some e, err')" "ports_ok nw"
    and "\<forall>sp \<in> set sps. snd sp \<in> {''tls'', ''starttls''}"
  shows "usable_endpoint e"
  using assms(1,3)
proof (induction sps arbitrary: err)
  case (Cons sp sps)
  show ?case
  proof (cases "lookupSRV nw domain sp")
    case (Pair x y)
    show ?thesis
    proof (cases x)
      case None
      with Cons Pair show ?thesis by (auto split: if_splits)
    next
      case (Some z)
      then have "srv_record (snd sp) (fst (nw_SRV nw domain (fst sp))) = Some (Some z)"
        using Pair by (auto simp: lookupSRV_def split: prod.splits option.splits)
      then have "usable_endpoint z"
        using assms(2) Cons.prems(2) by (intro srv_record_usable) (auto simp: ports_ok_def)
      with Cons.prems(1) Pair Some show ?thesis by (auto split: if_splits)
    qed
  qed
qed simp

lemma srv_usable:
  assumes "srv nw domain = (Some s, err)" "ports_ok nw"
  shows "usable s"
proof (cases "firstSRV nw domain None srvSMTP")
  case A: (Pair a ea)
  show ?thesis
  proof (cases "firstSRV nw domain None srvIMAP")
    case B: (Pair b eb)
    from assms(1) A B obtain x y where xy: "a = Some x" "b = Some y" "s = \<lparr>se_SMTP = x, se_IMAP = y\<rparr>"
      unfolding srv_def by (auto split: option.splits)
    have "usable_endpoint x"
      by (rule firstSRV_usable [OF A [unfolded xy] assms(2)]) (simp add: srvSMTP_def)
    moreover have "usable_endpoint y"
      by (rule firstSRV_usable [OF B [unfolded xy] assms(2)]) (simp add: srvIMAP_def)
    ultimately show ?thesis by (simp add: usable_def xy)
  qed
qed

text \<open>The variants the classification answers, and the conventional servers for them.\<close>

definition zone_ok :: "Host \<Rightarrow> variant \<Rightarrow> bool" where
  "zone_ok h v \<longleftrightarrow>
     (h = ''zoho'' \<longrightarrow> va_zone v \<in> set ([] # zohoZones))
     \<and> (h = ''ionos'' \<longrightarrow> va_zone v \<in> set ([] # ionosTLDs))
     \<and> (h = ''gmx'' \<longrightarrow> va_zone v \<in> {[], ''net'', ''com''})"

definition usable_or_none :: "Settings option \<Rightarrow> bool" where
  "usable_or_none s \<longleftrightarrow> (case s of None \<Rightarrow> True | Some s \<Rightarrow> usable s)"

lemma fixed_servers_usable: "list_all (\<lambda>(h, s). usable_or_none s) fixed_servers"
  by code_simp

lemma zoho_usable:
  "list_all (\<lambda>z. list_all (\<lambda>p. usable_or_none (settingsFor ''zoho'' \<lparr>va_zone = z, va_personal = p\<rparr>))
     [True, False]) ([] # zohoZones)"
  by code_simp

lemma ionos_usable:
  "list_all (\<lambda>z. list_all (\<lambda>p. usable_or_none (settingsFor ''ionos'' \<lparr>va_zone = z, va_personal = p\<rparr>))
     [True, False]) ([] # ionosTLDs)"
  by code_simp

lemma gmx_usable:
  "list_all (\<lambda>z. list_all (\<lambda>p. usable_or_none (settingsFor ''gmx'' \<lparr>va_zone = z, va_personal = p\<rparr>))
     [True, False]) [[], ''net'', ''com'']"
  by code_simp

lemma settings_usable:
  assumes "settingsFor h v = Some s" "zone_ok h v"
  shows "usable s"
proof -
  obtain z p where v: "v = \<lparr>va_zone = z, va_personal = p\<rparr>" by (cases v)
  consider "h = ''zoho''" | "h = ''ionos''" | "h = ''gmx''" | "h \<noteq> ''zoho''" "h \<noteq> ''ionos''" "h \<noteq> ''gmx''"
    by blast
  then have "usable_or_none (settingsFor h v)"
  proof cases
    case 1
    then show ?thesis using zoho_usable assms(2) unfolding v by (cases p) (auto simp: list_all_iff zone_ok_def)
  next
    case 2
    then show ?thesis using ionos_usable assms(2) unfolding v by (cases p) (auto simp: list_all_iff zone_ok_def)
  next
    case 3
    then show ?thesis using gmx_usable assms(2) unfolding v by (cases p) (auto simp: list_all_iff zone_ok_def)
  next
    case 4
    then have m: "settingsFor h v = (case map_of fixed_servers h of None \<Rightarrow> None | Some s \<Rightarrow> s)"
      by (simp add: settingsFor_def)
    show ?thesis
      unfolding m using fixed_servers_usable
      by (auto simp: list_all_iff usable_or_none_def split: option.splits dest!: map_of_SomeD)
  qed
  with assms(1) show ?thesis by (simp add: usable_or_none_def)
qed

section \<open>What a detection holds\<close>

definition Sources :: "string set" where
  "Sources = {''known'', ''mx'', ''autoconfig'', ''ispdb'', ''srv'', ''none''}"

definition AuthKinds :: "string set" where
  "AuthKinds = {''app_password'', ''password'', ''oauth_only'', ''unsupported''}"

definition well_formed :: "Detection \<Rightarrow> bool" where
  "well_formed det \<longleftrightarrow>
     host_Valid (dt_Host det)
     \<and> dt_Source det \<in> Sources
     \<and> dt_PasswordAuth det \<in> AuthKinds
     \<and> usable_or_none (dt_Settings det)
     \<and> (dt_Source det \<noteq> ''none'' \<longrightarrow> dt_Host det \<noteq> [])
     \<and> (dt_Source det = ''none'' \<longrightarrow> dt_Settings det = None)"

definition good_class :: "Host \<times> variant \<Rightarrow> bool" where
  "good_class hv \<longleftrightarrow> host_Valid (fst hv) \<and> zone_ok (fst hv) (snd hv)"

lemma server_answers:
  "map snd server_cases =
     map (\<lambda>h. (h, [])) [''gmail'', ''outlook'', ''microsoft365'', ''yahoo'', ''aol'', ''icloud'', ''fastmail'',
       ''godaddy'', ''namecheap'']
     @ [(''ionos'', ''com''), (''ionos'', ''de'')]
     @ map (\<lambda>h. (h, [])) [''hostinger'', ''ovh'', ''migadu'', ''purelymail'', ''rackspace'', ''proton'']"
  by (simp add: server_cases_def)

lemma answers_good:
  "list_all (\<lambda>(h, z). good_class (h, no_variant\<lparr>va_zone := z\<rparr>))
     (map (\<lambda>h. (h, [])) [''gmail'', ''outlook'', ''microsoft365'', ''yahoo'', ''aol'', ''icloud'', ''fastmail'',
       ''godaddy'', ''namecheap'']
     @ [(''ionos'', ''com''), (''ionos'', ''de'')]
     @ map (\<lambda>h. (h, [])) [''hostinger'', ''ovh'', ''migadu'', ''purelymail'', ''rackspace'', ''proton''])"
  by code_simp

lemma server_cases_good: "list_all (\<lambda>(c, h, z). good_class (h, no_variant\<lparr>va_zone := z\<rparr>)) server_cases"
  using answers_good unfolding server_answers [symmetric] by (auto simp: list_all_iff)

lemma zohoZones_good: "list_all (\<lambda>z. good_class (''zoho'', no_variant\<lparr>va_zone := z\<rparr>)) zohoZones"
  by code_simp

lemma gmxZone_cases: "gmxZone s = ''net'' \<or> gmxZone s = ''com''"
  by (simp add: gmxZone_def)

lemma plain_good:
  "good_class ([], v)" "good_class (''outlook'', v)" "good_class (''yahoo'', v)" "good_class (''yandex'', v)"
  by (simp_all add: good_class_def host_Valid_def labels_def zone_ok_def)

lemma ionos_good: "z \<in> set ionosTLDs \<Longrightarrow> good_class (''ionos'', no_variant\<lparr>va_zone := z\<rparr>)"
  by (simp add: good_class_def host_Valid_def labels_def zone_ok_def no_variant_def)

lemma gmx_good: "good_class (''gmx'', no_variant\<lparr>va_zone := gmxZone s\<rparr>)"
  using gmxZone_cases [of s] by (auto simp: good_class_def host_Valid_def labels_def zone_ok_def no_variant_def)

lemma com_ionos: "''com'' \<in> set ionosTLDs"
  by (simp add: ionosTLDs_def)

lemma find_good: "list_all P xs \<Longrightarrow> find Q xs = Some x \<Longrightarrow> P x"
  by (auto simp: find_Some_iff list_all_length)

lemma classify_good: "good_class (classify psl host)"
proof (cases "find (\<lambda>c. fst c (normHost host)) server_cases")
  case (Some c)
  obtain p h z where c: "c = (p, h, z)" by (cases c)
  from find_good [OF server_cases_good Some] c Some show ?thesis
    by (simp add: classify_def Let_def plain_good)
next
  case s: None
  show ?thesis
  proof (cases "find (under (normHost host)) zohoZones")
    case (Some z)
    from find_good [OF zohoZones_good Some] Some s show ?thesis
      by (simp add: classify_def Let_def plain_good)
  next
    case None
    obtain l x where r: "registrable psl (normHost host) = (l, x)" by (cases "registrable psl (normHost host)")
    show ?thesis unfolding classify_def Let_def s None r option.case prod.case
      by (auto simp: ionos_good com_ionos gmx_good plain_good)
  qed
qed

lemma known_domains_good:
  "list_all (\<lambda>(d, h, z, p). good_class (h, \<lparr>va_zone = z, va_personal = p\<rparr>) \<and> h \<noteq> []) known_domains"
  by code_simp

lemma known_good:
  assumes "known psl domain = Some hv"
  shows "good_class hv" "fst hv \<noteq> []"
proof -
  have "good_class hv \<and> fst hv \<noteq> []"
  proof (cases "map_of known_domains domain")
    case (Some x)
    obtain h z p where x: "x = (h, z, p)" by (cases x)
    have "(domain, h, z, p) \<in> set known_domains" using map_of_SomeD [OF Some] x by simp
    then have "good_class (h, \<lparr>va_zone = z, va_personal = p\<rparr>) \<and> h \<noteq> []"
      using known_domains_good unfolding list_all_iff by fast
    with assms Some x show ?thesis by (auto simp: known_def)
  next
    case None
    show ?thesis
    proof (cases "registrable psl domain")
      case (Pair l x)
      from assms None Pair show ?thesis unfolding known_def
        by (auto simp: gmx_good plain_good split: if_splits)
    qed
  qed
  then show "good_class hv" "fst hv \<noteq> []" by auto
qed

lemma google_good: "good_class (''gmail'', v)" "good_class (''google_workspace'', v)" "good_class (''other'', v)"
  by (simp_all add: good_class_def host_Valid_def labels_def zone_ok_def)

lemma Refine_values:
  "Refine psl h domain = h \<or> Refine psl h domain = ''gmail'' \<or> Refine psl h domain = ''google_workspace''
   \<or> Refine psl h domain = ''outlook''"
  unfolding Refine_def Let_def by argo

lemma Refine_good: "good_class (h, v) \<Longrightarrow> good_class (Refine psl h domain, v)"
  using Refine_values [of psl h domain] google_good(1,2) [of v] plain_good(2) [of v] by metis

lemma Refine_nonempty: "h \<noteq> [] \<Longrightarrow> Refine psl h domain \<noteq> []"
  using Refine_values [of psl h domain] by auto

lemma Sources_members [simp]:
  "''known'' \<in> Sources" "''mx'' \<in> Sources" "''autoconfig'' \<in> Sources" "''ispdb'' \<in> Sources"
  "''srv'' \<in> Sources" "''none'' \<in> Sources"
  by (simp_all add: Sources_def)

lemma AuthKinds_members [simp]: "''password'' \<in> AuthKinds" "''unsupported'' \<in> AuthKinds"
  by (simp_all add: AuthKinds_def)

lemma password_auth_values: "PasswordAuthFor h \<in> AuthKinds"
  unfolding PasswordAuthFor_def AuthKinds_def by simp

lemma detection_well_formed:
  assumes "good_class (h, v)" "h \<noteq> []" "source \<in> Sources" "source \<noteq> ''none''"
  shows "well_formed (detection domain h v source mx)"
proof -
  have "usable_or_none (settingsFor h v)"
    using assms(1) by (auto simp: usable_or_none_def good_class_def split: option.splits intro: settings_usable)
  then show ?thesis
    unfolding well_formed_def detection_def Detection.select_convs
    using assms password_auth_values by (simp add: good_class_def)
qed

lemma fromSettings_well_formed:
  assumes "usable s" "source \<in> Sources" "source \<noteq> ''none''"
  shows "well_formed (fromSettings psl domain source s mx)"
proof -
  have over: "well_formed (det\<lparr>dt_Settings := Some s\<rparr>)"
    if "well_formed det" "dt_Source det \<noteq> ''none''" for det
    using that assms(1) unfolding well_formed_def usable_or_none_def by simp
  have classed: "well_formed ((detection domain (Refine psl (fst hv) domain) (snd hv) source mx)\<lparr>dt_Settings := Some s\<rparr>)"
    if "good_class hv" "fst hv \<noteq> []" for hv
    using that assms
    by (intro over detection_well_formed) (simp_all add: Refine_good Refine_nonempty detection_def)
  have other: "well_formed \<lparr>dt_Domain = domain, dt_Host = ''other'', dt_Source = source, dt_Settings = Some s,
      dt_PasswordAuth = ''password'', dt_AppPasswordURL = [], dt_MX = mx\<rparr>"
    using assms google_good(3) [of no_variant]
    unfolding well_formed_def usable_or_none_def good_class_def by simp
  show ?thesis
    unfolding fromSettings_def Let_def using other classed [OF classify_good] by simp
qed

lemma nothing_well_formed: "well_formed (nothing_found domain mx)"
  by (simp add: well_formed_def nothing_found_def usable_or_none_def host_Valid_def labels_def)

lemma first_classified_good:
  "first_classified psl hs = Some hv \<Longrightarrow> good_class hv \<and> fst hv \<noteq> []"
  by (induction hs) (auto simp: classify_good split: if_splits)

lemma chain_well_formed:
  assumes "ports_ok nw"
  shows "well_formed (fst (detect_chain psl nw d domain))"
proof (cases "known psl domain")
  case (Some hv)
  obtain h v where "hv = (h, v)" by (cases hv)
  with known_good [OF Some] Some show ?thesis
    by (simp add: detect_chain_def detection_well_formed)
next
  case k: None
  obtain mx me where mx: "lookupMX nw domain = (mx, me)" by (cases "lookupMX nw domain")
  show ?thesis
  proof (cases "first_classified psl mx")
    case (Some hv)
    obtain h v where "hv = (h, v)" by (cases hv)
    with first_classified_good [OF Some] Some k mx show ?thesis
      by (simp add: detect_chain_def detection_well_formed Refine_good Refine_nonempty)
  next
    case c: None
    have u: "usable s" if "orElse (ispdb nw d domain domain) (ispdb_of_mx psl nw d domain mx) = Some s" for s
      using that by (auto simp: orElse_def split: option.splits intro: ispdb_usable ispdb_of_mx_usable)
    obtain s err where srv: "srv nw domain = (s, err)" by (cases "srv nw domain")
    show ?thesis
      unfolding detect_chain_def k mx c srv option.case prod.case
      using srv_usable [of nw domain _ err] assms srv
      by (auto split: option.splits
          intro!: fromSettings_well_formed nothing_well_formed intro: autoconfig_usable u)
  qed
qed

definition cache_well_formed :: "detections \<Rightarrow> bool" where
  "cache_well_formed cache \<longleftrightarrow>
     (\<forall>c k det. cache = Some c \<longrightarrow> c k = Some det \<longrightarrow> well_formed det)"

text \<open>
  Claim C24. Detection only ever answers, and only ever caches, well-formed detections: a known
  provider, one of the six sources, one of the four ways a password signs in; a detection
  with a source names a provider, one without a source has no servers; and every server it
  gives can be dialled: a valid hostname, a port from 1 to 65535, and TLS or STARTTLS, wherever
  the servers come from.
\<close>

theorem detections_well_formed:
  assumes "ports_ok nw" "cache_well_formed cache"
  shows "well_formed (fst (Detect psl to_ascii nw d cache domain))
    \<and> cache_well_formed (snd (Detect psl to_ascii nw d cache domain))"
proof (cases "NormalizeDomain to_ascii domain = []")
  case True
  then show ?thesis
    using assms(2)
    by (simp add: Detect_def Let_def well_formed_def usable_or_none_def host_Valid_def)
next
  case False
  define norm where "norm = NormalizeDomain to_ascii domain"
  obtain det ok where chain: "detect_chain psl nw d norm = (det, ok)" by (cases "detect_chain psl nw d norm")
  have wf: "well_formed det" using chain_well_formed [OF assms(1), of psl d norm] chain by simp
  show ?thesis
  proof (cases "case cache of None \<Rightarrow> None | Some c \<Rightarrow> c norm")
    case None
    with False wf assms(2) show ?thesis
      by (auto simp: Detect_def Let_def norm_def [symmetric] chain cache_well_formed_def
          split: if_splits cong: option.case_cong)
  next
    case (Some hit)
    with assms(2) have "well_formed hit" by (auto simp: cache_well_formed_def split: option.splits)
    with Some False assms(2) show ?thesis
      by (simp add: Detect_def Let_def norm_def [symmetric] cong: option.case_cong)
  qed
qed

text \<open>A domain whose mail is announced by SRV records only, over an empty cache.\<close>

definition sample_network :: network where
  "sample_network =
     \<lparr>nw_MX = \<lambda>_. ([], Some NotFound),
      nw_SRV = \<lambda>_ service. if service = ''submissions'' then ([(''Mail.acme.test.'', 465)], None)
                           else if service = ''imaps'' then ([(''mail.acme.test'', 993)], None)
                           else ([], Some NotFound),
      nw_document = \<lambda>_. None, nw_expired = \<lambda>_ _. False\<rparr>"

definition sample_detector :: detector where
  "sample_detector = \<lparr>de_ispdbBase = [], de_escape = id\<rparr>"

definition sample_psl :: suffix_list where
  "sample_psl = (\<lambda>s. if s = ''mail.acme.test'' then Some ''acme.test'' else Some s)"

lemma sample_ports: "ports_ok sample_network"
  by (simp add: ports_ok_def sample_network_def)

lemma sample_detection:
  "map_option (\<lambda>s. (ep_Host (se_SMTP s), ep_Port (se_IMAP s)))
     (dt_Settings (fst (Detect sample_psl Some sample_network sample_detector (Some Map.empty) ''Info@Acme.test'')))
   = Some (''mail.acme.test'', 993)"
  by code_simp

lemma detections_well_formed_witness:
  "well_formed (fst (Detect sample_psl Some sample_network sample_detector (Some Map.empty) ''Info@Acme.test''))
   \<and> dt_Settings (fst (Detect sample_psl Some sample_network sample_detector (Some Map.empty) ''Info@Acme.test'')) \<noteq> None"
proof -
  have "cache_well_formed (Some Map.empty)" by (simp add: cache_well_formed_def)
  from detections_well_formed [OF sample_ports this, of sample_psl Some sample_detector "''Info@Acme.test''"]
  show ?thesis using sample_detection by auto
qed

section \<open>What is cached\<close>

lemma chain_not_cacheable:
  assumes "detect_chain psl nw d domain = (det, True)" "dt_Source det = ''none''"
  shows "snd (lookupMX nw domain) \<noteq> Some Transient \<and> snd (srv nw domain) = None
    \<and> \<not> nw_expired nw domain AtTheEnd"
proof -
  have detn: "dt_Source (detection domain h v source mx) = source" for h v source mx
    by (simp add: detection_def)
  have setn: "dt_Source (fromSettings psl domain source s mx) = source" for source s mx
    by (simp add: fromSettings_def Let_def detn)
  show ?thesis
    using assms unfolding detect_chain_def
    by (auto simp: detn setn split: option.splits prod.splits)
qed



lemma recipient_retry:
  assumes "snd (Recipient psl to_ascii nw txt domain) = False"
  shows "fst (Recipient psl to_ascii nw txt domain) = []"
    "snd (lookupMX nw (NormalizeDomain to_ascii domain)) = Some Transient"
proof -
  have t: "e \<noteq> NotFound \<longleftrightarrow> e = Transient" for e by (cases e) auto
  show "fst (Recipient psl to_ascii nw txt domain) = []"
    "snd (lookupMX nw (NormalizeDomain to_ascii domain)) = Some Transient"
    using assms unfolding Recipient_def Let_def
    by (auto simp: t split: if_splits prod.splits option.splits)
qed

section \<open>Many domains\<close>

definition grouped :: "idna \<Rightarrow> (string \<times> string list) list \<Rightarrow> string set \<Rightarrow> bool" where
  "grouped to_ascii acc seen \<longleftrightarrow>
     distinct (map fst acc)
     \<and> (\<forall>n ins. (n, ins) \<in> set acc \<longrightarrow> ins \<noteq> [] \<and> (\<forall>i \<in> set ins. many_key to_ascii i = n))
     \<and> (\<forall>i. (\<exists>n ins. (n, ins) \<in> set acc \<and> i \<in> set ins) \<longleftrightarrow> i \<in> seen)"

lemma grouped_add:
  assumes "grouped to_ascii acc seen" "n = many_key to_ascii i" "n \<in> fst ` set acc"
  shows "grouped to_ascii (map (\<lambda>(k, xs). (k, if k = n then xs @ [i] else xs)) acc) (insert i seen)"
    (is "grouped _ ?acc _")
proof -
  have keys: "map fst ?acc = map fst acc" by (simp add: case_prod_beta comp_def)
  have mem: "(k, ins) \<in> set ?acc \<longleftrightarrow> (\<exists>xs. (k, xs) \<in> set acc \<and> ins = (if k = n then xs @ [i] else xs))" for k ins
    by force
  have "distinct (map fst ?acc)" unfolding keys using assms(1) by (simp add: grouped_def)
  moreover have "ins \<noteq> [] \<and> (\<forall>j \<in> set ins. many_key to_ascii j = k)" if in_acc: "(k, ins) \<in> set ?acc" for k ins
  proof -
    obtain xs where xs: "(k, xs) \<in> set acc" "ins = (if k = n then xs @ [i] else xs)"
      using in_acc unfolding mem by blast
    then have "xs \<noteq> [] \<and> (\<forall>j \<in> set xs. many_key to_ascii j = k)"
      using assms(1) unfolding grouped_def by blast
    with xs(2) assms(2) show ?thesis by simp
  qed
  moreover have "(\<exists>k ins. (k, ins) \<in> set ?acc \<and> j \<in> set ins) \<longleftrightarrow> j \<in> insert i seen" for j
  proof -
    obtain xs where n: "(n, xs) \<in> set acc" using assms(3) by force
    have s: "(\<exists>k ins. (k, ins) \<in> set acc \<and> j \<in> set ins) \<longleftrightarrow> j \<in> seen"
      using assms(1) by (simp add: grouped_def)
    have "(\<exists>k ins. (k, ins) \<in> set ?acc \<and> j \<in> set ins)
      \<longleftrightarrow> (\<exists>k xs. (k, xs) \<in> set acc \<and> j \<in> set (if k = n then xs @ [i] else xs))"
      unfolding mem by blast
    also have "\<dots> \<longleftrightarrow> j = i \<or> (\<exists>k ins. (k, ins) \<in> set acc \<and> j \<in> set ins)"
      using n by (auto split: if_splits)
    finally show ?thesis using s by simp
  qed
  ultimately show ?thesis unfolding grouped_def by blast
qed

lemma grouped_new:
  assumes "grouped to_ascii acc seen" "n = many_key to_ascii i" "n \<notin> fst ` set acc"
  shows "grouped to_ascii (acc @ [(n, [i])]) (insert i seen)"
proof -
  have "distinct (map fst (acc @ [(n, [i])]))" using assms by (auto simp: grouped_def)
  moreover have "(\<exists>k ins. (k, ins) \<in> set (acc @ [(n, [i])]) \<and> j \<in> set ins) \<longleftrightarrow> j \<in> insert i seen" for j
  proof -
    have s: "(\<exists>k ins. (k, ins) \<in> set acc \<and> j \<in> set ins) \<longleftrightarrow> j \<in> seen"
      using assms(1) by (simp add: grouped_def)
    have "(\<exists>k ins. (k, ins) \<in> set (acc @ [(n, [i])]) \<and> j \<in> set ins)
      \<longleftrightarrow> j \<in> set [i] \<or> (\<exists>k ins. (k, ins) \<in> set acc \<and> j \<in> set ins)"
      unfolding set_append list.set(2) [of "(n, [i])"] list.set(1) by blast
    then show ?thesis unfolding s by simp
  qed
  moreover have "ins \<noteq> [] \<and> (\<forall>j \<in> set ins. many_key to_ascii j = k)"
    if "(k, ins) \<in> set (acc @ [(n, [i])])" for k ins
    using that assms(1,2) unfolding grouped_def by auto
  ultimately show ?thesis unfolding grouped_def by blast
qed

lemma group_inputs_grouped:
  "grouped to_ascii acc seen \<Longrightarrow>
   grouped to_ascii (group_inputs to_ascii acc is) (seen \<union> {i \<in> set is. trim_space i \<noteq> []})"
proof (induction "is" arbitrary: acc seen)
  case (Cons i "is")
  define n where "n = many_key to_ascii i"
  show ?case
  proof (cases "trim_space i = []")
    case True
    then have "{j \<in> set (i # is). trim_space j \<noteq> []} = {j \<in> set is. trim_space j \<noteq> []}" by auto
    with Cons.IH [OF Cons.prems] True show ?thesis by simp
  next
    case False
    then have ins: "seen \<union> {j \<in> set (i # is). trim_space j \<noteq> []}
      = insert i seen \<union> {j \<in> set is. trim_space j \<noteq> []}" by auto
    show ?thesis
    proof (cases "n \<in> fst ` set acc")
      case True
      show ?thesis unfolding ins
        using Cons.IH [OF grouped_add [OF Cons.prems n_def True]] True False
        by (simp add: Let_def n_def [symmetric])
    next
      case new: False
      show ?thesis unfolding ins
        using Cons.IH [OF grouped_new [OF Cons.prems n_def new]] new False
        by (simp add: Let_def n_def [symmetric])
    qed
  qed
qed simp

lemma many_key_determines:
  assumes "many_key to_ascii a = many_key to_ascii b"
  shows "Detect psl to_ascii nw d cache a = Detect psl to_ascii nw d cache b"
proof -
  have nul: "CHR 0x00 # i \<noteq> NormalizeDomain to_ascii x" if "NormalizeDomain to_ascii x \<noteq> []" for i x
  proof
    assume eq: "CHR 0x00 # i = NormalizeDomain to_ascii x"
    have "validHostname (NormalizeDomain to_ascii x)" using NormalizeDomain_valid [of to_ascii x] that by auto
    from validHostname_chars [OF this, of "CHR 0x00"] show False
      unfolding eq [symmetric] by (simp add: label_char_def Let_def)
  qed
  show ?thesis
  proof (cases "a = b")
    case False
    have "NormalizeDomain to_ascii a = NormalizeDomain to_ascii b \<and> NormalizeDomain to_ascii b \<noteq> []"
      using assms False nul [of a b] nul [of b a] by (auto simp: many_key_def Let_def split: if_splits)
    then show ?thesis by (simp add: Detect_def Let_def)
  qed simp
qed

lemma map_of_concat_groups:
  assumes "\<And>n ins j. (n, ins) \<in> set gs \<Longrightarrow> j \<in> set ins \<Longrightarrow> f n ins = g j"
  shows "map_of (concat (map (\<lambda>(n, ins). map (\<lambda>j. (j, f n ins)) ins) gs)) i
    = (if \<exists>n ins. (n, ins) \<in> set gs \<and> i \<in> set ins then Some (g i) else None)"
  using assms
proof (induction gs)
  case (Cons x gs)
  obtain n ins where x: "x = (n, ins)" by (cases x)
  have "map_of (map (\<lambda>j. (j, f n ins)) ins) i = (if i \<in> set ins then Some (f n ins) else None)"
    by (simp add: map_of_map_restrict)
  with Cons show ?case unfolding x by (auto simp: map_add_def)
qed simp

text \<open>
  Claim C25. Detecting many domains at once answers, for every input that is not blank, exactly
  what detecting that input on its own answers with the cache its detection saw, and answers
  nothing for any other text, although one detection is shared by all inputs of a normal form.
\<close>

theorem detect_many_is_detect_each:
  "DetectMany psl to_ascii nw d seen_cache domains i =
     (if i \<in> set domains \<and> trim_space i \<noteq> []
      then Some (fst (Detect psl to_ascii nw d (seen_cache (many_key to_ascii i)) i)) else None)"
proof -
  let ?gs = "group_inputs to_ascii [] domains"
  have g: "grouped to_ascii ?gs {i \<in> set domains. trim_space i \<noteq> []}"
    using group_inputs_grouped [of to_ascii "[]" "{}" domains] by (simp add: grouped_def)
  have eq: "fst (Detect psl to_ascii nw d (seen_cache n) (hd ins))
      = fst (Detect psl to_ascii nw d (seen_cache (many_key to_ascii j)) j)"
    if "(n, ins) \<in> set ?gs" "j \<in> set ins" for n ins j
  proof -
    have k: "ins \<noteq> []" "\<forall>i \<in> set ins. many_key to_ascii i = n"
      using g that(1) unfolding grouped_def by blast+
    then have "many_key to_ascii (hd ins) = n" "many_key to_ascii j = n" using that(2) by auto
    then show ?thesis using many_key_determines by metis
  qed
  have "DetectMany psl to_ascii nw d seen_cache domains i
    = (if \<exists>n ins. (n, ins) \<in> set ?gs \<and> i \<in> set ins
       then Some (fst (Detect psl to_ascii nw d (seen_cache (many_key to_ascii i)) i)) else None)"
    unfolding DetectMany_def by (rule map_of_concat_groups) (rule eq)
  then show ?thesis using g by (simp add: grouped_def)
qed

end
