(* ===== verification/Worker_Placement.thy ===== *)
theory Worker_Placement
  imports Go_Float "HOL-Library.List_Lexorder" "HOL-Library.Product_Lexorder"
begin

text \<open>
  Which worker of the fleet carries a mailbox: \<open>internal/app/worker/capacity.go\<close>,
  \<open>placement.go\<close> and \<open>models.WorkerOperationalCapacity\<close>. A score over live facts, computed in
  \<open>float64\<close> operation by operation; a multiplier read from the database may be NaN, which is
  \<open>None\<close> here, every other value is finite.
\<close>

section \<open>Capacity\<close>

record WorkerCapacityRow =
  wc_LoadScore :: rat
  wc_BaseCapacity :: rat
  wc_HealthMultiplier :: "rat option"
  wc_AgeMultiplier :: "rat option"

record Capacity =
  ca_Base :: rat
  ca_HealthMul :: rat
  ca_AgeMul :: rat
  ca_Load :: rat
  ca_Utilization :: rat
  ca_Target :: rat

definition clampUnit :: "rat option \<Rightarrow> rat" where
  "clampUnit x =
     (case x of None \<Rightarrow> 0 | Some x \<Rightarrow> if x < 0 then 0 else if 1 < x then 1 else x)"

definition WorkerOperationalCapacity :: "rat \<Rightarrow> rat \<Rightarrow> rat \<Rightarrow> rat \<times> rat" where
  "WorkerOperationalCapacity load base health =
     (let health = max 0 (min 1 health);
          target = of_int \<lfloor>fmul base health\<rfloor>;
          target = (if target < 1 then 1 else target)
      in (target, fdiv load target))"

definition ComputeCapacity :: "WorkerCapacityRow \<Rightarrow> Capacity" where
  "ComputeCapacity row =
     (let health = clampUnit (wc_HealthMultiplier row);
          (target, utilization) =
            WorkerOperationalCapacity (wc_LoadScore row) (wc_BaseCapacity row) health
      in \<lparr>ca_Base = wc_BaseCapacity row, ca_HealthMul = health,
          ca_AgeMul = clampUnit (wc_AgeMultiplier row), ca_Load = wc_LoadScore row,
          ca_Utilization = utilization, ca_Target = target\<rparr>)"

definition MailboxWeight :: "string \<Rightarrow> bool \<Rightarrow> rat" where
  "MailboxWeight provider isWarmup = 1"

section \<open>The score\<close>

definition weightHeadroom :: rat where "weightHeadroom = 1"
definition weightIncumbent :: rat where "weightIncumbent = 2"
definition weightRegion :: rat where "weightRegion = f64 (6 / 10)"
definition weightIsolation :: rat where "weightIsolation = f64 (15 / 10)"
definition weightBlastRadius :: rat where "weightBlastRadius = f64 (8 / 10)"
definition weightProviderLoad :: rat where "weightProviderLoad = f64 (7 / 10)"
definition weightNewWorker :: rat where "weightNewWorker = f64 (5 / 10)"
definition weightOverTarget :: rat where "weightOverTarget = 3"
definition weightOverload :: rat where "weightOverload = 4"
definition providerSoftCap :: rat where "providerSoftCap = 24"

record PlacementCandidate =
  pc_WorkerID :: uuid
  pc_Region :: string
  pc_Capacity :: Capacity
  pc_Health :: string
  pc_TotalMailboxes :: int
  pc_OrgMailboxesHere :: int
  pc_ProviderMailboxesHere :: int

record PlacementRequest =
  pr_Weight :: rat
  pr_Region :: string
  pr_CurrentWorkerID :: "uuid option"
  pr_IgnoreIncumbency :: bool
  pr_OrgMailboxesTotal :: int
  pr_IsolatedEgress :: bool

text \<open>The health labels under which a worker may be given mailboxes.\<close>

definition placeable :: "string \<Rightarrow> bool" where
  "placeable health \<longleftrightarrow> health = ''healthy'' \<or> health = ''watch''"

definition Eligible :: "PlacementCandidate \<Rightarrow> bool" where
  "Eligible c = placeable (pc_Health c)"

definition Projected :: "PlacementCandidate \<Rightarrow> PlacementRequest \<Rightarrow> rat" where
  "Projected c req =
     (if ca_Target (pc_Capacity c) \<le> 0 then ca_Utilization (pc_Capacity c)
      else fdiv (fadd (ca_Load (pc_Capacity c)) (pr_Weight req)) (ca_Target (pc_Capacity c)))"

definition OverTarget :: "PlacementCandidate \<Rightarrow> PlacementRequest \<Rightarrow> bool" where
  "OverTarget c req \<longleftrightarrow> 1 < Projected c req"

definition capacity_term :: "rat \<Rightarrow> rat \<Rightarrow> rat" where
  "capacity_term score projected =
     (if projected \<le> 1 then fadd score (fmul weightHeadroom (fsub 1 projected))
      else fsub score (fadd weightOverTarget (fmul weightOverload (fsub projected 1))))"

definition foreign_share :: "PlacementCandidate \<Rightarrow> rat" where
  "foreign_share c =
     fdiv (f_of (pc_TotalMailboxes c - pc_OrgMailboxesHere c)) (f_of (pc_TotalMailboxes c))"

definition concentration :: "PlacementCandidate \<Rightarrow> PlacementRequest \<Rightarrow> rat" where
  "concentration c req =
     (let x = fdiv (f_of (pc_OrgMailboxesHere c)) (f_of (pr_OrgMailboxesTotal req))
      in if 1 < x then 1 else x)"

definition crowding :: "PlacementCandidate \<Rightarrow> rat" where
  "crowding c =
     (let x = fdiv (f_of (pc_ProviderMailboxesHere c)) providerSoftCap in if 1 < x then 1 else x)"

definition Score :: "PlacementCandidate \<Rightarrow> PlacementRequest \<Rightarrow> rat" where
  "Score c req =
     (let score = capacity_term 0 (Projected c req);
          score = fsub score (fmul weightNewWorker (fsub 1 (ca_AgeMul (pc_Capacity c))));
          score = (if \<not> pr_IgnoreIncumbency req \<and> pr_CurrentWorkerID req = Some (pc_WorkerID c)
                   then fadd score weightIncumbent else score);
          score = (if pr_Region req \<noteq> [] \<and> pc_Region c \<noteq> [] \<and> pr_Region req = pc_Region c
                   then fadd score weightRegion else score);
          score = (if pr_IsolatedEgress req \<and> 0 < pc_TotalMailboxes c
                   then fsub score (fmul weightIsolation (foreign_share c)) else score);
          score = (if 0 < pr_OrgMailboxesTotal req
                   then fsub score (fmul weightBlastRadius (concentration c req)) else score)
      in fsub score (fmul weightProviderLoad (crowding c)))"

text \<open>
  Best score first, ties by worker id: the hexadecimal text of an id orders as its bytes do.
\<close>

definition placement_key :: "PlacementRequest \<Rightarrow> PlacementCandidate \<Rightarrow> rat \<times> uuid" where
  "placement_key req c = (- Score c req, pc_WorkerID c)"

definition SelectPlacement ::
  "PlacementCandidate list \<Rightarrow> PlacementRequest \<Rightarrow> PlacementCandidate option" where
  "SelectPlacement candidates req =
     (case sort_key (placement_key req) (filter Eligible candidates) of
        [] \<Rightarrow> None | best # _ \<Rightarrow> Some best)"

section \<open>The best candidate\<close>

lemma hd_sort_key_least:
  assumes "sort_key f xs = y # ys"
  shows "y \<in> set xs" "x \<in> set xs \<Longrightarrow> f y \<le> f x"
proof -
  have s: "set (y # ys) = set xs" using assms by (metis set_sort)
  then show "y \<in> set xs" by auto
  have "sorted (map f (y # ys))" using sorted_sort_key [of f xs] unfolding assms .
  then show "f y \<le> f x" if "x \<in> set xs" using that s by auto
qed

lemma SelectPlacement_None: "SelectPlacement cs req = None \<longleftrightarrow> (\<forall>c \<in> set cs. \<not> Eligible c)"
proof -
  have "sort_key (placement_key req) (filter Eligible cs) = [] \<longleftrightarrow> filter Eligible cs = []"
    by (metis length_0_conv length_sort)
  then show ?thesis by (auto simp: SelectPlacement_def filter_empty_conv split: list.splits)
qed

lemma SelectPlacement_Some:
  assumes "SelectPlacement cs req = Some b"
  shows "b \<in> set cs" "Eligible b"
    "c \<in> set cs \<Longrightarrow> Eligible c \<Longrightarrow> placement_key req b \<le> placement_key req c"
proof -
  obtain ys where y: "sort_key (placement_key req) (filter Eligible cs) = b # ys"
    using assms by (auto simp: SelectPlacement_def split: list.splits)
  from hd_sort_key_least(1) [OF y] show "b \<in> set cs" "Eligible b" by auto
  show "placement_key req b \<le> placement_key req c" if "c \<in> set cs" "Eligible c"
    using hd_sort_key_least(2) [OF y] that by simp
qed

lemma SelectPlacement_unique:
  assumes "b \<in> set cs" "Eligible b"
    and "\<And>c. c \<in> set cs \<Longrightarrow> Eligible c \<Longrightarrow> placement_key req b \<le> placement_key req c"
    and "inj_on pc_WorkerID (set cs)"
  shows "SelectPlacement cs req = Some b"
proof (cases "SelectPlacement cs req")
  case None
  with assms(1,2) show ?thesis by (simp add: SelectPlacement_None)
next
  case (Some x)
  note x = SelectPlacement_Some [OF Some]
  have "placement_key req x = placement_key req b"
    using x(3) [OF assms(1,2)] assms(3) [OF x(1,2)] by simp
  then have "pc_WorkerID x = pc_WorkerID b" by (simp add: placement_key_def)
  with assms(1,4) x(1) have "x = b" by (auto dest: inj_onD)
  with Some show ?thesis by simp
qed

text \<open>
  Claim C35. The worker chosen for a mailbox is eligible and none of the eligible ones scores
  higher; among the best it has the smallest id; and the choice depends only on which workers
  there are, not on the order they are listed in. None is chosen exactly when none is eligible.
\<close>

theorem select_placement_best:
  assumes "inj_on pc_WorkerID (set cs)"
  shows "case SelectPlacement cs req of
           None \<Rightarrow> \<forall>c \<in> set cs. \<not> Eligible c
         | Some b \<Rightarrow> b \<in> set cs \<and> Eligible b
             \<and> (\<forall>c \<in> set cs. Eligible c \<longrightarrow>
                  Score c req < Score b req \<or> Score c req = Score b req \<and> pc_WorkerID b \<le> pc_WorkerID c)
             \<and> (\<forall>cs'. set cs' = set cs \<longrightarrow> SelectPlacement cs' req = Some b)"
proof (cases "SelectPlacement cs req")
  case None
  then have "\<forall>c \<in> set cs. \<not> Eligible c" by (simp add: SelectPlacement_None)
  with None show ?thesis by simp
next
  case (Some b)
  note b = SelectPlacement_Some [OF Some]
  have order: "Score c req < Score b req \<or> Score c req = Score b req \<and> pc_WorkerID b \<le> pc_WorkerID c"
    if "c \<in> set cs" "Eligible c" for c
    using b(3) [OF that] by (auto simp: placement_key_def less_eq_prod_def)
  have "SelectPlacement cs' req = Some b" if "set cs' = set cs" for cs'
    by (rule SelectPlacement_unique) (use that b assms in auto)
  with Some b order show ?thesis by simp
qed

section \<open>Bounds of the score\<close>

lemma clampUnit_range: "0 \<le> clampUnit x" "clampUnit x \<le> 1"
  by (simp_all add: clampUnit_def split: option.split)

lemma ComputeCapacity_target: "1 \<le> ca_Target (ComputeCapacity row)"
  by (simp add: ComputeCapacity_def WorkerOperationalCapacity_def Let_def)

lemma ComputeCapacity_age:
  "0 \<le> ca_AgeMul (ComputeCapacity row)" "ca_AgeMul (ComputeCapacity row) \<le> 1"
  by (simp_all add: ComputeCapacity_def Let_def clampUnit_range split: prod.split)

text \<open>A candidate as the assignment service builds it from a row and its counts.\<close>

definition measured :: "PlacementCandidate \<Rightarrow> bool" where
  "measured c \<longleftrightarrow>
     (\<exists>row. pc_Capacity c = ComputeCapacity row)
     \<and> 0 \<le> pc_OrgMailboxesHere c \<and> pc_OrgMailboxesHere c \<le> pc_TotalMailboxes c
     \<and> 0 \<le> pc_ProviderMailboxesHere c"

lemma f_of_nonneg: "0 \<le> n \<Longrightarrow> 0 \<le> f_of n"
  by (simp add: f_of_def f64_nonneg)

lemma fdiv_nonneg: "0 \<le> x \<Longrightarrow> 0 \<le> y \<Longrightarrow> 0 \<le> fdiv x y"
  by (simp add: fdiv_def f64_nonneg)

lemma fmul_nonneg: "0 \<le> x \<Longrightarrow> 0 \<le> y \<Longrightarrow> 0 \<le> fmul x y"
  by (simp add: fmul_def f64_nonneg)

lemma fsub_nonneg: "y \<le> x \<Longrightarrow> 0 \<le> fsub x y"
  by (simp add: fsub_def f64_nonneg)

lemma weights_nonneg:
  "0 \<le> weightIsolation" "0 \<le> weightBlastRadius" "0 \<le> weightProviderLoad" "0 \<le> weightNewWorker"
  by (simp_all add: weightIsolation_def weightBlastRadius_def weightProviderLoad_def
      weightNewWorker_def f64_nonneg)

lemma penalties_nonneg:
  assumes "measured c"
  shows "0 \<le> fmul weightNewWorker (fsub 1 (ca_AgeMul (pc_Capacity c)))"
    "0 \<le> fmul weightIsolation (foreign_share c)"
    "0 \<le> fmul weightBlastRadius (concentration c req) \<or> pr_OrgMailboxesTotal req < 0"
    "0 \<le> fmul weightProviderLoad (crowding c)"
proof -
  obtain row where row: "pc_Capacity c = ComputeCapacity row" using assms by (auto simp: measured_def)
  show "0 \<le> fmul weightNewWorker (fsub 1 (ca_AgeMul (pc_Capacity c)))"
    by (intro fmul_nonneg weights_nonneg fsub_nonneg) (simp add: row ComputeCapacity_age)
  show "0 \<le> fmul weightIsolation (foreign_share c)"
    using assms unfolding measured_def
    by (intro fmul_nonneg weights_nonneg) (auto simp: foreign_share_def intro!: fdiv_nonneg f_of_nonneg)
  show "0 \<le> fmul weightBlastRadius (concentration c req) \<or> pr_OrgMailboxesTotal req < 0"
  proof (cases "pr_OrgMailboxesTotal req < 0")
    case False
    then have "0 \<le> concentration c req"
      using assms unfolding measured_def
      by (auto simp: concentration_def Let_def intro!: fdiv_nonneg f_of_nonneg)
    then show ?thesis by (simp add: fmul_nonneg weights_nonneg)
  qed simp
  have "0 \<le> crowding c"
    using assms unfolding measured_def
    by (auto simp: crowding_def Let_def providerSoftCap_def intro!: fdiv_nonneg f_of_nonneg)
  then show "0 \<le> fmul weightProviderLoad (crowding c)" by (simp add: fmul_nonneg weights_nonneg)
qed

text \<open>A bound that is a \<open>float64\<close> survives every subtraction of a cost.\<close>

lemma fsub_keeps_le:
  assumes "x \<le> b" "0 \<le> p" "f64 b = b"
  shows "fsub x p \<le> b"
proof -
  have "f64 (x - p) \<le> f64 b" using assms(1,2) by (intro f64_mono) simp
  then show ?thesis using assms(3) by (simp add: fsub_def)
qed

lemma fadd_keeps_le: "x \<le> a \<Longrightarrow> fadd x y \<le> f64 (a + y)"
  by (simp add: fadd_def f64_mono)

lemma score_constants:
  "f64 (- 3 / 8) = - 3 / 8" "f64 (- 3) = - 3" "f64 (- 3 + 2) = - 1" "f64 (- 1 + weightRegion) \<le> - 3 / 8"
  "f64 (- 3 + weightRegion) \<le> - 3 / 8"
  by (simp_all add: weightRegion_def) code_simp+

lemma over_target_low:
  assumes "1 < p"
  shows "capacity_term 0 p \<le> - 3"
proof -
  have "0 \<le> fmul weightOverload (fsub p 1)"
    using assms by (intro fmul_nonneg fsub_nonneg) (simp_all add: weightOverload_def)
  then have "3 \<le> fadd weightOverTarget (fmul weightOverload (fsub p 1))"
    using f64.rnd_ge_int [of 3] by (simp add: fadd_def weightOverTarget_def)
  then show ?thesis
    using assms fsub_keeps_le [of 0 0] f64_mono [of "0 - fadd weightOverTarget (fmul weightOverload (fsub p 1))" "- 3"]
    by (simp add: capacity_term_def fsub_def score_constants)
qed

lemma over_target_score:
  assumes "OverTarget c req" "measured c" "0 \<le> pr_OrgMailboxesTotal req"
  shows "Score c req \<le> - 3 / 8"
proof -
  note pen = penalties_nonneg [OF assms(2)]
  note keep = fsub_keeps_le [OF _ _ score_constants(1)]
  have s1: "capacity_term 0 (Projected c req) \<le> - 3"
    using assms(1) by (intro over_target_low) (simp add: OverTarget_def)
  define s2 where "s2 = fsub (capacity_term 0 (Projected c req)) (fmul weightNewWorker (fsub 1 (ca_AgeMul (pc_Capacity c))))"
  have s2: "s2 \<le> - 3" unfolding s2_def by (rule fsub_keeps_le [OF s1 pen(1) score_constants(2)])
  define s3 where "s3 = (if \<not> pr_IgnoreIncumbency req \<and> pr_CurrentWorkerID req = Some (pc_WorkerID c)
                   then fadd s2 weightIncumbent else s2)"
  have s3: "s3 \<le> - 1"
    using fadd_keeps_le [OF s2, of weightIncumbent] s2 score_constants(3)
    by (auto simp: s3_def weightIncumbent_def)
  define s4 where "s4 = (if pr_Region req \<noteq> [] \<and> pc_Region c \<noteq> [] \<and> pr_Region req = pc_Region c
                   then fadd s3 weightRegion else s3)"
  have s4: "s4 \<le> - 3 / 8"
    using fadd_keeps_le [OF s3, of weightRegion] s3 score_constants(4) by (auto simp: s4_def)
  define s5 where "s5 = (if pr_IsolatedEgress req \<and> 0 < pc_TotalMailboxes c
                   then fsub s4 (fmul weightIsolation (foreign_share c)) else s4)"
  have s5: "s5 \<le> - 3 / 8" using s4 keep [OF s4 pen(2)] by (simp add: s5_def)
  define s6 where "s6 = (if 0 < pr_OrgMailboxesTotal req
                   then fsub s5 (fmul weightBlastRadius (concentration c req)) else s5)"
  have s6: "s6 \<le> - 3 / 8" using s5 keep [OF s5] pen(3) [of req] assms(3) by (auto simp: s6_def)
  have "Score c req = fsub s6 (fmul weightProviderLoad (crowding c))"
    unfolding Score_def Let_def s6_def s5_def s4_def s3_def s2_def by simp
  with keep [OF s6 pen(4)] show ?thesis by simp
qed

text \<open>
  A worker with room, past its youth, none of whose costs apply to the mailbox.
\<close>

definition unencumbered :: "PlacementCandidate \<Rightarrow> PlacementRequest \<Rightarrow> bool" where
  "unencumbered c req \<longleftrightarrow>
     Eligible c \<and> \<not> OverTarget c req \<and> 1 \<le> ca_AgeMul (pc_Capacity c)
     \<and> (pr_IsolatedEgress req \<longrightarrow> pc_OrgMailboxesHere c = pc_TotalMailboxes c)
     \<and> (0 < pr_OrgMailboxesTotal req \<longrightarrow> pc_OrgMailboxesHere c = 0)
     \<and> pc_ProviderMailboxesHere c = 0"

lemma fsub_zero_nonneg: "0 \<le> x \<Longrightarrow> 0 \<le> fsub x 0"
  by (simp add: fsub_def f64_nonneg)

lemma fadd_nonneg: "0 \<le> x \<Longrightarrow> 0 \<le> y \<Longrightarrow> 0 \<le> fadd x y"
  by (simp add: fadd_def f64_nonneg)

lemma fmul_zero [simp]: "fmul x 0 = 0"
  by (simp add: fmul_def)

lemma unencumbered_score:
  assumes "unencumbered c req" "measured c"
  shows "0 \<le> Score c req"
proof -
  obtain row where row: "pc_Capacity c = ComputeCapacity row" using assms(2) by (auto simp: measured_def)
  have age: "fsub 1 (ca_AgeMul (pc_Capacity c)) = 0"
    using assms(1) ComputeCapacity_age(2) [of row] by (simp add: unencumbered_def row fsub_def)
  have foreign: "pr_IsolatedEgress req \<Longrightarrow> foreign_share c = 0"
    using assms(1) by (simp add: unencumbered_def foreign_share_def f_of_def fdiv_def)
  have conc: "0 < pr_OrgMailboxesTotal req \<Longrightarrow> concentration c req = 0"
    using assms(1) by (simp add: unencumbered_def concentration_def f_of_def fdiv_def)
  have crowd: "crowding c = 0"
    using assms(1) by (simp add: unencumbered_def crowding_def f_of_def fdiv_def)
  have s1: "0 \<le> capacity_term 0 (Projected c req)"
    using assms(1)
    by (auto simp: unencumbered_def OverTarget_def capacity_term_def weightHeadroom_def
        intro!: fadd_nonneg fmul_nonneg fsub_nonneg)
  show ?thesis
    unfolding Score_def Let_def age crowd
    using s1 foreign conc
    by (auto simp: weightIncumbent_def weightRegion_def f64_nonneg intro!: fsub_zero_nonneg fadd_nonneg)
qed

text \<open>
  Claim C36. Being over its capacity target can never be outweighed by what speaks for a worker:
  as long as some eligible worker has room for the mailbox, is past its youth and is charged none
  of the costs, the worker chosen has room too, even against the worker the mailbox is on, in the
  region it signs in from.
\<close>

theorem over_target_never_preferred:
  assumes "u \<in> set cs" "unencumbered u req" "\<forall>c \<in> set cs. measured c"
    and "0 \<le> pr_OrgMailboxesTotal req"
  shows "\<exists>b. SelectPlacement cs req = Some b \<and> \<not> OverTarget b req"
proof (cases "SelectPlacement cs req")
  case None
  with assms(1,2) show ?thesis by (auto simp: SelectPlacement_None unencumbered_def)
next
  case (Some b)
  note b = SelectPlacement_Some [OF Some]
  have "placement_key req b \<le> placement_key req u"
    using assms(1,2) by (intro b(3)) (simp_all add: unencumbered_def)
  then have "Score u req \<le> Score b req" by (auto simp: placement_key_def less_eq_prod_def)
  moreover have "0 \<le> Score u req" using assms by (intro unencumbered_score) auto
  ultimately have "\<not> OverTarget b req"
    using over_target_score [of b req] assms(3,4) b(1) by force
  with Some show ?thesis by blast
qed

definition sample_row :: "rat \<Rightarrow> WorkerCapacityRow" where
  "sample_row load =
     \<lparr>wc_LoadScore = load, wc_BaseCapacity = 100, wc_HealthMultiplier = Some 1, wc_AgeMultiplier = Some 1\<rparr>"

definition sample_worker :: "byte \<Rightarrow> rat \<Rightarrow> PlacementCandidate" where
  "sample_worker i load =
     \<lparr>pc_WorkerID = [i], pc_Region = ''eu'', pc_Capacity = ComputeCapacity (sample_row load),
      pc_Health = ''healthy'', pc_TotalMailboxes = 0, pc_OrgMailboxesHere = 0, pc_ProviderMailboxesHere = 0\<rparr>"

definition sample_request :: PlacementRequest where
  "sample_request =
     \<lparr>pr_Weight = 1, pr_Region = ''eu'', pr_CurrentWorkerID = Some [1], pr_IgnoreIncumbency = False,
      pr_OrgMailboxesTotal = 10, pr_IsolatedEgress = False\<rparr>"

lemma sample_measured: "measured (sample_worker i load)"
  by (auto simp: measured_def sample_worker_def)

lemma sample_room: "OverTarget (sample_worker 1 100) sample_request" "unencumbered (sample_worker 2 99) sample_request"
  by code_simp+

lemma over_target_never_preferred_witness:
  "OverTarget (sample_worker 1 100) sample_request
   \<and> (\<exists>b. SelectPlacement [sample_worker 1 100, sample_worker 2 99] sample_request = Some b
          \<and> \<not> OverTarget b sample_request)"
  using over_target_never_preferred [of "sample_worker 2 99" "[sample_worker 1 100, sample_worker 2 99]" sample_request]
  by (simp add: sample_room sample_measured) (simp add: sample_request_def)

lemma select_placement_best_witness:
  "inj_on pc_WorkerID (set [sample_worker 1 100, sample_worker 2 99])
   \<and> SelectPlacement [sample_worker 2 99, sample_worker 1 100, sample_worker 2 99] sample_request
       = SelectPlacement [sample_worker 1 100, sample_worker 2 99] sample_request"
proof -
  have inj: "inj_on pc_WorkerID (set [sample_worker 1 100, sample_worker 2 99])"
    by (simp add: sample_worker_def)
  have "SelectPlacement [sample_worker 1 100, sample_worker 2 99] sample_request \<noteq> None"
    by (simp add: SelectPlacement_None Eligible_def placeable_def sample_worker_def)
  then obtain b where b: "SelectPlacement [sample_worker 1 100, sample_worker 2 99] sample_request = Some b"
    by blast
  from select_placement_best [OF inj, of sample_request, unfolded b option.case]
  have "\<forall>cs'. set cs' = set [sample_worker 1 100, sample_worker 2 99] \<longrightarrow> SelectPlacement cs' sample_request = Some b"
    by (elim conjE)
  then have "SelectPlacement [sample_worker 2 99, sample_worker 1 100, sample_worker 2 99] sample_request = Some b"
    by (rule allE [of _ "[sample_worker 2 99, sample_worker 1 100, sample_worker 2 99]"]) auto
  with inj b show ?thesis by simp
qed

text \<open>
  Youth can tip the balance: a worker that just joined, with room for exactly this mailbox, loses
  to the worker the mailbox is on, although that one is over its target.
\<close>

definition young_worker :: PlacementCandidate where
  "young_worker =
     (sample_worker 2 0)\<lparr>pc_Region := ''us'', pc_Capacity := ComputeCapacity
        \<lparr>wc_LoadScore = 0, wc_BaseCapacity = 1, wc_HealthMultiplier = Some 1, wc_AgeMultiplier = Some 0\<rparr>\<rparr>"

lemma youth_outweighs_target:
  "OverTarget (sample_worker 1 100) sample_request" "\<not> OverTarget young_worker sample_request"
  "map_option pc_WorkerID (SelectPlacement [sample_worker 1 100, young_worker] sample_request) = Some [1]"
  by code_simp+

end
