(* ===== verification/Worker_Rotation.thy ===== *)
theory Worker_Rotation
  imports Worker_Placement Go_Time "HOL-Library.Option_ord"
begin

text \<open>
  When a mailbox changes workers: \<open>internal/app/worker/rotation.go\<close>, the placement state of
  \<open>internal/repository/pg_worker_placement.go\<close> with the query that lists the mailboxes to
  look at. Residencies are nanoseconds.
\<close>

section \<open>Urgency\<close>

datatype RotationUrgency = RotationStay | RotationOpportunistic | RotationElevated | RotationImmediate

text \<open>The constants are numbered in this order.\<close>

instantiation RotationUrgency :: linorder
begin

fun iota :: "RotationUrgency \<Rightarrow> nat" where
  "iota RotationStay = 0" | "iota RotationOpportunistic = 1"
| "iota RotationElevated = 2" | "iota RotationImmediate = 3"

definition less_eq_RotationUrgency :: "RotationUrgency \<Rightarrow> RotationUrgency \<Rightarrow> bool" where
  "less_eq_RotationUrgency a b \<longleftrightarrow> iota a \<le> iota b"

definition less_RotationUrgency :: "RotationUrgency \<Rightarrow> RotationUrgency \<Rightarrow> bool" where
  "less_RotationUrgency a b \<longleftrightarrow> iota a < iota b"

instance
proof
  fix a b :: RotationUrgency
  show "a \<le> b \<Longrightarrow> b \<le> a \<Longrightarrow> a = b"
    by (cases a; cases b) (simp_all add: less_eq_RotationUrgency_def)
qed (auto simp: less_eq_RotationUrgency_def less_RotationUrgency_def)

end

definition RotationMinResidency :: duration where "RotationMinResidency = 72 * Hour"
definition RotationElevatedResidency :: duration where "RotationElevatedResidency = 6 * Hour"
definition RotationHotUtilization :: rat where "RotationHotUtilization = f64 (85 / 100)"
definition RotationMinScoreGain :: rat where "RotationMinScoreGain = 1 / 2"

record RotationInput =
  ri_WorkerActive :: bool
  ri_WorkerLive :: bool
  ri_WorkerHealth :: string
  ri_WorkerUtilization :: rat
  ri_OnSomeoneElsesReservedWorker :: bool
  ri_AwayFromOwnReservedWorker :: bool
  ri_PlacementImbalanced :: bool

definition EvaluateRotation :: "RotationInput \<Rightarrow> RotationUrgency \<times> string" where
  "EvaluateRotation i =
     (if \<not> ri_WorkerActive i then (RotationImmediate, ''worker is inactive'')
      else if \<not> ri_WorkerLive i then (RotationImmediate, ''worker stopped heartbeating'')
      else if ri_WorkerHealth i = ''blocked'' then (RotationImmediate, ''worker is blocked'')
      else if ri_WorkerHealth i = ''quarantined'' then (RotationImmediate, ''worker is quarantined'')
      else if ri_WorkerHealth i = ''throttled'' then (RotationElevated, ''worker is throttled'')
      else if ri_OnSomeoneElsesReservedWorker i
           then (RotationElevated, ''worker is reserved for another organization'')
      else if ri_AwayFromOwnReservedWorker i
           then (RotationOpportunistic, ''organization has a reserved worker elsewhere'')
      else if RotationHotUtilization < ri_WorkerUtilization i
           then (RotationOpportunistic, ''worker over capacity'')
      else if ri_PlacementImbalanced i
           then (RotationOpportunistic, ''workspace or provider concentration can be reduced'')
      else (RotationStay, []))"

fun MayMove :: "RotationUrgency \<Rightarrow> duration \<Rightarrow> bool" where
  "MayMove RotationImmediate residency = True"
| "MayMove RotationElevated residency \<longleftrightarrow> residency = 0 \<or> RotationElevatedResidency \<le> residency"
| "MayMove RotationOpportunistic residency \<longleftrightarrow> residency = 0 \<or> RotationMinResidency \<le> residency"
| "MayMove RotationStay residency = False"

fun WorthMoving :: "RotationUrgency \<Rightarrow> rat \<Rightarrow> rat \<Rightarrow> bool \<Rightarrow> bool" where
  "WorthMoving RotationImmediate incumbentScore targetScore mandated = True"
| "WorthMoving RotationElevated incumbentScore targetScore mandated = True"
| "WorthMoving RotationOpportunistic incumbentScore targetScore mandated \<longleftrightarrow>
     mandated \<or> RotationMinScoreGain \<le> fsub targetScore incumbentScore"
| "WorthMoving RotationStay incumbentScore targetScore mandated = False"

fun_cases MayMove_opportunisticE: "MayMove RotationOpportunistic residency"
fun_cases WorthMoving_opportunisticE: "WorthMoving RotationOpportunistic a b m"

lemma MayMove_mono: "u \<le> v \<Longrightarrow> MayMove u r \<Longrightarrow> MayMove v r"
  by (cases u; cases v)
    (auto simp: less_eq_RotationUrgency_def RotationMinResidency_def RotationElevatedResidency_def)

lemma WorthMoving_mono: "u \<le> v \<Longrightarrow> WorthMoving u a b m \<Longrightarrow> WorthMoving v a b m"
  by (cases u; cases v) (auto simp: less_eq_RotationUrgency_def)

section \<open>The state of a placement\<close>

record MailboxPlacementState =
  mp_EmailAccountID :: uuid
  mp_OrganizationID :: "uuid option"
  mp_WorkerID :: "uuid option"
  mp_AssignedAt :: "instant option"
  mp_WorkerActive :: bool
  mp_WorkerLive :: bool
  mp_WorkerHealth :: string
  mp_WorkerRegion :: string
  mp_WorkerUtilization :: rat
  mp_WorkerOrgMailboxes :: int
  mp_WorkerProviderMailboxes :: int
  mp_OrgTotalMailboxes :: int
  mp_ProviderTotalMailboxes :: int
  mp_LiveWorkerCount :: int
  mp_ReservedWorkerID :: "uuid option"
  mp_WorkerReservedForOtherOrg :: bool

definition Residency :: "MailboxPlacementState \<Rightarrow> instant \<Rightarrow> duration" where
  "Residency s now =
     (case mp_AssignedAt s of
        None \<Rightarrow> 0
      | Some at' \<Rightarrow> let d = tsub now at' in if d < 0 then 0 else d)"

definition on_own_reserved :: "MailboxPlacementState \<Rightarrow> bool" where
  "on_own_reserved s \<longleftrightarrow> mp_ReservedWorkerID s \<noteq> None \<and> mp_WorkerID s \<noteq> None \<and> mp_ReservedWorkerID s = mp_WorkerID s"

definition fair_share :: "int \<Rightarrow> int \<Rightarrow> rat" where
  "fair_share total' workers = of_int \<lceil>fdiv (f_of total') (f_of workers)\<rceil>"

definition OrganizationPlacementImbalanced :: "MailboxPlacementState \<Rightarrow> bool" where
  "OrganizationPlacementImbalanced s \<longleftrightarrow>
     \<not> mp_LiveWorkerCount s \<le> 1 \<and> \<not> on_own_reserved s
     \<and> fair_share (mp_OrgTotalMailboxes s) (mp_LiveWorkerCount s) < f_of (mp_WorkerOrgMailboxes s)"

definition ProviderPlacementImbalanced :: "MailboxPlacementState \<Rightarrow> bool" where
  "ProviderPlacementImbalanced s \<longleftrightarrow>
     \<not> mp_LiveWorkerCount s \<le> 1 \<and> \<not> on_own_reserved s
     \<and> fair_share (mp_ProviderTotalMailboxes s) (mp_LiveWorkerCount s) < f_of (mp_WorkerProviderMailboxes s)"

definition PlacementImbalanced :: "MailboxPlacementState \<Rightarrow> bool" where
  "PlacementImbalanced s \<longleftrightarrow> OrganizationPlacementImbalanced s \<or> ProviderPlacementImbalanced s"

text \<open>What the rotation pass makes of a state.\<close>

definition away_from_own :: "MailboxPlacementState \<Rightarrow> bool" where
  "away_from_own s \<longleftrightarrow> mp_ReservedWorkerID s \<noteq> None \<and> mp_ReservedWorkerID s \<noteq> mp_WorkerID s"

definition rotation_input :: "MailboxPlacementState \<Rightarrow> RotationInput" where
  "rotation_input s =
     \<lparr>ri_WorkerActive = mp_WorkerActive s, ri_WorkerLive = mp_WorkerLive s,
      ri_WorkerHealth = mp_WorkerHealth s, ri_WorkerUtilization = mp_WorkerUtilization s,
      ri_OnSomeoneElsesReservedWorker = mp_WorkerReservedForOtherOrg s,
      ri_AwayFromOwnReservedWorker = away_from_own s, ri_PlacementImbalanced = PlacementImbalanced s\<rparr>"

text \<open>
  The filter of the query, over the columns the state is scanned from. \<open>CEIL\<close> of a
  \<open>numeric\<close> quotient is exact, and the quotient by no worker is \<open>NULL\<close>, which is not true.
\<close>

definition above_share :: "int \<Rightarrow> int \<Rightarrow> int \<Rightarrow> bool" where
  "above_share here total' workers \<longleftrightarrow> workers \<noteq> 0 \<and> \<lceil>of_int total' / (of_int workers :: rat)\<rceil> < here"

definition listed :: "rat \<Rightarrow> MailboxPlacementState \<Rightarrow> bool" where
  "listed hot s \<longleftrightarrow>
     mp_WorkerID s \<noteq> None
     \<and> (\<not> mp_WorkerActive s
        \<or> \<not> mp_WorkerLive s
        \<or> mp_WorkerHealth s \<notin> {''healthy'', ''watch''}
        \<or> hot < mp_WorkerUtilization s
        \<or> (mp_ReservedWorkerID s = None \<and> 1 < mp_LiveWorkerCount s
           \<and> (above_share (mp_WorkerOrgMailboxes s) (mp_OrgTotalMailboxes s) (mp_LiveWorkerCount s)
              \<or> above_share (mp_WorkerProviderMailboxes s) (mp_ProviderTotalMailboxes s) (mp_LiveWorkerCount s)))
        \<or> mp_WorkerReservedForOtherOrg s
        \<or> (mp_ReservedWorkerID s \<noteq> None \<and> mp_ReservedWorkerID s \<noteq> mp_WorkerID s))"

definition ListRotationCandidates :: "MailboxPlacementState list \<Rightarrow> rat \<Rightarrow> int \<Rightarrow> MailboxPlacementState list" where
  "ListRotationCandidates rows hot cap =
     (let cap = (if cap \<le> 0 then 500 else cap)
      in take (nat cap) (sort_key mp_AssignedAt (filter (listed hot) rows)))"

section \<open>The query lists what the decision would move\<close>

lemma f64_above:
  assumes "0 < x"
  shows "x - pow2 (f64_exp x) < f64 x"
proof -
  let ?e = "f64_exp x"
  have "x / pow2 ?e - 1 < of_int (rne (x / pow2 ?e))"
    using rne_bounds(1) [of "x / pow2 ?e"] by linarith
  then have "(x / pow2 ?e - 1) * pow2 ?e < of_int (rne (x / pow2 ?e)) * pow2 ?e"
    by (rule mult_strict_right_mono) simp
  moreover have "(x / pow2 ?e - 1) * pow2 ?e = x - pow2 ?e" by (simp add: field_simps)
  ultimately show ?thesis using assms by (simp add: f64_def)
qed

lemma pow2_f64_exp:
  assumes "1 / 2 ^ 52 \<le> x"
  shows "pow2 (f64_exp x) * 2 ^ 52 \<le> x"
proof -
  have x: "0 < x" using assms by (rule less_le_trans [rotated]) simp
  have "pow2 (- 52) \<le> x" using assms by (simp add: pow2_def)
  moreover have "x < pow2 (ilog2 x + 1)" by (rule ilog2_bounds(2) [OF x])
  ultimately have "pow2 (- 52) < pow2 (ilog2 x + 1)" by (rule le_less_trans)
  then have "- 52 < ilog2 x + 1" by (simp only: pow2_less_iff)
  then have "f64_exp x = ilog2 x - 52" using x by (simp add: f64_exp_def)
  then have "pow2 (f64_exp x) * 2 ^ 52 = pow2 (ilog2 x)"
    using pow2_add [of "ilog2 x - 52" 52] by (simp add: pow2_def)
  then show ?thesis using ilog2_bounds(1) [OF x] by simp
qed

lemma ceiling_f64_quotient:
  assumes "0 \<le> a" "a < 2 ^ 52" "0 < b" "b < 2 ^ 52"
  shows "\<lceil>f64 (of_int a / of_int b)\<rceil> = \<lceil>of_int a / (of_int b :: rat)\<rceil>"
proof (cases "a = 0")
  case False
  let ?x = "of_int a / of_int b :: rat"
  define n where "n = \<lceil>?x\<rceil>"
  have b: "0 < (of_int b :: rat)" using assms(3) by simp
  have x: "0 < ?x" using False assms by simp
  have n: "of_int n - 1 < ?x" "?x \<le> of_int n" unfolding n_def by linarith+
  have n0: "0 < n" using x n(2) by (metis less_le_trans of_int_0_less_iff)
  have "?x \<le> of_int a" using assms(1,3) by (simp add: divide_le_eq mult_le_cancel_left1)
  then have na: "n \<le> a" unfolding n_def by (simp add: ceiling_le_iff)
  have "f64 ?x \<le> of_int n"
    using f64_mono [OF n(2)] f64_of_int [of n] n0 na assms(2) by simp
  moreover have "of_int n - 1 < f64 ?x"
  proof -
    have "(n - 1) * b < a"
    proof -
      have "(of_int ((n - 1) * b) :: rat) < of_int a" using n(1) b by (simp add: less_divide_eq)
      then show ?thesis by (simp only: of_int_less_iff)
    qed
    then have "(n - 1) * b + 1 \<le> a" by simp
    then have "(of_int ((n - 1) * b + 1) :: rat) \<le> of_int a" by (simp only: of_int_le_iff)
    then have "(of_int ((n - 1) * b + 1) :: rat) / of_int b \<le> ?x"
      using b by (intro divide_right_mono) auto
    moreover have "(of_int ((n - 1) * b + 1) :: rat) / of_int b = of_int n - 1 + 1 / of_int b"
      using b by (simp add: add_divide_distrib)
    ultimately have "of_int n - 1 + 1 / of_int b \<le> ?x" by simp
    moreover have "pow2 (f64_exp ?x) \<le> 1 / of_int b"
    proof -
      have p: "(of_int (2 ^ 52) :: rat) = 2 ^ 52" by (rule of_int_power [THEN trans]) simp
      have "(of_int b :: rat) \<le> of_int (2 ^ 52)" "(of_int a :: rat) \<le> of_int (2 ^ 52)"
        unfolding of_int_le_iff using assms(2,4) by (simp_all only: less_imp_le)
      then have ab: "(of_int b :: rat) \<le> 2 ^ 52" "(of_int a :: rat) \<le> 2 ^ 52" unfolding p .
      have "(1 / 2 ^ 52 :: rat) \<le> 1 / of_int b"
        by (rule divide_left_mono [OF ab(1)]) (use b in simp_all)
      also have "\<dots> \<le> ?x" using False assms(1) b by (intro divide_right_mono) auto
      finally have "pow2 (f64_exp ?x) * 2 ^ 52 \<le> ?x" by (rule pow2_f64_exp)
      also have "\<dots> \<le> 2 ^ 52 / of_int b"
        by (rule divide_right_mono [OF ab(2)]) (use b in simp)
      finally show ?thesis by (simp add: field_simps)
    qed
    ultimately show ?thesis using f64_above [OF x] by linarith
  qed
  ultimately show ?thesis unfolding n_def [symmetric] by (simp add: ceiling_unique)
qed simp

definition small :: "int \<Rightarrow> bool" where
  "small n \<longleftrightarrow> 0 \<le> n \<and> n < 2 ^ 52"

lemma fair_share_exact:
  assumes "small here" "small total'" "small workers" "0 < workers"
  shows "fair_share total' workers < f_of here \<longleftrightarrow> above_share here total' workers"
  using assms ceiling_f64_quotient [of total' workers]
  by (simp add: small_def fair_share_def above_share_def fdiv_def f_of_int)

definition known_health :: "string \<Rightarrow> bool" where
  "known_health h \<longleftrightarrow> h \<in> {''healthy'', ''watch'', ''throttled'', ''quarantined'', ''blocked''}"

definition counted :: "MailboxPlacementState \<Rightarrow> bool" where
  "counted s \<longleftrightarrow>
     small (mp_WorkerOrgMailboxes s) \<and> small (mp_WorkerProviderMailboxes s)
     \<and> small (mp_OrgTotalMailboxes s) \<and> small (mp_ProviderTotalMailboxes s) \<and> small (mp_LiveWorkerCount s)"

lemma imbalanced_iff:
  assumes "counted s"
  shows "PlacementImbalanced s \<longleftrightarrow>
     1 < mp_LiveWorkerCount s \<and> \<not> on_own_reserved s
     \<and> (above_share (mp_WorkerOrgMailboxes s) (mp_OrgTotalMailboxes s) (mp_LiveWorkerCount s)
        \<or> above_share (mp_WorkerProviderMailboxes s) (mp_ProviderTotalMailboxes s) (mp_LiveWorkerCount s))"
proof (cases "1 < mp_LiveWorkerCount s")
  case True
  then have "0 < mp_LiveWorkerCount s" by simp
  with True assms show ?thesis
    unfolding PlacementImbalanced_def OrganizationPlacementImbalanced_def ProviderPlacementImbalanced_def counted_def
    by (auto simp: fair_share_exact not_le)
next
  case False
  then show ?thesis
    by (simp add: PlacementImbalanced_def OrganizationPlacementImbalanced_def ProviderPlacementImbalanced_def)
qed

lemma EvaluateRotation_stay:
  "fst (EvaluateRotation i) = RotationStay \<longleftrightarrow>
     ri_WorkerActive i \<and> ri_WorkerLive i
     \<and> ri_WorkerHealth i \<noteq> ''blocked'' \<and> ri_WorkerHealth i \<noteq> ''quarantined'' \<and> ri_WorkerHealth i \<noteq> ''throttled''
     \<and> \<not> ri_OnSomeoneElsesReservedWorker i \<and> \<not> ri_AwayFromOwnReservedWorker i
     \<and> ri_WorkerUtilization i \<le> RotationHotUtilization \<and> \<not> ri_PlacementImbalanced i"
  unfolding EvaluateRotation_def by (simp add: not_less)

lemma known_health_placeable:
  "known_health h \<Longrightarrow> h \<noteq> ''blocked'' \<and> h \<noteq> ''quarantined'' \<and> h \<noteq> ''throttled'' \<longleftrightarrow> h \<in> {''healthy'', ''watch''}"
  unfolding known_health_def by (elim insertE emptyE) simp_all

text \<open>
  Claim C37. The query that picks the mailboxes a rotation pass looks at and the decision of the
  pass agree: an assigned mailbox is listed exactly when the decision on it is not to stay, so the
  pass neither overlooks a mailbox that should move nor spends its scan on one that should not.
  The query computes fair shares in exact numbers, the decision in floating point.
\<close>

theorem rotation_scan_agrees:
  assumes "mp_WorkerID s \<noteq> None" "known_health (mp_WorkerHealth s)" "counted s"
  shows "listed RotationHotUtilization s \<longleftrightarrow> fst (EvaluateRotation (rotation_input s)) \<noteq> RotationStay"
proof -
  let ?share = "above_share (mp_WorkerOrgMailboxes s) (mp_OrgTotalMailboxes s) (mp_LiveWorkerCount s)
    \<or> above_share (mp_WorkerProviderMailboxes s) (mp_ProviderTotalMailboxes s) (mp_LiveWorkerCount s)"
  have reserved: "mp_ReservedWorkerID s = None \<or> away_from_own s \<or> on_own_reserved s"
    "on_own_reserved s \<Longrightarrow> mp_ReservedWorkerID s \<noteq> None"
    using assms(1) by (auto simp: away_from_own_def on_own_reserved_def)
  have "fst (EvaluateRotation (rotation_input s)) = RotationStay \<longleftrightarrow>
     mp_WorkerActive s \<and> mp_WorkerLive s \<and> mp_WorkerHealth s \<in> {''healthy'', ''watch''}
     \<and> \<not> mp_WorkerReservedForOtherOrg s \<and> \<not> away_from_own s
     \<and> mp_WorkerUtilization s \<le> RotationHotUtilization
     \<and> \<not> (1 < mp_LiveWorkerCount s \<and> \<not> on_own_reserved s \<and> ?share)"
    unfolding EvaluateRotation_stay known_health_placeable [OF assms(2), symmetric] imbalanced_iff [OF assms(3), symmetric]
    by (simp add: rotation_input_def)
  moreover have "listed RotationHotUtilization s \<longleftrightarrow>
     \<not> mp_WorkerActive s \<or> \<not> mp_WorkerLive s \<or> mp_WorkerHealth s \<notin> {''healthy'', ''watch''}
     \<or> RotationHotUtilization < mp_WorkerUtilization s
     \<or> (mp_ReservedWorkerID s = None \<and> 1 < mp_LiveWorkerCount s \<and> ?share)
     \<or> mp_WorkerReservedForOtherOrg s \<or> away_from_own s"
    unfolding listed_def away_from_own_def using assms(1) by blast
  ultimately show ?thesis using reserved by (smt (verit) not_le)
qed

definition sample_state :: MailboxPlacementState where
  "sample_state =
     \<lparr>mp_EmailAccountID = [7], mp_OrganizationID = Some [5], mp_WorkerID = Some [1], mp_AssignedAt = Some 0,
      mp_WorkerActive = True, mp_WorkerLive = True, mp_WorkerHealth = ''healthy'', mp_WorkerRegion = ''eu'',
      mp_WorkerUtilization = 1 / 2, mp_WorkerOrgMailboxes = 4, mp_WorkerProviderMailboxes = 1,
      mp_OrgTotalMailboxes = 7, mp_ProviderTotalMailboxes = 9, mp_LiveWorkerCount = 3,
      mp_ReservedWorkerID = None, mp_WorkerReservedForOtherOrg = False\<rparr>"

lemma rotation_scan_agrees_witness:
  "listed RotationHotUtilization sample_state
   \<and> fst (EvaluateRotation (rotation_input sample_state)) = RotationOpportunistic"
proof -
  have e: "fst (EvaluateRotation (rotation_input sample_state)) = RotationOpportunistic"
    by code_simp
  have "listed RotationHotUtilization sample_state
    \<longleftrightarrow> fst (EvaluateRotation (rotation_input sample_state)) \<noteq> RotationStay"
    by (rule rotation_scan_agrees)
      (simp_all add: sample_state_def known_health_def counted_def small_def)
  with e show ?thesis by simp
qed

text \<open>
  A mailbox that was assigned after the instant the pass reads as now, as it is when the clock
  of the database is ahead, counts as settled long enough for any move, although it has just
  arrived.
\<close>

lemma future_assignment_may_move:
  assumes "mp_AssignedAt s = Some at'" "now \<le> at'"
  shows "MayMove RotationOpportunistic (Residency s now)"
proof -
  have "tsub now at' \<le> 0" using assms(2) by simp
  then have "Residency s now = 0" using assms(1) unfolding Residency_def Let_def by (auto simp: not_less tsub_def)
  then show ?thesis by simp
qed

end
