(* ===== verification/Worker_Assignment.thy ===== *)
theory Worker_Assignment
  imports Worker_Rotation
begin

text \<open>
  The assignment service, \<open>internal/app/worker/assignment.go\<close>, and the rotation pass of
  \<open>internal/app/fleet/rebalance.go\<close>, over the two tables they change: the mailboxes with the
  worker each is on, and the workers with their counters.

  What the service only reads (the capacity view, entitlements, provider hints) is an argument,
  \<open>rd\<close>, that may depend on the tables; \<open>ok\<close> says which transactions the database commits.
\<close>

section \<open>Tables\<close>

record account_row =
  fa_worker :: "uuid option"
  fa_assigned_at :: "instant option"
  fa_org :: "uuid option"
  fa_executed :: bool
  fa_pool :: string

record worker_row =
  fw_account_count :: int
  fw_load_score :: rat

record fleet =
  fl_accounts :: "uuid \<Rightarrow> account_row option"
  fl_workers :: "uuid \<Rightarrow> worker_row option"

datatype move_error = AccountMissing | InstanceExecuted | AssignmentChanged | WorkerMissing | NotCommitted

definition set_worker :: "uuid \<Rightarrow> (worker_row \<Rightarrow> worker_row) \<Rightarrow> fleet \<Rightarrow> fleet" where
  "set_worker w f fl =
     fl\<lparr>fl_workers := (case fl_workers fl w of None \<Rightarrow> fl_workers fl | Some r \<Rightarrow> (fl_workers fl)(w \<mapsto> f r))\<rparr>"

definition set_account :: "uuid \<Rightarrow> (account_row \<Rightarrow> account_row) \<Rightarrow> fleet \<Rightarrow> fleet" where
  "set_account a f fl =
     fl\<lparr>fl_accounts := (case fl_accounts fl a of None \<Rightarrow> fl_accounts fl | Some r \<Rightarrow> (fl_accounts fl)(a \<mapsto> f r))\<rparr>"

definition add_load :: "int \<Rightarrow> rat \<Rightarrow> worker_row \<Rightarrow> worker_row" where
  "add_load n weight r = r\<lparr>fw_account_count := fw_account_count r + n, fw_load_score := fadd (fw_load_score r) weight\<rparr>"

definition drop_load :: "rat \<Rightarrow> worker_row \<Rightarrow> worker_row" where
  "drop_load weight r =
     r\<lparr>fw_account_count := max (fw_account_count r - 1) 0, fw_load_score := max 0 (fsub (fw_load_score r) weight)\<rparr>"

text \<open>A transaction: every failure leaves the tables as they were.\<close>

definition MoveEmailAccountWorker ::
  "bool \<Rightarrow> instant \<Rightarrow> uuid \<Rightarrow> uuid option \<Rightarrow> uuid \<Rightarrow> rat \<Rightarrow> fleet \<Rightarrow> move_error option \<times> fleet" where
  "MoveEmailAccountWorker commits now account from_w to_w weight fl =
     (if \<not> commits then (Some NotCommitted, fl)
      else case fl_accounts fl account of
        None \<Rightarrow> (Some AccountMissing, fl)
      | Some row \<Rightarrow>
          if fa_executed row then (Some InstanceExecuted, fl)
          else if fa_worker row \<noteq> from_w then (Some AssignmentChanged, fl)
          else if fa_worker row = Some to_w then (None, fl)
          else if fl_workers fl to_w = None
                  \<or> (case fa_worker row of None \<Rightarrow> False | Some cur \<Rightarrow> fl_workers fl cur = None)
               then (Some WorkerMissing, fl)
          else
            let fl = (case fa_worker row of None \<Rightarrow> fl | Some cur \<Rightarrow> set_worker cur (drop_load weight) fl);
                fl = set_worker to_w (add_load 1 weight) fl
            in (None, set_account account (\<lambda>r. r\<lparr>fa_worker := Some to_w, fa_assigned_at := Some now\<rparr>) fl))"

definition ClearEmailAccountWorker :: "uuid \<Rightarrow> fleet \<Rightarrow> fleet" where
  "ClearEmailAccountWorker account = set_account account (\<lambda>r. r\<lparr>fa_worker := None, fa_assigned_at := None\<rparr>)"

definition DecrementAccountCount :: "uuid \<Rightarrow> fleet \<Rightarrow> fleet" where
  "DecrementAccountCount w = set_worker w (\<lambda>r. r\<lparr>fw_account_count := max (fw_account_count r - 1) 0\<rparr>)"

definition AddLoadScore :: "uuid \<Rightarrow> rat \<Rightarrow> fleet \<Rightarrow> fleet" where
  "AddLoadScore w delta = set_worker w (\<lambda>r. r\<lparr>fw_load_score := max 0 (fadd (fw_load_score r) delta)\<rparr>)"

section \<open>What the service reads\<close>

record PlacementCandidateRow =
  cr_WorkerID :: uuid
  cr_Region :: string
  cr_HealthState :: string
  cr_Capacity :: WorkerCapacityRow
  cr_TotalMailboxes :: int
  cr_OrgMailboxesHere :: int
  cr_ProviderMailboxesHere :: int

record reads =
  rd_hint :: "uuid \<Rightarrow> (string \<times> bool) option"
  rd_orgTotal :: "uuid \<Rightarrow> int option"
  rd_isolated :: "uuid \<Rightarrow> bool"
  rd_candidates :: "uuid \<Rightarrow> string \<Rightarrow> PlacementCandidateRow list option"
  rd_reserved :: "uuid \<Rightarrow> uuid option"
  rd_worker :: "uuid \<Rightarrow> bool option"
  rd_placeable :: "(uuid \<times> string) list option"
  rd_region :: "uuid \<Rightarrow> string"
  rd_rotation :: "MailboxPlacementState list option"

record PlacementLookup =
  lk_EmailAccountID :: uuid
  lk_OrgID :: uuid
  lk_CurrentWorkerID :: "uuid option"
  lk_IgnoreIncumbency :: bool
  lk_ExcludeWorkerID :: "uuid option"
  lk_Region :: string

record PlacementResult =
  re_Worker :: uuid
  re_Score :: rat
  re_IncumbentScore :: rat
  re_IncumbentEligible :: bool
  re_Mandated :: bool
  re_CountsKnown :: bool
  re_IncumbentOrgMailboxes :: int
  re_IncumbentProviderMailboxes :: int
  re_DestinationOrgMailboxes :: int
  re_DestinationProviderMailboxes :: int

datatype placement_error = NoAvailableWorkers | QueryFailed

definition RelievesConcentration :: "PlacementResult \<Rightarrow> bool \<Rightarrow> bool \<Rightarrow> bool" where
  "RelievesConcentration r checkOrg checkProvider \<longleftrightarrow>
     (if \<not> re_CountsKnown r \<or> (\<not> checkOrg \<and> \<not> checkProvider) then False
      else if checkOrg \<and> re_IncumbentOrgMailboxes r < re_DestinationOrgMailboxes r then False
      else if checkProvider \<and> re_IncumbentProviderMailboxes r < re_DestinationProviderMailboxes r then False
      else (checkOrg \<and> re_DestinationOrgMailboxes r < re_IncumbentOrgMailboxes r)
           \<or> (checkProvider \<and> re_DestinationProviderMailboxes r < re_IncumbentProviderMailboxes r))"

definition defaultMailboxWeight :: rat where
  "defaultMailboxWeight = 1"

definition resolveMailboxWeight :: "reads \<Rightarrow> uuid \<Rightarrow> rat" where
  "resolveMailboxWeight rd account =
     (case rd_hint rd account of
        None \<Rightarrow> defaultMailboxWeight
      | Some (provider, isWarmup) \<Rightarrow> MailboxWeight provider isWarmup)"

definition bare_result :: "uuid \<Rightarrow> PlacementResult" where
  "bare_result w =
     \<lparr>re_Worker = w, re_Score = 0, re_IncumbentScore = 0, re_IncumbentEligible = False, re_Mandated = False,
      re_CountsKnown = False, re_IncumbentOrgMailboxes = 0, re_IncumbentProviderMailboxes = 0,
      re_DestinationOrgMailboxes = 0, re_DestinationProviderMailboxes = 0\<rparr>"

definition selectFallback :: "reads \<Rightarrow> uuid option \<Rightarrow> placement_error + PlacementResult" where
  "selectFallback rd exclude =
     (case rd_placeable rd of
        None \<Rightarrow> Inl QueryFailed
      | Some ws \<Rightarrow>
          (case find (\<lambda>(w, health). exclude \<noteq> Some w \<and> placeable health) ws of
             None \<Rightarrow> Inl NoAvailableWorkers
           | Some (w, _) \<Rightarrow> Inr (bare_result w)))"

definition buildResult ::
  "reads \<Rightarrow> PlacementCandidate \<Rightarrow> PlacementRequest \<Rightarrow> PlacementCandidate list
   \<Rightarrow> placement_error + PlacementResult" where
  "buildResult rd chosen req candidates =
     (case rd_worker rd (pc_WorkerID chosen) of
        None \<Rightarrow> Inl QueryFailed
      | Some False \<Rightarrow> Inl NoAvailableWorkers
      | Some True \<Rightarrow>
          let res = (bare_result (pc_WorkerID chosen))\<lparr>re_Score := Score chosen req, re_CountsKnown := True,
                      re_DestinationOrgMailboxes := pc_OrgMailboxesHere chosen,
                      re_DestinationProviderMailboxes := pc_ProviderMailboxesHere chosen\<rparr>
          in Inr (case pr_CurrentWorkerID req of
                    None \<Rightarrow> res
                  | Some cur \<Rightarrow>
                      (case find (\<lambda>c. pc_WorkerID c = cur) candidates of
                         None \<Rightarrow> res
                       | Some c \<Rightarrow>
                           res\<lparr>re_IncumbentEligible := Eligible c, re_IncumbentScore := Score c req,
                               re_IncumbentOrgMailboxes := pc_OrgMailboxesHere c,
                               re_IncumbentProviderMailboxes := pc_ProviderMailboxesHere c\<rparr>)))"

definition candidate_of :: "PlacementCandidateRow \<Rightarrow> PlacementCandidate" where
  "candidate_of row =
     \<lparr>pc_WorkerID = cr_WorkerID row, pc_Region = cr_Region row, pc_Capacity = ComputeCapacity (cr_Capacity row),
      pc_Health = cr_HealthState row, pc_TotalMailboxes = cr_TotalMailboxes row,
      pc_OrgMailboxesHere = cr_OrgMailboxesHere row, pc_ProviderMailboxesHere = cr_ProviderMailboxesHere row\<rparr>"

definition placement_request :: "reads \<Rightarrow> PlacementLookup \<Rightarrow> PlacementRequest" where
  "placement_request rd lookup =
     \<lparr>pr_Weight = resolveMailboxWeight rd (lk_EmailAccountID lookup), pr_Region = lk_Region lookup,
      pr_CurrentWorkerID = lk_CurrentWorkerID lookup, pr_IgnoreIncumbency = lk_IgnoreIncumbency lookup,
      pr_OrgMailboxesTotal = (case rd_orgTotal rd (lk_OrgID lookup) of None \<Rightarrow> 0 | Some n \<Rightarrow> n),
      pr_IsolatedEgress = rd_isolated rd (lk_OrgID lookup)\<rparr>"

definition placement_provider :: "reads \<Rightarrow> PlacementLookup \<Rightarrow> string" where
  "placement_provider rd lookup =
     (case rd_hint rd (lk_EmailAccountID lookup) of None \<Rightarrow> [] | Some (provider, _) \<Rightarrow> provider)"

definition SelectWorkerFor :: "reads \<Rightarrow> PlacementLookup \<Rightarrow> placement_error + PlacementResult" where
  "SelectWorkerFor rd lookup =
     (let req = placement_request rd lookup
      in case rd_candidates rd (lk_OrgID lookup) (placement_provider rd lookup) of
           None \<Rightarrow> selectFallback rd (lk_ExcludeWorkerID lookup)
         | Some [] \<Rightarrow> selectFallback rd (lk_ExcludeWorkerID lookup)
         | Some rows \<Rightarrow>
             let candidates =
                   map candidate_of (filter (\<lambda>row. lk_ExcludeWorkerID lookup \<noteq> Some (cr_WorkerID row)) rows);
                 reserved =
                   (if pr_IsolatedEgress req
                    then case rd_reserved rd (lk_OrgID lookup) of
                           None \<Rightarrow> None
                         | Some r \<Rightarrow> find (\<lambda>c. pc_WorkerID c = r \<and> Eligible c \<and> \<not> OverTarget c req) candidates
                    else None)
             in case reserved of
                  Some c \<Rightarrow>
                    (case buildResult rd c req candidates of
                       Inl e \<Rightarrow> Inl e | Inr res \<Rightarrow> Inr (res\<lparr>re_Mandated := True\<rparr>))
                | None \<Rightarrow>
                    (case SelectPlacement candidates req of
                       None \<Rightarrow> selectFallback rd (lk_ExcludeWorkerID lookup)
                     | Some best \<Rightarrow> buildResult rd best req candidates))"

definition MoveMailbox ::
  "reads \<Rightarrow> bool \<Rightarrow> instant \<Rightarrow> uuid \<Rightarrow> uuid option \<Rightarrow> uuid \<Rightarrow> fleet \<Rightarrow> move_error option \<times> fleet" where
  "MoveMailbox rd commits now account from_w to_w fl =
     (if from_w = Some to_w then (None, fl)
      else MoveEmailAccountWorker commits now account from_w to_w (resolveMailboxWeight rd account) fl)"

definition warmupPoolFor :: "bool \<Rightarrow> (uuid \<Rightarrow> bool option) \<Rightarrow> uuid \<Rightarrow> string" where
  "warmupPoolFor billing_none paid org =
     (if billing_none then ''premium''
      else case paid org of Some True \<Rightarrow> ''premium'' | _ \<Rightarrow> ''free'')"

definition AssignWorkerToEmail ::
  "(fleet \<Rightarrow> reads) \<Rightarrow> bool \<Rightarrow> bool \<Rightarrow> bool \<Rightarrow> (uuid \<Rightarrow> bool option) \<Rightarrow> instant \<Rightarrow> uuid \<Rightarrow> uuid \<Rightarrow> fleet
   \<Rightarrow> uuid option \<times> fleet" where
  "AssignWorkerToEmail rd commits pool_ok billing_none paid now account org fl =
     (case SelectWorkerFor (rd fl) \<lparr>lk_EmailAccountID = account, lk_OrgID = org, lk_CurrentWorkerID = None,
             lk_IgnoreIncumbency = False, lk_ExcludeWorkerID = None, lk_Region = []\<rparr> of
        Inl e \<Rightarrow> (None, fl)
      | Inr res \<Rightarrow>
          (case MoveEmailAccountWorker commits now account None (re_Worker res)
                  (resolveMailboxWeight (rd fl) account) fl of
             (Some e, fl') \<Rightarrow> (None, fl')
           | (None, fl') \<Rightarrow>
               (Some (re_Worker res),
                if pool_ok
                then set_account account (\<lambda>r. r\<lparr>fa_pool := warmupPoolFor billing_none paid org\<rparr>) fl'
                else fl')))"

text \<open>Releasing a mailbox is three statements; a fault of the last two is only logged.\<close>

definition UnassignWorkerFromEmail ::
  "reads \<Rightarrow> bool \<Rightarrow> bool \<Rightarrow> bool \<Rightarrow> uuid \<Rightarrow> fleet \<Rightarrow> fleet" where
  "UnassignWorkerFromEmail rd clear_ok count_ok load_ok account fl =
     (case fl_accounts fl account of
        None \<Rightarrow> fl
      | Some row \<Rightarrow>
          (case fa_worker row of
             None \<Rightarrow> fl
           | Some w \<Rightarrow>
               if \<not> clear_ok then fl
               else let fl = ClearEmailAccountWorker account fl;
                        fl = (if count_ok then DecrementAccountCount w fl else fl)
                    in if load_ok then AddLoadScore w (- resolveMailboxWeight rd account) fl else fl))"

fun migrate_loop ::
  "(fleet \<Rightarrow> reads) \<Rightarrow> (uuid \<Rightarrow> bool) \<Rightarrow> instant \<Rightarrow> uuid \<Rightarrow> uuid list \<Rightarrow> fleet \<Rightarrow> fleet" where
  "migrate_loop rd ok now w [] fl = fl"
| "migrate_loop rd ok now w (account # accounts) fl =
     migrate_loop rd ok now w accounts
       (case fl_accounts fl account of
          None \<Rightarrow> fl
        | Some row \<Rightarrow>
            (case fa_org row of
               None \<Rightarrow> fl
             | Some org \<Rightarrow>
                 (case SelectWorkerFor (rd fl) \<lparr>lk_EmailAccountID = account, lk_OrgID = org,
                         lk_CurrentWorkerID = None, lk_IgnoreIncumbency = False,
                         lk_ExcludeWorkerID = Some w,
                         lk_Region = (case fa_worker row of None \<Rightarrow> [] | Some x \<Rightarrow> rd_region (rd fl) x)\<rparr> of
                    Inl e \<Rightarrow> fl
                  | Inr res \<Rightarrow>
                      if re_Worker res = w then fl
                      else snd (MoveMailbox (rd fl) (ok account) now account (Some w) (re_Worker res) fl))))"

definition MigrateEmailsFromWorker ::
  "(fleet \<Rightarrow> reads) \<Rightarrow> (uuid \<Rightarrow> bool) \<Rightarrow> instant \<Rightarrow> uuid \<Rightarrow> uuid list option \<Rightarrow> fleet \<Rightarrow> fleet" where
  "MigrateEmailsFromWorker rd ok now w listing fl =
     (case listing of None \<Rightarrow> fl | Some accounts \<Rightarrow> migrate_loop rd ok now w accounts fl)"

text \<open>
  The workers a credential check may use, in the order to try them: \<open>org\<close> is \<open>None\<close> for the
  nil id.
\<close>

definition move_first :: "uuid \<Rightarrow> (uuid \<times> string) list \<Rightarrow> (uuid \<times> string) list" where
  "move_first i ws =
     (case dropWhile (\<lambda>w. fst w \<noteq> i) ws of
        [] \<Rightarrow> ws
      | w # rest \<Rightarrow> w # takeWhile (\<lambda>w. fst w \<noteq> i) ws @ rest)"

definition ValidationWorkers ::
  "reads \<Rightarrow> uuid option \<Rightarrow> uuid option \<Rightarrow> placement_error + (uuid \<times> string) list" where
  "ValidationWorkers rd org prefer_w =
     (case rd_placeable rd of
        None \<Rightarrow> Inl QueryFailed
      | Some live \<Rightarrow>
          let healthy = filter (placeable \<circ> snd) live
          in if healthy = [] then Inl NoAvailableWorkers
             else
               let healthy =
                     (case org of
                        None \<Rightarrow> healthy
                      | Some org \<Rightarrow>
                          (case SelectWorkerFor rd \<lparr>lk_EmailAccountID = replicate 16 0, lk_OrgID = org,
                                  lk_CurrentWorkerID = None, lk_IgnoreIncumbency = False,
                                  lk_ExcludeWorkerID = None, lk_Region = []\<rparr> of
                             Inl e \<Rightarrow> healthy | Inr res \<Rightarrow> move_first (re_Worker res) healthy))
               in Inr (case prefer_w of None \<Rightarrow> healthy | Some w \<Rightarrow> move_first w healthy))"

section \<open>The rotation pass\<close>

record Rotator =
  ro_MaxMovesPerTick :: int
  ro_MaxMovesPerDestination :: int
  ro_ScanLimit :: int

definition rotator_defaults :: "Rotator \<Rightarrow> Rotator" where
  "rotator_defaults r =
     \<lparr>ro_MaxMovesPerTick = (if ro_MaxMovesPerTick r = 0 then 50 else ro_MaxMovesPerTick r),
      ro_MaxMovesPerDestination = (if ro_MaxMovesPerDestination r = 0 then 5 else ro_MaxMovesPerDestination r),
      ro_ScanLimit = (if ro_ScanLimit r = 0 then 500 else ro_ScanLimit r)\<rparr>"

definition urgency_of :: "MailboxPlacementState \<Rightarrow> RotationUrgency" where
  "urgency_of s = fst (EvaluateRotation (rotation_input s))"

definition mustLeave :: "RotationUrgency \<Rightarrow> MailboxPlacementState \<Rightarrow> bool" where
  "mustLeave urgency s \<longleftrightarrow>
     urgency = RotationImmediate \<or> urgency = RotationElevated \<or> mp_WorkerReservedForOtherOrg s"

definition rotation_lookup :: "MailboxPlacementState \<Rightarrow> PlacementLookup" where
  "rotation_lookup s =
     (let leaving = mustLeave (urgency_of s) s
      in \<lparr>lk_EmailAccountID = mp_EmailAccountID s, lk_OrgID = the (mp_OrganizationID s),
          lk_CurrentWorkerID = (if leaving then None else mp_WorkerID s),
          lk_IgnoreIncumbency = OrganizationPlacementImbalanced s \<or> ProviderPlacementImbalanced s,
          lk_ExcludeWorkerID = (if leaving then mp_WorkerID s else None),
          lk_Region = mp_WorkerRegion s\<rparr>)"

definition concentration_move :: "MailboxPlacementState \<Rightarrow> bool" where
  "concentration_move s \<longleftrightarrow>
     (OrganizationPlacementImbalanced s \<or> ProviderPlacementImbalanced s) \<and> \<not> away_from_own s
     \<and> mp_WorkerUtilization s \<le> RotationHotUtilization \<and> \<not> mustLeave (urgency_of s) s"

text \<open>
  Where a mailbox should go, when it should go: everything the pass asks before it moves one,
  the limit per destination apart. The decision log names the mailbox, the worker it left and
  the one it went to; the wording of the reason is not modelled.
\<close>

definition rotation_target :: "instant \<Rightarrow> reads \<Rightarrow> MailboxPlacementState \<Rightarrow> PlacementResult option" where
  "rotation_target now rd s =
     (if mp_WorkerID s = None \<or> mp_OrganizationID s = None then None
      else if urgency_of s = RotationStay then None
      else if \<not> MayMove (urgency_of s) (Residency s now) then None
      else case SelectWorkerFor rd (rotation_lookup s) of
             Inl e \<Rightarrow> None
           | Inr res \<Rightarrow>
               if mp_WorkerID s = Some (re_Worker res) then None
               else if concentration_move s
                       \<and> \<not> RelievesConcentration res (OrganizationPlacementImbalanced s) (ProviderPlacementImbalanced s)
                    then None
               else if \<not> WorthMoving (urgency_of s) (re_IncumbentScore res) (re_Score res) (re_Mandated res)
                    then None
               else Some res)"

record decision =
  dl_MailboxID :: uuid
  dl_WorkerID :: uuid
  dl_Destination :: uuid

fun tick_loop ::
  "Rotator \<Rightarrow> instant \<Rightarrow> (fleet \<Rightarrow> reads) \<Rightarrow> (uuid \<Rightarrow> bool) \<Rightarrow> int \<Rightarrow> (uuid \<Rightarrow> int)
   \<Rightarrow> MailboxPlacementState list \<Rightarrow> fleet \<Rightarrow> decision list \<times> fleet" where
  "tick_loop r now rd ok moved landed [] fl = ([], fl)"
| "tick_loop r now rd ok moved landed (s # ss) fl =
     (if ro_MaxMovesPerTick r \<le> moved then ([], fl)
      else case rotation_target now (rd fl) s of
             None \<Rightarrow> tick_loop r now rd ok moved landed ss fl
           | Some res \<Rightarrow>
               if ro_MaxMovesPerDestination r \<le> landed (re_Worker res)
               then tick_loop r now rd ok moved landed ss fl
               else
                 (case MoveMailbox (rd fl) (ok (mp_EmailAccountID s)) now (mp_EmailAccountID s)
                         (mp_WorkerID s) (re_Worker res) fl of
                    (Some e, fl') \<Rightarrow> tick_loop r now rd ok moved landed ss fl'
                  | (None, fl') \<Rightarrow>
                      (case tick_loop r now rd ok (moved + 1)
                              (landed(re_Worker res := landed (re_Worker res) + 1)) ss fl' of
                         (entries, fl'') \<Rightarrow>
                           (\<lparr>dl_MailboxID = mp_EmailAccountID s, dl_WorkerID = the (mp_WorkerID s),
                             dl_Destination = re_Worker res\<rparr> # entries, fl''))))"

definition rotation_tick ::
  "Rotator \<Rightarrow> instant \<Rightarrow> (fleet \<Rightarrow> reads) \<Rightarrow> (uuid \<Rightarrow> bool) \<Rightarrow> fleet \<Rightarrow> decision list \<times> fleet" where
  "rotation_tick r now rd ok fl =
     (let r = rotator_defaults r
      in case rd_rotation (rd fl) of
           None \<Rightarrow> ([], fl)
         | Some rows \<Rightarrow>
             tick_loop r now rd ok 0 (\<lambda>_. 0)
               (ListRotationCandidates rows RotationHotUtilization (ro_ScanLimit r)) fl)"

section \<open>Counters\<close>

definition mailboxes_on :: "uuid \<Rightarrow> fleet \<Rightarrow> uuid set" where
  "mailboxes_on w fl = {a. \<exists>row. fl_accounts fl a = Some row \<and> fa_worker row = Some w}"

definition counts_exact :: "fleet \<Rightarrow> bool" where
  "counts_exact fl \<longleftrightarrow>
     finite (dom (fl_accounts fl)) \<and> int (card (dom (fl_accounts fl))) < 2 ^ 52
     \<and> (\<forall>w row. fl_workers fl w = Some row \<longrightarrow>
          fw_account_count row = int (card (mailboxes_on w fl))
          \<and> fw_load_score row = of_int (fw_account_count row))"

lemma resolveMailboxWeight_1 [simp]: "resolveMailboxWeight rd account = 1"
  by (simp add: resolveMailboxWeight_def defaultMailboxWeight_def MailboxWeight_def split: option.splits)

lemma mailboxes_on_dom: "mailboxes_on w fl \<subseteq> dom (fl_accounts fl)"
  by (auto simp: mailboxes_on_def)

lemma counts_facts:
  assumes "counts_exact fl"
  shows "finite (mailboxes_on w fl)" "int (card (mailboxes_on w fl)) < 2 ^ 52"
proof -
  have f: "finite (dom (fl_accounts fl))" using assms by (simp add: counts_exact_def)
  then show "finite (mailboxes_on w fl)" by (rule finite_subset [OF mailboxes_on_dom])
  have "card (mailboxes_on w fl) \<le> card (dom (fl_accounts fl))" by (rule card_mono [OF f mailboxes_on_dom])
  then show "int (card (mailboxes_on w fl)) < 2 ^ 52" using assms by (simp add: counts_exact_def)
qed

lemma exact_step:
  assumes "\<bar>n\<bar> < 2 ^ 52"
  shows "fadd (of_int n) 1 = of_int (n + 1)" "fsub (of_int n) 1 = of_int (n - 1)"
    "fadd (of_int n) (- 1) = of_int (n - 1)"
  using f64_of_int [of "n + 1"] f64_of_int [of "n - 1"] assms by (simp_all add: fadd_def fsub_def)

text \<open>Assigning one mailbox, released first or not, to a worker or to none.\<close>

lemma mailboxes_on_set_account:
  assumes "fl_accounts fl a = Some row"
  shows "mailboxes_on w (set_account a f fl)
    = (if fa_worker (f row) = Some w then insert a (mailboxes_on w fl) else mailboxes_on w fl - {a})"
  using assms by (auto simp: mailboxes_on_def set_account_def)

lemma mailboxes_on_set_worker [simp]: "mailboxes_on w (set_worker x f fl) = mailboxes_on w fl"
  by (simp add: mailboxes_on_def set_worker_def)

lemma set_worker_sel [simp]:
  "fl_accounts (set_worker x f fl) = fl_accounts fl"
  "fl_workers (set_worker x f fl) w = (if w = x then map_option f (fl_workers fl x) else fl_workers fl w)"
  by (auto simp: set_worker_def split: option.splits)

lemma set_account_sel [simp]:
  "fl_workers (set_account a f fl) = fl_workers fl"
  "dom (fl_accounts (set_account a f fl)) = dom (fl_accounts fl)"
  by (auto simp: set_account_def split: option.splits if_splits)

lemma card_insert_remove:
  assumes "finite A" "a \<in> A \<longleftrightarrow> was"
  shows "int (card (insert a A)) = int (card A) + (if was then 0 else 1)"
    "int (card (A - {a})) = int (card A) - (if was then 1 else 0)"
proof -
  show "int (card (insert a A)) = int (card A) + (if was then 0 else 1)"
    using assms by (auto simp: insert_absorb)
  show "int (card (A - {a})) = int (card A) - (if was then 1 else 0)"
    using assms card_Suc_Diff1 [of A a] by (auto simp: of_nat_diff)
qed

definition delta :: "uuid option \<Rightarrow> uuid \<Rightarrow> int" where
  "delta x w = (if x = Some w then 1 else 0)"

lemma counts_update:
  assumes "counts_exact fl" "fl_accounts fl a = Some row"
    and acc: "fl_accounts fl' = fl_accounts (set_account a f fl)"
    and rows: "\<And>w r'. fl_workers fl' w = Some r' \<Longrightarrow>
      \<exists>r. fl_workers fl w = Some r
        \<and> fw_account_count r' = fw_account_count r + delta (fa_worker (f row)) w - delta (fa_worker row) w
        \<and> fw_load_score r' = of_int (fw_account_count r')"
  shows "counts_exact fl'"
proof -
  have on: "mailboxes_on w fl' = mailboxes_on w (set_account a f fl)" for w
    by (simp add: mailboxes_on_def acc)
  have "dom (fl_accounts fl') = dom (fl_accounts fl)" by (simp add: acc)
  moreover have "fw_account_count r' = int (card (mailboxes_on w fl')) \<and> fw_load_score r' = of_int (fw_account_count r')"
    if r': "fl_workers fl' w = Some r'" for w r'
  proof -
    obtain r where r: "fl_workers fl w = Some r"
      "fw_account_count r' = fw_account_count r + delta (fa_worker (f row)) w - delta (fa_worker row) w"
      "fw_load_score r' = of_int (fw_account_count r')" using rows [OF r'] by blast
    have "fw_account_count r = int (card (mailboxes_on w fl))" using assms(1) r(1) by (simp add: counts_exact_def)
    moreover have "a \<in> mailboxes_on w fl \<longleftrightarrow> fa_worker row = Some w"
      using assms(2) by (simp add: mailboxes_on_def)
    note card_insert_remove [OF counts_facts(1) [OF assms(1), of w] this]
    ultimately show ?thesis
      using r unfolding on mailboxes_on_set_account [OF assms(2)] by (auto simp: delta_def)
  qed
  ultimately show ?thesis using assms(1) unfolding counts_exact_def by simp
qed

lemma counts_row:
  assumes "counts_exact fl" "fl_workers fl w = Some r"
  shows "fw_account_count r = int (card (mailboxes_on w fl))" "fw_load_score r = of_int (fw_account_count r)"
    "\<bar>fw_account_count r\<bar> < 2 ^ 52"
  using assms counts_facts(2) [OF assms(1), of w] unfolding counts_exact_def by auto

lemma counts_occupied:
  assumes "counts_exact fl" "fl_workers fl w = Some r" "fl_accounts fl a = Some row" "fa_worker row = Some w"
  shows "1 \<le> fw_account_count r"
proof -
  have "a \<in> mailboxes_on w fl" using assms(3,4) by (simp add: mailboxes_on_def)
  then have "0 < card (mailboxes_on w fl)" using counts_facts(1) [OF assms(1), of w] by (auto simp: card_gt_0_iff)
  with counts_row(1) [OF assms(1,2)] show ?thesis by simp
qed

lemma add_load_exact:
  assumes "fw_load_score r = of_int (fw_account_count r)" "\<bar>fw_account_count r\<bar> < 2 ^ 52"
  shows "fw_load_score (add_load 1 1 r) = of_int (fw_account_count (add_load 1 1 r))"
  using assms exact_step(1) by (simp add: add_load_def)

lemma drop_load_exact:
  assumes "fw_load_score r = of_int (fw_account_count r)" "\<bar>fw_account_count r\<bar> < 2 ^ 52" "1 \<le> fw_account_count r"
  shows "fw_account_count (drop_load 1 r) = fw_account_count r - 1"
    "fw_load_score (drop_load 1 r) = of_int (fw_account_count (drop_load 1 r))"
  using assms(3) exact_step(2) [OF assms(2)] assms(1) by (simp_all add: drop_load_def del: of_int_diff)

lemma move_counts:
  assumes "counts_exact fl"
  shows "counts_exact (snd (MoveEmailAccountWorker commits now a from_w to_w 1 fl))"
proof (cases "fl_accounts fl a")
  case None
  then show ?thesis using assms by (simp add: MoveEmailAccountWorker_def)
next
  case (Some row)
  let ?set = "\<lambda>r. r\<lparr>fa_worker := Some to_w, fa_assigned_at := Some now\<rparr>"
  define fl1 where "fl1 = (case fa_worker row of None \<Rightarrow> fl | Some cur \<Rightarrow> set_worker cur (drop_load 1) fl)"
  show ?thesis
  proof (cases "fa_worker row = Some to_w \<or> snd (MoveEmailAccountWorker commits now a from_w to_w 1 fl) = fl")
    case True
    then show ?thesis using assms Some by (auto simp: MoveEmailAccountWorker_def)
  next
    case False
    then have moved: "snd (MoveEmailAccountWorker commits now a from_w to_w 1 fl)
        = set_account a ?set (set_worker to_w (add_load 1 1) fl1)" and ne: "fa_worker row \<noteq> Some to_w"
      using Some by (auto simp: MoveEmailAccountWorker_def fl1_def Let_def split: if_splits)
    have acc1: "fl_accounts fl1 = fl_accounts fl" by (simp add: fl1_def split: option.splits)
    show ?thesis unfolding moved
    proof (rule counts_update [OF assms Some])
      show "fl_accounts (set_account a ?set (set_worker to_w (add_load 1 1) fl1)) = fl_accounts (set_account a ?set fl)"
        by (simp add: set_account_def acc1 split: option.splits)
      fix w r'
      assume "fl_workers (set_account a ?set (set_worker to_w (add_load 1 1) fl1)) w = Some r'"
      then have r': "(if w = to_w then map_option (add_load 1 1) (fl_workers fl1 to_w) else fl_workers fl1 w) = Some r'"
        by simp
      have fl1: "fl_workers fl1 w = (if fa_worker row = Some w then map_option (drop_load 1) (fl_workers fl w) else fl_workers fl w)" for w
        by (auto simp: fl1_def split: option.splits)
      from r' obtain r where r: "fl_workers fl w = Some r" by (auto simp: fl1 split: if_splits)
      note row = counts_row [OF assms r]
      show "\<exists>r. fl_workers fl w = Some r
        \<and> fw_account_count r' = fw_account_count r + delta (fa_worker (?set row)) w - delta (fa_worker row) w
        \<and> fw_load_score r' = of_int (fw_account_count r')"
      proof (cases "w = to_w")
        case True
        with r' fl1 r ne have "r' = add_load 1 1 r" by simp
        with True ne r add_load_exact [OF row(2,3)] show ?thesis by (simp add: delta_def add_load_def)
      next
        case other: False
        show ?thesis
        proof (cases "fa_worker row = Some w")
          case True
          with r' fl1 r other have "r' = drop_load 1 r" by simp
          with True other r drop_load_exact [OF row(2,3) counts_occupied [OF assms r Some True]]
          show ?thesis by (simp add: delta_def)
        next
          case False
          with r' fl1 r other row(2) show ?thesis by (simp add: delta_def)
        qed
      qed
    qed
  qed
qed

lemma MoveMailbox_counts:
  "counts_exact fl \<Longrightarrow> counts_exact (snd (MoveMailbox rd commits now a from_w to_w fl))"
  by (simp add: MoveMailbox_def move_counts)

lemma unassign_counts:
  assumes "counts_exact fl"
  shows "counts_exact (UnassignWorkerFromEmail rd clear_ok True True a fl)"
proof (cases "fl_accounts fl a")
  case None
  then show ?thesis using assms by (simp add: UnassignWorkerFromEmail_def)
next
  case (Some row)
  show ?thesis
  proof (cases "fa_worker row = None \<or> \<not> clear_ok")
    case True
    then show ?thesis using assms Some by (auto simp: UnassignWorkerFromEmail_def split: option.splits)
  next
    case False
    then obtain w where w: "fa_worker row = Some w" and ok: "clear_ok" by auto
    let ?clear = "\<lambda>r. r\<lparr>fa_worker := None, fa_assigned_at := None\<rparr>"
    have u: "UnassignWorkerFromEmail rd clear_ok True True a fl
        = AddLoadScore w (- 1) (DecrementAccountCount w (set_account a ?clear fl))"
      using Some w ok by (simp add: UnassignWorkerFromEmail_def ClearEmailAccountWorker_def)
    show ?thesis unfolding u
    proof (rule counts_update [OF assms Some])
      show "fl_accounts (AddLoadScore w (- 1) (DecrementAccountCount w (set_account a ?clear fl)))
          = fl_accounts (set_account a ?clear fl)"
        by (simp add: AddLoadScore_def DecrementAccountCount_def)
      fix x r'
      assume "fl_workers (AddLoadScore w (- 1) (DecrementAccountCount w (set_account a ?clear fl))) x = Some r'"
      then obtain r where r: "fl_workers fl x = Some r"
        and r': "r' = (if x = w then r\<lparr>fw_account_count := max (fw_account_count r - 1) 0,
                         fw_load_score := max 0 (fadd (fw_load_score r) (- 1))\<rparr> else r)"
        by (auto simp: AddLoadScore_def DecrementAccountCount_def split: if_splits)
      note row = counts_row [OF assms r]
      show "\<exists>r. fl_workers fl x = Some r
        \<and> fw_account_count r' = fw_account_count r + delta (fa_worker (?clear row)) x - delta (fa_worker row) x
        \<and> fw_load_score r' = of_int (fw_account_count r')"
      proof (cases "x = w")
        case True
        with counts_occupied [OF assms _ Some w] r have "1 \<le> fw_account_count r" by simp
        with True r r' w row exact_step(3) [OF row(3)] show ?thesis
          by (simp add: delta_def del: of_int_diff)
      next
        case False
        with r r' w row(2) show ?thesis by (simp add: delta_def)
      qed
    qed
  qed
qed

lemma tick_loop_counts:
  "counts_exact fl \<Longrightarrow> counts_exact (snd (tick_loop r now rd ok moved landed ss fl))"
proof (induction ss arbitrary: moved landed fl)
  case (Cons s ss)
  show ?case
  proof (cases "rotation_target now (rd fl) s")
    case None
    with Cons show ?thesis by simp
  next
    case (Some res)
    obtain e fl' where m: "MoveMailbox (rd fl) (ok (mp_EmailAccountID s)) now (mp_EmailAccountID s)
        (mp_WorkerID s) (re_Worker res) fl = (e, fl')"
      by (cases "MoveMailbox (rd fl) (ok (mp_EmailAccountID s)) now (mp_EmailAccountID s) (mp_WorkerID s) (re_Worker res) fl")
    have "counts_exact fl'"
      using MoveMailbox_counts [OF Cons.prems, of "rd fl" "ok (mp_EmailAccountID s)" now "mp_EmailAccountID s"
          "mp_WorkerID s" "re_Worker res"] by (simp add: m)
    with Cons Some m show ?thesis by (cases e) (simp_all add: case_prod_beta)
  qed
qed simp

lemma migrate_loop_counts: "counts_exact fl \<Longrightarrow> counts_exact (migrate_loop rd ok now w accounts fl)"
proof (induction accounts arbitrary: fl)
  case (Cons a accounts)
  show ?case
    unfolding migrate_loop.simps
    by (rule Cons.IH) (use Cons.prems in \<open>auto intro!: MoveMailbox_counts split: option.split sum.split\<close>)
qed simp

lemma assign_counts:
  assumes "counts_exact fl"
  shows "counts_exact (snd (AssignWorkerToEmail rd commits pool_ok billing_none paid now a org fl))"
proof -
  have pool: "counts_exact (set_account a (\<lambda>r. r\<lparr>fa_pool := p\<rparr>) x)" if "counts_exact x" for x p
  proof (cases "fl_accounts x a")
    case None
    with that show ?thesis by (simp add: set_account_def)
  next
    case (Some row)
    show ?thesis by (rule counts_update [OF that Some, where f = "\<lambda>r. r\<lparr>fa_pool := p\<rparr>"]) (use counts_row(2) [OF that] in \<open>auto simp: delta_def\<close>)
  qed
  show ?thesis
  proof (cases "SelectWorkerFor (rd fl) \<lparr>lk_EmailAccountID = a, lk_OrgID = org, lk_CurrentWorkerID = None,
             lk_IgnoreIncumbency = False, lk_ExcludeWorkerID = None, lk_Region = []\<rparr>")
    case (Inl e)
    with assms show ?thesis by (simp add: AssignWorkerToEmail_def)
  next
    case (Inr res)
    obtain e x where m: "MoveEmailAccountWorker commits now a None (re_Worker res) 1 fl = (e, x)"
      by (cases "MoveEmailAccountWorker commits now a None (re_Worker res) 1 fl")
    have "counts_exact x" using move_counts [OF assms, of commits now a None "re_Worker res"] by (simp add: m)
    with Inr m pool show ?thesis by (cases e) (simp_all add: AssignWorkerToEmail_def)
  qed
qed

text \<open>
  What can happen to the fleet: a mailbox is placed, released with all three statements done, a
  worker is drained, a rotation pass runs. Each with any reads and any transactions failing.
\<close>

inductive fleet_step :: "fleet \<Rightarrow> fleet \<Rightarrow> bool" where
  placed: "fleet_step fl (snd (AssignWorkerToEmail rd commits pool_ok billing_none paid now a org fl))"
| released: "fleet_step fl (UnassignWorkerFromEmail (rd fl) clear_ok True True a fl)"
| drained: "fleet_step fl (MigrateEmailsFromWorker rd ok now w listing fl)"
| rotated: "fleet_step fl (snd (rotation_tick r now rd ok fl))"

inductive_cases fleet_stepE: "fleet_step fl fl'"

lemma fleet_step_counts: "fleet_step fl fl' \<Longrightarrow> counts_exact fl \<Longrightarrow> counts_exact fl'"
  by (erule fleet_stepE)
    (auto simp: MigrateEmailsFromWorker_def rotation_tick_def Let_def
      intro: assign_counts unassign_counts migrate_loop_counts tick_loop_counts split: option.split)


section \<open>What a pass may do\<close>

text \<open>A worker is offered when the reads list it as healthy.\<close>

definition offered :: "reads \<Rightarrow> uuid \<Rightarrow> bool" where
  "offered rd w \<longleftrightarrow>
     (\<exists>org provider rows row. rd_candidates rd org provider = Some rows \<and> row \<in> set rows
        \<and> cr_WorkerID row = w \<and> placeable (cr_HealthState row))
     \<or> (\<exists>ws health. rd_placeable rd = Some ws \<and> (w, health) \<in> set ws \<and> placeable health)"

lemma selectFallback_offered:
  assumes "selectFallback rd exclude = Inr res"
  shows "offered rd (re_Worker res)" "exclude \<noteq> Some (re_Worker res)"
  using assms
  by (auto simp: selectFallback_def offered_def bare_result_def find_Some_iff split: option.splits)
    (metis nth_mem)+

lemma buildResult_worker: "buildResult rd c req cs = Inr res \<Longrightarrow> re_Worker res = pc_WorkerID c"
  by (auto simp: buildResult_def bare_result_def Let_def split: option.splits bool.splits)

lemma candidate_offered:
  assumes "rd_candidates rd org provider = Some rows"
    and "c \<in> set (map candidate_of (filter (\<lambda>row. exclude \<noteq> Some (cr_WorkerID row)) rows))" "Eligible c"
  shows "offered rd (pc_WorkerID c)" "exclude \<noteq> Some (pc_WorkerID c)"
  using assms by (auto simp: offered_def candidate_of_def Eligible_def)

lemma find_in_set: "find P xs = Some x \<Longrightarrow> x \<in> set xs \<and> P x"
  by (auto simp: find_Some_iff)

lemma SelectWorkerFor_offered:
  assumes "SelectWorkerFor rd lookup = Inr res"
  shows "offered rd (re_Worker res)" "lk_ExcludeWorkerID lookup \<noteq> Some (re_Worker res)"
proof -
  let ?req = "placement_request rd lookup"
  have "offered rd (re_Worker res) \<and> lk_ExcludeWorkerID lookup \<noteq> Some (re_Worker res)"
  proof (cases "rd_candidates rd (lk_OrgID lookup) (placement_provider rd lookup)")
    case None
    with assms show ?thesis by (auto simp: SelectWorkerFor_def Let_def dest: selectFallback_offered)
  next
    case (Some rows)
    show ?thesis
    proof (cases rows)
      case Nil
      with Some assms show ?thesis by (auto simp: SelectWorkerFor_def Let_def dest: selectFallback_offered)
    next
      case (Cons row rows')
      define candidates where "candidates =
        map candidate_of (filter (\<lambda>row. lk_ExcludeWorkerID lookup \<noteq> Some (cr_WorkerID row)) rows)"
      define reserved where "reserved = (if pr_IsolatedEgress ?req
                    then case rd_reserved rd (lk_OrgID lookup) of
                           None \<Rightarrow> None
                         | Some r \<Rightarrow> find (\<lambda>c. pc_WorkerID c = r \<and> Eligible c \<and> \<not> OverTarget c ?req) candidates
                    else None)"
      have S: "SelectWorkerFor rd lookup =
        (case reserved of
           Some c \<Rightarrow> (case buildResult rd c ?req candidates of Inl e \<Rightarrow> Inl e | Inr res \<Rightarrow> Inr (res\<lparr>re_Mandated := True\<rparr>))
         | None \<Rightarrow> (case SelectPlacement candidates ?req of
                      None \<Rightarrow> selectFallback rd (lk_ExcludeWorkerID lookup)
                    | Some best \<Rightarrow> buildResult rd best ?req candidates))"
        unfolding SelectWorkerFor_def Let_def Some option.case candidates_def reserved_def Cons list.case
        by (rule refl)
      have ok: "offered rd (pc_WorkerID c) \<and> lk_ExcludeWorkerID lookup \<noteq> Some (pc_WorkerID c)"
        if "c \<in> set candidates" "Eligible c" for c
        using candidate_offered [OF Some] that unfolding candidates_def by blast
      show ?thesis
      proof (cases reserved)
        case r: None
        show ?thesis
        proof (cases "SelectPlacement candidates ?req")
          case None
          with S assms r have "selectFallback rd (lk_ExcludeWorkerID lookup) = Inr res" by simp
          from selectFallback_offered [OF this] show ?thesis by simp
        next
          case (Some best)
          with S assms r have "buildResult rd best ?req candidates = Inr res" by simp
          from buildResult_worker [OF this] ok [OF SelectPlacement_Some(1,2) [OF Some]] show ?thesis by simp
        qed
      next
        case r: (Some c)
        then have "c \<in> set candidates" "Eligible c"
          by (auto simp: reserved_def dest: find_in_set split: if_splits option.splits)
        moreover have "re_Worker res = pc_WorkerID c"
          using S assms r by (auto dest: buildResult_worker split: sum.splits)
        ultimately show ?thesis using ok by simp
      qed
    qed
  qed
  then show "offered rd (re_Worker res)" "lk_ExcludeWorkerID lookup \<noteq> Some (re_Worker res)" by auto
qed

lemma rotation_target_Some:
  assumes "rotation_target now rd s = Some res"
  shows "\<exists>w. mp_WorkerID s = Some w \<and> re_Worker res \<noteq> w"
    "MayMove (urgency_of s) (Residency s now)"
    "WorthMoving (urgency_of s) (re_IncumbentScore res) (re_Score res) (re_Mandated res)"
    "SelectWorkerFor rd (rotation_lookup s) = Inr res"
  using assms by (auto simp: rotation_target_def split: if_splits sum.splits)

text \<open>A move the rules allow: from one state, with the reads of some moment of the pass.\<close>

definition lawful :: "instant \<Rightarrow> (fleet \<Rightarrow> reads) \<Rightarrow> MailboxPlacementState \<Rightarrow> decision \<Rightarrow> bool" where
  "lawful now rd s m \<longleftrightarrow>
     dl_MailboxID m = mp_EmailAccountID s \<and> mp_WorkerID s = Some (dl_WorkerID m)
     \<and> dl_Destination m \<noteq> dl_WorkerID m
     \<and> (\<exists>fl res. offered (rd fl) (dl_Destination m)
          \<and> SelectWorkerFor (rd fl) (rotation_lookup s) = Inr res \<and> re_Worker res = dl_Destination m
          \<and> (urgency_of s \<ge> RotationElevated
             \<or> re_Mandated res \<or> RotationMinScoreGain \<le> fsub (re_Score res) (re_IncumbentScore res)))
     \<and> (urgency_of s = RotationImmediate
        \<or> Residency s now = 0
        \<or> urgency_of s = RotationElevated \<and> RotationElevatedResidency \<le> Residency s now
        \<or> urgency_of s = RotationOpportunistic \<and> RotationMinResidency \<le> Residency s now)"

lemma rotation_target_lawful:
  assumes "rotation_target now (rd fl) s = Some res"
  shows "lawful now rd s
    \<lparr>dl_MailboxID = mp_EmailAccountID s, dl_WorkerID = the (mp_WorkerID s), dl_Destination = re_Worker res\<rparr>"
proof -
  note r = rotation_target_Some [OF assms]
  obtain w where w: "mp_WorkerID s = Some w" "re_Worker res \<noteq> w" using r(1) by blast
  have gain: "urgency_of s \<ge> RotationElevated \<or> re_Mandated res
      \<or> RotationMinScoreGain \<le> fsub (re_Score res) (re_IncumbentScore res)"
    using r(3) by (cases "urgency_of s") (auto simp: less_eq_RotationUrgency_def)
  have stay: "urgency_of s = RotationImmediate \<or> Residency s now = 0
        \<or> urgency_of s = RotationElevated \<and> RotationElevatedResidency \<le> Residency s now
        \<or> urgency_of s = RotationOpportunistic \<and> RotationMinResidency \<le> Residency s now"
    using r(2) by (cases "urgency_of s") auto
  show ?thesis
    unfolding lawful_def using w gain stay SelectWorkerFor_offered(1) [OF r(4)] r(4) by auto
qed

definition landings :: "uuid \<Rightarrow> decision list \<Rightarrow> int" where
  "landings w log' = int (length (filter (\<lambda>m. dl_Destination m = w) log'))"

lemma tick_loop_rules:
  assumes "moved \<le> ro_MaxMovesPerTick r" "\<forall>w. landed w \<le> ro_MaxMovesPerDestination r"
  shows "moved + int (length (fst (tick_loop r now rd ok moved landed ss fl))) \<le> ro_MaxMovesPerTick r
    \<and> (\<forall>w. landed w + landings w (fst (tick_loop r now rd ok moved landed ss fl)) \<le> ro_MaxMovesPerDestination r)
    \<and> (\<forall>m \<in> set (fst (tick_loop r now rd ok moved landed ss fl)). \<exists>s \<in> set ss. lawful now rd s m)"
  using assms
proof (induction ss arbitrary: moved landed fl)
  case Nil
  then show ?case by (simp add: landings_def)
next
  case (Cons s ss)
  show ?case
  proof (cases "ro_MaxMovesPerTick r \<le> moved")
    case True
    with Cons.prems show ?thesis by (simp add: landings_def)
  next
    case room: False
    show ?thesis
    proof (cases "rotation_target now (rd fl) s")
      case None
      with room Cons.IH [OF Cons.prems] show ?thesis by auto
    next
      case (Some res)
      obtain e fl' where m: "MoveMailbox (rd fl) (ok (mp_EmailAccountID s)) now (mp_EmailAccountID s)
          (mp_WorkerID s) (re_Worker res) fl = (e, fl')"
        by (cases "MoveMailbox (rd fl) (ok (mp_EmailAccountID s)) now (mp_EmailAccountID s) (mp_WorkerID s) (re_Worker res) fl")
      show ?thesis
      proof (cases "ro_MaxMovesPerDestination r \<le> landed (re_Worker res) \<or> e \<noteq> None")
        case True
        with room Some m Cons.IH [OF Cons.prems] show ?thesis by auto
      next
        case False
        let ?landed = "landed(re_Worker res := landed (re_Worker res) + 1)"
        have "moved + 1 \<le> ro_MaxMovesPerTick r" "\<forall>w. ?landed w \<le> ro_MaxMovesPerDestination r"
          using room False Cons.prems(2) by auto
        note IH = Cons.IH [OF this, of fl']
        obtain entries x where t: "tick_loop r now rd ok (moved + 1) ?landed ss fl' = (entries, x)"
          by (cases "tick_loop r now rd ok (moved + 1) ?landed ss fl'")
        define d where "d = \<lparr>dl_MailboxID = mp_EmailAccountID s, dl_WorkerID = the (mp_WorkerID s), dl_Destination = re_Worker res\<rparr>"
        have d: "lawful now rd s d" "dl_Destination d = re_Worker res"
          unfolding d_def by (rule rotation_target_lawful [where rd = rd and fl = fl, OF Some]) simp
        have log: "fst (tick_loop r now rd ok moved landed (s # ss) fl) = d # entries"
          using room False Some m t by (simp add: d_def)
        have land: "landed w + landings w (d # entries) = ?landed w + landings w entries" for w
          using d(2) by (simp add: landings_def)
        note IH = IH [unfolded t fst_conv]
        show ?thesis
          unfolding log land using IH d(1) by simp
      qed
    qed
  qed
qed

lemma ListRotationCandidates_listed: "s \<in> set (ListRotationCandidates rows hot cap) \<Longrightarrow> s \<in> set rows \<and> listed hot s"
  by (auto simp: ListRotationCandidates_def Let_def dest: in_set_takeD)

text \<open>
  Claim C20. A rotation pass is reluctant. It makes at most its limit of moves, at most the limit
  per destination onto any one worker, and every move it logs is lawful: it takes a mailbox off
  the worker it is listed on, onto a different worker that the reads offer as healthy and that
  placement chose; unless the worker must be left it clears the score gain or is the reserved
  worker of the organization; and the mailbox has served the residency its urgency asks for,
  unless the worker cannot work at all or its residency is unknown.
\<close>

theorem rotation_pass_is_reluctant:
  assumes "0 \<le> ro_MaxMovesPerTick r" "0 \<le> ro_MaxMovesPerDestination r"
    and "rd_rotation (rd fl) = Some rows" "rotation_tick r now rd ok fl = (log', fl')"
  shows "int (length log') \<le> ro_MaxMovesPerTick (rotator_defaults r)
    \<and> (\<forall>w. landings w log' \<le> ro_MaxMovesPerDestination (rotator_defaults r))
    \<and> (\<forall>m \<in> set log'. \<exists>s \<in> set rows. listed RotationHotUtilization s \<and> lawful now rd s m)"
proof -
  have "0 \<le> ro_MaxMovesPerTick (rotator_defaults r)" "\<forall>w::uuid. (0::int) \<le> ro_MaxMovesPerDestination (rotator_defaults r)"
    using assms(1,2) by (simp_all add: rotator_defaults_def)
  note rules = tick_loop_rules [OF this]
  have "log' = fst (tick_loop (rotator_defaults r) now rd ok 0 (\<lambda>_. 0)
      (ListRotationCandidates rows RotationHotUtilization (ro_ScanLimit (rotator_defaults r))) fl)"
    using assms(3,4) by (simp add: rotation_tick_def Let_def)
  then show ?thesis
    using rules [of now rd ok "ListRotationCandidates rows RotationHotUtilization (ro_ScanLimit (rotator_defaults r))" fl]
      ListRotationCandidates_listed [where rows = rows and hot = RotationHotUtilization]
    by (simp only: add_0) blast
qed

section \<open>Credential checks\<close>

lemma move_first_set [simp]: "set (move_first i ws) = set ws"
proof (cases "dropWhile (\<lambda>w. fst w \<noteq> i) ws")
  case Nil
  then show ?thesis by (simp only: move_first_def list.case)
next
  case (Cons w rest)
  have "set ws = set (takeWhile (\<lambda>w. fst w \<noteq> i) ws) \<union> set (dropWhile (\<lambda>w. fst w \<noteq> i) ws)"
    by (metis set_append takeWhile_dropWhile_id)
  then show ?thesis unfolding move_first_def Cons by auto
qed

lemma move_first_head:
  assumes "i \<in> fst ` set ws"
  shows "\<exists>health rest. move_first i ws = (i, health) # rest"
proof (cases "dropWhile (\<lambda>w. fst w \<noteq> i) ws")
  case Nil
  with assms show ?thesis by (auto simp: dropWhile_eq_Nil_conv)
next
  case (Cons w rest)
  then have "fst w = i" by (metis (mono_tags, lifting) dropWhile_eq_Cons_conv)
  with Cons show ?thesis by (cases w) (simp add: move_first_def)
qed

lemma validation_workers:
  assumes "ValidationWorkers rd org prefer_w = Inr ws" "rd_placeable rd = Some live"
  shows "set ws = {w \<in> set live. placeable (snd w)}"
    and "prefer_w = Some i \<Longrightarrow> i \<in> fst ` {w \<in> set live. placeable (snd w)} \<Longrightarrow> fst (hd ws) = i"
proof -
  let ?healthy = "filter (placeable \<circ> snd) live"
  define mid where "mid = (case org of None \<Rightarrow> ?healthy
      | Some org \<Rightarrow> (case SelectWorkerFor rd \<lparr>lk_EmailAccountID = replicate 16 0, lk_OrgID = org,
                        lk_CurrentWorkerID = None, lk_IgnoreIncumbency = False,
                        lk_ExcludeWorkerID = None, lk_Region = []\<rparr> of
                      Inl e \<Rightarrow> ?healthy | Inr res \<Rightarrow> move_first (re_Worker res) ?healthy))"
  have mid: "set mid = {w \<in> set live. placeable (snd w)}"
    by (auto simp: mid_def split: option.splits sum.splits)
  have ws: "ws = (case prefer_w of None \<Rightarrow> mid | Some w \<Rightarrow> move_first w mid)"
    unfolding mid_def using assms by (auto simp: ValidationWorkers_def Let_def split: if_splits)
  then show "set ws = {w \<in> set live. placeable (snd w)}"
    using mid by (simp split: option.splits)
  show "fst (hd ws) = i" if "prefer_w = Some i" "i \<in> fst ` {w \<in> set live. placeable (snd w)}"
    using that mid ws move_first_head [of i mid] by auto
qed

section \<open>A small fleet\<close>

text \<open>One mailbox on a worker that has stopped, and a second worker that is healthy.\<close>

definition sample_fleet :: fleet where
  "sample_fleet =
     \<lparr>fl_accounts = [[7] \<mapsto> \<lparr>fa_worker = Some [1], fa_assigned_at = Some 0, fa_org = Some [5],
                              fa_executed = False, fa_pool = ''free''\<rparr>],
      fl_workers = [[1] \<mapsto> \<lparr>fw_account_count = 1, fw_load_score = 1\<rparr>,
                    [2] \<mapsto> \<lparr>fw_account_count = 0, fw_load_score = 0\<rparr>]\<rparr>"

definition sample_reads :: reads where
  "sample_reads =
     \<lparr>rd_hint = \<lambda>_. None, rd_orgTotal = \<lambda>_. None, rd_isolated = \<lambda>_. False, rd_candidates = \<lambda>_ _. None,
      rd_reserved = \<lambda>_. None, rd_worker = \<lambda>_. Some True,
      rd_placeable = Some [([1], ''blocked''), ([2], ''healthy'')], rd_region = \<lambda>_. [],
      rd_rotation = Some [sample_state\<lparr>mp_WorkerLive := False\<rparr>]\<rparr>"

definition sample_rotator :: Rotator where
  "sample_rotator = \<lparr>ro_MaxMovesPerTick = 0, ro_MaxMovesPerDestination = 0, ro_ScanLimit = 0\<rparr>"

lemma sample_counts: "counts_exact sample_fleet"
proof -
  have on: "mailboxes_on [1] sample_fleet = {[7]}" "mailboxes_on [2] sample_fleet = {}"
    by (auto simp: mailboxes_on_def sample_fleet_def)
  show ?thesis
    unfolding counts_exact_def
  proof (intro conjI allI impI)
    fix w row
    assume "fl_workers sample_fleet w = Some row"
    then have "w = [1] \<and> row = \<lparr>fw_account_count = 1, fw_load_score = 1\<rparr>
        \<or> w = [2] \<and> row = \<lparr>fw_account_count = 0, fw_load_score = 0\<rparr>"
      by (auto simp: sample_fleet_def split: if_splits)
    then show "fw_account_count row = int (card (mailboxes_on w sample_fleet))"
      "fw_load_score row = of_int (fw_account_count row)"
      using on by auto
  qed (simp_all add: sample_fleet_def)
qed


lemma sample_pass:
  "fst (rotation_tick sample_rotator 1 (\<lambda>_. sample_reads) (\<lambda>_. True) sample_fleet)
   = [\<lparr>dl_MailboxID = [7], dl_WorkerID = [1], dl_Destination = [2]\<rparr>]"
  by code_simp

lemma rotation_pass_is_reluctant_witness:
  "fst (rotation_tick sample_rotator 1 (\<lambda>_. sample_reads) (\<lambda>_. True) sample_fleet)
   = [\<lparr>dl_MailboxID = [7], dl_WorkerID = [1], dl_Destination = [2]\<rparr>]
   \<and> (\<exists>s. lawful 1 (\<lambda>_. sample_reads) s \<lparr>dl_MailboxID = [7], dl_WorkerID = [1], dl_Destination = [2]\<rparr>)"
proof -
  have rows: "rd_rotation ((\<lambda>_. sample_reads) sample_fleet) = Some [sample_state\<lparr>mp_WorkerLive := False\<rparr>]"
    by (simp add: sample_reads_def)
  have r: "0 \<le> ro_MaxMovesPerTick sample_rotator" "0 \<le> ro_MaxMovesPerDestination sample_rotator"
    by (simp_all add: sample_rotator_def)
  obtain fl' where t: "rotation_tick sample_rotator 1 (\<lambda>_. sample_reads) (\<lambda>_. True) sample_fleet
      = ([\<lparr>dl_MailboxID = [7], dl_WorkerID = [1], dl_Destination = [2]\<rparr>], fl')"
    using sample_pass by (metis prod.collapse)
  from rotation_pass_is_reluctant [OF r rows t] t show ?thesis by auto
qed

end
