(* ===== verification/Branching.thy ===== *)
theory Branching
  imports Mail_Host
begin

text \<open>
  The branches of a campaign step, \<open>internal/repository/branch_conditions.go\<close>: what an editor
  may store, the three-valued evaluation of a branch relative to when the step was sent, the
  instant triggers, and the random split. Times are instants in nanoseconds, text is ASCII.
\<close>

section \<open>Data\<close>

record BranchCondition =
  cd_Field :: string
  cd_Operator :: string
  cd_Value :: "int option"
  cd_Label :: string

record Branch =
  br_BranchID :: string
  br_Target :: "uuid option"
  br_Conditions :: "BranchCondition list"
  br_Instant :: "bool option"

record progress =
  pg_ContactID :: uuid
  pg_SentAt :: "instant option"
  pg_OpenedAt :: "instant option"
  pg_ClickedAt :: "instant option"
  pg_RepliedAt :: "instant option"
  pg_ReplyClass :: string
  pg_AILabel :: string
  pg_ReplyIntent :: string

definition branchConditionFields :: "string list" where
  "branchConditionFields =
     [''opened'', ''clicked'', ''replied'', ''not_opened'', ''not_clicked'', ''not_replied'',
      ''reply_positive'', ''reply_negative'', ''reply_neutral'', ''reply_automated'', ''random'',
      ''ai_label'', ''reply_intent'']"

definition branchConditionOperators :: "string list" where
  "branchConditionOperators = [''within_days'', ''ever'', ''always'', ''chance'', ''is'']"

definition maxBranchesPerStep :: nat where "maxBranchesPerStep = 20"
definition maxConditionsPerBranch :: nat where "maxConditionsPerBranch = 20"
definition maxBranchWithinDays :: int where "maxBranchWithinDays = 365"
definition maxAIStepName :: nat where "maxAIStepName = 80"

section \<open>What may be stored\<close>

definition replyIntentLabel :: "string \<Rightarrow> bool" where
  "replyIntentLabel s \<longleftrightarrow>
     1 \<le> length s \<and> length s \<le> 32
     \<and> list_all (\<lambda>c. let n = of_char c :: nat in 97 \<le> n \<and> n \<le> 122 \<or> c = CHR ''_'') s"

definition value_between :: "int option \<Rightarrow> int \<Rightarrow> int \<Rightarrow> bool" where
  "value_between v lo hi \<longleftrightarrow> (case v of None \<Rightarrow> False | Some n \<Rightarrow> lo \<le> n \<and> n \<le> hi)"

definition valid_condition :: "BranchCondition \<Rightarrow> bool" where
  "valid_condition c \<longleftrightarrow>
     cd_Field c \<in> set branchConditionFields
     \<and> cd_Operator c \<in> set branchConditionOperators
     \<and> (cd_Operator c = ''within_days'' \<longrightarrow> value_between (cd_Value c) 1 maxBranchWithinDays)
     \<and> (cd_Field c = ''random'' \<longrightarrow> cd_Operator c = ''chance'' \<and> value_between (cd_Value c) 1 99)
     \<and> (if cd_Field c = ''ai_label''
        then cd_Operator c = ''is'' \<and> trim_space (cd_Label c) \<noteq> []
             \<and> length (trim_space (cd_Label c)) \<le> maxAIStepName
        else if cd_Field c = ''reply_intent'' then cd_Operator c = ''is'' \<and> replyIntentLabel (cd_Label c)
        else cd_Operator c \<noteq> ''is'')"

text \<open>\<open>True\<close> is no error; there is one error, \<open>ErrSequenceBranch\<close>.\<close>

definition validateBranchConditions :: "Branch list option \<Rightarrow> bool" where
  "validateBranchConditions bc =
     (case bc of
        None \<Rightarrow> True
      | Some branches \<Rightarrow>
          length branches \<le> maxBranchesPerStep
          \<and> list_all (\<lambda>b. length (br_Conditions b) \<le> maxConditionsPerBranch
                        \<and> list_all valid_condition (br_Conditions b)) branches)"

section \<open>The random split\<close>

definition hex_digit :: "nat \<Rightarrow> char" where
  "hex_digit n = ''0123456789abcdef'' ! n"

definition hex_byte :: "byte \<Rightarrow> string" where
  "hex_byte b = [hex_digit (unat b div 16), hex_digit (unat b mod 16)]"

text \<open>The text of an id: its bytes in hexadecimal, in groups of 4, 2, 2, 2 and 6.\<close>

definition uuid_text :: "uuid \<Rightarrow> string" where
  "uuid_text u =
     (let h = (\<lambda>from len. concat (map hex_byte (take len (drop from u))))
      in h 0 4 @ ''-'' @ h 4 2 @ ''-'' @ h 6 2 @ ''-'' @ h 8 2 @ ''-'' @ h 10 6)"

definition fnv32a :: "string \<Rightarrow> u32" where
  "fnv32a s = fold (\<lambda>c h. xor h (of_nat (of_char c)) * 16777619) s 2166136261"

definition randomHolds :: "BranchCondition \<Rightarrow> uuid \<Rightarrow> string \<Rightarrow> bool" where
  "randomHolds cond contactID branchID =
     (let pct = (case cd_Value cond of None \<Rightarrow> 0 | Some n \<Rightarrow> n)
      in if pct \<le> 0 then False
         else if 100 \<le> pct then True
         else uint (fnv32a (uuid_text contactID @ '':'' @ branchID)) mod 100 < pct)"

section \<open>Evaluation\<close>

datatype BranchState = BranchNoMatch | BranchMatch | BranchUndecided

text \<open>The zero \<open>time.Time\<close>, the first of January of the year 1.\<close>

definition zero_time :: instant where
  "zero_time = - 62135596800000000000"

definition equal_fold :: "string \<Rightarrow> string \<Rightarrow> bool" where
  "equal_fold a b \<longleftrightarrow> to_lower a = to_lower b"

definition replyClassMatches :: "string \<Rightarrow> string \<Rightarrow> bool" where
  "replyClassMatches field cls =
     (if field = ''reply_positive'' then cls = ''positive''
      else if field = ''reply_negative'' then cls = ''negative''
      else if field = ''reply_neutral'' then cls = ''neutral''
      else if field = ''reply_automated'' then cls = ''auto_reply'' \<or> cls = ''out_of_office''
      else False)"

definition decided :: "bool \<Rightarrow> BranchState \<times> instant" where
  "decided b = (if b then BranchMatch else BranchNoMatch, zero_time)"

text \<open>The signal an engagement field reads, and whether the field negates it.\<close>

definition engagement :: "string \<Rightarrow> progress \<Rightarrow> (instant option \<times> bool) option" where
  "engagement field prog =
     (if field = ''opened'' then Some (pg_OpenedAt prog, False)
      else if field = ''clicked'' then Some (pg_ClickedAt prog, False)
      else if field = ''replied'' then Some (pg_RepliedAt prog, False)
      else if field = ''not_opened'' then Some (pg_OpenedAt prog, True)
      else if field = ''not_clicked'' then Some (pg_ClickedAt prog, True)
      else if field = ''not_replied'' then Some (pg_RepliedAt prog, True)
      else None)"

definition windowEnd :: "BranchCondition \<Rightarrow> instant \<Rightarrow> instant" where
  "windowEnd cond sentAt = sentAt + Hour * 24 * (case cd_Value cond of None \<Rightarrow> 0 | Some n \<Rightarrow> n)"

definition conditionState ::
  "BranchCondition \<Rightarrow> progress \<Rightarrow> string \<Rightarrow> instant \<Rightarrow> instant \<Rightarrow> BranchState \<times> instant" where
  "conditionState cond prog branchID sentAt now =
     (if cd_Field cond = ''random'' then decided (randomHolds cond (pg_ContactID prog) branchID)
      else if cd_Field cond \<in> {''reply_positive'', ''reply_negative'', ''reply_neutral'', ''reply_automated''}
      then decided (replyClassMatches (cd_Field cond) (pg_ReplyClass prog))
      else if cd_Field cond = ''ai_label''
      then (let want = trim_space (cd_Label cond)
            in decided (want \<noteq> [] \<and> equal_fold (trim_space (pg_AILabel prog)) want))
      else if cd_Field cond = ''reply_intent''
      then decided (pg_ReplyIntent prog \<noteq> [] \<and> equal_fold (pg_ReplyIntent prog) (cd_Label cond))
      else case engagement (cd_Field cond) prog of
        None \<Rightarrow> (BranchNoMatch, zero_time)
      | Some (ts, negate) \<Rightarrow>
          if cd_Operator cond = ''within_days''
          then (let wend = windowEnd cond sentAt;
                    happened = (case ts of None \<Rightarrow> False | Some t \<Rightarrow> \<not> wend < t)
                in if negate
                   then (if happened then (BranchNoMatch, zero_time)
                         else if now < wend then (BranchUndecided, wend) else (BranchMatch, zero_time))
                   else (if happened then (BranchMatch, zero_time)
                         else if now < wend then (BranchUndecided, wend) else (BranchNoMatch, zero_time)))
          else decided (if negate then ts = None else ts \<noteq> None))"

fun eval_conditions ::
  "progress \<Rightarrow> string \<Rightarrow> instant \<Rightarrow> instant \<Rightarrow> BranchState \<Rightarrow> instant \<Rightarrow> BranchCondition list
   \<Rightarrow> BranchState \<times> instant" where
  "eval_conditions prog branchID sentAt now state recheck [] = (state, recheck)"
| "eval_conditions prog branchID sentAt now state recheck (c # cs) =
     (case conditionState c prog branchID sentAt now of
        (BranchNoMatch, _) \<Rightarrow> (BranchNoMatch, zero_time)
      | (BranchUndecided, wend) \<Rightarrow>
          eval_conditions prog branchID sentAt now BranchUndecided
            (if recheck < wend then wend else recheck) cs
      | (BranchMatch, _) \<Rightarrow> eval_conditions prog branchID sentAt now state recheck cs)"

definition evaluateBranchState :: "Branch \<Rightarrow> progress \<Rightarrow> instant \<Rightarrow> instant \<Rightarrow> BranchState \<times> instant" where
  "evaluateBranchState b prog sentAt now =
     (if br_Conditions b = [] then (BranchMatch, zero_time)
      else eval_conditions prog (br_BranchID b) sentAt now BranchMatch zero_time (br_Conditions b))"

section \<open>Instant triggers\<close>

definition fieldBelongsToEvent :: "string \<Rightarrow> string \<Rightarrow> bool" where
  "fieldBelongsToEvent field eventKind =
     (if eventKind = ''reply''
      then field \<in> {''reply_positive'', ''reply_negative'', ''reply_neutral'', ''reply_automated'', ''reply_intent''}
      else if eventKind = ''open'' then field = ''opened''
      else if eventKind = ''click'' then field = ''clicked''
      else False)"

text \<open>
  The loop over the conditions of a branch stops at the first that does not match; a signal
  counts when its condition was reached.
\<close>

fun instant_conditions ::
  "progress \<Rightarrow> string \<Rightarrow> string \<Rightarrow> instant \<Rightarrow> instant \<Rightarrow> bool \<Rightarrow> BranchCondition list \<Rightarrow> bool \<times> bool" where
  "instant_conditions prog branchID eventKind sentAt now hasSignal [] = (hasSignal, True)"
| "instant_conditions prog branchID eventKind sentAt now hasSignal (c # cs) =
     (let hasSignal = hasSignal \<or> fieldBelongsToEvent (cd_Field c) eventKind
      in if fst (conditionState c prog branchID sentAt now) \<noteq> BranchMatch then (hasSignal, False)
         else instant_conditions prog branchID eventKind sentAt now hasSignal cs)"

text \<open>Whether a branch matched, its target, and whether it is instant.\<close>

fun instant_branches ::
  "progress \<Rightarrow> string \<Rightarrow> instant \<Rightarrow> instant \<Rightarrow> Branch list \<Rightarrow> bool \<times> uuid option \<times> bool" where
  "instant_branches prog eventKind sentAt now [] = (False, None, False)"
| "instant_branches prog eventKind sentAt now (b # bs) =
     (case instant_conditions prog (br_BranchID b) eventKind sentAt now False (br_Conditions b) of
        (hasSignal, allMatch) \<Rightarrow>
          if hasSignal \<and> allMatch
          then (True, br_Target b, case br_Instant b of None \<Rightarrow> True | Some i \<Rightarrow> i)
          else instant_branches prog eventKind sentAt now bs)"

definition MatchInstantBranchTarget ::
  "Branch list option \<Rightarrow> progress option \<Rightarrow> string \<Rightarrow> instant \<Rightarrow> bool \<times> uuid option \<times> bool" where
  "MatchInstantBranchTarget bc prog eventKind now =
     (case (bc, prog) of
        (Some branches, Some prog) \<Rightarrow>
          instant_branches prog eventKind (case pg_SentAt prog of None \<Rightarrow> now | Some t \<Rightarrow> t) now branches
      | _ \<Rightarrow> (False, None, False))"

definition branchIsInstant :: "Branch \<Rightarrow> bool" where
  "branchIsInstant b \<longleftrightarrow>
     br_Instant b \<noteq> Some False
     \<and> list_ex (\<lambda>c. fieldBelongsToEvent (cd_Field c) ''reply'' \<or> fieldBelongsToEvent (cd_Field c) ''open''
                  \<or> fieldBelongsToEvent (cd_Field c) ''click'') (br_Conditions b)"

definition BranchWaitAfter :: "int \<Rightarrow> bool \<Rightarrow> int" where
  "BranchWaitAfter targetWaitAfter inst = (if inst then 0 else targetWaitAfter)"

section \<open>When a branch is decided\<close>

text \<open>
  Progress only gains signals: a recorded open, click or reply is never rewritten, while a new one
  may arrive between two passes of the scheduler.
\<close>

definition signals_kept :: "progress \<Rightarrow> progress \<Rightarrow> bool" where
  "signals_kept p q \<longleftrightarrow>
     (\<forall>t. pg_OpenedAt p = Some t \<longrightarrow> pg_OpenedAt q = Some t)
     \<and> (\<forall>t. pg_ClickedAt p = Some t \<longrightarrow> pg_ClickedAt q = Some t)
     \<and> (\<forall>t. pg_RepliedAt p = Some t \<longrightarrow> pg_RepliedAt q = Some t)"

definition waits :: "BranchCondition \<Rightarrow> progress \<Rightarrow> instant \<Rightarrow> instant \<Rightarrow> bool" where
  "waits cond prog sentAt now \<longleftrightarrow>
     (case engagement (cd_Field cond) prog of
        None \<Rightarrow> False
      | Some (ts, _) \<Rightarrow>
          cd_Operator cond = ''within_days'' \<and> now < windowEnd cond sentAt
          \<and> (case ts of None \<Rightarrow> True | Some t \<Rightarrow> windowEnd cond sentAt < t))"

lemma decided_not_undecided [simp]: "decided b \<noteq> (BranchUndecided, w)" "fst (decided b) \<noteq> BranchUndecided"
  by (auto simp: decided_def)

lemma conditionState_undecided:
  assumes "conditionState cond prog bid sentAt now = (BranchUndecided, w)"
  shows "waits cond prog sentAt now \<and> w = windowEnd cond sentAt"
  using assms unfolding conditionState_def waits_def Let_def
  by (simp split: if_split_asm option.split_asm prod.split_asm option.split)

lemma conditionState_decided:
  "\<not> waits cond prog sentAt now \<Longrightarrow> fst (conditionState cond prog bid sentAt now) \<noteq> BranchUndecided"
  using conditionState_undecided [of cond prog bid sentAt now]
  by (cases "conditionState cond prog bid sentAt now") auto

lemma engagement_field:
  assumes "engagement field prog = Some e"
  shows "field \<in> {''opened'', ''clicked'', ''replied'', ''not_opened'', ''not_clicked'', ''not_replied''}"
  using assms unfolding engagement_def by (simp split: if_split_asm)

lemma conditionState_waits:
  assumes "waits cond prog sentAt now"
  shows "conditionState cond prog bid sentAt now = (BranchUndecided, windowEnd cond sentAt)"
proof -
  from assms obtain ts neg where e: "engagement (cd_Field cond) prog = Some (ts, neg)"
    unfolding waits_def by (auto split: option.split_asm prod.split_asm)
  have f: "cd_Field cond \<noteq> ''random''" "cd_Field cond \<noteq> ''ai_label''" "cd_Field cond \<noteq> ''reply_intent''"
    "cd_Field cond \<notin> {''reply_positive'', ''reply_negative'', ''reply_neutral'', ''reply_automated''}"
    using engagement_field [OF e] by (elim insertE emptyE; simp)+
  with assms e show ?thesis unfolding conditionState_def waits_def Let_def
    by (simp split: if_split option.split_asm option.split)
qed

lemma waits_over:
  assumes "waits cond prog' sentAt now'" "signals_kept prog prog'" "now \<le> now'"
  shows "waits cond prog sentAt now"
  using assms unfolding waits_def engagement_def signals_kept_def
  by (auto split: if_split_asm option.split)

lemma waits_before_end: "waits cond prog sentAt now \<Longrightarrow> now < windowEnd cond sentAt"
  by (auto simp: waits_def split: option.split_asm prod.split_asm)

lemma waits_within_days: "waits cond prog sentAt now \<Longrightarrow> cd_Operator cond = ''within_days''"
  by (auto simp: waits_def split: option.split_asm prod.split_asm)

lemma eval_conditions_undecided:
  assumes "eval_conditions prog bid sentAt now state recheck cs = (BranchUndecided, r)"
  shows "recheck \<le> r
    \<and> (\<forall>c \<in> set cs. waits c prog sentAt now \<longrightarrow> windowEnd c sentAt \<le> r)
    \<and> (state = BranchUndecided \<or> (\<exists>c \<in> set cs. waits c prog sentAt now))
    \<and> (r = recheck \<or> (\<exists>c \<in> set cs. waits c prog sentAt now \<and> r = windowEnd c sentAt))"
  using assms
proof (induction cs arbitrary: state recheck)
  case Nil
  then show ?case by simp
next
  case (Cons c cs)
  obtain st w where c: "conditionState c prog bid sentAt now = (st, w)"
    by (cases "conditionState c prog bid sentAt now")
  show ?case
  proof (cases st)
    case BranchNoMatch
    with c Cons.prems show ?thesis by simp
  next
    case BranchMatch
    with c have "\<not> waits c prog sentAt now \<or> waits c prog sentAt now" by blast
    from c BranchMatch Cons.prems
    have ev: "eval_conditions prog bid sentAt now state recheck cs = (BranchUndecided, r)" by simp
    have "waits c prog sentAt now \<Longrightarrow> windowEnd c sentAt \<le> r"
      using conditionState_waits [of c prog sentAt now bid] c BranchMatch by simp
    with Cons.IH [OF ev] show ?thesis by auto
  next
    case BranchUndecided
    have w: "waits c prog sentAt now" "w = windowEnd c sentAt"
      using conditionState_undecided [of c prog bid sentAt now w] c BranchUndecided by simp_all
    from c BranchUndecided Cons.prems
    have ev: "eval_conditions prog bid sentAt now BranchUndecided
        (if recheck < w then w else recheck) cs = (BranchUndecided, r)" by simp
    from Cons.IH [OF ev] w show ?thesis by (auto split: if_split_asm)
  qed
qed

text \<open>A validated window is at most a year.\<close>

lemma valid_window_end:
  assumes "valid_condition c" "cd_Operator c = ''within_days''"
  shows "windowEnd c sentAt \<le> sentAt + Hour * 24 * maxBranchWithinDays"
  using assms unfolding valid_condition_def value_between_def windowEnd_def
  by (auto split: option.split_asm)

lemma evaluateBranchState_undecided:
  assumes "evaluateBranchState b prog sentAt now = (BranchUndecided, r)"
  shows "(\<exists>c \<in> set (br_Conditions b). waits c prog sentAt now)
    \<and> (\<forall>c \<in> set (br_Conditions b). waits c prog sentAt now \<longrightarrow> windowEnd c sentAt \<le> r)
    \<and> (r = zero_time \<or> (\<exists>c \<in> set (br_Conditions b). waits c prog sentAt now \<and> r = windowEnd c sentAt))"
  using assms eval_conditions_undecided
    [of prog "br_BranchID b" sentAt now BranchMatch zero_time "br_Conditions b" r]
  unfolding evaluateBranchState_def by (simp split: if_split_asm)



end
