(* ===== verification/Lead_Routing.thy ===== *)
theory Lead_Routing
  imports Branching
begin

text \<open>
  Where a lead of a campaign goes next, \<open>internal/repository/pg_campaign_progress.go\<close>: the flow
  graph loaded once per pass with the steps only a replier may reach, the route out of the last
  sent step with its stop rules, holds and waits, and the cheap filter that skips leads with
  nothing due. The rows the queries answer are arguments, with their JSON columns decoded.
\<close>

section \<open>Data\<close>

record ActionConfig =
  ac_Type :: string
  ac_WaitMinutes :: "int option"

text \<open>A row of \<open>sequences\<close>; no action stands for an empty or undecodable column.\<close>

record sequence_row =
  sq_id :: uuid
  sq_Branches :: "Branch list"
  sq_wait_after :: int
  sq_kind :: string
  sq_action :: "ActionConfig option"

record campaign_row =
  crow_stop_on_reply :: bool
  crow_stop_on_meeting :: bool
  crow_entry_delay_minutes :: int
  crow_created_at :: instant

record routeStep =
  st_id :: uuid
  st_kind :: string
  st_Branches :: "Branch list"
  st_waitAfter :: int
  st_waitMinutes :: int

record campaignRouter =
  cr_steps :: "routeStep list"
  cr_idxByID :: "uuid \<rightharpoonup> nat"
  cr_entry :: uuid
  cr_now :: instant
  cr_dueBy :: instant
  cr_stopOnReply :: bool
  cr_stopOnMeeting :: bool
  cr_replyFlowSteps :: "uuid set"
  cr_entryDelay :: int
  cr_campaignCreatedAt :: instant

record routeInput =
  ri_lastSeq :: "uuid option"
  ri_sentAt :: "instant option"
  ri_openedAt :: "instant option"
  ri_clickedAt :: "instant option"
  ri_repliedAt :: "instant option"
  ri_addedAt :: "instant option"
  ri_sender :: "uuid option"
  ri_replyClass :: string
  ri_aiLabel :: string
  ri_replyIntent :: string
  ri_sentIDs :: "uuid list"
  ri_hasReplied :: bool
  ri_hasBooked :: bool
  ri_pausedAt :: "instant option"
  ri_pausedUntil :: "instant option"
  ri_pauseReason :: string
  ri_pauseSource :: string

record LeadHold =
  lh_Since :: instant
  lh_Until :: "instant option"
  lh_Reason :: string
  lh_Source :: string

record ContactRoute =
  ro_Target :: "uuid option"
  ro_IsNewLead :: bool
  ro_Instant :: bool
  ro_DueAt :: "instant option"
  ro_WaitUntil :: "instant option"
  ro_Excluded :: string
  ro_LastSentStep :: "uuid option"
  ro_AssignedSender :: "uuid option"
  ro_Hold :: "LeadHold option"
  ro_StoppedBy :: string

record routeResult =
  rr_target :: "uuid option"
  rr_stop :: bool
  rr_wait :: "instant option"
  rr_instant :: bool

definition StoppedByReply :: string where "StoppedByReply = ''replied''"
definition StoppedByMeeting :: string where "StoppedByMeeting = ''meeting_booked''"
definition CampaignNotDueGraceSeconds :: int where "CampaignNotDueGraceSeconds = 60"

section \<open>Loading the flow graph\<close>

definition branchHasPositiveReplyCondition :: "Branch \<Rightarrow> bool" where
  "branchHasPositiveReplyCondition b =
     list_ex (\<lambda>c. cd_Field c \<in> {''replied'', ''reply_positive'', ''reply_negative'', ''reply_neutral'',
                                ''reply_automated''}) (br_Conditions b)"

definition route_step :: "sequence_row \<Rightarrow> routeStep" where
  "route_step q =
     \<lparr>st_id = sq_id q, st_kind = sq_kind q, st_Branches = sq_Branches q, st_waitAfter = sq_wait_after q,
      st_waitMinutes =
        (case sq_action q of
           Some a \<Rightarrow> (case ac_WaitMinutes a of
                        Some m \<Rightarrow> if sq_kind q \<noteq> ''email'' \<and> ac_Type a = ''wait'' \<and> 0 < m then m else 0
                      | None \<Rightarrow> 0)
         | None \<Rightarrow> 0)\<rparr>"

fun index_steps :: "routeStep list \<Rightarrow> nat \<Rightarrow> (uuid \<rightharpoonup> nat) \<Rightarrow> (uuid \<rightharpoonup> nat)" where
  "index_steps [] n idx = idx"
| "index_steps (s # ss) n idx = index_steps ss (Suc n) (idx(st_id s \<mapsto> n))"

text \<open>The step of an id. An index out of range would panic; loaded routers have none.\<close>

definition step_of :: "routeStep list \<Rightarrow> (uuid \<rightharpoonup> nat) \<Rightarrow> uuid \<Rightarrow> routeStep option" where
  "step_of steps idx u =
     (case idx u of None \<Rightarrow> None | Some i \<Rightarrow> if i < length steps then Some (steps ! i) else None)"

text \<open>One visited step: its followed targets are marked and queued.\<close>

fun bfs_branches :: "(Branch \<Rightarrow> bool) \<Rightarrow> Branch list \<Rightarrow> uuid list \<Rightarrow> uuid set \<Rightarrow> uuid list \<times> uuid set" where
  "bfs_branches follow [] queue into = (queue, into)"
| "bfs_branches follow (b # bs) queue into =
     (case br_Target b of
        None \<Rightarrow> bfs_branches follow bs queue into
      | Some t \<Rightarrow> if t \<in> into \<or> \<not> follow b then bfs_branches follow bs queue into
                  else bfs_branches follow bs (queue @ [t]) (insert t into))"

definition branch_targets :: "Branch list \<Rightarrow> uuid set" where
  "branch_targets bs = {t. \<exists>b \<in> set bs. br_Target b = Some t}"

definition step_targets :: "routeStep list \<Rightarrow> uuid set" where
  "step_targets steps = (\<Union>s \<in> set steps. branch_targets (st_Branches s))"

lemma branch_targets_simps [simp]:
  "branch_targets [] = {}"
  "branch_targets (b # bs) = set_option (br_Target b) \<union> branch_targets bs"
  by (auto simp: branch_targets_def)

lemma finite_branch_targets [simp]: "finite (branch_targets bs)"
  by (induction bs) auto

lemma finite_step_targets [simp]: "finite (step_targets steps)"
  by (simp add: step_targets_def)

text \<open>Marking a target and queueing it keep the sum of unmarked targets and queued steps.\<close>

lemma bfs_branches_measure:
  assumes "finite A" "branch_targets bs \<subseteq> A" "bfs_branches follow bs queue into = (queue', into')"
  shows "card (A - into') + length queue' = card (A - into) + length queue"
  using assms(2,3)
proof (induction bs arbitrary: queue into)
  case Nil
  then show ?case by simp
next
  case (Cons b bs)
  show ?case
  proof (cases "br_Target b")
    case None
    with Cons show ?thesis by simp
  next
    case (Some t)
    show ?thesis
    proof (cases "t \<in> into \<or> \<not> follow b")
      case True
      with Some Cons show ?thesis by simp
    next
      case False
      then have "t \<in> A - into" using Some Cons.prems by auto
      then have "card (A - into) = Suc (card (A - insert t into))"
        using assms(1) by (metis Diff_insert card_Suc_Diff1 finite_Diff)
      with Cons.IH [of "queue @ [t]" "insert t into"] Cons.prems Some False show ?thesis by simp
    qed
  qed
qed

function bfs_loop ::
  "routeStep list \<Rightarrow> (uuid \<rightharpoonup> nat) \<Rightarrow> (Branch \<Rightarrow> bool) \<Rightarrow> uuid list \<Rightarrow> uuid set \<Rightarrow> uuid set" where
  "bfs_loop steps idx follow [] into = into"
| "bfs_loop steps idx follow (cur # queue) into =
     (case step_of steps idx cur of
        None \<Rightarrow> bfs_loop steps idx follow queue into
      | Some s \<Rightarrow> (case bfs_branches follow (st_Branches s) queue into of
                    (queue', into') \<Rightarrow> bfs_loop steps idx follow queue' into'))"
  by pat_completeness auto

lemma step_of_targets: "step_of steps idx u = Some s \<Longrightarrow> branch_targets (st_Branches s) \<subseteq> step_targets steps"
  by (fastforce simp: step_of_def step_targets_def split: option.split_asm if_split_asm)

termination bfs_loop
proof (relation "measure (\<lambda>(steps, idx, follow, queue, into). card (step_targets steps - into) + length queue)",
    goal_cases)
  case (3 steps idx follow cur queue into s p queue')
  then show ?case
    using bfs_branches_measure [OF finite_step_targets step_of_targets [OF 3(1)], of follow queue into]
    by (auto split: prod.splits)
qed auto

definition bfs :: "routeStep list \<Rightarrow> (uuid \<rightharpoonup> nat) \<Rightarrow> uuid list \<Rightarrow> (Branch \<Rightarrow> bool) \<Rightarrow> uuid set" where
  "bfs steps idx seeds follow = bfs_loop steps idx follow seeds (set seeds)"

definition coldReachable :: "routeStep list \<Rightarrow> (uuid \<rightharpoonup> nat) \<Rightarrow> uuid \<Rightarrow> uuid set" where
  "coldReachable steps idx entry = bfs steps idx [entry] (\<lambda>b. \<not> branchHasPositiveReplyCondition b)"

definition off_trunk :: "uuid set \<Rightarrow> Branch \<Rightarrow> bool" where
  "off_trunk cold b \<longleftrightarrow> (case br_Target b of None \<Rightarrow> False | Some t \<Rightarrow> t \<notin> cold)"

definition reply_seeds :: "routeStep list \<Rightarrow> uuid set \<Rightarrow> uuid list" where
  "reply_seeds steps cold =
     concat (map (\<lambda>s. List.map_filter
                        (\<lambda>b. if branchHasPositiveReplyCondition b \<and> off_trunk cold b then br_Target b else None)
                        (st_Branches s)) steps)"

definition reply_flow :: "routeStep list \<Rightarrow> (uuid \<rightharpoonup> nat) \<Rightarrow> uuid \<Rightarrow> uuid set" where
  "reply_flow steps idx entry =
     (let cold = coldReachable steps idx entry
      in bfs steps idx (reply_seeds steps cold) (off_trunk cold))"

definition loadRouter :: "sequence_row list \<Rightarrow> campaign_row \<Rightarrow> instant \<Rightarrow> campaignRouter option" where
  "loadRouter rows ca now =
     (let steps = map route_step rows; idx = index_steps steps 0 Map.empty
      in if steps = [] then None
         else Some \<lparr>cr_steps = steps, cr_idxByID = idx, cr_entry = st_id (hd steps), cr_now = now,
                cr_dueBy = now + Second * CampaignNotDueGraceSeconds,
                cr_stopOnReply = crow_stop_on_reply ca, cr_stopOnMeeting = crow_stop_on_meeting ca,
                cr_replyFlowSteps =
                  (if crow_stop_on_reply ca \<or> crow_stop_on_meeting ca
                   then reply_flow steps idx (st_id (hd steps)) else {}),
                cr_entryDelay = Minute * crow_entry_delay_minutes ca,
                cr_campaignCreatedAt = crow_created_at ca\<rparr>)"

section \<open>Routing one lead\<close>

abbreviation cr_step :: "campaignRouter \<Rightarrow> uuid \<Rightarrow> routeStep option" where
  "cr_step cr \<equiv> step_of (cr_steps cr) (cr_idxByID cr)"

definition rr_none :: routeResult where
  "rr_none = \<lparr>rr_target = None, rr_stop = False, rr_wait = None, rr_instant = False\<rparr>"

abbreviation "stop_here \<equiv> rr_none\<lparr>rr_stop := True\<rparr>"

text \<open>The first branch that is decided to match, or that is not decided yet.\<close>

fun next_branch :: "campaignRouter \<Rightarrow> progress \<Rightarrow> instant \<Rightarrow> Branch list \<Rightarrow> routeResult" where
  "next_branch cr prog sentAt [] = stop_here"
| "next_branch cr prog sentAt (b # bs) =
     (case evaluateBranchState b prog sentAt (cr_now cr) of
        (BranchNoMatch, _) \<Rightarrow> next_branch cr prog sentAt bs
      | (BranchUndecided, recheck) \<Rightarrow> rr_none\<lparr>rr_wait := Some recheck\<rparr>
      | (BranchMatch, _) \<Rightarrow>
          (case br_Target b of
             None \<Rightarrow> stop_here
           | Some t \<Rightarrow> if cr_idxByID cr t = None then stop_here
                       else rr_none\<lparr>rr_target := Some t, rr_instant := branchIsInstant b\<rparr>))"

definition routeNext :: "campaignRouter \<Rightarrow> uuid \<Rightarrow> progress \<Rightarrow> instant \<Rightarrow> routeResult" where
  "routeNext cr fromID prog sentAt =
     (case cr_step cr fromID of
        None \<Rightarrow> stop_here
      | Some s \<Rightarrow> next_branch cr prog sentAt (st_Branches s))"

fun reply_branch :: "campaignRouter \<Rightarrow> progress \<Rightarrow> instant \<Rightarrow> Branch list \<Rightarrow> routeResult" where
  "reply_branch cr prog sentAt [] = stop_here"
| "reply_branch cr prog sentAt (b # bs) =
     (case br_Target b of
        None \<Rightarrow> reply_branch cr prog sentAt bs
      | Some t \<Rightarrow>
          if \<not> branchHasPositiveReplyCondition b \<or> t \<notin> cr_replyFlowSteps cr then reply_branch cr prog sentAt bs
          else if fst (evaluateBranchState b prog sentAt (cr_now cr)) \<noteq> BranchMatch
          then reply_branch cr prog sentAt bs
          else if cr_idxByID cr t = None then reply_branch cr prog sentAt bs
          else rr_none\<lparr>rr_target := Some t, rr_instant := branchIsInstant b\<rparr>)"

definition routeReplyOnly :: "campaignRouter \<Rightarrow> uuid \<Rightarrow> progress \<Rightarrow> instant \<Rightarrow> routeResult" where
  "routeReplyOnly cr fromID prog sentAt =
     (case cr_step cr fromID of
        None \<Rightarrow> stop_here
      | Some s \<Rightarrow> reply_branch cr prog sentAt (st_Branches s))"

definition stopReason :: "campaignRouter \<Rightarrow> routeInput \<Rightarrow> string" where
  "stopReason cr inp =
     (if cr_stopOnMeeting cr \<and> ri_hasBooked inp then StoppedByMeeting
      else if cr_stopOnReply cr \<and> ri_hasReplied inp then StoppedByReply
      else [])"

definition enteredAt :: "campaignRouter \<Rightarrow> instant option \<Rightarrow> instant" where
  "enteredAt cr addedAt = (case addedAt of Some t \<Rightarrow> t | None \<Rightarrow> cr_campaignCreatedAt cr)"

definition lead_progress :: "uuid \<Rightarrow> routeInput \<Rightarrow> progress" where
  "lead_progress contactID inp =
     \<lparr>pg_ContactID = contactID, pg_SentAt = ri_sentAt inp, pg_OpenedAt = ri_openedAt inp,
      pg_ClickedAt = ri_clickedAt inp, pg_RepliedAt = ri_repliedAt inp, pg_ReplyClass = ri_replyClass inp,
      pg_AILabel = ri_aiLabel inp, pg_ReplyIntent = ri_replyIntent inp\<rparr>"

subsection \<open>Holds\<close>

definition hold_Live :: "LeadHold \<Rightarrow> instant \<Rightarrow> bool" where
  "hold_Live h t \<longleftrightarrow> (case lh_Until h of None \<Rightarrow> True | Some u \<Rightarrow> t < u)"

definition liveHold :: "routeInput \<Rightarrow> instant \<Rightarrow> LeadHold option" where
  "liveHold inp now =
     (case ri_pausedAt inp of
        None \<Rightarrow> None
      | Some since \<Rightarrow>
          (let h = \<lparr>lh_Since = since, lh_Until = ri_pausedUntil inp, lh_Reason = ri_pauseReason inp,
                    lh_Source = ri_pauseSource inp\<rparr>
           in if hold_Live h now then Some h else None))"

definition heldShift :: "routeInput \<Rightarrow> instant \<Rightarrow> int" where
  "heldShift inp now =
     (case (ri_pausedAt inp, ri_sentAt inp) of
        (Some paused, Some sent) \<Rightarrow>
          (let start = (if paused < sent then sent else paused);
               stop = (case ri_pausedUntil inp of Some u \<Rightarrow> if u < now then u else now | None \<Rightarrow> now)
           in if stop \<le> start then 0 else stop - start)
      | _ \<Rightarrow> 0)"

definition applyHold :: "campaignRouter \<Rightarrow> ContactRoute \<Rightarrow> routeInput \<Rightarrow> ContactRoute" where
  "applyHold cr out inp =
     (if ri_pausedAt inp = None then out
      else (let shift = heldShift inp (cr_now cr);
                out = (case ro_DueAt out of
                         Some due \<Rightarrow> if 0 < shift then out\<lparr>ro_DueAt := Some (due + shift)\<rparr> else out
                       | None \<Rightarrow> out);
                out = out\<lparr>ro_Hold := liveHold inp (cr_now cr)\<rparr>
            in case ro_Hold out of
                 None \<Rightarrow> out
               | Some h \<Rightarrow>
                   (case lh_Until h of
                      None \<Rightarrow> out\<lparr>ro_DueAt := None\<rparr>
                    | Some u \<Rightarrow>
                        (case ro_DueAt out of
                           None \<Rightarrow> out\<lparr>ro_DueAt := Some u\<rparr>
                         | Some due \<Rightarrow> if due < u then out\<lparr>ro_DueAt := Some u\<rparr> else out))))"

subsection \<open>The route\<close>

text \<open>The route out of the last sent step, and the stop rule that ended it.\<close>

definition route_onward :: "campaignRouter \<Rightarrow> uuid \<Rightarrow> uuid \<Rightarrow> routeInput \<Rightarrow> routeResult \<times> string" where
  "route_onward cr contactID from inp =
     (let prog = lead_progress contactID inp;
          sa = (case ri_sentAt inp of Some t \<Rightarrow> t | None \<Rightarrow> zero_time);
          before = routeNext cr from prog sa;
          stop = stopReason cr inp
      in if stop = [] then (before, [])
         else (let res = (if from \<notin> cr_replyFlowSteps cr then routeReplyOnly cr from prog sa
                          else case rr_target before of
                            Some t \<Rightarrow> if t \<notin> cr_replyFlowSteps cr then stop_here else before
                          | None \<Rightarrow> before)
               in (res, if rr_target res = None \<and> rr_wait res = None
                           \<and> (rr_target before \<noteq> None \<or> rr_wait before \<noteq> None)
                        then stop else [])))"

definition target_due :: "campaignRouter \<Rightarrow> routeInput \<Rightarrow> uuid \<Rightarrow> bool \<Rightarrow> instant option" where
  "target_due cr inp t inst =
     (case ri_lastSeq inp of
        None \<Rightarrow> if 0 < cr_entryDelay cr then Some (enteredAt cr (ri_addedAt inp) + cr_entryDelay cr) else None
      | Some lastSeq \<Rightarrow>
          (case ri_sentAt inp of
             None \<Rightarrow> None
           | Some sent \<Rightarrow>
               (let wait = BranchWaitAfter (case cr_step cr t of Some s \<Rightarrow> st_waitAfter s
                                              | None \<Rightarrow> st_waitAfter (hd (cr_steps cr))) inst;
                    due = sent + 24 * Hour * wait
                in case cr_step cr lastSeq of
                     Some s \<Rightarrow> Some (if 0 < st_waitMinutes s then due + Minute * st_waitMinutes s else due)
                   | None \<Rightarrow> Some due)))"

definition route :: "campaignRouter \<Rightarrow> uuid \<Rightarrow> routeInput \<Rightarrow> ContactRoute" where
  "route cr contactID inp =
     (let out = \<lparr>ro_Target = None, ro_IsNewLead = (ri_lastSeq inp = None), ro_Instant = False, ro_DueAt = None,
                 ro_WaitUntil = None, ro_Excluded = [], ro_LastSentStep = ri_lastSeq inp,
                 ro_AssignedSender = None, ro_Hold = None, ro_StoppedBy = []\<rparr>
      in if ri_pauseSource inp = ''send_recovery'' then out\<lparr>ro_Hold := liveHold inp (cr_now cr)\<rparr>
         else if ri_lastSeq inp = None \<and> cr_stopOnMeeting cr \<and> ri_hasBooked inp
         then out\<lparr>ro_StoppedBy := StoppedByMeeting\<rparr>
         else
           (let (res, stopped) = (case ri_lastSeq inp of
                                    None \<Rightarrow> (rr_none\<lparr>rr_target := Some (cr_entry cr)\<rparr>, [])
                                  | Some from \<Rightarrow> route_onward cr contactID from inp);
                out = out\<lparr>ro_StoppedBy := stopped\<rparr>
            in case rr_wait res of
                 Some w \<Rightarrow>
                   (let hold = liveHold inp (cr_now cr);
                        wait = w + heldShift inp (cr_now cr);
                        wait = (case hold of
                                  None \<Rightarrow> wait
                                | Some h \<Rightarrow> (case lh_Until h of
                                               None \<Rightarrow> wait
                                             | Some u \<Rightarrow> if wait < u then u else wait))
                    in out\<lparr>ro_Hold := hold, ro_WaitUntil := Some wait\<rparr>)
               | None \<Rightarrow>
                   (case rr_target res of
                      None \<Rightarrow> out
                    | Some t \<Rightarrow>
                        if rr_stop res then out
                        else if t \<in> set (ri_sentIDs inp) then out
                        else applyHold cr
                               (out\<lparr>ro_Target := Some t, ro_Instant := rr_instant res,
                                    ro_DueAt := target_due cr inp t (rr_instant res)\<rparr>) inp)))"

text \<open>The route of one contact for a preview, with the gate that would exclude it.\<close>

record lead_row =
  lr_input :: routeInput
  lr_bounced :: bool
  lr_failed :: bool
  lr_suppressed :: bool
  lr_undeliverable :: bool

definition RouteContact :: "campaignRouter option \<Rightarrow> uuid \<Rightarrow> lead_row option \<Rightarrow> ContactRoute" where
  "RouteContact router contactID row =
     (let nil = \<lparr>ro_Target = None, ro_IsNewLead = False, ro_Instant = False, ro_DueAt = None,
                 ro_WaitUntil = None, ro_Excluded = [], ro_LastSentStep = None,
                 ro_AssignedSender = None, ro_Hold = None, ro_StoppedBy = []\<rparr>
      in case row of
           None \<Rightarrow> nil\<lparr>ro_Excluded := ''not_a_lead''\<rparr>
         | Some r \<Rightarrow>
             (let out = nil\<lparr>ro_LastSentStep := ri_lastSeq (lr_input r), ro_AssignedSender := ri_sender (lr_input r),
                            ro_Excluded := (if lr_bounced r then ''bounced''
                                            else if lr_failed r then ''failed''
                                            else if lr_suppressed r then ''suppressed''
                                            else if lr_undeliverable r then ''undeliverable'' else [])\<rparr>
              in case router of
                   None \<Rightarrow> out
                 | Some cr \<Rightarrow>
                     (let res = route cr contactID (lr_input r)
                      in out\<lparr>ro_Target := ro_Target res, ro_IsNewLead := ro_IsNewLead res,
                             ro_Instant := ro_Instant res, ro_DueAt := ro_DueAt res,
                             ro_WaitUntil := ro_WaitUntil res, ro_Hold := ro_Hold res,
                             ro_StoppedBy := ro_StoppedBy res\<rparr>)))"

section \<open>The filter before hydration\<close>

record leadFacts =
  lf_addedAt :: "instant option"
  lf_lastAt :: "instant option"
  lf_lastSeqs :: "uuid list"

text \<open>
  The left join of a lead with its sent steps: one row for each, or one row of nulls. The rows of
  one contact fold to its facts.
\<close>

definition fact_row :: "instant option \<Rightarrow> leadFacts \<Rightarrow> uuid option \<times> instant option \<Rightarrow> leadFacts" where
  "fact_row addedAt f row =
     (let f = f\<lparr>lf_addedAt := addedAt\<rparr>
      in case row of
           (Some q, Some sentAt) \<Rightarrow>
             (case lf_lastAt f of
                None \<Rightarrow> f\<lparr>lf_lastAt := Some sentAt, lf_lastSeqs := [q]\<rparr>
              | Some lastAt \<Rightarrow>
                  if lastAt < sentAt then f\<lparr>lf_lastAt := Some sentAt, lf_lastSeqs := [q]\<rparr>
                  else if sentAt = lastAt then f\<lparr>lf_lastSeqs := lf_lastSeqs f @ [q]\<rparr>
                  else f)
         | _ \<Rightarrow> f)"

definition leadRouteFacts :: "instant option \<Rightarrow> (uuid option \<times> instant option) list \<Rightarrow> leadFacts" where
  "leadRouteFacts addedAt rows =
     foldl (fact_row addedAt) \<lparr>lf_addedAt = None, lf_lastAt = None, lf_lastSeqs = []\<rparr> rows"

definition isEmailStep :: "campaignRouter \<Rightarrow> uuid \<Rightarrow> bool" where
  "isEmailStep cr u \<longleftrightarrow> (case cr_step cr u of Some s \<Rightarrow> st_kind s = ''email'' | None \<Rightarrow> False)"

definition branch_delay :: "routeStep \<Rightarrow> routeStep \<Rightarrow> Branch \<Rightarrow> int" where
  "branch_delay s ts b =
     (let d = 24 * Hour * BranchWaitAfter (st_waitAfter ts) (branchIsInstant b)
      in if 0 < st_waitMinutes s then d + Minute * st_waitMinutes s else d)"

definition lower_floor :: "(uuid \<rightharpoonup> int) \<Rightarrow> uuid \<Rightarrow> int \<Rightarrow> (uuid \<rightharpoonup> int)" where
  "lower_floor out u d =
     (case out u of None \<Rightarrow> out(u \<mapsto> d) | Some cur \<Rightarrow> if d < cur then out(u \<mapsto> d) else out)"

fun branch_floors :: "campaignRouter \<Rightarrow> routeStep \<Rightarrow> Branch list \<Rightarrow> (uuid \<rightharpoonup> int) \<Rightarrow> (uuid \<rightharpoonup> int)" where
  "branch_floors cr s [] out = out"
| "branch_floors cr s (b # bs) out =
     (case br_Target b of
        None \<Rightarrow> branch_floors cr s bs out
      | Some t \<Rightarrow>
          (case cr_step cr t of
             None \<Rightarrow> branch_floors cr s bs out
           | Some ts \<Rightarrow> branch_floors cr s bs (lower_floor out (st_id s) (branch_delay s ts b))))"

definition dueFloors :: "campaignRouter \<Rightarrow> (uuid \<rightharpoonup> int)" where
  "dueFloors cr = fold (\<lambda>s. branch_floors cr s (st_Branches s)) (cr_steps cr) Map.empty"

definition mayBeDue :: "campaignRouter \<Rightarrow> leadFacts \<Rightarrow> (uuid \<rightharpoonup> int) \<Rightarrow> bool" where
  "mayBeDue cr f floors \<longleftrightarrow>
     (case lf_lastAt f of
        None \<Rightarrow> cr_entryDelay cr \<le> 0 \<or> \<not> cr_dueBy cr < enteredAt cr (lf_addedAt f) + cr_entryDelay cr
      | Some lastAt \<Rightarrow>
          list_ex (\<lambda>q. case floors q of None \<Rightarrow> False | Some d \<Rightarrow> \<not> cr_dueBy cr < lastAt + d) (lf_lastSeqs f))"

definition inert :: "campaignRouter \<Rightarrow> leadFacts \<Rightarrow> bool \<Rightarrow> bool" where
  "inert cr f excludeNewLeads \<longleftrightarrow>
     (case lf_lastAt f of
        None \<Rightarrow> excludeNewLeads
      | Some _ \<Rightarrow> \<not> list_ex (\<lambda>q. case cr_step cr q of None \<Rightarrow> False | Some s \<Rightarrow> st_Branches s \<noteq> [])
                     (lf_lastSeqs f))"

definition endSteps :: "campaignRouter \<Rightarrow> uuid list" where
  "endSteps cr = map st_id (filter (\<lambda>s. st_Branches s = []) (cr_steps cr))"

section \<open>The search is reachability\<close>

definition flow_edges :: "routeStep list \<Rightarrow> (uuid \<rightharpoonup> nat) \<Rightarrow> (Branch \<Rightarrow> bool) \<Rightarrow> (uuid \<times> uuid) set" where
  "flow_edges steps idx follow =
     {(a, t). \<exists>s. step_of steps idx a = Some s \<and> (\<exists>b \<in> set (st_Branches s). br_Target b = Some t \<and> follow b)}"

lemma bfs_branches_result:
  "bfs_branches follow bs queue into = (queue', into') \<Longrightarrow>
     into' = into \<union> {t. \<exists>b \<in> set bs. br_Target b = Some t \<and> follow b}
     \<and> set queue' = set queue \<union> (into' - into)"
proof (induction bs arbitrary: queue into)
  case Nil
  then show ?case by simp
next
  case (Cons b bs)
  show ?case
  proof (cases "br_Target b")
    case None
    with Cons show ?thesis by simp
  next
    case (Some t)
    show ?thesis
    proof (cases "t \<in> into \<or> \<not> follow b")
      case True
      with Some Cons.IH [of queue into] Cons.prems show ?thesis by auto
    next
      case False
      with Some Cons.IH [of "queue @ [t]" "insert t into"] Cons.prems show ?thesis by auto
    qed
  qed
qed

lemma bfs_loop_reaches:
  assumes "set queue \<subseteq> into"
    "\<And>a. a \<in> into \<Longrightarrow> a \<notin> set queue \<Longrightarrow> flow_edges steps idx follow `` {a} \<subseteq> into"
  shows "bfs_loop steps idx follow queue into = (flow_edges steps idx follow)\<^sup>* `` into"
  using assms
proof (induction steps idx follow queue into rule: bfs_loop.induct)
  case (1 steps idx follow into)
  then have "flow_edges steps idx follow `` into \<subseteq> into" by auto
  then show ?case by (simp add: Image_closed_trancl)
next
  case (2 steps idx follow cur queue into)
  let ?E = "flow_edges steps idx follow"
  show ?case
  proof (cases "step_of steps idx cur")
    case None
    then have "?E `` {cur} = {}" by (auto simp: flow_edges_def)
    with "2.prems" have "\<And>a. a \<in> into \<Longrightarrow> a \<notin> set queue \<Longrightarrow> ?E `` {a} \<subseteq> into"
      by (metis empty_subsetI set_ConsD)
    with None "2.IH"(1) "2.prems"(1) show ?thesis by simp
  next
    case (Some s)
    obtain queue' into' where br: "bfs_branches follow (st_Branches s) queue into = (queue', into')"
      by (cases "bfs_branches follow (st_Branches s) queue into")
    have edges: "?E `` {cur} = {t. \<exists>b \<in> set (st_Branches s). br_Target b = Some t \<and> follow b}"
      using Some by (auto simp: flow_edges_def)
    with bfs_branches_result [OF br]
    have into': "into' = into \<union> ?E `` {cur}" and queue': "set queue' = set queue \<union> (into' - into)" by simp_all
    have "set queue' \<subseteq> into'" using queue' into' "2.prems"(1) by auto
    moreover have "?E `` {a} \<subseteq> into'" if "a \<in> into'" "a \<notin> set queue'" for a
    proof (cases "a = cur")
      case False
      have "a \<in> into" "a \<notin> set queue" using that queue' into' by auto
      with False "2.prems"(2) into' show ?thesis by auto
    qed (simp add: into')
    ultimately have "bfs_loop steps idx follow queue' into' = ?E\<^sup>* `` into'"
      using "2.IH"(2) [OF Some] br by simp
    also have "?E\<^sup>* `` into' = ?E\<^sup>* `` into"
      using "2.prems"(1) into' by (auto intro: converse_rtrancl_into_rtrancl)
    finally show ?thesis using Some br by simp
  qed
qed

lemma bfs_reaches: "bfs steps idx seeds follow = (flow_edges steps idx follow)\<^sup>* `` set seeds"
  unfolding bfs_def by (rule bfs_loop_reaches) auto

section \<open>Loaded routers\<close>

definition wf_router :: "campaignRouter \<Rightarrow> bool" where
  "wf_router cr \<longleftrightarrow>
     (\<forall>u i. cr_idxByID cr u = Some i \<longrightarrow> i < length (cr_steps cr) \<and> st_id (cr_steps cr ! i) = u)
     \<and> (\<forall>s \<in> set (cr_steps cr). cr_idxByID cr (st_id s) \<noteq> None)
     \<and> cr_entry cr \<in> st_id ` set (cr_steps cr)"

lemma index_steps_sound:
  assumes "\<forall>u i. idx u = Some i \<longrightarrow> i < length pre \<and> st_id (pre ! i) = u"
  shows "index_steps ss (length pre) idx u = Some i \<Longrightarrow>
    i < length (pre @ ss) \<and> st_id ((pre @ ss) ! i) = u"
  using assms
proof (induction ss arbitrary: pre idx)
  case Nil
  then show ?case by simp
next
  case (Cons s ss)
  let ?idx = "idx(st_id s \<mapsto> length pre)"
  have "\<forall>u i. ?idx u = Some i \<longrightarrow> i < length (pre @ [s]) \<and> st_id ((pre @ [s]) ! i) = u"
    using Cons.prems(2) by (auto simp: nth_append less_Suc_eq)
  with Cons.IH [of "pre @ [s]" ?idx] Cons.prems(1) show ?case by (simp del: fun_upd_apply)
qed

lemma index_steps_dom: "dom (index_steps ss n idx) = dom idx \<union> st_id ` set ss"
  by (induction ss arbitrary: n idx) auto

lemma loadRouter_wf [wf_simps]: "loadRouter rows ca now = Some cr \<Longrightarrow> wf_router cr"
proof -
  assume cr: "loadRouter rows ca now = Some cr"
  let ?ss = "map route_step rows"
  have f: "cr_steps cr = ?ss" "cr_idxByID cr = index_steps ?ss 0 Map.empty" "cr_entry cr = st_id (hd ?ss)"
    "?ss \<noteq> []"
    using cr by (auto simp: loadRouter_def Let_def split: if_split_asm)
  have "index_steps ?ss 0 Map.empty u = Some i \<Longrightarrow> i < length ?ss \<and> st_id (?ss ! i) = u" for u i
    using index_steps_sound [of Map.empty "[]" ?ss u i] by (simp del: nth_map)
  moreover have "index_steps ?ss 0 Map.empty (st_id s) \<noteq> None" if "s \<in> set ?ss" for s
  proof -
    from that have "st_id s \<in> dom (index_steps ?ss 0 Map.empty)"
      unfolding index_steps_dom by (intro UnI2 imageI)
    then show ?thesis by (auto simp only: domIff)
  qed
  moreover have "st_id (hd ?ss) \<in> st_id ` set ?ss" using f(4) by (intro imageI hd_in_set)
  ultimately show ?thesis unfolding wf_router_def f by blast
qed

lemma wf_step_of:
  assumes "wf_router cr"
  shows "cr_step cr u = (case cr_idxByID cr u of None \<Rightarrow> None | Some i \<Rightarrow> Some (cr_steps cr ! i))"
    and "cr_step cr u = Some s \<Longrightarrow> s \<in> set (cr_steps cr) \<and> st_id s = u"
    and "cr_idxByID cr u \<noteq> None \<longleftrightarrow> u \<in> st_id ` set (cr_steps cr)"
  using assms unfolding wf_router_def step_of_def
  by (auto split: option.split option.split_asm if_split_asm simp: image_iff intro: nth_mem)

text \<open>Ids are a primary key, so a loaded graph has exactly the connections of the rows.\<close>

definition row_edges :: "sequence_row list \<Rightarrow> (Branch \<Rightarrow> bool) \<Rightarrow> (uuid \<times> uuid) set" where
  "row_edges rows follow =
     {(a, t). \<exists>q \<in> set rows. sq_id q = a \<and> (\<exists>b \<in> set (sq_Branches q). br_Target b = Some t \<and> follow b)}"

lemma loadRouter_fields:
  assumes "loadRouter rows ca now = Some cr"
  shows "cr_steps cr = map route_step rows" "cr_now cr = now" "rows \<noteq> []"
    "cr_entry cr = sq_id (hd rows)"
    "cr_dueBy cr = now + Second * CampaignNotDueGraceSeconds"
    "cr_stopOnReply cr = crow_stop_on_reply ca" "cr_stopOnMeeting cr = crow_stop_on_meeting ca"
    "cr_replyFlowSteps cr = (if crow_stop_on_reply ca \<or> crow_stop_on_meeting ca
       then reply_flow (cr_steps cr) (cr_idxByID cr) (cr_entry cr) else {})"
  using assms
  by (auto simp: loadRouter_def Let_def route_step_def hd_map split: if_split_asm)

lemma loaded_step:
  assumes "loadRouter rows ca now = Some cr" "distinct (map sq_id rows)"
  shows "cr_step cr a = Some s \<longleftrightarrow> (\<exists>q \<in> set rows. sq_id q = a \<and> s = route_step q)"
proof -
  note wf = loadRouter_wf [OF assms(1)] and f = loadRouter_fields [OF assms(1)]
  have id [simp]: "st_id (route_step q) = sq_id q" for q by (simp add: route_step_def)
  show ?thesis
  proof
    assume "cr_step cr a = Some s"
    with wf_step_of(2) [OF wf] f(1) show "\<exists>q \<in> set rows. sq_id q = a \<and> s = route_step q" by fastforce
  next
    assume "\<exists>q \<in> set rows. sq_id q = a \<and> s = route_step q"
    then obtain q where q: "q \<in> set rows" "sq_id q = a" "s = route_step q" by blast
    then have "a \<in> st_id ` set (cr_steps cr)" using f(1) by (force simp: image_iff)
    then obtain s' where s': "cr_step cr a = Some s'"
      using wf_step_of(1,3) [OF wf, of a] by (auto split: option.split_asm)
    with wf_step_of(2) [OF wf s'] f(1) obtain q' where "q' \<in> set rows" "sq_id q' = a" "s' = route_step q'"
      by fastforce
    moreover have "q' = q" using assms(2) calculation q by (auto simp: distinct_map inj_on_def)
    ultimately show "cr_step cr a = Some s" using q(3) s' by simp
  qed
qed

lemma loaded_edges:
  assumes "loadRouter rows ca now = Some cr" "distinct (map sq_id rows)"
  shows "flow_edges (cr_steps cr) (cr_idxByID cr) follow = row_edges rows follow"
  using loaded_step [OF assms]
  by (fastforce simp: flow_edges_def row_edges_def route_step_def)

lemma reply_seeds_off_trunk: "u \<in> set (reply_seeds steps cold) \<Longrightarrow> u \<notin> cold"
  by (auto simp: reply_seeds_def List.map_filter_def off_trunk_def split: if_split_asm option.split_asm)

text \<open>The cold trunk and the reply flow share no step.\<close>

lemma reply_flow_off_trunk:
  assumes "t \<in> reply_flow steps idx entry"
  shows "t \<notin> coldReachable steps idx entry"
proof -
  let ?cold = "coldReachable steps idx entry"
  from assms obtain u where u: "u \<in> set (reply_seeds steps ?cold)"
    "(u, t) \<in> (flow_edges steps idx (off_trunk ?cold))\<^sup>*"
    by (auto simp: reply_flow_def Let_def bfs_reaches)
  from u(2) show ?thesis
    by (cases rule: rtrancl.cases) (use u(1) reply_seeds_off_trunk in \<open>auto simp: flow_edges_def off_trunk_def\<close>)
qed

section \<open>Results of routing\<close>

lemma rr_none_simps [simp]:
  "rr_target rr_none = None" "rr_wait rr_none = None" "rr_stop rr_none = False" "rr_instant rr_none = False"
  by (simp_all add: rr_none_def)

lemma next_branch_result:
  "rr_target (next_branch cr prog sentAt bs) = Some t \<Longrightarrow>
     cr_idxByID cr t \<noteq> None
     \<and> rr_wait (next_branch cr prog sentAt bs) = None
     \<and> (\<exists>b \<in> set bs. br_Target b = Some t \<and> fst (evaluateBranchState b prog sentAt (cr_now cr)) = BranchMatch
          \<and> rr_instant (next_branch cr prog sentAt bs) = branchIsInstant b)"
  by (induction bs) (auto split: prod.split_asm BranchState.split_asm option.split_asm if_split_asm)

lemma reply_branch_result:
  "rr_target (reply_branch cr prog sentAt bs) = Some t \<Longrightarrow>
     cr_idxByID cr t \<noteq> None \<and> t \<in> cr_replyFlowSteps cr
     \<and> (\<exists>b \<in> set bs. br_Target b = Some t \<and> fst (evaluateBranchState b prog sentAt (cr_now cr)) = BranchMatch
          \<and> branchHasPositiveReplyCondition b
          \<and> rr_instant (reply_branch cr prog sentAt bs) = branchIsInstant b)"
  by (induction bs) (auto split: option.split_asm if_split_asm)

lemma reply_branch_never_waits [simp]: "rr_wait (reply_branch cr prog sentAt bs) = None"
  by (induction bs) (auto split: option.split)

lemma applyHold_keeps [simp]:
  "ro_Target (applyHold cr out inp) = ro_Target out" "ro_WaitUntil (applyHold cr out inp) = ro_WaitUntil out"
  "ro_StoppedBy (applyHold cr out inp) = ro_StoppedBy out" "ro_Instant (applyHold cr out inp) = ro_Instant out"
  "ro_IsNewLead (applyHold cr out inp) = ro_IsNewLead out"
  by (auto simp: applyHold_def Let_def split: option.split)

lemma routeNext_result:
  assumes "rr_target (routeNext cr from prog sentAt) = Some t"
  shows "cr_idxByID cr t \<noteq> None
    \<and> (\<exists>s b. cr_step cr from = Some s \<and> b \<in> set (st_Branches s) \<and> br_Target b = Some t
          \<and> fst (evaluateBranchState b prog sentAt (cr_now cr)) = BranchMatch
          \<and> rr_instant (routeNext cr from prog sentAt) = branchIsInstant b)"
  using assms by (auto simp: routeNext_def dest!: next_branch_result split: option.split_asm)

lemma routeReplyOnly_result:
  assumes "rr_target (routeReplyOnly cr from prog sentAt) = Some t"
  shows "cr_idxByID cr t \<noteq> None \<and> t \<in> cr_replyFlowSteps cr
    \<and> (\<exists>s b. cr_step cr from = Some s \<and> b \<in> set (st_Branches s) \<and> br_Target b = Some t
          \<and> fst (evaluateBranchState b prog sentAt (cr_now cr)) = BranchMatch
          \<and> branchHasPositiveReplyCondition b
          \<and> rr_instant (routeReplyOnly cr from prog sentAt) = branchIsInstant b)"
  using assms by (auto simp: routeReplyOnly_def dest!: reply_branch_result split: option.split_asm)

lemma routeReplyOnly_never_waits [simp]: "rr_wait (routeReplyOnly cr from prog sentAt) = None"
  by (simp add: routeReplyOnly_def split: option.split)

abbreviation lead_sentAt :: "routeInput \<Rightarrow> instant" where
  "lead_sentAt inp \<equiv> (case ri_sentAt inp of Some t \<Rightarrow> t | None \<Rightarrow> zero_time)"

lemma route_onward_target:
  assumes "rr_target (fst (route_onward cr cid from inp)) = Some t"
  shows "cr_idxByID cr t \<noteq> None
    \<and> (\<exists>s b. cr_step cr from = Some s \<and> b \<in> set (st_Branches s) \<and> br_Target b = Some t
          \<and> fst (evaluateBranchState b (lead_progress cid inp) (lead_sentAt inp) (cr_now cr)) = BranchMatch
          \<and> rr_instant (fst (route_onward cr cid from inp)) = branchIsInstant b
          \<and> (stopReason cr inp \<noteq> [] \<longrightarrow> t \<in> cr_replyFlowSteps cr
               \<and> (from \<notin> cr_replyFlowSteps cr \<longrightarrow> branchHasPositiveReplyCondition b)))"
proof -
  let ?n = "routeNext cr from (lead_progress cid inp) (lead_sentAt inp)"
  let ?r = "routeReplyOnly cr from (lead_progress cid inp) (lead_sentAt inp)"
  let ?res = "fst (route_onward cr cid from inp)"
  consider "stopReason cr inp = []" "?res = ?n"
    | "stopReason cr inp \<noteq> []" "from \<notin> cr_replyFlowSteps cr" "?res = ?r"
    | u where "from \<in> cr_replyFlowSteps cr" "?res = ?n" "rr_target ?n = Some u" "u \<in> cr_replyFlowSteps cr"
    using assms unfolding route_onward_def Let_def
    by (cases "rr_target ?n") (auto split: if_split_asm)
  then show ?thesis
  proof cases
    case 1
    with routeNext_result [of cr "from" "lead_progress cid inp" "lead_sentAt inp" t] assms show ?thesis by auto
  next
    case 2
    with routeReplyOnly_result [of cr "from" "lead_progress cid inp" "lead_sentAt inp" t] assms
    show ?thesis by auto
  next
    case 3
    with routeNext_result [of cr "from" "lead_progress cid inp" "lead_sentAt inp" t] assms show ?thesis by auto
  qed
qed

lemma route_onward_wait:
  assumes "rr_wait (fst (route_onward cr cid from inp)) \<noteq> None" "stopReason cr inp \<noteq> []"
  shows "from \<in> cr_replyFlowSteps cr"
  using assms unfolding route_onward_def Let_def by (auto split: if_split_asm)

text \<open>The two ways a route offers something: a target, or a time to look again.\<close>

lemma route_target:
  assumes "ro_Target (route cr cid inp) = Some t"
  shows "t \<notin> set (ri_sentIDs inp)
    \<and> (\<exists>res stopped.
         (case ri_lastSeq inp of
            None \<Rightarrow> t = cr_entry cr \<and> \<not> (cr_stopOnMeeting cr \<and> ri_hasBooked inp)
          | Some from \<Rightarrow> res = fst (route_onward cr cid from inp) \<and> rr_target res = Some t)
         \<and> route cr cid inp = applyHold cr
             \<lparr>ro_Target = Some t, ro_IsNewLead = (ri_lastSeq inp = None), ro_Instant = rr_instant res,
              ro_DueAt = target_due cr inp t (rr_instant res), ro_WaitUntil = None, ro_Excluded = [],
              ro_LastSentStep = ri_lastSeq inp, ro_AssignedSender = None, ro_Hold = None,
              ro_StoppedBy = stopped\<rparr> inp)"
proof -
  define choice where "choice = (case ri_lastSeq inp of
      None \<Rightarrow> (rr_none\<lparr>rr_target := Some (cr_entry cr)\<rparr>, [])
    | Some from \<Rightarrow> route_onward cr cid from inp)"
  obtain res stopped where c: "choice = (res, stopped)" by (cases choice)
  have r: "rr_target res = Some t \<and> t \<notin> set (ri_sentIDs inp)
    \<and> \<not> (ri_lastSeq inp = None \<and> cr_stopOnMeeting cr \<and> ri_hasBooked inp)
    \<and> route cr cid inp = applyHold cr
             \<lparr>ro_Target = Some t, ro_IsNewLead = (ri_lastSeq inp = None), ro_Instant = rr_instant res,
              ro_DueAt = target_due cr inp t (rr_instant res), ro_WaitUntil = None, ro_Excluded = [],
              ro_LastSentStep = ri_lastSeq inp, ro_AssignedSender = None, ro_Hold = None,
              ro_StoppedBy = stopped\<rparr> inp"
    using assms unfolding route_def choice_def [symmetric] Let_def c
    by (auto split: if_split_asm option.split_asm)
  have "case ri_lastSeq inp of
      None \<Rightarrow> t = cr_entry cr \<and> \<not> (cr_stopOnMeeting cr \<and> ri_hasBooked inp)
    | Some from \<Rightarrow> res = fst (route_onward cr cid from inp) \<and> rr_target res = Some t"
    using c r unfolding choice_def by (cases "ri_lastSeq inp") auto
  with r show ?thesis by blast
qed

lemma route_wait:
  assumes "ro_WaitUntil (route cr cid inp) \<noteq> None"
  shows "ro_Target (route cr cid inp) = None
    \<and> (\<exists>from. ri_lastSeq inp = Some from \<and> rr_wait (fst (route_onward cr cid from inp)) \<noteq> None)"
proof (cases "ri_lastSeq inp")
  case None
  with assms show ?thesis unfolding route_def Let_def
    by (auto split: if_split_asm option.split_asm prod.split_asm)
next
  case (Some orig)
  obtain res stopped where c: "route_onward cr cid orig inp = (res, stopped)"
    by (cases "route_onward cr cid orig inp")
  from assms Some c show ?thesis unfolding route_def Let_def
    by (auto split: if_split_asm option.split_asm)
qed

subsection \<open>Holds and due times\<close>

lemma heldShift_nonneg: "0 \<le> heldShift inp now"
  by (simp add: heldShift_def Let_def split: option.split)

text \<open>A hold only ever pushes a step later, or parks it with no time at all.\<close>

lemma applyHold_postpones:
  assumes "ro_DueAt out = Some due" "ro_Hold out = None"
  shows "(\<exists>h. ro_Hold (applyHold cr out inp) = Some h \<and> lh_Until h = None)
    \<or> (\<exists>d. ro_DueAt (applyHold cr out inp) = Some d \<and> due \<le> d)"
  using assms heldShift_nonneg [of inp "cr_now cr"]
  by (auto simp: applyHold_def Let_def split: option.split)

lemma applyHold_not_before_end:
  assumes "ro_Hold (applyHold cr out inp) = Some h" "lh_Until h = Some u" "ro_Hold out = None"
  shows "\<exists>d. ro_DueAt (applyHold cr out inp) = Some d \<and> u \<le> d"
  using assms
  by (auto simp: applyHold_def Let_def split: if_split_asm option.split_asm)

definition floor_le :: "(uuid \<rightharpoonup> int) \<Rightarrow> uuid \<Rightarrow> int \<Rightarrow> bool" where
  "floor_le f u x \<longleftrightarrow> (\<exists>d. f u = Some d \<and> d \<le> x)"

lemma lower_floor_le [simp]: "floor_le (lower_floor out u d) u d"
  by (auto simp: floor_le_def lower_floor_def split: option.split)

lemma lower_floor_mono: "floor_le out u x \<Longrightarrow> floor_le (lower_floor out v d) u x"
  by (auto simp: floor_le_def lower_floor_def split: option.split)

lemma branch_floors_mono: "floor_le out u x \<Longrightarrow> floor_le (branch_floors cr s bs out) u x"
  by (induction bs arbitrary: out) (auto simp: lower_floor_mono split: option.split)

lemma branch_floors_le:
  assumes "b \<in> set bs" "br_Target b = Some t" "cr_step cr t = Some ts"
  shows "floor_le (branch_floors cr s bs out) (st_id s) (branch_delay s ts b)"
  using assms(1)
proof (induction bs arbitrary: out)
  case (Cons c bs)
  show ?case
  proof (cases "c = b")
    case True
    with assms(2,3) show ?thesis by (simp add: branch_floors_mono)
  next
    case False
    with Cons show ?thesis by (auto split: option.split)
  qed
qed simp

lemma dueFloors_le:
  assumes "s \<in> set (cr_steps cr)" "b \<in> set (st_Branches s)" "br_Target b = Some t" "cr_step cr t = Some ts"
  shows "floor_le (dueFloors cr) (st_id s) (branch_delay s ts b)"
proof -
  have mono: "floor_le out u x \<Longrightarrow> floor_le (fold (\<lambda>s. branch_floors cr s (st_Branches s)) ss out) u x"
    for ss out u x
    by (induction ss arbitrary: out) (simp_all add: branch_floors_mono)
  from split_list [OF assms(1)] obtain xs ys where "cr_steps cr = xs @ s # ys" by blast
  then show ?thesis unfolding dueFloors_def
    by (auto intro!: mono branch_floors_le [OF assms(2-4)])
qed

text \<open>Facts that belong to a lead: the query that reads them is a projection of the hydrating one.\<close>

definition facts_match :: "leadFacts \<Rightarrow> routeInput \<Rightarrow> bool" where
  "facts_match f inp \<longleftrightarrow>
     lf_addedAt f = ri_addedAt inp \<and> lf_lastAt f = ri_sentAt inp
     \<and> (case ri_lastSeq inp of None \<Rightarrow> ri_sentAt inp = None
        | Some q \<Rightarrow> ri_sentAt inp \<noteq> None \<and> q \<in> set (lf_lastSeqs f))"

text \<open>The filter is sound: what it drops could not have been due.\<close>

lemma dropped_is_not_due:
  assumes wf: "wf_router cr" and facts: "facts_match f inp" and drop: "\<not> mayBeDue cr f (dueFloors cr)"
    and target: "ro_Target (route cr cid inp) = Some t"
  shows "(\<exists>h. ro_Hold (route cr cid inp) = Some h \<and> lh_Until h = None)
    \<or> (\<exists>d. ro_DueAt (route cr cid inp) = Some d \<and> cr_dueBy cr < d)"
proof -
  from route_target [OF target] obtain res stopped where
    choice: "case ri_lastSeq inp of
        None \<Rightarrow> t = cr_entry cr \<and> \<not> (cr_stopOnMeeting cr \<and> ri_hasBooked inp)
      | Some from \<Rightarrow> res = fst (route_onward cr cid from inp) \<and> rr_target res = Some t"
    and r: "route cr cid inp = applyHold cr
             \<lparr>ro_Target = Some t, ro_IsNewLead = (ri_lastSeq inp = None), ro_Instant = rr_instant res,
              ro_DueAt = target_due cr inp t (rr_instant res), ro_WaitUntil = None, ro_Excluded = [],
              ro_LastSentStep = ri_lastSeq inp, ro_AssignedSender = None, ro_Hold = None,
              ro_StoppedBy = stopped\<rparr> inp"
    by blast
  have "\<exists>due. target_due cr inp t (rr_instant res) = Some due \<and> cr_dueBy cr < due"
  proof (cases "ri_lastSeq inp")
    case None
    with facts drop show ?thesis
      by (simp add: facts_match_def mayBeDue_def target_due_def split: option.split_asm)
  next
    case (Some orig)
    with facts obtain sent where sent: "ri_sentAt inp = Some sent" "lf_lastAt f = Some sent"
      and orig: "orig \<in> set (lf_lastSeqs f)"
      by (auto simp: facts_match_def)
    from choice Some route_onward_target [of cr cid orig inp t] obtain s b where
      s: "cr_step cr orig = Some s" "b \<in> set (st_Branches s)" "br_Target b = Some t"
        "rr_instant res = branchIsInstant b" "cr_idxByID cr t \<noteq> None" by auto
    then obtain ts where ts: "cr_step cr t = Some ts" using wf_step_of(1) [OF wf, of t] by auto
    have "floor_le (dueFloors cr) orig (branch_delay s ts b)"
      using dueFloors_le s(2,3) ts wf_step_of(2) [OF wf s(1)] by blast
    then obtain d where d: "dueFloors cr orig = Some d" "d \<le> branch_delay s ts b"
      by (auto simp: floor_le_def)
    have "cr_dueBy cr < sent + d" using drop orig sent(2) d(1) by (auto simp: mayBeDue_def list_ex_iff)
    moreover have "target_due cr inp t (rr_instant res) = Some (sent + branch_delay s ts b)"
      using Some sent(1) s ts by (simp add: target_due_def branch_delay_def Let_def)
    ultimately show ?thesis using d(2) by simp
  qed
  then obtain due where "target_due cr inp t (rr_instant res) = Some due" "cr_dueBy cr < due" by blast
  moreover obtain out where "route cr cid inp = applyHold cr out inp" "ro_Hold out = None"
    "ro_DueAt out = target_due cr inp t (rr_instant res)" using r by fastforce
  ultimately show ?thesis using applyHold_postpones [of out due cr inp] by fastforce
qed

section \<open>A lead that answered or booked leaves the cold sequence\<close>

text \<open>The steps a lead that never replies can reach from the first one.\<close>

definition cold_sequence :: "sequence_row list \<Rightarrow> uuid set" where
  "cold_sequence rows =
     (row_edges rows (\<lambda>b. \<not> branchHasPositiveReplyCondition b))\<^sup>* `` {sq_id (hd rows)}"

lemma replyFlow_off_sequence:
  assumes "loadRouter rows ca now = Some cr" "distinct (map sq_id rows)" "t \<in> cr_replyFlowSteps cr"
  shows "t \<notin> cold_sequence rows"
  using assms(3) reply_flow_off_trunk [of t "cr_steps cr" "cr_idxByID cr" "cr_entry cr"]
  by (simp add: loadRouter_fields(4,8) [OF assms(1)] cold_sequence_def coldReachable_def bfs_reaches
      loaded_edges [OF assms(1,2)] split: if_split_asm)

lemma replyFlow_of_replies:
  assumes "loadRouter rows ca now = Some cr" "distinct (map sq_id rows)" "t \<in> cr_replyFlowSteps cr"
  shows "\<exists>q \<in> set rows. \<exists>b \<in> set (sq_Branches q). \<exists>u. br_Target b = Some u
           \<and> branchHasPositiveReplyCondition b \<and> (u, t) \<in> (row_edges rows (\<lambda>b. True))\<^sup>*"
proof -
  from assms(3) have "t \<in> reply_flow (cr_steps cr) (cr_idxByID cr) (cr_entry cr)"
    by (simp add: loadRouter_fields [OF assms(1)] split: if_split_asm)
  then obtain u cold where u: "u \<in> set (reply_seeds (cr_steps cr) cold)"
    "(u, t) \<in> (flow_edges (cr_steps cr) (cr_idxByID cr) (off_trunk cold))\<^sup>*"
    by (auto simp: reply_flow_def Let_def bfs_reaches)
  from u(1) obtain s b where sb: "s \<in> set (cr_steps cr)" "b \<in> set (st_Branches s)" "br_Target b = Some u"
    "branchHasPositiveReplyCondition b"
    by (auto simp: reply_seeds_def List.map_filter_def split: if_split_asm)
  then obtain q where "q \<in> set rows" "b \<in> set (sq_Branches q)"
    using loadRouter_fields(1) [OF assms(1)] by (auto simp: route_step_def)
  moreover have "(u, t) \<in> (row_edges rows (\<lambda>b. True))\<^sup>*"
    using u(2) unfolding loaded_edges [OF assms(1,2)]
    by (rule rtrancl_mono [THEN subsetD, rotated]) (auto simp: row_edges_def)
  ultimately show ?thesis using sb(3,4) by blast
qed

lemma stop_rules:
  assumes "loadRouter rows ca now = Some cr"
  shows "stopReason cr inp \<noteq> [] \<longleftrightarrow>
    crow_stop_on_reply ca \<and> ri_hasReplied inp \<or> crow_stop_on_meeting ca \<and> ri_hasBooked inp"
  using loadRouter_fields(6,7) [OF assms]
  by (simp add: stopReason_def StoppedByReply_def StoppedByMeeting_def)


text \<open>A step that goes on to a second mail, unless the lead replied; then to a thank-you note.\<close>

definition example_rows :: "sequence_row list" where
  "example_rows =
     (let go = (\<lambda>f t. \<lparr>br_BranchID = ''b'', br_Target = Some t, br_Conditions = f, br_Instant = None\<rparr>);
          mail = (\<lambda>u bs. \<lparr>sq_id = u, sq_Branches = bs, sq_wait_after = 2, sq_kind = ''email'', sq_action = None\<rparr>)
      in [mail [1] [go [] [2],
                    go [\<lparr>cd_Field = ''replied'', cd_Operator = ''ever'', cd_Value = None, cd_Label = []\<rparr>] [3]],
          mail [2] [], mail [3] []])"

definition example_lead :: "routeInput" where
  "example_lead =
     \<lparr>ri_lastSeq = Some [1], ri_sentAt = Some 0, ri_openedAt = None, ri_clickedAt = None,
      ri_repliedAt = Some 5, ri_addedAt = None, ri_sender = None, ri_replyClass = [], ri_aiLabel = [],
      ri_replyIntent = [], ri_sentIDs = [[1]], ri_hasReplied = True, ri_hasBooked = False,
      ri_pausedAt = None, ri_pausedUntil = None, ri_pauseReason = [], ri_pauseSource = []\<rparr>"

definition example_campaign :: "campaign_row" where
  "example_campaign =
     \<lparr>crow_stop_on_reply = True, crow_stop_on_meeting = False, crow_entry_delay_minutes = 0, crow_created_at = 0\<rparr>"


section \<open>Every lead's journey ends\<close>

text \<open>
  The steps one lead is sent, pass after pass: time moves on, signals, holds and stop rules come
  and go, but every step sent is in the ids the next pass reads.
\<close>

inductive journey :: "sequence_row list \<Rightarrow> uuid list \<Rightarrow> bool" for rows :: "sequence_row list" where
  start: "journey rows []"
| sent: "journey rows ts \<Longrightarrow> loadRouter rows ca now = Some cr \<Longrightarrow> set ts \<subseteq> set (ri_sentIDs inp)
    \<Longrightarrow> ro_Target (route cr cid inp) = Some t \<Longrightarrow> journey rows (ts @ [t])"

inductive_cases journey_snocE: "journey rows (ts @ [t])"

lemma route_target_live:
  assumes "wf_router cr" "ro_Target (route cr cid inp) = Some t"
  shows "t \<in> st_id ` set (cr_steps cr)"
proof (cases "ri_lastSeq inp")
  case None
  with route_target [OF assms(2)] assms(1) show ?thesis by (auto simp: wf_router_def)
next
  case (Some orig)
  with route_target [OF assms(2)] have "rr_target (fst (route_onward cr cid orig inp)) = Some t" by auto
  from route_onward_target [OF this] wf_step_of(3) [OF assms(1), of t] show ?thesis by blast
qed

text \<open>
  Claim C11. However the connections of a campaign are drawn, cycles included, and whatever happens
  between the passes, a lead is never sent a step twice, only steps of the campaign, and so at most
  as many sends as the campaign has steps: its journey ends.
\<close>

theorem journey_ends:
  assumes "journey rows ts"
  shows "distinct ts \<and> set ts \<subseteq> sq_id ` set rows \<and> length ts \<le> length rows"
proof -
  have "distinct ts \<and> set ts \<subseteq> sq_id ` set rows"
    using assms
  proof induction
    case start
    show ?case by simp
  next
    case (sent ts ca now cr inp cid t)
    have "t \<in> st_id ` set (cr_steps cr)"
      using route_target_live [OF loadRouter_wf [OF sent.hyps(2)] sent.hyps(4)] .
    then have "t \<in> sq_id ` set rows"
      unfolding loadRouter_fields(1) [OF sent.hyps(2)] by (auto simp: route_step_def)
    moreover have "t \<notin> set ts" using route_target [OF sent.hyps(4)] sent.hyps(3) by blast
    ultimately show ?case using sent.IH by simp
  qed
  moreover from this have "length ts \<le> length rows"
    by (metis card_length card_mono distinct_card finite_set image_set le_trans length_map list.set_map)
  ultimately show ?thesis by blast
qed

theorem journey_ends_witness:
  "journey example_rows [[1], [3]] \<and> distinct [[1], [3 :: byte]] \<and> length [[1], [3 :: byte]] \<le> length example_rows"
proof -
  have "\<exists>cr. loadRouter example_rows example_campaign 0 = Some cr"
    by (simp add: loadRouter_def example_rows_def Let_def)
  then obtain cr where cr: "loadRouter example_rows example_campaign 0 = Some cr" ..
  let ?new = "example_lead\<lparr>ri_lastSeq := None, ri_sentIDs := []\<rparr>"
  have t: "ro_Target (route cr [7] ?new) = Some [1]" "ro_Target (route cr [7] example_lead) = Some [3]"
  proof -
    have "ro_Target (route (the (loadRouter example_rows example_campaign 0)) [7] ?new) = Some [1]"
      "ro_Target (route (the (loadRouter example_rows example_campaign 0)) [7] example_lead) = Some [3]"
      by code_simp+
    then show "ro_Target (route cr [7] ?new) = Some [1]" "ro_Target (route cr [7] example_lead) = Some [3]"
      using cr by simp_all
  qed
  have "journey example_rows ([] @ [[1]])"
    by (rule journey.sent [OF journey.start cr _ t(1)]) simp
  then have "journey example_rows ([[1]] @ [[3]])"
    by (intro journey.sent [OF _ cr _ t(2)]) (simp_all add: example_lead_def)
  then have j: "journey example_rows [[1], [3]]" by simp
  with journey_ends [OF j] show ?thesis by blast
qed

section \<open>Where the routing surprises\<close>

definition one_branch :: "string \<Rightarrow> string \<Rightarrow> int option \<Rightarrow> string \<Rightarrow> uuid \<Rightarrow> Branch" where
  "one_branch field op v label t =
     \<lparr>br_BranchID = ''b'', br_Target = Some t,
      br_Conditions = [\<lparr>cd_Field = field, cd_Operator = op, cd_Value = v, cd_Label = label\<rparr>],
      br_Instant = Some False\<rparr>"

definition plain_mail :: "uuid \<Rightarrow> Branch list \<Rightarrow> sequence_row" where
  "plain_mail u bs = \<lparr>sq_id = u, sq_Branches = bs, sq_wait_after = 2, sq_kind = ''email'', sq_action = None\<rparr>"

text \<open>
  A branch on the intent of a reply is no reply branch: in a campaign that stops on replies the
  scheduler never takes it, although the reply carries that very intent.
\<close>

lemma reply_intent_branch_not_taken:
  "(let rows = [plain_mail [1] [one_branch ''reply_intent'' ''is'' None ''agreed'' [2]], plain_mail [2] []];
        out = route (the (loadRouter rows example_campaign 0)) [7] (example_lead\<lparr>ri_replyIntent := ''agreed''\<rparr>)
    in ro_Target out = None \<and> ro_StoppedBy out = StoppedByReply)"
  by code_simp

text \<open>
  A hold does not stop the window of a condition: a lead held from the first to the tenth day
  is judged not to have opened within three days while it is still away.
\<close>

lemma held_window_elapses:
  "(let rows = [plain_mail [1] [one_branch ''opened'' ''within_days'' (Some 3) [] [2],
                                one_branch ''not_opened'' ''within_days'' (Some 3) [] [3]],
                plain_mail [2] [], plain_mail [3] []];
        held = example_lead\<lparr>ri_hasReplied := False, ri_repliedAt := None,
                            ri_pausedAt := Some (24 * Hour), ri_pausedUntil := Some (240 * Hour)\<rparr>
    in ro_WaitUntil (route (the (loadRouter rows example_campaign (48 * Hour))) [7] held) = Some (240 * Hour)
       \<and> ro_Target (route (the (loadRouter rows example_campaign (120 * Hour))) [7] held) = Some [3])"
  by code_simp

end
