(* ===== verification/Lead_Selection.thy ===== *)
theory Lead_Selection
  imports Lead_Routing
begin

text \<open>
  The leads a scheduling pass of a campaign offers, \<open>FindRoutedPairs\<close> of
  \<open>internal/repository/pg_campaign_progress.go\<close>: candidates are walked in chunks, leads that
  cannot act are skipped before their history is read, and the rest are routed in order until the
  batch is full. The queries are arguments; each may fail.
\<close>

section \<open>The walk\<close>

record ContactSequencePair =
  cp_ContactID :: uuid
  cp_SequenceID :: uuid
  cp_IsNewLead :: bool
  cp_Instant :: bool
  cp_NotBefore :: "instant option"
  cp_AssignedSender :: "uuid option"

text \<open>The queries of a pass: \<open>None\<close> is a failed query.\<close>

record route_reads =
  rd_router :: "campaignRouter option option"
  rd_ordered :: "uuid list option"
  rd_facts :: "uuid list \<Rightarrow> (uuid \<rightharpoonup> leadFacts) option"
  rd_hydrate :: "uuid list \<Rightarrow> (uuid \<rightharpoonup> routeInput) option"

record scan =
  sc_pairs :: "ContactSequencePair list"
  sc_nextDue :: "instant option"
  sc_waitingOnSender :: bool

definition CampaignRoutedCandidateChunk :: nat where "CampaignRoutedCandidateChunk = 1000"

definition reopening :: "(uuid \<rightharpoonup> instant) \<Rightarrow> uuid option \<Rightarrow> instant option" where
  "reopening paced sender = (case sender of None \<Rightarrow> None | Some s \<Rightarrow> paced s)"

definition noteDue :: "scan \<Rightarrow> instant \<Rightarrow> bool \<Rightarrow> scan" where
  "noteDue st t onSender =
     (if (case sc_nextDue st of None \<Rightarrow> True | Some n \<Rightarrow> t < n)
      then st\<lparr>sc_nextDue := Some t, sc_waitingOnSender := onSender\<rparr> else st)"

text \<open>What one hydrated lead adds to the walk.\<close>

datatype verdict = Skip | Later instant bool | Due ContactSequencePair

definition lead_verdict ::
  "campaignRouter \<Rightarrow> bool \<Rightarrow> (uuid \<rightharpoonup> instant) \<Rightarrow> uuid \<Rightarrow> routeInput option \<Rightarrow> verdict" where
  "lead_verdict cr excludeNewLeads paced contactID hydrated =
     (case hydrated of
        None \<Rightarrow> Skip
      | Some inp \<Rightarrow>
          if ri_lastSeq inp = None \<and> excludeNewLeads then Skip
          else (let res = route cr contactID inp
                in if (case ro_Hold res of None \<Rightarrow> False | Some h \<Rightarrow> lh_Until h = None) then Skip
                   else case ro_WaitUntil res of
                     Some w \<Rightarrow> Later w False
                   | None \<Rightarrow>
                       (case ro_Target res of
                          None \<Rightarrow> Skip
                        | Some t \<Rightarrow>
                            if (case ro_DueAt res of None \<Rightarrow> False | Some d \<Rightarrow> cr_dueBy cr < d)
                            then Later (the (ro_DueAt res)) False
                            else case reopening paced (ri_sender inp) of
                              Some back \<Rightarrow> if isEmailStep cr t then Later back True
                                           else Due \<lparr>cp_ContactID = contactID, cp_SequenceID = t,
                                                     cp_IsNewLead = ro_IsNewLead res, cp_Instant = ro_Instant res,
                                                     cp_NotBefore = ro_DueAt res, cp_AssignedSender = ri_sender inp\<rparr>
                            | None \<Rightarrow> Due \<lparr>cp_ContactID = contactID, cp_SequenceID = t,
                                           cp_IsNewLead = ro_IsNewLead res, cp_Instant = ro_Instant res,
                                           cp_NotBefore = ro_DueAt res, cp_AssignedSender = ri_sender inp\<rparr>)))"

fun routeWindow ::
  "campaignRouter \<Rightarrow> bool \<Rightarrow> (uuid \<rightharpoonup> instant) \<Rightarrow> int \<Rightarrow> (uuid \<rightharpoonup> routeInput) \<Rightarrow> uuid list \<Rightarrow> scan
   \<Rightarrow> bool \<times> scan" where
  "routeWindow cr excl paced limit hydrated [] st = (False, st)"
| "routeWindow cr excl paced limit hydrated (c # cs) st =
     (case lead_verdict cr excl paced c (hydrated c) of
        Skip \<Rightarrow> routeWindow cr excl paced limit hydrated cs st
      | Later t onSender \<Rightarrow> routeWindow cr excl paced limit hydrated cs (noteDue st t onSender)
      | Due p \<Rightarrow>
          (let st = st\<lparr>sc_pairs := sc_pairs st @ [p]\<rparr>
           in if limit \<le> int (length (sc_pairs st)) then (True, st)
              else routeWindow cr excl paced limit hydrated cs st))"

definition wanted :: "campaignRouter \<Rightarrow> bool \<Rightarrow> (uuid \<rightharpoonup> leadFacts) \<Rightarrow> uuid \<Rightarrow> bool" where
  "wanted cr excl facts c \<longleftrightarrow>
     (case facts c of None \<Rightarrow> False | Some f \<Rightarrow> \<not> inert cr f excl \<and> mayBeDue cr f (dueFloors cr))"

definition not_yet_due :: "campaignRouter \<Rightarrow> bool \<Rightarrow> (uuid \<rightharpoonup> leadFacts) \<Rightarrow> uuid \<Rightarrow> bool" where
  "not_yet_due cr excl facts c \<longleftrightarrow>
     (case facts c of None \<Rightarrow> False | Some f \<Rightarrow> \<not> inert cr f excl \<and> \<not> mayBeDue cr f (dueFloors cr))"

text \<open>The pruned walk: whether the batch filled, and the leads left for the next-due walk.\<close>

function scan_chunks ::
  "route_reads \<Rightarrow> campaignRouter \<Rightarrow> bool \<Rightarrow> (uuid \<rightharpoonup> instant) \<Rightarrow> int \<Rightarrow> uuid list
   \<Rightarrow> scan \<Rightarrow> (uuid \<rightharpoonup> routeInput) \<Rightarrow> uuid list
   \<Rightarrow> (bool \<times> scan \<times> (uuid \<rightharpoonup> routeInput) \<times> uuid list) option" where
  "scan_chunks rd cr excl paced limit ordered st inputs later =
     (if ordered = [] then Some (False, st, inputs, later)
      else (let window = take CampaignRoutedCandidateChunk ordered;
                rest = drop CampaignRoutedCandidateChunk ordered
            in case rd_facts rd window of
                 None \<Rightarrow> None
               | Some facts \<Rightarrow>
                   (let want = filter (wanted cr excl facts) window;
                        later = later @ filter (not_yet_due cr excl facts) window
                    in if want = [] then scan_chunks rd cr excl paced limit rest st inputs later
                       else case rd_hydrate rd want of
                         None \<Rightarrow> None
                       | Some hydrated \<Rightarrow>
                           (case routeWindow cr excl paced limit (inputs ++ hydrated) want st of
                              (full, st) \<Rightarrow>
                                if full then Some (True, st, inputs ++ hydrated, later)
                                else scan_chunks rd cr excl paced limit rest st (inputs ++ hydrated) later))))"
  by pat_completeness auto
termination
  by (relation "measure (\<lambda>(rd, cr, excl, paced, limit, ordered, st, inputs, later). length ordered)")
    (auto simp: CampaignRoutedCandidateChunk_def)

function hydrate_chunks ::
  "route_reads \<Rightarrow> uuid list \<Rightarrow> (uuid \<rightharpoonup> routeInput) \<Rightarrow> (uuid \<rightharpoonup> routeInput) option" where
  "hydrate_chunks rd later inputs =
     (if later = [] then Some inputs
      else case rd_hydrate rd (take CampaignRoutedCandidateChunk later) of
        None \<Rightarrow> None
      | Some hydrated \<Rightarrow> hydrate_chunks rd (drop CampaignRoutedCandidateChunk later) (inputs ++ hydrated))"
  by pat_completeness auto
termination
  by (relation "measure (\<lambda>(rd, later, inputs). length later)")
    (auto simp: CampaignRoutedCandidateChunk_def)

declare scan_chunks.simps [simp del] hydrate_chunks.simps [simp del]

definition no_scan :: scan where
  "no_scan = \<lparr>sc_pairs = [], sc_nextDue = None, sc_waitingOnSender = False\<rparr>"

definition FindRoutedPairs ::
  "route_reads \<Rightarrow> bool \<Rightarrow> (uuid \<rightharpoonup> instant) \<Rightarrow> int
   \<Rightarrow> (ContactSequencePair list \<times> instant option \<times> bool) option" where
  "FindRoutedPairs rd excl paced limit0 =
     (let limit = (if limit0 < 1 then 1 else limit0)
      in case rd_router rd of
           None \<Rightarrow> None
         | Some None \<Rightarrow> Some ([], None, False)
         | Some (Some cr) \<Rightarrow>
             (case rd_ordered rd of
                None \<Rightarrow> None
              | Some ordered \<Rightarrow>
                  (case scan_chunks rd cr excl paced limit ordered no_scan Map.empty [] of
                     None \<Rightarrow> None
                   | Some (full, st, inputs, later) \<Rightarrow>
                       if full \<or> sc_pairs st \<noteq> [] then Some (sc_pairs st, None, False)
                       else if later = [] then Some ([], sc_nextDue st, sc_waitingOnSender st)
                       else case hydrate_chunks rd later inputs of
                         None \<Rightarrow> None
                       | Some inputs \<Rightarrow>
                           (case routeWindow cr excl paced limit inputs ordered
                                   (st\<lparr>sc_nextDue := None, sc_waitingOnSender := False\<rparr>) of
                              (full, st) \<Rightarrow>
                                if full \<or> sc_pairs st \<noteq> [] then Some (sc_pairs st, None, False)
                                else Some ([], sc_nextDue st, sc_waitingOnSender st)))))"

section \<open>What a pass promises\<close>

text \<open>
  The soonest of a list of moments, with the flag of the first lead that has it.
\<close>

definition soonest :: "(instant \<times> bool) list \<Rightarrow> instant option \<times> bool" where
  "soonest ls =
     (if ls = [] then (None, False)
      else (let m = Min (fst ` set ls) in (Some m, snd (hd (filter (\<lambda>l. fst l = m) ls)))))"

definition due_pairs :: "(uuid \<Rightarrow> verdict) \<Rightarrow> uuid list \<Rightarrow> ContactSequencePair list" where
  "due_pairs v cs = List.map_filter (\<lambda>c. case v c of Due p \<Rightarrow> Some p | _ \<Rightarrow> None) cs"

definition later_times :: "(uuid \<Rightarrow> verdict) \<Rightarrow> uuid list \<Rightarrow> (instant \<times> bool) list" where
  "later_times v cs = List.map_filter (\<lambda>c. case v c of Later t s \<Rightarrow> Some (t, s) | _ \<Rightarrow> None) cs"

text \<open>The first due leads in list order; when there is none, the soonest moment there will be one.\<close>

definition first_due ::
  "(uuid \<Rightarrow> verdict) \<Rightarrow> nat \<Rightarrow> uuid list \<Rightarrow> ContactSequencePair list \<times> instant option \<times> bool" where
  "first_due v n cs =
     (if due_pairs v cs \<noteq> [] then (take n (due_pairs v cs), None, False)
      else (case soonest (later_times v cs) of (t, s) \<Rightarrow> ([], t, s)))"

lemma due_pairs_simps [simp]:
  "due_pairs v [] = []"
  "due_pairs v (c # cs) = (case v c of Due p \<Rightarrow> p # due_pairs v cs | _ \<Rightarrow> due_pairs v cs)"
  by (simp_all add: due_pairs_def List.map_filter_simps split: verdict.split)

lemma later_times_simps [simp]:
  "later_times v [] = []"
  "later_times v (c # cs) = (case v c of Later t s \<Rightarrow> (t, s) # later_times v cs | _ \<Rightarrow> later_times v cs)"
  by (simp_all add: later_times_def List.map_filter_simps split: verdict.split)

text \<open>The accumulator of the walk is the soonest moment of what it has seen.\<close>

lemma soonest_snoc:
  "soonest (ls @ [(t, s)]) =
     (case fst (soonest ls) of None \<Rightarrow> (Some t, s) | Some n \<Rightarrow> if t < n then (Some t, s) else soonest ls)"
proof (cases "ls = []")
  case True
  then show ?thesis by (simp add: soonest_def)
next
  case False
  define k where "k = Min (fst ` set ls)"
  have fin: "finite (fst ` set ls)" "fst ` set ls \<noteq> {}" using False by auto
  have m: "Min (fst ` set (ls @ [(t, s)])) = min t k"
    using Min_insert [OF fin] by (simp add: k_def)
  have old: "soonest ls = (Some k, snd (hd (filter (\<lambda>l. fst l = k) ls)))"
    using False by (simp add: soonest_def k_def Let_def)
  have new: "soonest (ls @ [(t, s)])
      = (Some (min t k), snd (hd (filter (\<lambda>l. fst l = min t k) (ls @ [(t, s)]))))"
    unfolding soonest_def m Let_def by simp
  have least: "l \<in> set ls \<Longrightarrow> k \<le> fst l" for l using fin by (simp add: k_def)
  have "k \<in> fst ` set ls" using Min_in [OF fin] by (simp add: k_def)
  then have some: "filter (\<lambda>l. fst l = k) ls \<noteq> []" by (fastforce simp: filter_empty_conv)
  show ?thesis
  proof (cases "t < k")
    case True
    then have "filter (\<lambda>l. fst l = t) ls = []" using least by (fastforce simp: filter_empty_conv)
    with True show ?thesis unfolding old new by simp
  next
    case False
    then have "min t k = k" by simp
    with False some show ?thesis unfolding old new by simp
  qed
qed

definition scan_agrees :: "scan \<Rightarrow> ContactSequencePair list \<Rightarrow> (instant \<times> bool) list \<Rightarrow> bool" where
  "scan_agrees st ps ls \<longleftrightarrow>
     sc_pairs st = ps \<and> (sc_nextDue st, sc_waitingOnSender st) = soonest ls"

lemma noteDue_agrees: "scan_agrees st ps ls \<Longrightarrow> scan_agrees (noteDue st t s) ps (ls @ [(t, s)])"
  by (cases "soonest ls") (auto simp: scan_agrees_def noteDue_def soonest_snoc split: option.split)

text \<open>
  A walk over hydrated leads: it fills the batch exactly when there are enough due leads, and its
  state holds the due leads and the soonest moment.
\<close>

lemma routeWindow_scan:
  assumes "scan_agrees st ps ls" "int (length ps) < limit"
  shows "case routeWindow cr excl paced limit hydrated cs st of (full, st') \<Rightarrow>
      (let all = ps @ due_pairs (\<lambda>c. lead_verdict cr excl paced c (hydrated c)) cs
       in (full \<longleftrightarrow> limit \<le> int (length all))
          \<and> sc_pairs st' = take (nat limit) all
          \<and> (\<not> full \<longrightarrow>
               scan_agrees st' all (ls @ later_times (\<lambda>c. lead_verdict cr excl paced c (hydrated c)) cs)))"
  using assms
proof (induction cs arbitrary: st ps ls)
  case Nil
  then show ?case by (simp add: scan_agrees_def Let_def)
next
  case (Cons c cs)
  show ?case
  proof (cases "lead_verdict cr excl paced c (hydrated c)")
    case Skip
    with Cons show ?thesis by simp
  next
    case (Later t s)
    with Cons.IH [OF noteDue_agrees [OF Cons.prems(1)] Cons.prems(2)] show ?thesis by simp
  next
    case (Due p)
    let ?st = "st\<lparr>sc_pairs := sc_pairs st @ [p]\<rparr>"
    have ag: "scan_agrees ?st (ps @ [p]) ls" using Cons.prems(1) by (simp add: scan_agrees_def)
    show ?thesis
    proof (cases "limit \<le> int (length (ps @ [p]))")
      case True
      then have "nat limit = length (ps @ [p])" using Cons.prems(2) by simp
      with True Due Cons.prems(1) show ?thesis by (simp add: scan_agrees_def Let_def)
    next
      case False
      then have "int (length (ps @ [p])) < limit" by simp
      from Cons.IH [OF ag this] False Due Cons.prems(1) show ?thesis
        by (simp add: scan_agrees_def Let_def)
    qed
  qed
qed

lemma routeWindow_cong:
  assumes "\<And>c. c \<in> set cs \<Longrightarrow> lead_verdict cr excl paced c (h c) = lead_verdict cr excl paced c (h' c)"
  shows "routeWindow cr excl paced limit h cs st = routeWindow cr excl paced limit h' cs st"
  using assms by (induction cs arbitrary: st) (auto simp: Let_def split: verdict.split)

lemma routeWindow_append:
  "routeWindow cr excl paced limit h (xs @ ys) st =
     (case routeWindow cr excl paced limit h xs st of
        (full, st') \<Rightarrow> if full then (True, st') else routeWindow cr excl paced limit h ys st')"
  by (induction xs arbitrary: st) (auto simp: Let_def split: verdict.split)

section \<open>Pruning loses nothing\<close>

text \<open>
  The queries of one pass read one state of the database: the facts of a lead are those of its
  hydrated history.
\<close>

definition snapshot :: "route_reads \<Rightarrow> (uuid \<rightharpoonup> leadFacts) \<Rightarrow> (uuid \<rightharpoonup> routeInput) \<Rightarrow> bool" where
  "snapshot rd facts leads \<longleftrightarrow>
     (\<forall>ids. rd_facts rd ids = Some (facts |` set ids))
     \<and> (\<forall>ids. rd_hydrate rd ids = Some (leads |` set ids))
     \<and> (\<forall>c inp. leads c = Some inp \<longrightarrow> (\<exists>f. facts c = Some f \<and> facts_match f inp))"

lemma wanted_restrict [simp]:
  "c \<in> A \<Longrightarrow> wanted cr excl (facts |` A) c = wanted cr excl facts c"
  "c \<in> A \<Longrightarrow> not_yet_due cr excl (facts |` A) c = not_yet_due cr excl facts c"
  by (simp_all add: wanted_def not_yet_due_def)

lemma restrict_add: "m |` A ++ m |` B = m |` (A \<union> B)"
  by (rule ext) (simp add: map_add_def restrict_map_def split: option.split)

text \<open>A lead with no step to go to has nothing to say.\<close>

lemma inert_skips:
  assumes "facts_match f inp" "inert cr f excl"
  shows "lead_verdict cr excl paced c (Some inp) = Skip"
proof (cases "ri_lastSeq inp")
  case None
  with assms show ?thesis by (simp add: facts_match_def inert_def lead_verdict_def)
next
  case (Some orig)
  with assms have dead: "cr_step cr orig = Some s \<Longrightarrow> st_Branches s = []" for s
    by (auto simp: facts_match_def inert_def list_ex_iff split: option.split_asm)
  then have "routeNext cr orig prog sa = stop_here" "routeReplyOnly cr orig prog sa = stop_here" for prog sa
    by (auto simp: routeNext_def routeReplyOnly_def split: option.split)
  then have no: "rr_target (fst (route_onward cr c orig inp)) = None" "rr_wait (fst (route_onward cr c orig inp)) = None"
    by (simp_all add: route_onward_def Let_def)
  with Some have "ro_WaitUntil (route cr c inp) = None"
    using route_wait [of cr c inp] by (metis option.sel)
  moreover have "ro_Target (route cr c inp) = None"
  proof (rule ccontr)
    assume "ro_Target (route cr c inp) \<noteq> None"
    then obtain t where "ro_Target (route cr c inp) = Some t" by blast
    from route_target [OF this] Some no show False by auto
  qed
  ultimately show ?thesis by (simp add: lead_verdict_def Let_def)
qed

lemma dropped_not_due:
  assumes "wf_router cr" "facts_match f inp" "\<not> mayBeDue cr f (dueFloors cr)"
  shows "lead_verdict cr excl paced c (Some inp) \<noteq> Due p"
proof
  assume due: "lead_verdict cr excl paced c (Some inp) = Due p"
  then obtain t where t: "ro_Target (route cr c inp) = Some t"
    by (auto simp: lead_verdict_def Let_def split: if_split_asm option.split_asm)
  from dropped_is_not_due [OF assms t] due t show False
    by (auto simp: lead_verdict_def Let_def split: if_split_asm option.split_asm)
qed

lemma snapshot_verdicts:
  assumes "snapshot rd facts leads" "wf_router cr" "\<not> wanted cr excl facts c"
  shows "lead_verdict cr excl paced c (leads c) \<noteq> Due p"
    and "\<not> not_yet_due cr excl facts c \<Longrightarrow> lead_verdict cr excl paced c (leads c) = Skip"
proof -
  have none: "lead_verdict cr excl paced c None = Skip" by (simp add: lead_verdict_def)
  have facts: "leads c = Some inp \<Longrightarrow> \<exists>f. facts c = Some f \<and> facts_match f inp" for inp
    using assms(1) by (simp add: snapshot_def)
  show "lead_verdict cr excl paced c (leads c) \<noteq> Due p"
  proof (cases "leads c")
    case None
    then show ?thesis by (simp add: none)
  next
    case (Some inp)
    with facts obtain f where f: "facts c = Some f" "facts_match f inp" by blast
    with assms(3) consider "inert cr f excl" | "\<not> mayBeDue cr f (dueFloors cr)" by (auto simp: wanted_def)
    then show ?thesis
      by cases (simp_all add: Some inert_skips [OF f(2)] dropped_not_due [OF assms(2) f(2)])
  qed
  assume *: "\<not> not_yet_due cr excl facts c"
  show "lead_verdict cr excl paced c (leads c) = Skip"
  proof (cases "leads c")
    case None
    then show ?thesis by (simp add: none)
  next
    case (Some inp)
    with facts obtain f where f: "facts c = Some f" "facts_match f inp" by blast
    with * assms(3) have "inert cr f excl" by (auto simp: wanted_def not_yet_due_def)
    with Some inert_skips [OF f(2)] show ?thesis by simp
  qed
qed

lemma due_pairs_filter:
  "(\<And>c p. c \<in> set cs \<Longrightarrow> \<not> P c \<Longrightarrow> v c \<noteq> Due p) \<Longrightarrow> due_pairs v (filter P cs) = due_pairs v cs"
  by (induction cs) (auto split: verdict.split)

lemma later_times_filter:
  "(\<And>c. c \<in> set cs \<Longrightarrow> \<not> P c \<Longrightarrow> v c = Skip) \<Longrightarrow> later_times v (filter P cs) = later_times v cs"
  by (induction cs) (auto split: verdict.split)

lemma scan_chunks_snapshot:
  assumes snap: "snapshot rd facts leads"
  shows "\<exists>full st' inputs' later'.
      scan_chunks rd cr excl paced limit ordered st (leads |` A) later = Some (full, st', inputs', later')
      \<and> routeWindow cr excl paced limit leads (filter (wanted cr excl facts) ordered) st = (full, st')
      \<and> (\<not> full \<longrightarrow> later' = later @ filter (not_yet_due cr excl facts) ordered
             \<and> inputs' = leads |` (A \<union> set (filter (wanted cr excl facts) ordered)))"
proof (induction "length ordered" arbitrary: ordered st A later rule: less_induct)
  case less
  show ?case
  proof (cases "ordered = []")
    case True
    then show ?thesis by (auto simp: scan_chunks.simps)
  next
    case False
    define window rest where "window = take CampaignRoutedCandidateChunk ordered"
      and "rest = drop CampaignRoutedCandidateChunk ordered"
    have split: "ordered = window @ rest" by (simp add: window_def rest_def)
    have shorter: "length rest < length ordered"
      using False by (simp add: rest_def CampaignRoutedCandidateChunk_def)
    define W N where "W = filter (wanted cr excl facts) window"
      and "N = filter (not_yet_due cr excl facts) window"
    have filters: "filter (wanted cr excl (facts |` set window)) window = W"
      "filter (not_yet_due cr excl (facts |` set window)) window = N"
      by (simp_all add: W_def N_def cong: filter_cong)
    have reads: "rd_facts rd window = Some (facts |` set window)" "rd_hydrate rd W = Some (leads |` set W)"
      using snap by (simp_all add: snapshot_def)
    have step: "scan_chunks rd cr excl paced limit ordered st (leads |` A) later =
      (if W = [] then scan_chunks rd cr excl paced limit rest st (leads |` A) (later @ N)
       else case routeWindow cr excl paced limit (leads |` (A \<union> set W)) W st of
         (full, st) \<Rightarrow> if full then Some (True, st, leads |` (A \<union> set W), later @ N)
                       else scan_chunks rd cr excl paced limit rest st (leads |` (A \<union> set W)) (later @ N))"
      by (subst scan_chunks.simps)
        (simp add: False window_def [symmetric] rest_def [symmetric] reads filters Let_def restrict_add split: prod.split)
    have same: "routeWindow cr excl paced limit (leads |` (A \<union> set W)) W st
        = routeWindow cr excl paced limit leads W st"
      by (rule routeWindow_cong) simp
    obtain full st1 where one: "routeWindow cr excl paced limit leads W st = (full, st1)"
      by (cases "routeWindow cr excl paced limit leads W st")
    have all: "filter (wanted cr excl facts) ordered = W @ filter (wanted cr excl facts) rest"
      "filter (not_yet_due cr excl facts) ordered = N @ filter (not_yet_due cr excl facts) rest"
      using split by (simp_all add: W_def N_def)
    show ?thesis
    proof (cases full)
      case True
      with one have "W \<noteq> []" by auto
      with True one same step all(1) show ?thesis by (auto simp: routeWindow_append)
    next
      case False
      from less.hyps [OF shorter, of st1 "A \<union> set W" "later @ N"]
      obtain full' st' inputs' later' where r:
        "scan_chunks rd cr excl paced limit rest st1 (leads |` (A \<union> set W)) (later @ N)
           = Some (full', st', inputs', later')"
        "routeWindow cr excl paced limit leads (filter (wanted cr excl facts) rest) st1 = (full', st')"
        "\<not> full' \<longrightarrow> later' = (later @ N) @ filter (not_yet_due cr excl facts) rest
           \<and> inputs' = leads |` (A \<union> set W \<union> set (filter (wanted cr excl facts) rest))"
        by blast
      have "scan_chunks rd cr excl paced limit ordered st (leads |` A) later
          = Some (full', st', inputs', later')"
      proof (cases "W = []")
        case True
        with one have "st1 = st" by simp
        with r(1) True step show ?thesis by simp
      next
        case W: False
        with False one same step r(1) show ?thesis by simp
      qed
      moreover have "routeWindow cr excl paced limit leads (filter (wanted cr excl facts) ordered) st = (full', st')"
        unfolding all routeWindow_append using one False r(2) by simp
      ultimately show ?thesis using r(3) unfolding all by (simp add: Un_assoc)
    qed
  qed
qed

lemma hydrate_chunks_snapshot:
  assumes snap: "snapshot rd facts leads"
  shows "hydrate_chunks rd later (leads |` A) = Some (leads |` (A \<union> set later))"
proof (induction "length later" arbitrary: later A rule: less_induct)
  case less
  show ?case
  proof (cases "later = []")
    case True
    then show ?thesis by (simp add: hydrate_chunks.simps)
  next
    case False
    let ?n = CampaignRoutedCandidateChunk
    have "hydrate_chunks rd (drop ?n later) (leads |` (A \<union> set (take ?n later)))
        = Some (leads |` (A \<union> set (take ?n later) \<union> set (drop ?n later)))"
      using False by (intro less.hyps) (simp add: CampaignRoutedCandidateChunk_def)
    also have "A \<union> set (take ?n later) \<union> set (drop ?n later) = A \<union> set later"
      by (metis Un_assoc append_take_drop_id set_append)
    finally show ?thesis
      using False snap by (subst hydrate_chunks.simps) (simp add: snapshot_def restrict_add)
  qed
qed

text \<open>
  The two queries agree on one state of the progress table: the facts folded from the sent steps of
  a lead match the step any query for the latest one answers.
\<close>

lemma leadRouteFacts_latest:
  assumes "\<forall>(q, t) \<in> set rows. q \<noteq> None \<and> t \<noteq> None" "(Some q, Some sent) \<in> set rows"
    "\<forall>(q', t) \<in> set rows. the t \<le> sent"
  shows "lf_addedAt (leadRouteFacts added rows) = added
    \<and> lf_lastAt (leadRouteFacts added rows) = Some sent \<and> q \<in> set (lf_lastSeqs (leadRouteFacts added rows))"
proof -
  have "rows \<noteq> [] \<Longrightarrow> \<forall>(q, t) \<in> set rows. q \<noteq> None \<and> t \<noteq> None \<Longrightarrow>
    (let f = leadRouteFacts added rows; m = Max (the ` snd ` set rows)
     in lf_addedAt f = added \<and> lf_lastAt f = Some m
        \<and> (\<forall>q. (Some q, Some m) \<in> set rows \<longrightarrow> q \<in> set (lf_lastSeqs f)))"
  proof (induction rows rule: rev_induct)
    case Nil
    then show ?case by simp
  next
    case (snoc row rows)
    obtain p t where row: "row = (Some p, Some t)" using snoc.prems(2) by (cases row) auto
    have f: "leadRouteFacts added (rows @ [row]) = fact_row added (leadRouteFacts added rows) row"
      by (simp add: leadRouteFacts_def)
    show ?case
    proof (cases "rows = []")
      case True
      then show ?thesis unfolding f by (simp add: row leadRouteFacts_def fact_row_def)
    next
      case False
      define m where "m = Max (the ` snd ` set rows)"
      have fin: "finite (the ` snd ` set rows)" "the ` snd ` set rows \<noteq> {}" using False by auto
      have le: "(Some q, Some u) \<in> set rows \<Longrightarrow> u \<le> m" for q u
        unfolding m_def using fin by (intro Max_ge) force+
      have "Max (the ` snd ` set (rows @ [row])) = max t m"
        using Max_insert [OF fin] by (simp add: row m_def)
      moreover have "lf_lastAt (leadRouteFacts added rows) = Some m"
        "\<forall>q. (Some q, Some m) \<in> set rows \<longrightarrow> q \<in> set (lf_lastSeqs (leadRouteFacts added rows))"
        using snoc False by (simp_all add: m_def Let_def)
      ultimately show ?thesis unfolding f
        by (auto simp: row fact_row_def Let_def max_def not_le dest: le)
    qed
  qed
  moreover have "Max (the ` snd ` set rows) = sent"
    using assms(2,3) by (intro Max_eqI) force+
  moreover have "rows \<noteq> []" using assms(2) by auto
  ultimately show ?thesis using assms(1,2) by (auto simp: Let_def)
qed

text \<open>
  Claim C5. A pass that reads its leads in chunks, skips those that cannot act before it hydrates
  them, and stops as soon as its batch is full, offers exactly what one walk over every lead of the
  campaign would: the first due leads in list order, up to the limit; and when nobody is due, the
  soonest moment somebody will be, with whether that lead waits for its own mailbox.
\<close>

theorem pruned_pass_is_full_scan:
  assumes snap: "snapshot rd facts leads" and load: "loadRouter rows ca now = Some cr"
    and reads: "rd_router rd = Some (Some cr)" "rd_ordered rd = Some ordered"
  shows "FindRoutedPairs rd excl paced limit =
    Some (first_due (\<lambda>c. lead_verdict cr excl paced c (leads c)) (nat (max 1 limit)) ordered)"
proof -
  note wf = loadRouter_wf [OF load]
  define lim where "lim = max 1 limit"
  define v where "v = (\<lambda>c. lead_verdict cr excl paced c (leads c))"
  have clamp: "(if limit < 1 then 1 else limit) = lim" by (simp add: lim_def)
  have v_not: "\<not> wanted cr excl facts c \<Longrightarrow> v c \<noteq> Due p" for c p
    unfolding v_def by (rule snapshot_verdicts(1) [OF snap wf])
  have v_skip: "\<not> wanted cr excl facts c \<Longrightarrow> \<not> not_yet_due cr excl facts c \<Longrightarrow> v c = Skip" for c
    unfolding v_def by (rule snapshot_verdicts(2) [OF snap wf])
  let ?W = "filter (wanted cr excl facts) ordered" and ?N = "filter (not_yet_due cr excl facts) ordered"
  have due: "due_pairs v ?W = due_pairs v ordered" using v_not by (intro due_pairs_filter)
  have lim: "0 < lim" and start: "scan_agrees no_scan [] []"
    by (simp_all add: lim_def scan_agrees_def no_scan_def soonest_def)
  from scan_chunks_snapshot [OF snap, of cr excl paced lim ordered no_scan "{}" "[]"]
  obtain full st inputs later where chunks:
    "scan_chunks rd cr excl paced lim ordered no_scan Map.empty [] = Some (full, st, inputs, later)"
    and win: "routeWindow cr excl paced lim leads ?W no_scan = (full, st)"
    and rest: "\<not> full \<Longrightarrow> later = ?N \<and> inputs = leads |` set ?W"
    by auto
  have walked: "full \<longleftrightarrow> lim \<le> int (length (due_pairs v ordered))"
    "sc_pairs st = take (nat lim) (due_pairs v ordered)"
    "\<not> full \<Longrightarrow> scan_agrees st (due_pairs v ordered) (later_times v ?W)"
    using routeWindow_scan [OF start, of lim cr excl paced leads ?W] lim win due
    by (simp_all add: Let_def v_def)
  have pairs: "sc_pairs st = [] \<longleftrightarrow> due_pairs v ordered = []" using lim walked(2) by simp
  show ?thesis
  proof (cases "due_pairs v ordered = []")
    case False
    then show ?thesis
      using chunks walked(2) pairs
      by (simp add: FindRoutedPairs_def clamp reads first_due_def v_def [symmetric] lim_def [symmetric])
  next
    case True
    then have nf: "\<not> full" using walked(1) lim by simp
    with rest have later: "later = ?N" "inputs = leads |` set ?W" by simp_all
    have nopairs: "sc_pairs st = []" using pairs True by simp
    show ?thesis
    proof (cases "?N = []")
      case True: True
      then have "\<not> not_yet_due cr excl facts c" if "c \<in> set ordered" for c
        using that by (auto simp: filter_empty_conv)
      then have "later_times v ?W = later_times v ordered"
        using v_skip by (intro later_times_filter) blast
      with walked(3) [OF nf] have "(sc_nextDue st, sc_waitingOnSender st) = soonest (later_times v ordered)"
        by (simp add: scan_agrees_def)
      then show ?thesis
        using chunks nf later True \<open>due_pairs v ordered = []\<close>
        by (simp add: nopairs FindRoutedPairs_def clamp reads first_due_def v_def [symmetric] split: prod.split)
    next
      case False
      let ?st = "st\<lparr>sc_nextDue := None, sc_waitingOnSender := False\<rparr>"
      have "scan_agrees ?st [] []" using nopairs by (simp add: scan_agrees_def soonest_def)
      moreover have "routeWindow cr excl paced lim (leads |` (set ?W \<union> set ?N)) ordered ?st
          = routeWindow cr excl paced lim leads ordered ?st"
        using v_skip unfolding v_def
        by (intro routeWindow_cong) (force simp: restrict_map_def lead_verdict_def)
      moreover obtain full2 st2 where again: "routeWindow cr excl paced lim leads ordered ?st = (full2, st2)"
        by (cases "routeWindow cr excl paced lim leads ordered ?st")
      ultimately have "\<not> full2" "scan_agrees st2 [] (later_times v ordered)"
        using routeWindow_scan [of ?st "[]" "[]" lim cr excl paced leads ordered] lim True
        by (simp_all add: Let_def v_def)
      then show ?thesis
        using chunks nf nopairs later False again True
          hydrate_chunks_snapshot [OF snap, of ?N "set ?W"]
          \<open>routeWindow cr excl paced lim (leads |` (set ?W \<union> set ?N)) ordered ?st
            = routeWindow cr excl paced lim leads ordered ?st\<close>
        by (simp add: FindRoutedPairs_def clamp reads first_due_def v_def [symmetric] scan_agrees_def
            split: prod.split)
    qed
  qed
qed

definition example_facts :: "uuid \<rightharpoonup> leadFacts" where
  "example_facts = [[7] \<mapsto> leadRouteFacts None [(Some [1], Some 0)]]"

definition example_leads :: "uuid \<rightharpoonup> routeInput" where
  "example_leads = [[7] \<mapsto> example_lead]"

definition example_reads :: route_reads where
  "example_reads =
     \<lparr>rd_router = Some (loadRouter example_rows example_campaign (72 * Hour)),
      rd_ordered = Some [[6], [7]],
      rd_facts = (\<lambda>ids. Some (example_facts |` set ids)),
      rd_hydrate = (\<lambda>ids. Some (example_leads |` set ids))\<rparr>"

theorem pruned_pass_is_full_scan_witness:
  "FindRoutedPairs example_reads False Map.empty 0 =
     Some ([\<lparr>cp_ContactID = [7], cp_SequenceID = [3], cp_IsNewLead = False, cp_Instant = False,
             cp_NotBefore = Some (48 * Hour), cp_AssignedSender = None\<rparr>], None, False)"
proof -
  let ?cr = "the (loadRouter example_rows example_campaign (72 * Hour))"
  have load: "loadRouter example_rows example_campaign (72 * Hour) = Some ?cr"
    by (simp add: loadRouter_def example_rows_def Let_def)
  have facts: "facts_match (leadRouteFacts None [(Some [1], Some 0)]) example_lead" by code_simp
  have snap: "snapshot example_reads example_facts example_leads"
    using facts by (simp add: snapshot_def example_reads_def example_leads_def example_facts_def)
  have "rd_router example_reads = Some (Some ?cr)" "rd_ordered example_reads = Some [[6], [7]]"
    using load by (simp_all add: example_reads_def)
  from pruned_pass_is_full_scan [OF snap load this, of False Map.empty 0]
  have "FindRoutedPairs example_reads False Map.empty 0
      = Some (first_due (\<lambda>c. lead_verdict ?cr False Map.empty c (example_leads c)) (nat (max 1 0)) [[6], [7]])" .
  also have "\<dots> = Some ([\<lparr>cp_ContactID = [7], cp_SequenceID = [3], cp_IsNewLead = False, cp_Instant = False,
             cp_NotBefore = Some (48 * Hour), cp_AssignedSender = None\<rparr>], None, False)"
    by code_simp
  finally show ?thesis .
qed

end
