(* ===== verification/Mailbox_Gate.thy ===== *)
theory Mailbox_Gate
  imports Schedule_Windows Behavior_Placement Send_Lifecycle Campaign_Pacing Mail_Host
begin

text \<open>
  What a mailbox can send for a campaign right now, \<open>internal/scheduler/campaign_sender.go\<close> and
  the cap chain of \<open>send_plan.go\<close>: the cap with its clamps, the standing gates, the gate of the
  clock, and the pass that reads each of them once so that routing and placement agree. The
  queries of a pass are arguments; a pass runs at one instant \<open>now\<close>.
\<close>

section \<open>Mailboxes and campaigns\<close>

record EmailAccount = Email +
  ea_OrganizationID :: "uuid option"
  ea_Email :: string
  ea_SendAsEmail :: string
  ea_Provider :: string
  ea_MailHost :: string
  ea_Status :: string
  ea_CampaignLimit :: int
  ea_MinWaitTime :: int
  ea_Warmup :: "instant option"
  ea_AuthState :: string
  ea_AuthFailingSince :: "instant option"
  ea_WorkerID :: "uuid option"

definition SendFrom :: "EmailAccount \<Rightarrow> string" where
  "SendFrom e = (let s = trim_space (ea_SendAsEmail e) in if s \<noteq> [] then s else ea_Email e)"

definition SenderDomain :: "EmailAccount \<Rightarrow> string" where
  "SenderDomain e =
     (let addr = trim_space (SendFrom e)
      in if CHR ''@'' \<notin> set addr then []
         else to_lower (trim_space (rev (takeWhile (\<lambda>c. c \<noteq> CHR ''@'') (rev addr)))))"

definition DomainAuthBlocked :: "EmailAccount \<Rightarrow> instant \<Rightarrow> duration \<Rightarrow> bool" where
  "DomainAuthBlocked e now grace \<longleftrightarrow>
     ea_AuthState e = ''failing''
     \<and> (case ea_AuthFailingSince e of None \<Rightarrow> False | Some since \<Rightarrow> \<not> now < since + grace)"

text \<open>The settings of a campaign its scheduling reads.\<close>

record Campaign = CampaignSchedule +
  ca_ID :: uuid
  ca_OrganizationID :: "uuid option"
  ca_Status :: string
  ca_DailyLimit :: int
  ca_RampEnabled :: bool
  ca_RampStart :: int
  ca_RampIncrement :: int
  ca_RampCeiling :: int
  ca_RampLevel :: int
  ca_RampLevelDate :: "instant option"
  ca_StartDate :: "instant option"
  ca_EndDate :: "instant option"
  ca_RotationMode :: string
  ca_ESPMatchMode :: string
  ca_FollowUpSender :: string
  ca_MaxNewLeadsPerDay :: int
  ca_PrioritizeNewLeads :: bool
  ca_EntryDelayMinutes :: int

definition Rotates :: "string \<Rightarrow> bool" where
  "Rotates f \<longleftrightarrow> f = ''same_domain'' \<or> f = ''rotate''"

section \<open>The risk band of the workspace\<close>

definition CapMultiplier :: "string \<Rightarrow> rat" where
  "CapMultiplier s = (if s = ''restricted'' then 1 / 4 else if s = ''suspended'' then 0 else 1)"

definition BlocksSending :: "string \<Rightarrow> bool" where
  "BlocksSending s \<longleftrightarrow> s = ''suspended''"

definition risk_Valid :: "string \<Rightarrow> bool" where
  "risk_Valid s \<longleftrightarrow> s = ''trusted'' \<or> s = ''watch'' \<or> s = ''restricted'' \<or> s = ''suspended''"

text \<open>The query of the risk states, absent when the scheduler has no risk repository.\<close>

definition orgRiskState ::
  "(uuid \<Rightarrow> (uuid \<rightharpoonup> string) option) option \<Rightarrow> uuid option \<Rightarrow> string" where
  "orgRiskState query org =
     (case (query, org) of
        (Some q, Some o') \<Rightarrow>
          (case q o' of
             None \<Rightarrow> ''trusted''
           | Some states \<Rightarrow>
               (case states o' of
                  Some state \<Rightarrow> if risk_Valid state then state else ''trusted''
                | None \<Rightarrow> ''trusted''))
      | _ \<Rightarrow> ''trusted'')"

section \<open>The pass\<close>

record healthRead =
  hr_state :: string
  hr_blockedUntil :: "instant option"
  hr_known :: bool
  hr_cloudStatus :: bool
  hr_cloudMissing :: bool

definition no_health :: healthRead where
  "no_health = \<lparr>hr_state = [], hr_blockedUntil = None, hr_known = False, hr_cloudStatus = False,
     hr_cloudMissing = False\<rparr>"

text \<open>The gates a mailbox can be shut by; an open gate has no reason.\<close>

datatype gate_reason =
    gateAuth | gateResting | gateHealth | gateBudget | gateHours | gateNoWorkday
  | gateNoWorker | gateRecovery | gateCooldown | gateAdmission

record mailboxGate =
  mg_reason :: "gate_reason option"
  mg_paced :: bool
  mg_reopensAt :: "gtime option"
  mg_cloudStatus :: bool

definition open_gate :: mailboxGate where
  "open_gate = \<lparr>mg_reason = None, mg_paced = False, mg_reopensAt = None, mg_cloudStatus = False\<rparr>"

abbreviation gate_open :: "mailboxGate \<Rightarrow> bool" where
  "gate_open g \<equiv> mg_reason g = None"

abbreviation shut :: "gate_reason \<Rightarrow> mailboxGate" where
  "shut r \<equiv> open_gate\<lparr>mg_reason := Some r\<rparr>"

definition workerRecheck :: duration where
  "workerRecheck = 5 * Minute"

record SendAdmission =
  sa_Allowed :: bool
  sa_RetryAt :: "instant option"
  sa_RecoveryHold :: bool

definition SendPauseWaitThreshold :: duration where
  "SendPauseWaitThreshold = 45 * Minute"

text \<open>
  What the queries of a pass answer; \<open>None\<close> is a failed query. An absent repository is an absent
  function.
\<close>

record pass_reads =
  pr_sentToday :: "uuid \<Rightarrow> int option"
  pr_sentTodayAll :: "uuid list \<Rightarrow> (uuid \<rightharpoonup> int) option"
  pr_health :: "(uuid list \<Rightarrow> (uuid \<rightharpoonup> healthRead) option) option"
  pr_workerLive :: "(uuid \<Rightarrow> bool option) option"
  pr_admission :: "(uuid \<Rightarrow> uuid \<Rightarrow> SendAdmission option option) option"
  pr_lastEmailTimes :: "uuid list \<Rightarrow> (uuid \<rightharpoonup> instant) option"

record campaignPass =
  ps_campaign :: Campaign
  ps_coldRamp :: "uuid \<rightharpoonup> ColdRampState"
  ps_lifecycles :: "uuid \<rightharpoonup> SendLifecycleState"
  ps_lifecyclesKnown :: bool
  ps_behaviors :: "uuid \<rightharpoonup> Resolved"
  ps_enforceAuth :: bool
  ps_authGrace :: duration
  ps_risk :: string
  ps_sentToday :: "uuid \<rightharpoonup> int"
  ps_health :: "uuid \<rightharpoonup> healthRead"
  ps_workerLive :: "uuid \<rightharpoonup> bool"
  ps_lastSends :: "uuid \<rightharpoonup> instant"
  ps_lastSendsRead :: "uuid set"
  ps_gapDraws :: "uuid \<rightharpoonup> int"
  ps_sendGates :: "uuid \<rightharpoonup> mailboxGate"
  ps_store :: store

text \<open>The repositories and policies a pass is built from; \<open>None\<close> is one that is not wired.\<close>

record pass_sources =
  src_domainAuth :: "(bool \<times> duration) option"
  src_lifecycles :: "(uuid list \<Rightarrow> (uuid \<rightharpoonup> SendLifecycleState) option) option"
  src_coldRamp :: "(uuid list \<Rightarrow> instant \<Rightarrow> (uuid \<Rightarrow> ColdRampState option) option) option"
  src_behavior :: bool
  src_risk :: "(uuid \<Rightarrow> (uuid \<rightharpoonup> string) option) option"

definition domainAuthGate :: "pass_sources \<Rightarrow> bool \<times> duration" where
  "domainAuthGate src = (case src_domainAuth src of None \<Rightarrow> (False, 0) | Some policy \<Rightarrow> policy)"

definition sendLifecycles :: "pass_sources \<Rightarrow> EmailAccount list \<Rightarrow> (uuid \<rightharpoonup> SendLifecycleState) \<times> bool" where
  "sendLifecycles src accounts =
     (case src_lifecycles src of
        None \<Rightarrow> (Map.empty, False)
      | Some q \<Rightarrow>
          if accounts = [] then (Map.empty, False)
          else (case q (map em_ID accounts) of
                  None \<Rightarrow> (Map.empty, False)
                | Some states \<Rightarrow> (states, True)))"

definition newCampaignPass ::
  "tzdb \<Rightarrow> pass_sources \<Rightarrow> instant \<Rightarrow> store \<Rightarrow> Campaign \<Rightarrow> EmailAccount list \<Rightarrow> campaignPass" where
  "newCampaignPass tzdb src now st campaign accounts =
     (let (enforceAuth, authGrace) = domainAuthGate src;
          (lifecycles, known) = sendLifecycles src accounts
      in \<lparr>ps_campaign = campaign,
          ps_coldRamp = coldRampStates (src_coldRamp src) now (map (\<lambda>a. (em_ID a, ea_Warmup a)) accounts),
          ps_lifecycles = lifecycles, ps_lifecyclesKnown = known,
          ps_behaviors = behaviorForAll (src_behavior src) tzdb st (map Email.truncate accounts),
          ps_enforceAuth = enforceAuth, ps_authGrace = authGrace,
          ps_risk = orgRiskState (src_risk src) (ca_OrganizationID campaign),
          ps_sentToday = Map.empty, ps_health = Map.empty, ps_workerLive = Map.empty,
          ps_lastSends = Map.empty, ps_lastSendsRead = {}, ps_gapDraws = Map.empty,
          ps_sendGates = Map.empty, ps_store = st\<rparr>)"

text \<open>One query each for the pool; an unreadable health batch leaves the memo empty.\<close>

definition prefillPool :: "pass_reads \<Rightarrow> campaignPass \<Rightarrow> EmailAccount list \<Rightarrow> campaignPass option" where
  "prefillPool rd p accounts =
     (let ids = map em_ID accounts
      in case pr_sentTodayAll rd ids of
           None \<Rightarrow> None
         | Some counts \<Rightarrow>
             (let p = p\<lparr>ps_sentToday :=
                          fold (\<lambda>i m. m(i \<mapsto> (case counts i of None \<Rightarrow> 0 | Some n \<Rightarrow> n))) ids (ps_sentToday p)\<rparr>
              in Some (case pr_health rd of
                         None \<Rightarrow> p
                       | Some q \<Rightarrow> (case q ids of
                                      None \<Rightarrow> p
                                    | Some states \<Rightarrow>
                                        p\<lparr>ps_health := ps_health p
                                            ++ (\<lambda>i. map_option (\<lambda>h. h\<lparr>hr_known := True\<rparr>) (states i))\<rparr>))))"

section \<open>The cap of a mailbox\<close>

definition clamp_cap :: "int \<Rightarrow> string \<Rightarrow> int \<times> string \<Rightarrow> int \<times> string" where
  "clamp_cap v why c = (if v < fst c then (v, why) else c)"

definition risked_cap :: "rat \<Rightarrow> int \<Rightarrow> int" where
  "risked_cap m cur =
     (let risked = trunc (fadd (fmul (f_of cur) m) (f64 (1 / 2))) in if risked < 1 then 1 else risked)"

text \<open>The five stages of the cap, and the clamp that set the last of them.\<close>

definition stagedCap :: "instant \<Rightarrow> campaignPass \<Rightarrow> EmailAccount \<Rightarrow> int list \<times> string" where
  "stagedCap now p acct =
     (let c = ps_campaign p;
          c0 = (ea_CampaignLimit acct, ''mailbox_daily_cap'');
          c1 = (if 0 < ca_DailyLimit c then clamp_cap (ca_DailyLimit c) ''campaign_daily_limit'' c0 else c0);
          c2 = (if ca_RampEnabled c
                then clamp_cap (campaignRampCeiling True (ca_RampStart c) (ca_RampIncrement c)
                                  (ca_RampCeiling c) (ca_RampLevel c)) ''campaign_ramp'' c1
                else c1);
          ramp = (case ps_coldRamp p (em_ID acct) of None \<Rightarrow> zero_ramp_state | Some s \<Rightarrow> s);
          c3 = clamp_cap (coldCeilingFor now (WithKnownWarmup ramp (ea_Warmup acct)) (fst c2))
                 ''warmup_graduation'' c2;
          m = CapMultiplier (ps_risk p);
          c4 = (if m < 1 then clamp_cap (risked_cap m (fst c3)) ''workspace_risk'' c3 else c3)
      in ([fst c0, fst c1, fst c2, fst c3, fst c4], snd c4))"

definition effectiveCap :: "instant \<Rightarrow> campaignPass \<Rightarrow> EmailAccount \<Rightarrow> int" where
  "effectiveCap now p acct = fst (stagedCap now p acct) ! 4"

section \<open>Reads, once per pass\<close>

definition sentTodayFor :: "pass_reads \<Rightarrow> campaignPass \<Rightarrow> uuid \<Rightarrow> int option \<times> campaignPass" where
  "sentTodayFor rd p u =
     (case ps_sentToday p u of
        Some n \<Rightarrow> (Some n, p)
      | None \<Rightarrow> (case pr_sentToday rd u of
                   None \<Rightarrow> (None, p)
                 | Some n \<Rightarrow> (Some n, p\<lparr>ps_sentToday := (ps_sentToday p)(u \<mapsto> n)\<rparr>)))"

definition workerReachable :: "pass_reads \<Rightarrow> campaignPass \<Rightarrow> EmailAccount \<Rightarrow> bool \<times> campaignPass" where
  "workerReachable rd p acct =
     (case pr_workerLive rd of
        None \<Rightarrow> (True, p)
      | Some q \<Rightarrow>
          (case ea_WorkerID acct of
             None \<Rightarrow> (False, p)
           | Some w \<Rightarrow>
               (case ps_workerLive p w of
                  Some live \<Rightarrow> (live, p)
                | None \<Rightarrow>
                    (let live = (case q w of None \<Rightarrow> True | Some l \<Rightarrow> l)
                     in (live, p\<lparr>ps_workerLive := (ps_workerLive p)(w \<mapsto> live)\<rparr>)))))"

definition healthFor :: "pass_reads \<Rightarrow> campaignPass \<Rightarrow> uuid \<Rightarrow> healthRead \<times> campaignPass" where
  "healthFor rd p u =
     (case ps_health p u of
        Some h \<Rightarrow> (h, p)
      | None \<Rightarrow>
          (let h = (case pr_health rd of
                      None \<Rightarrow> no_health
                    | Some q \<Rightarrow> (case q [u] of
                                   None \<Rightarrow> no_health
                                 | Some states \<Rightarrow> (case states u of
                                                     None \<Rightarrow> no_health
                                                   | Some h \<Rightarrow> h\<lparr>hr_known := True\<rparr>)))
           in (h, p\<lparr>ps_health := (ps_health p)(u \<mapsto> h)\<rparr>)))"

section \<open>The gates\<close>

text \<open>An admission that could not be read is \<open>None\<close>.\<close>

definition admission_gate :: "instant \<Rightarrow> SendAdmission option \<Rightarrow> mailboxGate" where
  "admission_gate now a =
     (case a of
        None \<Rightarrow> (shut gateAdmission)\<lparr>mg_paced := True,
                  mg_reopensAt := Some \<lparr>g_inst = now + workerRecheck, g_loc = UTC\<rparr>\<rparr>
      | Some a \<Rightarrow>
          if sa_RecoveryHold a then shut gateRecovery
          else (case sa_RetryAt a of
                  Some t \<Rightarrow>
                    if now < t
                    then (shut gateCooldown)\<lparr>mg_reopensAt := Some \<lparr>g_inst = t, g_loc = UTC\<rparr>,
                                             mg_paced := (t - now \<le> SendPauseWaitThreshold)\<rparr>
                    else if \<not> sa_Allowed a then shut gateAdmission else open_gate
                | None \<Rightarrow> if \<not> sa_Allowed a then shut gateAdmission else open_gate))"

definition sendGate :: "pass_reads \<Rightarrow> instant \<Rightarrow> campaignPass \<Rightarrow> EmailAccount \<Rightarrow> mailboxGate \<times> campaignPass" where
  "sendGate rd now p acct =
     (case pr_admission rd of
        None \<Rightarrow> (open_gate, p)
      | Some q \<Rightarrow>
          (case ps_sendGates p (em_ID acct) of
             Some g \<Rightarrow> (g, p)
           | None \<Rightarrow>
               (case ea_OrganizationID acct of
                  None \<Rightarrow> (shut gateAdmission, p)
                | Some org \<Rightarrow>
                    (let g = admission_gate now (case q org (em_ID acct) of None \<Rightarrow> None | Some a \<Rightarrow> a)
                     in (g, p\<lparr>ps_sendGates := (ps_sendGates p)(em_ID acct \<mapsto> g)\<rparr>)))))"

definition volumeMultiplier :: "string \<Rightarrow> rat" where
  "volumeMultiplier state =
     (if state = ''throttled'' then f64 (1 / 2) else if state = ''watch'' then f64 (7 / 10) else 1)"

text \<open>The standing gates and the health band, over the reads of the pass.\<close>

definition lifecycle_state :: "campaignPass \<Rightarrow> uuid \<Rightarrow> string" where
  "lifecycle_state p u = (case ps_lifecycles p u of None \<Rightarrow> [] | Some s \<Rightarrow> ls_State s)"

definition health_gate :: "instant \<Rightarrow> healthRead \<Rightarrow> int \<Rightarrow> mailboxGate \<times> int" where
  "health_gate now h remaining =
     (if \<not> hr_known h then (open_gate, remaining)
      else if hr_state h = ''quarantined'' \<or> hr_state h = ''blocked''
      then (if hr_cloudMissing h \<or> (case hr_blockedUntil h of None \<Rightarrow> True | Some t \<Rightarrow> now < t)
            then ((shut gateHealth)\<lparr>mg_cloudStatus := hr_cloudStatus h\<rparr>, 0)
            else (open_gate, remaining))
      else if hr_state h = ''watch'' \<or> hr_state h = ''throttled''
      then (open_gate, trunc (fmul (f_of remaining) (volumeMultiplier (hr_state h))))
      else (open_gate, remaining))"

definition gateFor ::
  "pass_reads \<Rightarrow> instant \<Rightarrow> campaignPass \<Rightarrow> EmailAccount \<Rightarrow> int \<Rightarrow> (mailboxGate \<times> int) \<times> campaignPass" where
  "gateFor rd now p acct remaining =
     (case sendGate rd now p acct of (gate, p) \<Rightarrow>
        if \<not> gate_open gate then ((gate, 0), p)
        else if ps_enforceAuth p \<and> DomainAuthBlocked acct now (ps_authGrace p) then ((shut gateAuth, 0), p)
        else if ps_lifecyclesKnown p \<and> \<not> SendsCold (lifecycle_state p (em_ID acct))
        then ((shut gateResting, 0), p)
        else (case healthFor rd p (em_ID acct) of (h, p) \<Rightarrow>
          (case health_gate now h remaining of (gate, remaining) \<Rightarrow>
             if \<not> gate_open gate then ((gate, 0), p)
             else (case workerReachable rd p acct of (live, p) \<Rightarrow>
               if \<not> live
               then (((shut gateNoWorker)\<lparr>mg_paced := True,
                       mg_reopensAt := Some \<lparr>g_inst = now + workerRecheck, g_loc = UTC\<rparr>\<rparr>, 0), p)
               else if remaining \<le> 0 then (((shut gateBudget)\<lparr>mg_paced := True\<rparr>, 0), p)
               else ((open_gate, remaining), p)))))"

text \<open>
  The profile of a mailbox is a value with a shared cache: what a call plans stays planned for the
  pass. A mailbox with no profile has the zero one, which is not enabled.
\<close>

definition with_behavior ::
  "campaignPass \<Rightarrow> uuid \<Rightarrow> (Resolved \<times> store \<Rightarrow> 'a \<times> Resolved \<times> store) \<Rightarrow> 'a \<times> campaignPass" where
  "with_behavior p u f =
     (case ps_behaviors p u of
        None \<Rightarrow> (fst (f (zero_resolved, ps_store p)), p)
      | Some r \<Rightarrow> (case f (r, ps_store p) of
                     (a, r, st) \<Rightarrow> (a, p\<lparr>ps_behaviors := (ps_behaviors p)(u \<mapsto> r), ps_store := st\<rparr>)))"

definition behavior_of :: "campaignPass \<Rightarrow> uuid \<Rightarrow> Resolved" where
  "behavior_of p u = (case ps_behaviors p u of None \<Rightarrow> zero_resolved | Some r \<Rightarrow> r)"

text \<open>
  The gate of the clock: the opening to place the send at and the zone its day is counted in, the
  budget of the day it lands on, the gate.
\<close>

definition windowFor ::
  "tzdb \<Rightarrow> bool \<Rightarrow> gtime \<Rightarrow> campaignPass \<Rightarrow> EmailAccount \<Rightarrow> gtime \<Rightarrow> int \<Rightarrow> int \<Rightarrow> bool
   \<Rightarrow> (gtime option \<times> location option \<times> int \<times> mailboxGate) \<times> campaignPass" where
  "windowFor tzdb wired now p acct at' acctLimit remaining wait =
     (let i = em_ID acct; bhv = behavior_of p i
      in if rs_Enabled bhv
         then (case with_behavior p i (placeWithinBehavior wired (g_inst now) at') of
                 (None, p) \<Rightarrow> ((None, None, 0, shut gateNoWorkday), p)
               | (Some openAt, p) \<Rightarrow>
                   (let remaining = (if \<not> sameLocalDay openAt now (Some (rs_Loc bhv)) then acctLimit else remaining)
                    in case with_behavior p i (behaviorDailyCap wired (g_inst now) remaining openAt) of
                         (remaining, p) \<Rightarrow>
                           if remaining \<le> 0
                           then ((None, None, 0, (shut gateBudget)\<lparr>mg_paced := True\<rparr>), p)
                           else ((Some openAt, Some (rs_Loc bhv), remaining, open_gate), p)))
         else if em_Timezone acct = [] \<or> em_Timezone acct = campaign_ClockTimezone (ps_campaign p)
         then ((None, None, remaining, open_gate), p)
         else (let loc = loadLocation tzdb (em_Timezone acct); h = hour_of (in_loc at' loc)
               in if 8 \<le> h \<and> h < 20 then ((None, None, remaining, open_gate), p)
                  else (let open' = businessHoursReopen at' loc
                        in if \<not> wait
                           then ((None, None, 0, (shut gateHours)\<lparr>mg_paced := True, mg_reopensAt := Some open'\<rparr>), p)
                           else ((Some open', Some loc,
                                  (if \<not> sameLocalDay open' now (Some loc) then acctLimit else remaining),
                                  open_gate), p))))"

text \<open>The next valid day of the campaign; a preview gets the floor of the answer, without jitter.\<close>

definition deferToNextDay :: "tzdb \<Rightarrow> gtime \<Rightarrow> int \<Rightarrow> Campaign \<Rightarrow> bool \<Rightarrow> gtime" where
  "deferToNextDay tzdb now jitter campaign prev =
     (let tz = loadLocation tzdb (campaign_ClockTimezone campaign); windows = effectiveWindows campaign
      in if prev
         then (case civil (in_loc now tz) of
                 (y, m, d) \<Rightarrow> nextScheduleSlot (add_days (go_date y m d 0 0 0 0 tz) 1) windows tz)
         else add_dur (nextScheduleSlot (add_days (in_loc now tz) 1) windows tz)
                (Minute * randomJitter 0 30 jitter))"

fun pacedSenders ::
  "tzdb \<Rightarrow> bool \<Rightarrow> pass_reads \<Rightarrow> gtime \<Rightarrow> (uuid \<Rightarrow> int) \<Rightarrow> EmailAccount list
   \<Rightarrow> (uuid \<rightharpoonup> gtime) \<times> campaignPass \<Rightarrow> (uuid \<rightharpoonup> gtime) \<times> campaignPass" where
  "pacedSenders tzdb wired rd now jitter [] (paced, p) = (paced, p)"
| "pacedSenders tzdb wired rd now jitter (acct # accounts) (paced, p) =
     (case sentTodayFor rd p (em_ID acct) of
        (None, p) \<Rightarrow> pacedSenders tzdb wired rd now jitter accounts (paced, p)
      | (Some sentToday, p) \<Rightarrow>
          (let acctLimit = effectiveCap (g_inst now) p acct
           in case gateFor rd (g_inst now) p acct (acctLimit - sentToday) of ((gate, remaining), p) \<Rightarrow>
              (case (if gate_open gate
                     then (case windowFor tzdb wired now p acct now acctLimit remaining False of
                             ((_, _, _, g), p) \<Rightarrow> (g, p))
                     else (gate, p)) of (gate, p) \<Rightarrow>
                 if mg_paced gate
                 then (let back = (case mg_reopensAt gate of
                                     Some t \<Rightarrow> t
                                   | None \<Rightarrow> deferToNextDay tzdb now (jitter (em_ID acct)) (ps_campaign p) False)
                       in pacedSenders tzdb wired rd now jitter accounts (paced(em_ID acct \<mapsto> back), p))
                 else pacedSenders tzdb wired rd now jitter accounts (paced, p))))"

section \<open>A small pass\<close>

text \<open>A campaign of a restricted workspace over one mailbox that no worker serves.\<close>

definition sample_campaign :: Campaign where
  "sample_campaign =
     \<lparr>cs_Timezone = ''UTC'', cs_EffectiveTimezone = [], cs_Days = 127, cs_StartTime = ''09:00'',
      cs_EndTime = ''17:00'', cs_ScheduleWindows = [],
      ca_ID = [9], ca_OrganizationID = Some [5], ca_Status = ''active'', ca_DailyLimit = 30,
      ca_RampEnabled = True, ca_RampStart = 10, ca_RampIncrement = 5, ca_RampCeiling = 100,
      ca_RampLevel = 20, ca_RampLevelDate = None, ca_StartDate = None, ca_EndDate = None, ca_RotationMode = [],
      ca_ESPMatchMode = [], ca_FollowUpSender = [], ca_MaxNewLeadsPerDay = 0,
      ca_PrioritizeNewLeads = False, ca_EntryDelayMinutes = 0\<rparr>"

definition sample_account :: EmailAccount where
  "sample_account =
     \<lparr>em_ID = [1], em_Timezone = [], em_OrgTimezone = [], ea_OrganizationID = Some [5],
      ea_Email = ''ann@acme.example'', ea_SendAsEmail = [], ea_Provider = ''smtp'', ea_MailHost = [],
      ea_Status = ''active'', ea_CampaignLimit = 50, ea_MinWaitTime = 5, ea_Warmup = None,
      ea_AuthState = [], ea_AuthFailingSince = None, ea_WorkerID = None\<rparr>"

definition sample_store :: store where
  "sample_store = \<lparr>st_accounts = Map.empty, st_behaviors = Map.empty, st_plans = [], st_tasks = [],
     st_dispatch_task_ids = [], st_faults = (\<lambda>_. None)\<rparr>"

definition sample_campaignPass :: campaignPass where
  "sample_campaignPass =
     \<lparr>ps_campaign = sample_campaign, ps_coldRamp = Map.empty, ps_lifecycles = Map.empty,
      ps_lifecyclesKnown = False, ps_behaviors = Map.empty, ps_enforceAuth = False, ps_authGrace = 0,
      ps_risk = ''restricted'', ps_sentToday = [[1] \<mapsto> 3], ps_health = Map.empty,
      ps_workerLive = Map.empty, ps_lastSends = Map.empty, ps_lastSendsRead = {},
      ps_gapDraws = Map.empty, ps_sendGates = Map.empty, ps_store = sample_store\<rparr>"

definition sample_pass_reads :: pass_reads where
  "sample_pass_reads =
     \<lparr>pr_sentToday = (\<lambda>_. None), pr_sentTodayAll = (\<lambda>_. None), pr_health = None,
      pr_workerLive = Some (\<lambda>_. Some True), pr_admission = None, pr_lastEmailTimes = (\<lambda>_. None)\<rparr>"

section \<open>The cap only lowers\<close>

lemma clamp_cap_le [simp]: "fst (clamp_cap v why c) \<le> fst c" "fst (clamp_cap v why c) \<le> v"
  by (auto simp: clamp_cap_def)

lemma clamp_names:
  fixes l0 l1 l2 l3 l4 :: string and v0 v1 v2 v3 v4 :: int and b1 b2 b4 :: bool
  assumes "distinct [l0, l1, l2, l3, l4]"
  defines "s1 \<equiv> (if b1 then clamp_cap v1 l1 (v0, l0) else (v0, l0))"
  defines "s2 \<equiv> (if b2 then clamp_cap v2 l2 s1 else s1)"
  defines "s3 \<equiv> clamp_cap v3 l3 s2"
  defines "s4 \<equiv> (if b4 then clamp_cap v4 l4 s3 else s3)"
  shows "snd s4 = l0 \<longrightarrow> fst s4 = v0" "snd s4 = l1 \<longrightarrow> fst s4 = v1"
    "snd s4 = l4 \<longrightarrow> fst s4 = v4 \<and> fst s4 < fst s3"
  using assms(1) unfolding s4_def s3_def s2_def s1_def clamp_cap_def
  by (auto split: if_split_asm)

lemma ramp_ceiling_le: "campaignRampCeiling True start inc high level \<le> max start level"
  by (simp add: campaignRampCeiling_def Let_def max_def)

text \<open>
  The cap of a mailbox for a campaign is its own limit, lowered stage by stage: no stage
  raises it, and it is below every clamp in force. The clamp the pass reports is the one that set
  it, so a day shorter than the owner expected is blamed on the limit that made it so.
\<close>

theorem cap_only_lowers:
  "case stagedCap now p acct of (stages, by') \<Rightarrow>
     length stages = 5 \<and> sorted_wrt (\<lambda>x y. y \<le> x) stages
     \<and> effectiveCap now p acct = stages ! 4 \<and> stages ! 0 = ea_CampaignLimit acct
     \<and> (0 < ca_DailyLimit (ps_campaign p) \<longrightarrow> effectiveCap now p acct \<le> ca_DailyLimit (ps_campaign p))
     \<and> (ca_RampEnabled (ps_campaign p) \<longrightarrow>
          effectiveCap now p acct \<le> max (ca_RampStart (ps_campaign p)) (ca_RampLevel (ps_campaign p)))
     \<and> effectiveCap now p acct
         \<le> coldCeilingFor now (WithKnownWarmup (case ps_coldRamp p (em_ID acct) of
              None \<Rightarrow> zero_ramp_state | Some s \<Rightarrow> s) (ea_Warmup acct)) (stages ! 2)
     \<and> (by' = ''mailbox_daily_cap'' \<longrightarrow> effectiveCap now p acct = ea_CampaignLimit acct)
     \<and> (by' = ''campaign_daily_limit'' \<longrightarrow> effectiveCap now p acct = ca_DailyLimit (ps_campaign p))
     \<and> (by' = ''workspace_risk'' \<longrightarrow>
          effectiveCap now p acct = risked_cap (CapMultiplier (ps_risk p)) (stages ! 3)
          \<and> effectiveCap now p acct < stages ! 3)"
proof -
  let ?c = "ps_campaign p"
  define c1 where "c1 = (if 0 < ca_DailyLimit ?c
      then clamp_cap (ca_DailyLimit ?c) ''campaign_daily_limit'' (ea_CampaignLimit acct, ''mailbox_daily_cap'')
      else (ea_CampaignLimit acct, ''mailbox_daily_cap''))"
  define c2 where "c2 = (if ca_RampEnabled ?c
      then clamp_cap (campaignRampCeiling True (ca_RampStart ?c) (ca_RampIncrement ?c)
             (ca_RampCeiling ?c) (ca_RampLevel ?c)) ''campaign_ramp'' c1 else c1)"
  define cold where "cold = coldCeilingFor now (WithKnownWarmup (case ps_coldRamp p (em_ID acct) of
      None \<Rightarrow> zero_ramp_state | Some s \<Rightarrow> s) (ea_Warmup acct)) (fst c2)"
  define c3 where "c3 = clamp_cap cold ''warmup_graduation'' c2"
  define m where "m = CapMultiplier (ps_risk p)"
  define c4 where "c4 = (if m < 1 then clamp_cap (risked_cap m (fst c3)) ''workspace_risk'' c3 else c3)"
  have s: "stagedCap now p acct = ([ea_CampaignLimit acct, fst c1, fst c2, fst c3, fst c4], snd c4)"
    by (simp add: stagedCap_def Let_def c1_def c2_def c3_def c4_def cold_def m_def)
  then have e: "effectiveCap now p acct = fst c4" by (simp add: effectiveCap_def)
  have le: "fst c1 \<le> ea_CampaignLimit acct" "fst c2 \<le> fst c1" "fst c3 \<le> fst c2" "fst c4 \<le> fst c3"
    using clamp_cap_le(1) [of _ _ "(ea_CampaignLimit acct, ''mailbox_daily_cap'')"]
    by (simp_all add: c1_def c2_def c3_def c4_def)
  have ramp: "ca_RampEnabled ?c \<longrightarrow> fst c2 \<le> max (ca_RampStart ?c) (ca_RampLevel ?c)"
    by (auto simp: c2_def intro: order_trans [OF clamp_cap_le(2) ramp_ceiling_le])
  have daily: "0 < ca_DailyLimit ?c \<longrightarrow> fst c1 \<le> ca_DailyLimit ?c" by (simp add: c1_def)
  have coldle: "fst c3 \<le> cold" by (simp add: c3_def)
  have names:
    "snd c4 = ''mailbox_daily_cap'' \<longrightarrow> fst c4 = ea_CampaignLimit acct"
    "snd c4 = ''campaign_daily_limit'' \<longrightarrow> fst c4 = ca_DailyLimit ?c"
    "snd c4 = ''workspace_risk'' \<longrightarrow> fst c4 = risked_cap m (fst c3) \<and> fst c4 < fst c3"
    unfolding c4_def c3_def c2_def c1_def by (rule clamp_names; simp)+
  have lims: "0 < ca_DailyLimit ?c \<longrightarrow> fst c4 \<le> ca_DailyLimit ?c"
    "ca_RampEnabled ?c \<longrightarrow> fst c4 \<le> max (ca_RampStart ?c) (ca_RampLevel ?c)" "fst c4 \<le> cold"
    using le ramp daily coldle by auto
  have nth: "[ea_CampaignLimit acct, fst c1, fst c2, fst c3, fst c4] ! 2 = fst c2"
    "[ea_CampaignLimit acct, fst c1, fst c2, fst c3, fst c4] ! 3 = fst c3"
    "[ea_CampaignLimit acct, fst c1, fst c2, fst c3, fst c4] ! 4 = fst c4" by simp_all
  have five: "length [ea_CampaignLimit acct, fst c1, fst c2, fst c3, fst c4] = 5"
    "[ea_CampaignLimit acct, fst c1, fst c2, fst c3, fst c4] ! 0 = ea_CampaignLimit acct"
    "fst c4 = fst c4" by simp_all
  have sorted: "sorted_wrt (\<lambda>x y. y \<le> x) [ea_CampaignLimit acct, fst c1, fst c2, fst c3, fst c4]"
    using le by auto
  show ?thesis
    unfolding s prod.case e nth
    using lims names sorted five unfolding cold_def m_def by blast
qed

lemma sample_stages:
  "stagedCap 0 sample_campaignPass sample_account = ([50, 30, 20, 20, 5], ''workspace_risk'')"
  by code_simp

theorem cap_only_lowers_witness:
  "stagedCap 0 sample_campaignPass sample_account = ([50, 30, 20, 20, 5], ''workspace_risk'')
   \<and> effectiveCap 0 sample_campaignPass sample_account = risked_cap (1 / 4) 20"
  using cap_only_lowers [of 0 sample_campaignPass sample_account] sample_stages
  by (simp add: sample_campaignPass_def CapMultiplier_def)

section \<open>One answer per pass\<close>

text \<open>A memo only gains entries.\<close>

definition memo_kept :: "('a \<rightharpoonup> 'b) \<Rightarrow> ('a \<rightharpoonup> 'b) \<Rightarrow> bool" where
  "memo_kept m m' \<longleftrightarrow> (\<forall>k v. m k = Some v \<longrightarrow> m' k = Some v)"

lemma memo_kept_refl [simp]: "memo_kept m m"
  by (simp add: memo_kept_def)

lemma memo_kept_trans: "memo_kept m m' \<Longrightarrow> memo_kept m' m'' \<Longrightarrow> memo_kept m m''"
  by (simp add: memo_kept_def)

lemma memo_kept_upd [simp]: "m k = None \<Longrightarrow> memo_kept m (\<lambda>x. if x = k then Some v else m x)"
  by (simp add: memo_kept_def)

lemma memo_kept_read: "memo_kept m m' \<Longrightarrow> m k = Some v \<Longrightarrow> m' k = Some v"
  by (simp add: memo_kept_def)

text \<open>A later state of a pass: what was read stays read, whatever was read since.\<close>

definition later_pass :: "campaignPass \<Rightarrow> campaignPass \<Rightarrow> bool" where
  "later_pass p q \<longleftrightarrow>
     ps_campaign q = ps_campaign p \<and> ps_coldRamp q = ps_coldRamp p \<and> ps_lifecycles q = ps_lifecycles p
     \<and> ps_lifecyclesKnown q = ps_lifecyclesKnown p \<and> ps_enforceAuth q = ps_enforceAuth p
     \<and> ps_authGrace q = ps_authGrace p \<and> ps_risk q = ps_risk p
     \<and> memo_kept (ps_sentToday p) (ps_sentToday q) \<and> memo_kept (ps_health p) (ps_health q)
     \<and> memo_kept (ps_workerLive p) (ps_workerLive q) \<and> memo_kept (ps_sendGates p) (ps_sendGates q)"

text \<open>Two sets of reads of one process: the same repositories are wired, the answers may differ.\<close>

definition wired_alike :: "pass_reads \<Rightarrow> pass_reads \<Rightarrow> bool" where
  "wired_alike rd rd' \<longleftrightarrow>
     (pr_admission rd = None \<longleftrightarrow> pr_admission rd' = None)
     \<and> (pr_workerLive rd = None \<longleftrightarrow> pr_workerLive rd' = None)"

lemma later_pass_refl [simp]: "later_pass p p"
  by (simp add: later_pass_def)

lemma later_pass_trans [trans]: "later_pass p q \<Longrightarrow> later_pass q r \<Longrightarrow> later_pass p r"
  unfolding later_pass_def by (auto intro: memo_kept_trans)

lemma later_pass_read:
  assumes "later_pass p q"
  shows "ps_sentToday p k = Some n \<Longrightarrow> ps_sentToday q k = Some n"
    and "ps_health p k = Some h \<Longrightarrow> ps_health q k = Some h"
    and "ps_workerLive p k = Some l \<Longrightarrow> ps_workerLive q k = Some l"
    and "ps_sendGates p k = Some g \<Longrightarrow> ps_sendGates q k = Some g"
  using assms by (auto simp: later_pass_def memo_kept_def)

lemma later_pass_upd [simp]:
  "ps_sentToday p k = None \<Longrightarrow> later_pass p (p\<lparr>ps_sentToday := (ps_sentToday p)(k \<mapsto> n)\<rparr>)"
  "ps_health p k = None \<Longrightarrow> later_pass p (p\<lparr>ps_health := (ps_health p)(k \<mapsto> h)\<rparr>)"
  "ps_workerLive p w = None \<Longrightarrow> later_pass p (p\<lparr>ps_workerLive := (ps_workerLive p)(w \<mapsto> l)\<rparr>)"
  "ps_sendGates p k = None \<Longrightarrow> later_pass p (p\<lparr>ps_sendGates := (ps_sendGates p)(k \<mapsto> g)\<rparr>)"
  by (simp_all add: later_pass_def memo_kept_def)

lemma with_behavior_later: "with_behavior p u f = (a, q) \<Longrightarrow> later_pass p q"
  by (auto simp: with_behavior_def later_pass_def split: option.split_asm prod.split_asm)

lemma effectiveCap_later: "later_pass p q \<Longrightarrow> effectiveCap now q acct = effectiveCap now p acct"
  by (simp add: later_pass_def effectiveCap_def stagedCap_def)

lemma sentTodayFor_memo: "ps_sentToday p u = Some n \<Longrightarrow> sentTodayFor rd p u = (Some n, p)"
  by (simp add: sentTodayFor_def)

lemma sentTodayFor_later: "sentTodayFor rd p u = (r, q) \<Longrightarrow> later_pass p q"
  by (auto simp: sentTodayFor_def later_pass_def memo_kept_def split: option.split_asm)

text \<open>
  An account of an organization: the gate it got is in the memo, so a later call reads it back.
\<close>

lemma sendGate_stable:
  assumes "sendGate rd now p a = (g, q)" "ea_OrganizationID a = Some org"
  shows "later_pass p q"
    and "later_pass q q' \<Longrightarrow> wired_alike rd rd' \<Longrightarrow> sendGate rd' now q' a = (g, q')"
proof -
  show "later_pass p q"
    using assms by (auto simp: sendGate_def Let_def split: option.split_asm)
  assume later: "later_pass q q'" and wired: "wired_alike rd rd'"
  show "sendGate rd' now q' a = (g, q')"
  proof (cases "pr_admission rd")
    case None
    with assms wired show ?thesis by (auto simp: sendGate_def wired_alike_def)
  next
    case (Some query)
    with wired obtain query' where q': "pr_admission rd' = Some query'" by (auto simp: wired_alike_def)
    from assms Some have "ps_sendGates q (em_ID a) = Some g"
      by (auto simp: sendGate_def Let_def split: option.split_asm)
    with later_pass_read(4) [OF later] q' show ?thesis by (simp add: sendGate_def)
  qed
qed

lemma healthFor_stable:
  assumes "healthFor rd p u = (h, q)"
  shows "later_pass p q" and "later_pass q q' \<Longrightarrow> healthFor rd' q' u = (h, q')"
proof -
  show "later_pass p q"
    using assms by (cases "ps_health p u") (auto simp: healthFor_def Let_def)
  have "ps_health q u = Some h"
    using assms by (cases "ps_health p u") (auto simp: healthFor_def Let_def)
  then show "later_pass q q' \<Longrightarrow> healthFor rd' q' u = (h, q')"
    by (simp add: healthFor_def later_pass_read(2))
qed

lemma workerReachable_stable:
  assumes "workerReachable rd p a = (l, q)"
  shows "later_pass p q"
    and "later_pass q q' \<Longrightarrow> wired_alike rd rd' \<Longrightarrow> workerReachable rd' q' a = (l, q')"
proof -
  show "later_pass p q"
    using assms by (auto simp: workerReachable_def Let_def split: option.split_asm)
  assume later: "later_pass q q'" and wired: "wired_alike rd rd'"
  show "workerReachable rd' q' a = (l, q')"
  proof (cases "pr_workerLive rd")
    case None
    with assms wired show ?thesis by (auto simp: workerReachable_def wired_alike_def)
  next
    case (Some query)
    with wired obtain query' where q': "pr_workerLive rd' = Some query'" by (auto simp: wired_alike_def)
    show ?thesis
    proof (cases "ea_WorkerID a")
      case None
      with assms Some q' show ?thesis by (simp add: workerReachable_def)
    next
      case w: (Some w)
      with assms Some have "ps_workerLive q w = Some l"
        by (cases "ps_workerLive p w") (auto simp: workerReachable_def Let_def)
      with later_pass_read(3) [OF later] q' w show ?thesis by (simp add: workerReachable_def)
    qed
  qed
qed

lemma gateFor_stable:
  assumes "gateFor rd now p a r = (res, q)" "ea_OrganizationID a = Some org"
  shows "later_pass p q \<and> (later_pass q q' \<longrightarrow> wired_alike rd rd' \<longrightarrow> gateFor rd' now q' a r = (res, q'))"
proof -
  obtain g p1 where sg: "sendGate rd now p a = (g, p1)" by (cases "sendGate rd now p a")
  obtain h p2 where hf: "healthFor rd p1 (em_ID a) = (h, p2)" by (cases "healthFor rd p1 (em_ID a)")
  obtain l p3 where wr: "workerReachable rd p2 a = (l, p3)" by (cases "workerReachable rd p2 a")
  obtain hg hr where hg: "health_gate now h r = (hg, hr)" by (cases "health_gate now h r")
  note sgs = sendGate_stable [OF sg assms(2)]
  note hfs = healthFor_stable [OF hf]
  note wrs = workerReachable_stable [OF wr]
  have fields: "ps_enforceAuth q' = ps_enforceAuth p1" "ps_authGrace q' = ps_authGrace p1"
    "ps_lifecyclesKnown q' = ps_lifecyclesKnown p1" "lifecycle_state q' u = lifecycle_state p1 u"
    if "later_pass p1 q'" for q' u
    using that by (simp_all add: later_pass_def lifecycle_state_def)
  consider "\<not> gate_open g"
    | "gate_open g" "ps_enforceAuth p1 \<and> DomainAuthBlocked a now (ps_authGrace p1)
         \<or> ps_lifecyclesKnown p1 \<and> \<not> SendsCold (lifecycle_state p1 (em_ID a))"
    | "gate_open g" "\<not> (ps_enforceAuth p1 \<and> DomainAuthBlocked a now (ps_authGrace p1))"
      "\<not> (ps_lifecyclesKnown p1 \<and> \<not> SendsCold (lifecycle_state p1 (em_ID a)))" by blast
  then show ?thesis
  proof cases
    case 1
    with assms(1) sg have "q = p1" "res = (g, 0)" by (auto simp: gateFor_def)
    with 1 sgs show ?thesis by (auto simp: gateFor_def)
  next
    case 2
    with assms(1) sg have q: "q = p1" by (auto simp: gateFor_def split: if_split_asm)
    show ?thesis
      using 2 assms(1) sg sgs fields [of q'] unfolding q by (auto simp: gateFor_def split: if_split_asm)
  next
    case 3
    note c3 = this
    show ?thesis
    proof (cases "gate_open hg")
      case False
      with c3 assms(1) sg hf hg have q: "q = p2" and res: "res = (hg, 0)"
        by (auto simp: gateFor_def split: if_split_asm)
      have "later_pass p p2" using sgs(1) hfs(1) by (rule later_pass_trans)
      moreover have "gateFor rd' now q' a r = (res, q')" if l: "later_pass p2 q'" and w: "wired_alike rd rd'"
      proof -
        have l1: "later_pass p1 q'" using hfs(1) l by (rule later_pass_trans)
        show ?thesis
          using False c3 sgs(2) [OF l1 w] hfs(2) [OF l, of rd'] hg fields [OF l1] res
          by (auto simp: gateFor_def)
      qed
      ultimately show ?thesis unfolding q by blast
    next
      case True
      with c3 assms(1) sg hf hg wr have q: "q = p3"
        by (auto simp: gateFor_def split: if_split_asm)
      have l13: "later_pass p1 p3" using hfs(1) wrs(1) by (rule later_pass_trans)
      have "later_pass p p3" using sgs(1) l13 by (rule later_pass_trans)
      moreover have "gateFor rd' now q' a r = (res, q')" if l: "later_pass p3 q'" and w: "wired_alike rd rd'"
      proof -
        have l1: "later_pass p1 q'" using l13 l by (rule later_pass_trans)
        have l2: "later_pass p2 q'" using wrs(1) l by (rule later_pass_trans)
        show ?thesis
          using True c3 assms(1) sg hf hg wr sgs(2) [OF l1 w] hfs(2) [OF l2, of rd'] wrs(2) [OF l w] fields [OF l1]
          by (auto simp: gateFor_def split: if_split_asm)
      qed
      ultimately show ?thesis unfolding q by blast
    qed
  qed
qed


lemma windowFor_later:
  assumes "windowFor tzdb wired now p a at' capv r w = (res, q)"
  shows "later_pass p q"
proof -
  have "later_pass p p2" if "with_behavior p u f = (x, p1)" "with_behavior p1 u f' = (y, p2)"
    for p p1 p2 u x y and f :: "Resolved \<times> store \<Rightarrow> gtime option \<times> Resolved \<times> store"
      and f' :: "Resolved \<times> store \<Rightarrow> int \<times> Resolved \<times> store"
    using that with_behavior_later later_pass_trans by metis
  then show ?thesis
    using assms
    by (auto simp: windowFor_def Let_def split: prod.split_asm if_split_asm option.split_asm
        dest: with_behavior_later)
qed

text \<open>One mailbox of the pacing scan: the gate it leaves is the gate of every later call.\<close>

lemma pacedSenders_head:
  assumes "pacedSenders tzdb wired rd now jitter (a # as) (paced, p) = res"
    and "ps_sentToday p (em_ID a) = Some n" "ea_OrganizationID a = Some org"
  obtains g r q paced' where
    "pacedSenders tzdb wired rd now jitter as (paced', q) = res" "later_pass p q"
    "\<And>rd' q'. later_pass q q' \<Longrightarrow> wired_alike rd rd' \<Longrightarrow>
       gateFor rd' (g_inst now) q' a (effectiveCap (g_inst now) q' a - n) = ((g, r), q')"
    "\<not> gate_open g \<Longrightarrow> paced' = (if mg_paced g
       then paced(em_ID a \<mapsto> (case mg_reopensAt g of Some t \<Rightarrow> t
              | None \<Rightarrow> deferToNextDay tzdb now (jitter (em_ID a)) (ps_campaign p) False))
       else paced)"
    "\<And>u. u \<noteq> em_ID a \<Longrightarrow> paced' u = paced u"
proof -
  let ?lim = "effectiveCap (g_inst now) p a"
  obtain g r p1 where gf: "gateFor rd (g_inst now) p a (?lim - n) = ((g, r), p1)"
    by (metis prod.exhaust)
  note stable = gateFor_stable [OF gf assms(3)]
  have l1: "later_pass p p1" using stable by blast
  have step: "pacedSenders tzdb wired rd now jitter (a # as) (paced, p) =
     (case (if gate_open g
            then (case windowFor tzdb wired now p1 a now ?lim r False of ((_, _, _, g), p) \<Rightarrow> (g, p))
            else (g, p1)) of (gate, p) \<Rightarrow>
        if mg_paced gate
        then pacedSenders tzdb wired rd now jitter as
               (paced(em_ID a \<mapsto> (case mg_reopensAt gate of Some t \<Rightarrow> t
                  | None \<Rightarrow> deferToNextDay tzdb now (jitter (em_ID a)) (ps_campaign p) False)), p)
        else pacedSenders tzdb wired rd now jitter as (paced, p))"
    by (simp only: pacedSenders.simps sentTodayFor_memo [OF assms(2)] gf prod.case option.case Let_def)
  have camp: "ps_campaign p1 = ps_campaign p" using l1 by (simp add: later_pass_def)
  have again: "gateFor rd' (g_inst now) q' a (effectiveCap (g_inst now) q' a - n) = ((g, r), q')"
    if "later_pass p1 q'" "wired_alike rd rd'" for rd' q'
    using gateFor_stable [OF gf assms(3), of q' rd'] that effectiveCap_later [OF later_pass_trans [OF l1 that(1)]]
    by simp
  show thesis
  proof (cases "gate_open g")
    case False
    then obtain why where why: "mg_reason g = Some why" by auto
    show thesis
      by (rule that [of "if mg_paced g
            then paced(em_ID a \<mapsto> (case mg_reopensAt g of Some t \<Rightarrow> t
                   | None \<Rightarrow> deferToNextDay tzdb now (jitter (em_ID a)) (ps_campaign p) False))
            else paced" p1, OF _ l1 again])
        (use why assms(1) in \<open>simp_all add: step camp del: pacedSenders.simps cong: option.case_cong split: if_split_asm\<close>)
  next
    case True
    obtain x y z gw p2 where wf: "windowFor tzdb wired now p1 a now ?lim r False = ((x, y, z, gw), p2)"
      by (metis prod.exhaust)
    have l2: "later_pass p1 p2" using wf by (rule windowFor_later)
    show thesis
      by (rule that [of "if mg_paced gw
            then paced(em_ID a \<mapsto> (case mg_reopensAt gw of Some t \<Rightarrow> t
                   | None \<Rightarrow> deferToNextDay tzdb now (jitter (em_ID a)) (ps_campaign p2) False))
            else paced" p2, OF _ later_pass_trans [OF l1 l2] again])
        (use True assms(1) l2 in \<open>auto simp: step wf simp del: pacedSenders.simps intro: later_pass_trans\<close>)
  qed
qed

lemma pacedSenders_later:
  assumes "pacedSenders tzdb wired rd now jitter as (paced, p) = (paced', q)"
    and "\<And>a. a \<in> set as \<Longrightarrow> ea_OrganizationID a \<noteq> None"
  shows "later_pass p q \<and> (\<forall>u. u \<notin> em_ID ` set as \<longrightarrow> paced' u = paced u)"
  using assms
proof (induction as arbitrary: paced p)
  case Nil
  then show ?case by simp
next
  case (Cons a as)
  obtain n p0 where st: "sentTodayFor rd p (em_ID a) = (n, p0)" by (cases "sentTodayFor rd p (em_ID a)")
  note l0 = sentTodayFor_later [OF st]
  show ?case
  proof (cases n)
    case None
    with Cons st l0 show ?thesis by (auto intro: later_pass_trans)
  next
    case (Some k)
    then have memo: "ps_sentToday p0 (em_ID a) = Some k"
      using st by (auto simp: sentTodayFor_def split: option.split_asm)
    have head: "pacedSenders tzdb wired rd now jitter (a # as) (paced, p0) = (paced', q)"
      using Cons.prems(1) st Some by (simp add: sentTodayFor_memo [OF memo])
    obtain org where org: "ea_OrganizationID a = Some org" using Cons.prems(2) [of a] by auto
    from head memo org show ?thesis
    proof (rule pacedSenders_head)
      fix g r q0 paced0
      assume rest: "pacedSenders tzdb wired rd now jitter as (paced0, q0) = (paced', q)"
        and l1: "later_pass p0 q0" and frame: "\<And>u. u \<noteq> em_ID a \<Longrightarrow> paced0 u = paced u"
      show ?thesis
        using Cons.IH [OF rest] Cons.prems(2) frame later_pass_trans [OF l0 later_pass_trans [OF l1]] by auto
    qed
  qed
qed

lemma pacedSenders_agree:
  assumes "pacedSenders tzdb wired rd now jitter as (paced0, p) = (paced, p1)"
    and "distinct (map em_ID as)" "a \<in> set as" "\<And>a. a \<in> set as \<Longrightarrow> ea_OrganizationID a \<noteq> None"
    and "ps_sentToday p (em_ID a) = Some n"
  obtains g r where
    "\<And>rd' q. later_pass p1 q \<Longrightarrow> wired_alike rd rd' \<Longrightarrow>
       gateFor rd' (g_inst now) q a (effectiveCap (g_inst now) q a - n) = ((g, r), q)"
    "\<not> gate_open g \<Longrightarrow> paced (em_ID a) = (if mg_paced g
       then Some (case mg_reopensAt g of Some t \<Rightarrow> t
              | None \<Rightarrow> deferToNextDay tzdb now (jitter (em_ID a)) (ps_campaign p) False)
       else paced0 (em_ID a))"
  using assms
proof (induction as arbitrary: paced0 p thesis)
  case Nil
  then show ?case by simp
next
  case (Cons b as)
  show ?case
  proof (cases "a = b")
    case True
    obtain org where org: "ea_OrganizationID a = Some org" using Cons.prems(5) [of a] True by auto
    from Cons.prems(2) [folded True] Cons.prems(6) org show ?thesis
    proof (rule pacedSenders_head)
      fix g r q0 pacedb
      assume rest: "pacedSenders tzdb wired rd now jitter as (pacedb, q0) = (paced, p1)"
        and again: "\<And>rd' q'. later_pass q0 q' \<Longrightarrow> wired_alike rd rd' \<Longrightarrow>
           gateFor rd' (g_inst now) q' a (effectiveCap (g_inst now) q' a - n) = ((g, r), q')"
        and here: "\<not> gate_open g \<Longrightarrow> pacedb = (if mg_paced g
           then paced0(em_ID a \<mapsto> (case mg_reopensAt g of Some t \<Rightarrow> t
              | None \<Rightarrow> deferToNextDay tzdb now (jitter (em_ID a)) (ps_campaign p) False))
           else paced0)"
      have later: "later_pass q0 p1 \<and> (\<forall>u. u \<notin> em_ID ` set as \<longrightarrow> paced u = pacedb u)"
        using Cons.prems(5) by (intro pacedSenders_later [OF rest]) auto
      have "em_ID a \<notin> em_ID ` set as" using Cons.prems(3) True by simp
      with later have same: "paced (em_ID a) = pacedb (em_ID a)" by blast
      show thesis
      proof (rule Cons.prems(1))
        show "gateFor rd' (g_inst now) q' a (effectiveCap (g_inst now) q' a - n) = ((g, r), q')"
          if "later_pass p1 q'" "wired_alike rd rd'" for rd' q'
          using again [OF later_pass_trans [OF _ that(1)] that(2)] later by blast
      qed (use here same in simp)
    qed
  next
    case False
    with Cons.prems have ain: "a \<in> set as" by auto
    have "em_ID b \<notin> em_ID ` set as" using Cons.prems(3) by simp
    with ain have ne: "em_ID a \<noteq> em_ID b" by (metis imageI)
    obtain n' p0 where st: "sentTodayFor rd p (em_ID b) = (n', p0)" by (cases "sentTodayFor rd p (em_ID b)")
    note l0 = sentTodayFor_later [OF st]
    have memo_a: "ps_sentToday p0 (em_ID a) = Some n" using later_pass_read(1) [OF l0 Cons.prems(6)] .
    have camp0: "ps_campaign p0 = ps_campaign p" using l0 by (simp add: later_pass_def)
    show ?thesis
    proof (cases n')
      case None
      with Cons.prems(2) st have rest: "pacedSenders tzdb wired rd now jitter as (paced0, p0) = (paced, p1)"
        by simp
      show ?thesis
proof (rule Cons.IH [OF _ rest _ ain _ memo_a, unfolded camp0])
        show "distinct (map em_ID as)" using Cons.prems(3) by simp
        show "ea_OrganizationID x \<noteq> None" if "x \<in> set as" for x
          using Cons.prems(5) that by simp
      qed (rule Cons.prems(1); assumption)
    next
      case (Some k)
      then have memo: "ps_sentToday p0 (em_ID b) = Some k"
        using st by (auto simp: sentTodayFor_def split: option.split_asm)
      have head: "pacedSenders tzdb wired rd now jitter (b # as) (paced0, p0) = (paced, p1)"
        using Cons.prems(2) st Some by (simp add: sentTodayFor_memo [OF memo])
      obtain org where org: "ea_OrganizationID b = Some org" using Cons.prems(5) [of b] by auto
      from head memo org show ?thesis
      proof (rule pacedSenders_head)
        fix g r q0 pacedb
        assume rest: "pacedSenders tzdb wired rd now jitter as (pacedb, q0) = (paced, p1)"
          and l1: "later_pass p0 q0" and frame: "\<And>u. u \<noteq> em_ID b \<Longrightarrow> pacedb u = paced0 u"
        have memo_q: "ps_sentToday q0 (em_ID a) = Some n" using later_pass_read(1) [OF l1 memo_a] .
        have camp: "ps_campaign q0 = ps_campaign p" using l1 camp0 by (simp add: later_pass_def)
        show thesis
        proof (rule Cons.IH [OF _ rest _ ain _ memo_q, unfolded camp frame [OF ne]])
          show "distinct (map em_ID as)" using Cons.prems(3) by simp
          show "ea_OrganizationID x \<noteq> None" if "x \<in> set as" for x
            using Cons.prems(5) that by simp
        qed (rule Cons.prems(1); assumption)
      qed
    qed
  qed
qed



end
