(* ===== verification/Send_Plan.thy ===== *)
theory Send_Plan
  imports Mailbox_Gate
begin

text \<open>
  Today's sending plan of a campaign, \<open>internal/scheduler/send_plan.go\<close>: the calendar of the day,
  the walk of one mailbox through the clamps in the order the send path applies them, the
  waterfall of the pool, and the capacity of a pool. Reads are arguments and the plan is computed
  at one instant.
\<close>

section \<open>The calendar of the day\<close>

abbreviation at_utc :: "instant \<Rightarrow> gtime" where
  "at_utc t \<equiv> \<lparr>g_inst = t, g_loc = UTC\<rparr>"

definition whole_seconds :: "gtime \<Rightarrow> gtime \<Rightarrow> int" where
  "whole_seconds later earlier = trunc (seconds_of (tsub (g_inst later) (g_inst earlier)))"

record CampaignSendWindow =
  cw_SendingDay :: bool
  cw_OpenNow :: bool
  cw_OpensAt :: "gtime option"
  cw_ClosesAt :: "gtime option"
  cw_MinutesLeft :: int
  cw_StartsAt :: "instant option"
  cw_EndsAt :: "instant option"

text \<open>The minutes of the day's intervals at or after \<open>start\<close>, clipped to the end date.\<close>

definition minutes_from :: "TimeInterval list \<Rightarrow> int \<Rightarrow> int \<Rightarrow> int" where
  "minutes_from ivs endMin start =
     sum_list (map (\<lambda>iv. let end' = min (iv_End iv) endMin
                          in if start < end' then end' - max (iv_Start iv) start else 0) ivs)"

definition ends_today :: "Campaign \<Rightarrow> gtime \<Rightarrow> gtime" where
  "ends_today c closes =
     (case ca_EndDate c of
        None \<Rightarrow> closes
      | Some e \<Rightarrow> if e < g_inst closes then at_utc e else closes)"

definition always_open_day ::
  "Campaign \<Rightarrow> gtime \<Rightarrow> gtime \<Rightarrow> CampaignSendWindow \<Rightarrow> CampaignSendWindow \<times> int \<times> gtime" where
  "always_open_day c now day0 out =
     (let closes = ends_today c (add_days day0 1);
          start = (case cw_StartsAt out of None \<Rightarrow> now | Some t \<Rightarrow> at_utc t);
          left = (if before start closes then whole_seconds closes start else 0);
          open' = (cw_StartsAt out = None)
      in (out\<lparr>cw_SendingDay := True, cw_OpenNow := open', cw_ClosesAt := Some closes,
              cw_OpensAt := (if open' then None else map_option at_utc (cw_StartsAt out)),
              cw_MinutesLeft := tdiv left 60\<rparr>, left, closes))"

definition day_closes :: "TimeInterval list \<Rightarrow> int \<Rightarrow> gtime \<Rightarrow> gtime" where
  "day_closes ivs endMin day0 =
     fold (\<lambda>iv closes. let end' = add_dur day0 (Minute * min (iv_End iv) endMin)
                        in if after end' closes then end' else closes) ivs day0"

definition end_minute :: "Campaign \<Rightarrow> location \<Rightarrow> gtime \<Rightarrow> int" where
  "end_minute c tz day0 =
     (case ca_EndDate c of
        None \<Rightarrow> 24 * 60
      | Some e \<Rightarrow>
          let t = in_loc (at_utc e) tz
          in if before t (add_days day0 1) then hour_of t * 60 + minute_of t else 24 * 60)"

definition windowed_day ::
  "Campaign \<Rightarrow> gtime \<Rightarrow> gtime \<Rightarrow> location \<Rightarrow> ScheduleWindows \<Rightarrow> CampaignSendWindow
     \<Rightarrow> CampaignSendWindow \<times> int \<times> gtime" where
  "windowed_day c now day0 tz windows out =
     (let local = in_loc now tz;
          nowMin = hour_of local * 60 + minute_of local;
          endMin = end_minute c tz day0;
          ivs = windows ! nat (weekday_of local);
          closes = day_closes ivs endMin day0;
          day = (ivs \<noteq> []);
          open' = (\<exists>iv \<in> set ivs. iv_Start iv \<le> nowMin \<and> nowMin < min (iv_End iv) endMin)
                   \<and> cw_StartsAt out = None;
          left = (case cw_StartsAt out of
                    None \<Rightarrow> minutes_from ivs endMin nowMin * 60
                  | Some s \<Rightarrow>
                      if s < g_inst closes
                      then (let t = in_loc (at_utc s) tz
                            in minutes_from ivs endMin (max nowMin (hour_of t * 60 + minute_of t)) * 60)
                      else 0);
          start = (case cw_StartsAt out of
                     None \<Rightarrow> now | Some s \<Rightarrow> if g_inst now < s then at_utc s else now);
          slot = nextScheduleSlot start windows tz
      in (out\<lparr>cw_SendingDay := day, cw_OpenNow := open',
              cw_ClosesAt := (if day then Some closes else None),
              cw_OpensAt := (if \<not> open' \<and> after slot now then Some slot else None),
              cw_MinutesLeft := tdiv left 60\<rparr>, left, closes))"

text \<open>The window, the seconds of sending time still ahead today, the moment the day closes.\<close>

definition dayWindow :: "tzdb \<Rightarrow> Campaign \<Rightarrow> gtime \<Rightarrow> CampaignSendWindow \<times> int \<times> gtime" where
  "dayWindow tzdb c now =
     (let tz = loadLocation tzdb (campaign_ClockTimezone c);
          windows = effectiveWindows c;
          day0 = (case civil (in_loc now tz) of (y, m, d) \<Rightarrow> go_date y m d 0 0 0 0 tz);
          out = \<lparr>cw_SendingDay = False, cw_OpenNow = False, cw_OpensAt = None, cw_ClosesAt = None,
                 cw_MinutesLeft = 0,
                 cw_StartsAt = (case ca_StartDate c of None \<Rightarrow> None
                                | Some s \<Rightarrow> if g_inst now < s then Some s else None),
                 cw_EndsAt = ca_EndDate c\<rparr>
      in if (case ca_EndDate c of None \<Rightarrow> False | Some e \<Rightarrow> e < g_inst now) then (out, 0, day0)
         else if IsEmpty windows then always_open_day c now day0 out
         else windowed_day c now day0 tz windows out)"

section \<open>One mailbox\<close>

datatype plan_state =
    MailboxPlanSending | MailboxPlanBudgetSpent | MailboxPlanHoursClosed | MailboxPlanNoWorkingDay
  | MailboxPlanDomainAuth | MailboxPlanResting | MailboxPlanHealthHold | MailboxPlanCloudStatus
  | MailboxPlanRecovery | MailboxPlanCooldown | MailboxPlanAdmission | MailboxPlanWindowClosed
  | MailboxPlanNoWorker

record mailboxDay =
  md_acct :: EmailAccount
  md_cap :: "int \<times> string"
  md_health :: healthRead
  md_gate :: mailboxGate
  md_configured :: int
  md_sentThis :: int
  md_sentOther :: int
  md_remaining :: int
  md_byCampaignLimit :: int
  md_byRamp :: int
  md_byGraduation :: int
  md_byRisk :: int
  md_byGate :: int
  md_byOther :: int
  md_byHealthPace :: int
  md_byHours :: int
  md_byBehavior :: int
  md_bySpacing :: int
  md_state :: "plan_state option"
  md_reopensAt :: "gtime option"
  md_minGap :: int
  md_graduation :: "ColdRampInfo option"

text \<open>What a cap leaves after this campaign's own sends: \<open>room\<close>.\<close>

definition cap_room :: "int \<Rightarrow> int \<Rightarrow> int" where
  "cap_room capv sentThis = max 0 (capv - sentThis)"

definition healthBand :: "mailboxDay \<Rightarrow> string" where
  "healthBand d =
     (let h = md_health d
      in if \<not> hr_known h \<or> hr_cloudStatus h \<or> hr_state h = [] \<or> hr_state h = ''healthy''
         then [] else hr_state h)"

definition new_day :: "EmailAccount \<Rightarrow> int \<Rightarrow> int \<Rightarrow> mailboxDay" where
  "new_day acct sentThis sentAll =
     \<lparr>md_acct = acct, md_cap = (0, []), md_health = no_health, md_gate = open_gate,
      md_configured = max (ea_CampaignLimit acct) sentThis, md_sentThis = sentThis,
      md_sentOther = max 0 (sentAll - sentThis), md_remaining = 0, md_byCampaignLimit = 0,
      md_byRamp = 0, md_byGraduation = 0, md_byRisk = 0, md_byGate = 0, md_byOther = 0,
      md_byHealthPace = 0, md_byHours = 0, md_byBehavior = 0, md_bySpacing = 0, md_state = None,
      md_reopensAt = None, md_minGap = ea_MinWaitTime acct, md_graduation = None\<rparr>"

text \<open>What each clamp of the cap takes, and what is left.\<close>

fun waterfall :: "int \<Rightarrow> int \<Rightarrow> int list \<Rightarrow> int list \<times> int" where
  "waterfall sent r [] = ([], r)"
| "waterfall sent r (c # cs) =
     (let next' = cap_room c sent; (ds, r') = waterfall sent next' cs in ((r - next') # ds, r'))"

definition plan_clamps :: "instant \<Rightarrow> campaignPass \<Rightarrow> mailboxDay \<Rightarrow> mailboxDay \<times> int" where
  "plan_clamps now p d =
     (let acct = md_acct d; (stages, by') = stagedCap now p acct; sent = md_sentThis d;
          (ds, r) = waterfall sent (cap_room (md_configured d) sent) (tl stages);
          st = WithKnownWarmup (case ps_coldRamp p (em_ID acct) of None \<Rightarrow> zero_ramp_state | Some s \<Rightarrow> s)
                 (ea_Warmup acct)
      in (d\<lparr>md_cap := (stages ! 4, by'),
            md_byCampaignLimit := ds ! 0, md_byRamp := ds ! 1, md_byGraduation := ds ! 2, md_byRisk := ds ! 3,
            md_graduation :=
              (if stages ! 3 < stages ! 2
               then Notice (crs_WarmupStartedAt st) (crs_ColdRampStartedAt st) (crs_Placements st)
                      (stages ! 2) now [crs_ConfirmedReplies st]
               else md_graduation d)\<rparr>, r))"

definition held_state :: "mailboxGate \<Rightarrow> plan_state" where
  "held_state gate =
     (case mg_reason gate of
        Some gateAuth \<Rightarrow> MailboxPlanDomainAuth
      | Some gateResting \<Rightarrow> MailboxPlanResting
      | Some gateRecovery \<Rightarrow> MailboxPlanRecovery
      | Some gateCooldown \<Rightarrow> MailboxPlanCooldown
      | Some gateAdmission \<Rightarrow> MailboxPlanAdmission
      | _ \<Rightarrow> if mg_cloudStatus gate then MailboxPlanCloudStatus else MailboxPlanHealthHold)"

definition plan_held :: "mailboxGate \<Rightarrow> mailboxDay \<Rightarrow> int \<Rightarrow> mailboxDay" where
  "plan_held gate d r =
     d\<lparr>md_gate := gate, md_byGate := r, md_state := Some (held_state gate),
       md_reopensAt := (if mg_reason gate = Some gateCooldown then mg_reopensAt gate else md_reopensAt d)\<rparr>"

definition plan_spent :: "mailboxDay \<Rightarrow> mailboxDay" where
  "plan_spent d = d\<lparr>md_state := Some MailboxPlanBudgetSpent, md_gate := (shut gateBudget)\<lparr>mg_paced := True\<rparr>\<rparr>"

definition plan_closed :: "gtime \<Rightarrow> mailboxDay \<Rightarrow> int \<Rightarrow> mailboxDay" where
  "plan_closed open' d r =
     d\<lparr>md_state := Some MailboxPlanHoursClosed, md_reopensAt := Some open',
       md_gate := (shut gateHours)\<lparr>mg_paced := True, mg_reopensAt := Some open'\<rparr>, md_byHours := r\<rparr>"

text \<open>Other campaigns share the cap; a dampened health band spaces sends wider.\<close>

definition plan_health_pace :: "mailboxDay \<Rightarrow> int \<Rightarrow> mailboxDay \<times> int" where
  "plan_health_pace d r =
     (let m = volumeMultiplier (hr_state (md_health d))
      in if hr_known (md_health d) \<and> m < 1
         then (let next' = trunc (fmul (f_of r) m) in (d\<lparr>md_byHealthPace := r - next'\<rparr>, next'))
         else (d, r))"

text \<open>
  The clock of the mailbox: a finished day (\<open>Inl\<close>), or the day, what is left of it, and the
  seconds of sending time it still has.
\<close>

type_synonym plan_step = "mailboxDay + (mailboxDay \<times> int \<times> int)"

definition plan_work_end :: "location \<Rightarrow> DailyPlan \<Rightarrow> gtime \<Rightarrow> gtime" where
  "plan_work_end loc plan openAt =
     (case civil (in_loc openAt loc) of (y, m, d) \<Rightarrow>
        add_dur (go_date y m d 0 0 0 0 loc) (Minute * dp_WorkEndMinute plan))"

definition plan_hourly :: "DailyPlan \<Rightarrow> int \<Rightarrow> mailboxDay \<Rightarrow> int \<Rightarrow> mailboxDay \<times> int" where
  "plan_hourly plan secondsLeft d r =
     (if 0 < dp_HourlyLimit plan
      then (let byHour = dp_HourlyLimit plan * tdiv (secondsLeft + 3599) 3600
            in if byHour < r then (d\<lparr>md_byBehavior := md_byBehavior d + (r - byHour)\<rparr>, byHour) else (d, r))
      else (d, r))"

definition plan_profile_open ::
  "bool \<Rightarrow> gtime \<Rightarrow> campaignPass \<Rightarrow> mailboxDay \<Rightarrow> int \<Rightarrow> int \<Rightarrow> gtime \<Rightarrow> plan_step \<times> campaignPass" where
  "plan_profile_open wired now p d r secondsLeft openAt =
     (let acct = md_acct d; i = em_ID acct; loc = rs_Loc (behavior_of p i); t = g_inst now
      in case with_behavior p i (behaviorDailyCap wired t r openAt) of (capv, p) \<Rightarrow>
           (let next' = min r capv; d = d\<lparr>md_byBehavior := md_byBehavior d + (r - next')\<rparr>; r = next'
            in if r = 0 then (Inl (plan_spent d), p)
               else case with_behavior p i (behaviorGapFloor t openAt (ea_MinWaitTime acct)) of (gap, p) \<Rightarrow>
                 (case with_behavior p i (PlanOn t (PlanDateFor openAt loc)) of (plan, p) \<Rightarrow>
                    (let d = d\<lparr>md_minGap := gap\<rparr>;
                         secondsLeft = min secondsLeft (max 0 (whole_seconds (plan_work_end loc plan openAt) openAt))
                     in case plan_hourly plan secondsLeft d r of (d, r) \<Rightarrow> (Inr (d, r, secondsLeft), p)))))"

definition plan_profile ::
  "bool \<Rightarrow> gtime \<Rightarrow> campaignPass \<Rightarrow> mailboxDay \<Rightarrow> int \<Rightarrow> int \<Rightarrow> gtime \<Rightarrow> plan_step \<times> campaignPass" where
  "plan_profile wired now p d r secondsLeft closesAt =
     (let i = em_ID (md_acct d); loc = rs_Loc (behavior_of p i); t = g_inst now
      in case with_behavior p i (PlanOn t (PlanDateFor now loc)) of (today, p) \<Rightarrow>
         (case (if dp_IsWorkingDay today \<and> MinuteOfDay now loc < dp_WorkEndMinute today
                then (case with_behavior p i (behaviorDailyCap wired t r now) of (left, p) \<Rightarrow> (left = 0, p))
                else (False, p)) of (spent, p) \<Rightarrow>
            if spent then (Inl ((plan_spent d)\<lparr>md_byBehavior := r\<rparr>), p)
            else case with_behavior p i (placeWithinBehavior wired t now) of
                (None, p) \<Rightarrow> (Inl (d\<lparr>md_state := Some MailboxPlanNoWorkingDay, md_gate := shut gateNoWorkday,
                                      md_byHours := r\<rparr>), p)
              | (Some openAt, p) \<Rightarrow>
                  if \<not> sameLocalDay openAt now (Some loc) then (Inl (plan_closed openAt d r), p)
                  else if after openAt now \<and> \<not> before openAt closesAt then (Inl (plan_closed openAt d r), p)
                  else if after openAt now
                  then plan_profile_open wired now p (d\<lparr>md_reopensAt := Some openAt\<rparr>) r
                         (min secondsLeft (whole_seconds closesAt openAt)) openAt
                  else plan_profile_open wired now p d r secondsLeft openAt))"

definition plan_band ::
  "tzdb \<Rightarrow> gtime \<Rightarrow> mailboxDay \<Rightarrow> int \<Rightarrow> int \<Rightarrow> gtime \<Rightarrow> plan_step" where
  "plan_band tzdb now d r secondsLeft closesAt =
     (let loc = loadLocation tzdb (em_Timezone (md_acct d));
          local = in_loc now loc; h = hour_of local;
          outside = (h < 8 \<or> 20 \<le> h); open' = businessHoursReopen now loc;
          bandEnd = (case civil local of (y, m, dd) \<Rightarrow> go_date y m dd 20 0 0 0 loc)
      in if outside \<and> (\<not> sameLocalDay open' now (Some loc) \<or> \<not> before open' closesAt)
         then Inl (plan_closed open' d r)
         else (let d = (if outside then d\<lparr>md_reopensAt := Some open'\<rparr> else d);
                   secondsLeft = (if outside then min secondsLeft (whole_seconds closesAt open') else secondsLeft);
                   secondsLeft = (if before bandEnd closesAt
                                  then min secondsLeft (max 0 (whole_seconds bandEnd now)) else secondsLeft)
               in Inr (d, r, secondsLeft)))"

definition plan_clock ::
  "tzdb \<Rightarrow> bool \<Rightarrow> gtime \<Rightarrow> campaignPass \<Rightarrow> mailboxDay \<Rightarrow> int \<Rightarrow> int \<Rightarrow> gtime \<Rightarrow> plan_step \<times> campaignPass" where
  "plan_clock tzdb wired now p d r secondsLeft closesAt =
     (if rs_Enabled (behavior_of p (em_ID (md_acct d)))
      then plan_profile wired now p d r secondsLeft closesAt
      else if em_Timezone (md_acct d) \<noteq> [] \<and> em_Timezone (md_acct d) \<noteq> campaign_ClockTimezone (ps_campaign p)
      then (plan_band tzdb now d r secondsLeft closesAt, p)
      else (Inr (d, r, secondsLeft), p))"

text \<open>One send per gap, from the later of now and the last send plus its gap.\<close>

definition plan_spacing ::
  "bool \<Rightarrow> gtime \<Rightarrow> instant option \<Rightarrow> mailboxDay \<Rightarrow> int \<Rightarrow> int \<Rightarrow> mailboxDay" where
  "plan_spacing reconnecting now lastSend d r secondsLeft =
     (let start = (case md_reopensAt d of None \<Rightarrow> now | Some t \<Rightarrow> if after t now then t else now);
          earliest = (case lastSend of
                        None \<Rightarrow> None
                      | Some l \<Rightarrow>
                          if 0 < md_minGap d \<and> g_inst start < l + Second * md_minGap d
                          then Some (at_utc (l + Second * md_minGap d)) else None);
          secondsLeft = (case earliest of None \<Rightarrow> secondsLeft
                         | Some t \<Rightarrow> secondsLeft - whole_seconds t start);
          paceMax = (if 0 \<le> secondsLeft
                     then if 0 < md_minGap d then 1 + tdiv secondsLeft (md_minGap d) else r
                     else 0);
          next' = min r paceMax;
          d = d\<lparr>md_bySpacing := r - next', md_remaining := next'\<rparr>
      in if 0 < next'
         then d\<lparr>md_state := Some (if reconnecting then MailboxPlanNoWorker else MailboxPlanSending)\<rparr>
         else d\<lparr>md_state := Some MailboxPlanHoursClosed,
                md_reopensAt := (case earliest of None \<Rightarrow> md_reopensAt d | Some t \<Rightarrow> Some t)\<rparr>)"

definition planMailbox ::
  "tzdb \<Rightarrow> bool \<Rightarrow> pass_reads \<Rightarrow> gtime \<Rightarrow> campaignPass \<Rightarrow> EmailAccount \<Rightarrow> int \<Rightarrow> int
     \<Rightarrow> instant option \<Rightarrow> int \<Rightarrow> gtime \<Rightarrow> mailboxDay \<times> campaignPass" where
  "planMailbox tzdb wired rd now p acct sentThis sentAll lastSend windowSecondsLeft closesAt =
     (case plan_clamps (g_inst now) p (new_day acct sentThis sentAll) of (d, r) \<Rightarrow>
      case gateFor rd (g_inst now) p acct 1 of ((gate, _), p) \<Rightarrow>
      case healthFor rd p (em_ID acct) of (h, p) \<Rightarrow>
        (let d = d\<lparr>md_health := h\<rparr>; reconnecting = (mg_reason gate = Some gateNoWorker)
         in if \<not> gate_open gate \<and> mg_reason gate \<noteq> Some gateBudget \<and> \<not> reconnecting
            then (plan_held gate d r, p)
            else
              (let left = max 0 (r - md_sentOther d); d = d\<lparr>md_byOther := r - left\<rparr>
               in if left = 0 then (plan_spent d, p)
                  else case plan_health_pace d left of (d, left) \<Rightarrow>
                    (case plan_clock tzdb wired now p d left windowSecondsLeft closesAt of
                       (Inl d, p) \<Rightarrow> (d, p)
                     | (Inr (d, left, secondsLeft), p) \<Rightarrow>
                         if windowSecondsLeft \<le> 0
                         then (d\<lparr>md_state := Some MailboxPlanWindowClosed, md_remaining := left\<rparr>, p)
                         else (plan_spacing reconnecting now lastSend d left secondsLeft, p)))))"

section \<open>The plan of the campaign\<close>

text \<open>Today's ramp advance, applied in memory.\<close>

definition utc_day :: "instant \<Rightarrow> instant" where
  "utc_day t = t - (t - zero_time) mod (24 * Hour)"

definition projectRampLevel :: "Campaign \<Rightarrow> instant \<Rightarrow> Campaign" where
  "projectRampLevel c now =
     (if \<not> ca_RampEnabled c then c
      else if (case ca_RampLevelDate c of None \<Rightarrow> False | Some d \<Rightarrow> \<not> utc_day d < utc_day now) then c
      else c\<lparr>ca_RampLevel := min (ca_RampCeiling c) (max (ca_RampLevel c) (ca_RampStart c) + ca_RampIncrement c),
             ca_RampLevelDate := Some (utc_day now)\<rparr>)"

text \<open>The earliest pending task of the campaign; \<open>None\<close> for tasks that could not be read.\<close>

fun earliest_task :: "instant option list \<Rightarrow> instant option \<Rightarrow> instant option" where
  "earliest_task [] next' = next'"
| "earliest_task (None # ts) next' = earliest_task ts next'"
| "earliest_task (Some t # ts) next' =
     earliest_task ts (case next' of None \<Rightarrow> Some t | Some n \<Rightarrow> if t < n then Some t else Some n)"

definition campaignWakeup :: "instant option list option \<Rightarrow> instant option" where
  "campaignWakeup tasks = (case tasks of None \<Rightarrow> None | Some ts \<Rightarrow> earliest_task ts None)"

datatype limit_kind =
    SendLimitCampaignDailyLimit | SendLimitCampaignRamp | SendLimitWarmupGraduation
  | SendLimitWorkspaceRisk | SendLimitDomainAuth | SendLimitResting | SendLimitHealthHold
  | SendLimitCloudStatusHold | SendLimitRecovery | SendLimitCooldown | SendLimitOtherCampaigns
  | SendLimitHealthPace | SendLimitMailboxHours | SendLimitSpacing | SendLimitSendingWindow
  | SendLimitNotRunning | SendLimitOrgDailyLimit | SendLimitNewLeadCap | SendLimitLeads
  | SendLimitSendingBehavior

datatype bottleneck = NoBottleneck | LimitBy limit_kind | SendBottleneckBudgetSpent

record CampaignSendLimit =
  cl_Kind :: limit_kind
  cl_Emails :: int
  cl_Mailboxes :: int

record CampaignMailboxPlan =
  mp_ID :: uuid
  mp_ConfiguredCap :: int
  mp_CapToday :: int
  mp_LimitedBy :: string
  mp_SentToday :: int
  mp_SentByOtherCampaigns :: int
  mp_ExpectedRemaining :: int
  mp_State :: "plan_state option"
  mp_ReopensAt :: "gtime option"
  mp_Health :: string
  mp_MinGapSeconds :: int
  mp_Graduation :: "ColdRampInfo option"

record CampaignOrgAllowance =
  oa_DailyLimit :: int
  oa_SentToday :: int
  oa_Remaining :: int

text \<open>What the walk over the routable leads answers: \<open>LeadSupply\<close>.\<close>

record LeadSupply =
  su_DueNow :: int
  su_DueNowNewLeads :: int
  su_DueLaterToday :: int
  su_DueLaterTodayNewLeads :: int
  su_WaitingOnStep :: int
  su_WaitingOnCondition :: int
  su_Held :: int
  su_WaitingOnSender :: int
  su_NextDueAt :: "instant option"

record CampaignSendPlan =
  sp_CampaignID :: uuid
  sp_Status :: string
  sp_Day :: string
  sp_ComputedAt :: gtime
  sp_ConfiguredCeiling :: int
  sp_Projected :: int
  sp_SentToday :: int
  sp_ExpectedRemaining :: int
  sp_Bottleneck :: bottleneck
  sp_Limits :: "CampaignSendLimit list"
  sp_Window :: CampaignSendWindow
  sp_Supply :: LeadSupply
  sp_NewLeadsStartedToday :: int
  sp_Mailboxes :: "CampaignMailboxPlan list"
  sp_Organization :: "CampaignOrgAllowance option"
  sp_NextWakeAt :: "instant option"

record plan_reads =
  pl_campaign :: "Campaign option"
  pl_senders :: "EmailAccount list option"
  pl_sentBySender :: "(uuid \<rightharpoonup> int) option"
  pl_orgSent :: "int option"
  pl_supply :: "gtime \<Rightarrow> uuid set \<Rightarrow> LeadSupply option"
  pl_newLeadsToday :: "int option"
  pl_pending :: "instant option list option"

fun plan_days ::
  "tzdb \<Rightarrow> bool \<Rightarrow> pass_reads \<Rightarrow> gtime \<Rightarrow> (uuid \<rightharpoonup> int) \<Rightarrow> (uuid \<rightharpoonup> instant) \<Rightarrow> int \<Rightarrow> gtime
     \<Rightarrow> EmailAccount list \<Rightarrow> campaignPass \<Rightarrow> mailboxDay list option" where
  "plan_days tzdb wired rd now sentBy lastSends secondsLeft closesAt [] p = Some []"
| "plan_days tzdb wired rd now sentBy lastSends secondsLeft closesAt (a # as) p =
     (case sentTodayFor rd p (em_ID a) of
        (None, p) \<Rightarrow> None
      | (Some sentAll, p) \<Rightarrow>
          (case planMailbox tzdb wired rd now p a (case sentBy (em_ID a) of None \<Rightarrow> 0 | Some n \<Rightarrow> n) sentAll
                  (lastSends (em_ID a)) secondsLeft closesAt of
             (d, p) \<Rightarrow> map_option ((#) d)
                         (plan_days tzdb wired rd now sentBy lastSends secondsLeft closesAt as p)))"

text \<open>The tallies of the pool: a kind, the emails it takes, the mailboxes it takes them from.\<close>

type_synonym tally = "limit_kind \<times> int \<times> int"

definition empty_tallies :: "tally list" where
  "empty_tallies =
     map (\<lambda>k. (k, 0, 0))
       [SendLimitCampaignDailyLimit, SendLimitCampaignRamp, SendLimitWarmupGraduation, SendLimitWorkspaceRisk,
        SendLimitDomainAuth, SendLimitResting, SendLimitHealthHold, SendLimitCloudStatusHold,
        SendLimitRecovery, SendLimitCooldown, SendLimitOtherCampaigns, SendLimitHealthPace,
        SendLimitMailboxHours, SendLimitSendingBehavior, SendLimitSpacing]"

fun bump :: "limit_kind \<Rightarrow> int \<Rightarrow> tally list \<Rightarrow> tally list" where
  "bump kind n [] = []"
| "bump kind n ((k, e, m) # ts) = (if k = kind then (k, e + n, m + 1) # ts else (k, e, m) # bump kind n ts)"

definition add_tally :: "limit_kind \<times> int \<Rightarrow> tally list \<Rightarrow> tally list" where
  "add_tally c ts = (if snd c \<le> 0 then ts else bump (fst c) (snd c) ts)"

definition gate_charge :: "mailboxDay \<Rightarrow> (limit_kind \<times> int) list" where
  "gate_charge d =
     (case mg_reason (md_gate d) of
        Some gateAuth \<Rightarrow> [(SendLimitDomainAuth, md_byGate d)]
      | Some gateResting \<Rightarrow> [(SendLimitResting, md_byGate d)]
      | Some gateHealth \<Rightarrow>
          [(if mg_cloudStatus (md_gate d) then SendLimitCloudStatusHold else SendLimitHealthHold, md_byGate d)]
      | Some gateRecovery \<Rightarrow> [(SendLimitRecovery, md_byGate d)]
      | Some gateAdmission \<Rightarrow> [(SendLimitRecovery, md_byGate d)]
      | Some gateCooldown \<Rightarrow> [(SendLimitCooldown, md_byGate d)]
      | _ \<Rightarrow> [])"

definition charges :: "mailboxDay \<Rightarrow> (limit_kind \<times> int) list" where
  "charges d =
     [(SendLimitCampaignDailyLimit, md_byCampaignLimit d), (SendLimitCampaignRamp, md_byRamp d),
      (SendLimitWarmupGraduation, md_byGraduation d), (SendLimitWorkspaceRisk, md_byRisk d)]
     @ gate_charge d
     @ [(SendLimitOtherCampaigns, md_byOther d), (SendLimitHealthPace, md_byHealthPace d),
        (SendLimitMailboxHours, md_byHours d), (SendLimitSendingBehavior, md_byBehavior d),
        (SendLimitSpacing, md_bySpacing d)]"

definition pool_tallies :: "mailboxDay list \<Rightarrow> tally list" where
  "pool_tallies days = fold (\<lambda>d. fold add_tally (charges d)) days empty_tallies"

definition mailbox_plan :: "mailboxDay \<Rightarrow> CampaignMailboxPlan" where
  "mailbox_plan d =
     \<lparr>mp_ID = em_ID (md_acct d), mp_ConfiguredCap = md_configured d, mp_CapToday = fst (md_cap d),
      mp_LimitedBy = snd (md_cap d), mp_SentToday = md_sentThis d,
      mp_SentByOtherCampaigns = md_sentOther d, mp_ExpectedRemaining = md_remaining d,
      mp_State = md_state d, mp_ReopensAt = md_reopensAt d, mp_Health = healthBand d,
      mp_MinGapSeconds = md_minGap d, mp_Graduation = md_graduation d\<rparr>"

definition pool_limits :: "tally list \<Rightarrow> CampaignSendLimit list" where
  "pool_limits ts =
     map (\<lambda>(k, e, m). \<lparr>cl_Kind = k, cl_Emails = e, cl_Mailboxes = m\<rparr>) (filter (\<lambda>(k, e, m). 0 < e) ts)"

definition biggest_tally :: "tally list \<Rightarrow> bottleneck" where
  "biggest_tally ts =
     snd (foldl (\<lambda>(n, b) (k, e, m). if n < e then (e, LimitBy k) else (n, b)) (0, NoBottleneck) ts)"

text \<open>A campaign-level clamp: what is left becomes \<open>x\<close> and the clamp is charged the difference.\<close>

type_synonym clamp_state = "int \<times> CampaignSendLimit list \<times> bottleneck"

definition clamp_to :: "limit_kind \<Rightarrow> int \<Rightarrow> clamp_state \<Rightarrow> clamp_state" where
  "clamp_to kind x st =
     (case st of (left, limits, b) \<Rightarrow>
        if left - x \<le> 0 then (x, limits, b)
        else (x, limits @ [\<lparr>cl_Kind = kind, cl_Emails = left - x, cl_Mailboxes = 0\<rparr>], LimitBy kind))"

definition clamp_if_less :: "limit_kind \<Rightarrow> int \<Rightarrow> clamp_state \<Rightarrow> clamp_state" where
  "clamp_if_less kind x st = (if x < fst st then clamp_to kind x st else st)"

definition unavailable_senders :: "Campaign \<Rightarrow> mailboxDay list \<Rightarrow> uuid set" where
  "unavailable_senders c days =
     set (map (em_ID \<circ> md_acct)
           (filter (\<lambda>d. md_remaining d = 0 \<and> (mg_paced (md_gate d) \<or> gate_open (md_gate d))
                         \<and> \<not> Rotates (ca_FollowUpSender c)) days))"

definition lead_clamps :: "Campaign \<Rightarrow> LeadSupply \<Rightarrow> int \<Rightarrow> clamp_state \<Rightarrow> clamp_state" where
  "lead_clamps c supply newLeadsToday st =
     (let newDue = su_DueNowNewLeads supply + su_DueLaterTodayNewLeads supply;
          followUps = su_DueNow supply + su_DueLaterToday supply - newDue;
          st = clamp_if_less SendLimitLeads (followUps + newDue) st
      in if 0 < ca_MaxNewLeadsPerDay c
         then clamp_if_less SendLimitNewLeadCap
                (followUps + min newDue (max 0 (ca_MaxNewLeadsPerDay c - newLeadsToday))) st
         else st)"

definition running_clamps :: "campaignPass \<Rightarrow> Campaign \<Rightarrow> int \<Rightarrow> clamp_state \<Rightarrow> clamp_state" where
  "running_clamps p c secondsLeft st =
     (let st = (if secondsLeft \<le> 0 then clamp_to SendLimitSendingWindow 0 st else st)
      in if ca_Status c \<noteq> ''active'' \<or> BlocksSending (ps_risk p) then clamp_to SendLimitNotRunning 0 st else st)"

text \<open>The workspace's own allowance; \<open>None\<close> when its count cannot be read.\<close>

definition org_allowance ::
  "plan_reads \<Rightarrow> Campaign \<Rightarrow> int \<Rightarrow> clamp_state \<Rightarrow> (clamp_state \<times> CampaignOrgAllowance option) option" where
  "org_allowance pl c orgDailyLimit st =
     (if 0 \<le> orgDailyLimit \<and> ca_OrganizationID c \<noteq> None
      then (case pl_orgSent pl of
              None \<Rightarrow> None
            | Some n \<Rightarrow> (let left = max 0 (orgDailyLimit - n)
                         in Some (clamp_if_less SendLimitOrgDailyLimit left st,
                                  Some \<lparr>oa_DailyLimit = orgDailyLimit, oa_SentToday = n, oa_Remaining = left\<rparr>)))
      else Some (st, None))"

definition new_leads_today :: "plan_reads \<Rightarrow> Campaign \<Rightarrow> int" where
  "new_leads_today pl c =
     (if 0 < ca_MaxNewLeadsPerDay c then (case pl_newLeadsToday pl of None \<Rightarrow> 0 | Some n \<Rightarrow> n) else 0)"

definition write_plan ::
  "plan_reads \<Rightarrow> Campaign \<Rightarrow> gtime \<Rightarrow> CampaignSendWindow \<Rightarrow> mailboxDay list \<Rightarrow> LeadSupply
     \<Rightarrow> CampaignOrgAllowance option \<Rightarrow> clamp_state \<Rightarrow> CampaignSendPlan" where
  "write_plan pl c now window days leads org st =
     (case st of (left, limits, b) \<Rightarrow>
        let sent = sum_list (map md_sentThis days)
        in \<lparr>sp_CampaignID = ca_ID c, sp_Status = ca_Status c,
            sp_Day = format_date (in_loc now UTC), sp_ComputedAt = now,
            sp_ConfiguredCeiling = sum_list (map md_configured days),
            sp_Projected = sent + left, sp_SentToday = sent, sp_ExpectedRemaining = left,
            sp_Bottleneck = (if left = 0 \<and> b = NoBottleneck \<and> 0 < sent then SendBottleneckBudgetSpent else b),
            sp_Limits = limits, sp_Window = window, sp_Supply = leads,
            sp_NewLeadsStartedToday = new_leads_today pl c, sp_Mailboxes = map mailbox_plan days,
            sp_Organization = org,
            sp_NextWakeAt = (if ca_Status c = ''active'' then campaignWakeup (pl_pending pl) else None)\<rparr>)"

definition plan_of_days ::
  "plan_reads \<Rightarrow> campaignPass \<Rightarrow> Campaign \<Rightarrow> gtime \<Rightarrow> int \<Rightarrow> CampaignSendWindow \<times> int \<times> gtime
     \<Rightarrow> mailboxDay list \<Rightarrow> CampaignSendPlan option" where
  "plan_of_days pl p c now orgDailyLimit win days =
     (case win of (window, secondsLeft, closesAt) \<Rightarrow>
      let ts = pool_tallies days
      in case org_allowance pl c orgDailyLimit
                (running_clamps p c secondsLeft
                   (sum_list (map md_remaining days), pool_limits ts, biggest_tally ts)) of
           None \<Rightarrow> None
         | Some (st, org) \<Rightarrow>
             (case pl_supply pl closesAt (unavailable_senders c days) of
                None \<Rightarrow> None
              | Some leads \<Rightarrow>
                  Some (write_plan pl c now window days leads org
                          (lead_clamps c leads (new_leads_today pl c) st))))"

text \<open>\<open>None\<close> is a read that failed.\<close>

definition PlanCampaignDay ::
  "tzdb \<Rightarrow> pass_sources \<Rightarrow> plan_reads \<Rightarrow> pass_reads \<Rightarrow> store \<Rightarrow> gtime \<Rightarrow> int \<Rightarrow> CampaignSendPlan option" where
  "PlanCampaignDay tzdb src pl rd st now orgDailyLimit =
     (case pl_campaign pl of
        None \<Rightarrow> None
      | Some c \<Rightarrow>
          (let c = projectRampLevel c (g_inst now)
           in case dayWindow tzdb c now of (window, secondsLeft, closesAt) \<Rightarrow>
              (case pl_senders pl of
                 None \<Rightarrow> None
               | Some accounts \<Rightarrow>
                   (case prefillPool rd (newCampaignPass tzdb src (g_inst now) st c accounts) accounts of
                      None \<Rightarrow> None
                    | Some p \<Rightarrow>
                        (case (pl_sentBySender pl, pr_lastEmailTimes rd (map em_ID accounts)) of
                           (Some sentBy, Some lastSends) \<Rightarrow>
                             (case plan_days tzdb (src_behavior src) rd now sentBy lastSends secondsLeft closesAt accounts p of
                                None \<Rightarrow> None
                              | Some days \<Rightarrow> plan_of_days pl p c now orgDailyLimit (window, secondsLeft, closesAt) days)
                         | _ \<Rightarrow> None)))))"

section \<open>The capacity of a pool\<close>

record WorkspaceSendCapacity =
  wc_Capacity :: int
  wc_Remaining :: int
  wc_ConfiguredCeiling :: int
  wc_Mailboxes :: int
  wc_Held :: int

text \<open>Whether a mailbox is held for the day: by a standing gate, or by a profile that never works.\<close>

definition capacity_held ::
  "bool \<Rightarrow> pass_reads \<Rightarrow> gtime \<Rightarrow> campaignPass \<Rightarrow> EmailAccount \<Rightarrow> bool \<times> campaignPass" where
  "capacity_held wired rd now p acct =
     (case gateFor rd (g_inst now) p acct 1 of ((gate, _), p) \<Rightarrow>
        if \<not> gate_open gate \<and> mg_reason gate \<noteq> Some gateBudget \<and> mg_reason gate \<noteq> Some gateNoWorker
        then (True, p)
        else if rs_Enabled (behavior_of p (em_ID acct))
        then (case with_behavior p (em_ID acct) (placeWithinBehavior wired (g_inst now) now) of
                (openAt, p) \<Rightarrow> (openAt = None, p))
        else (False, p))"

fun pool_capacity ::
  "bool \<Rightarrow> pass_reads \<Rightarrow> gtime \<Rightarrow> EmailAccount list \<Rightarrow> WorkspaceSendCapacity \<times> campaignPass
     \<Rightarrow> WorkspaceSendCapacity \<times> campaignPass" where
  "pool_capacity wired rd now [] (out, p) = (out, p)"
| "pool_capacity wired rd now (acct # accounts) (out, p) =
     (let out = out\<lparr>wc_ConfiguredCeiling := wc_ConfiguredCeiling out + ea_CampaignLimit acct\<rparr>;
          capv = effectiveCap (g_inst now) p acct
      in case capacity_held wired rd now p acct of (held, p) \<Rightarrow>
         if held \<or> capv \<le> 0
         then pool_capacity wired rd now accounts (out\<lparr>wc_Held := wc_Held out + 1\<rparr>, p)
         else (let out = out\<lparr>wc_Mailboxes := wc_Mailboxes out + 1, wc_Capacity := wc_Capacity out + capv\<rparr>
               in case sentTodayFor rd p (em_ID acct) of
                    (None, p) \<Rightarrow> pool_capacity wired rd now accounts (out, p)
                  | (Some sent, p) \<Rightarrow>
                      pool_capacity wired rd now accounts
                        (out\<lparr>wc_Remaining := wc_Remaining out + max 0 (capv - sent)\<rparr>, p)))"

definition PoolCapacityToday ::
  "tzdb \<Rightarrow> pass_sources \<Rightarrow> pass_reads \<Rightarrow> store \<Rightarrow> gtime \<Rightarrow> Campaign \<Rightarrow> EmailAccount list \<Rightarrow> WorkspaceSendCapacity" where
  "PoolCapacityToday tzdb src rd st now c accounts =
     (let p = newCampaignPass tzdb src (g_inst now) st c accounts;
          p = (case prefillPool rd p accounts of None \<Rightarrow> p | Some p \<Rightarrow> p)
      in fst (pool_capacity (src_behavior src) rd now accounts
                (\<lparr>wc_Capacity = 0, wc_Remaining = 0, wc_ConfiguredCeiling = 0, wc_Mailboxes = 0, wc_Held = 0\<rparr>, p)))"

section \<open>The waterfall of one mailbox\<close>

text \<open>A product that dampens never rounds above its factor, whatever the size of the factor.\<close>

lemma f64_upper:
  assumes "1 / 2 \<le> x"
  shows "f64 x \<le> x * (1 + 1 / 2 ^ 52)"
proof -
  have x: "0 < x" using assms by simp
  have "pow2 (- 1) \<le> x" using assms by (simp add: pow2_def)
  then have "pow2 (- 1) < pow2 (ilog2 x + 1)" using ilog2_bounds(2) [OF x] by (rule le_less_trans)
  then have e: "f64_exp x = ilog2 x - 52" using x by (simp add: pow2_less_iff f64_exp_def)
  have "pow2 (ilog2 x - 52) = pow2 (ilog2 x) * pow2 (- 52)" using pow2_add [of "ilog2 x" "- 52"] by simp
  also have "\<dots> \<le> x * pow2 (- 52)" using ilog2_bounds(1) [OF x] by (intro mult_right_mono) (simp_all add: less_imp_le)
  finally have u: "pow2 (f64_exp x) \<le> x * (1 / 2 ^ 52)" by (simp add: e pow2_def)
  let ?y = "x / pow2 (f64_exp x)"
  have "of_int (rne ?y) \<le> ?y + 1" using rne_bounds(2) [of ?y] of_int_floor_le [of ?y] by linarith
  then have "of_int (rne ?y) * pow2 (f64_exp x) \<le> (?y + 1) * pow2 (f64_exp x)"
    by (intro mult_right_mono) (simp_all add: less_imp_le)
  also have "\<dots> = x + pow2 (f64_exp x)" by (simp add: field_simps)
  finally have "f64 x \<le> x + pow2 (f64_exp x)" using x by (simp add: f64_def)
  with u show ?thesis by (simp add: algebra_simps)
qed

lemma volumeMultiplier_dampens:
  "volumeMultiplier s < 1 \<Longrightarrow> 0 \<le> volumeMultiplier s \<and> volumeMultiplier s \<le> 71 / 100"
proof -
  have f: "0 \<le> f64 (1 / 2)" "f64 (1 / 2) \<le> 71 / 100" "0 \<le> f64 (7 / 10)" "f64 (7 / 10) \<le> 71 / 100"
    by code_simp+
  show "volumeMultiplier s < 1 \<Longrightarrow> 0 \<le> volumeMultiplier s \<and> volumeMultiplier s \<le> 71 / 100"
    using f by (simp add: volumeMultiplier_def split: if_split_asm)
qed

lemma dampened_bounds:
  assumes r: "0 \<le> r" and m: "0 \<le> m" "m \<le> 71 / 100"
  shows "0 \<le> trunc (fmul (f_of r) m)" "trunc (fmul (f_of r) m) \<le> r"
proof -
  have "0 \<le> f_of r" using r f_of_mono [of 0 r] by (simp add: f_of_def)
  then show "0 \<le> trunc (fmul (f_of r) m)"
    unfolding fmul_def by (intro trunc_ge_int) (use m in \<open>simp add: f64_nonneg\<close>)
  show "trunc (fmul (f_of r) m) \<le> r"
  proof (cases "r = 0")
    case True
    then show ?thesis by (simp add: fmul_def f_of_def trunc_def)
  next
    case False
    with r have r1: "1 \<le> (of_int r :: rat)" by simp
    have "f_of r \<le> of_int r * (1 + 1 / 2 ^ 52)" unfolding f_of_def by (rule f64_upper) (use r1 in simp)
    then have "f_of r * m \<le> of_int r * (1 + 1 / 2 ^ 52) * (71 / 100)"
      using m \<open>0 \<le> f_of r\<close> r1 by (intro mult_mono) simp_all
    also have "\<dots> \<le> of_int r * (3 / 4)" using r1 by simp
    finally have "fmul (f_of r) m \<le> f64 (of_int r * (3 / 4))" unfolding fmul_def by (rule f64_mono)
    also have "\<dots> \<le> of_int r * (3 / 4) * (1 + 1 / 2 ^ 52)" by (rule f64_upper) (use r1 in simp)
    also have "\<dots> \<le> of_int r" using r1 by simp
    finally show ?thesis by (rule trunc_le_int)
  qed
qed

text \<open>The deltas of a mailbox, and the equation the plan keeps while it walks.\<close>

definition clamp_deltas :: "mailboxDay \<Rightarrow> int list" where
  "clamp_deltas d = [md_byCampaignLimit d, md_byRamp d, md_byGraduation d, md_byRisk d]"

definition day_deltas :: "mailboxDay \<Rightarrow> int list" where
  "day_deltas d = [md_byGate d, md_byOther d, md_byHealthPace d, md_byHours d, md_byBehavior d, md_bySpacing d]"

definition carries :: "mailboxDay \<Rightarrow> int \<Rightarrow> bool" where
  "carries d r \<longleftrightarrow>
     md_configured d - md_sentThis d = sum_list (clamp_deltas d) + sum_list (day_deltas d) + r
     \<and> (\<forall>x \<in> set (clamp_deltas d @ day_deltas d). 0 \<le> x) \<and> 0 \<le> r"

text \<open>A day still walking: nothing charged yet to the gates, the hours or the spacing.\<close>

definition walking :: "mailboxDay \<Rightarrow> int \<Rightarrow> bool" where
  "walking d r \<longleftrightarrow> carries d r \<and> md_remaining d = 0 \<and> md_byGate d = 0 \<and> md_byHours d = 0
     \<and> md_bySpacing d = 0"

lemma waterfall_sum:
  "waterfall sent r cs = (ds, r') \<Longrightarrow> r = sum_list ds + r' \<and> length ds = length cs"
  by (induction cs arbitrary: r ds) (auto simp: Let_def split: prod.split_asm)

lemma waterfall_falls:
  "waterfall sent (cap_room c sent) cs = (ds, r') \<Longrightarrow> sorted_wrt (\<lambda>x y. y \<le> x) (c # cs)
     \<Longrightarrow> (\<forall>x \<in> set ds. 0 \<le> x) \<and> 0 \<le> r'"
proof (induction cs arbitrary: c ds)
  case Nil
  then show ?case by (auto simp: cap_room_def)
next
  case (Cons b cs)
  obtain ds' where w: "waterfall sent (cap_room b sent) cs = (ds', r')"
    "ds = (cap_room c sent - cap_room b sent) # ds'"
    using Cons.prems(1) by (auto simp: Let_def split: prod.split_asm)
  have "b \<le> c" using Cons.prems(2) by simp
  then have "cap_room b sent \<le> cap_room c sent" by (auto simp: cap_room_def max_def)
  with Cons.IH [OF w(1)] Cons.prems(2) w(2) show ?case by simp
qed

lemma staged_falls:
  assumes "stagedCap now p acct = (stages, by')"
  obtains a b c d where "stages = [ea_CampaignLimit acct, a, b, c, d]"
    "sorted_wrt (\<lambda>x y. y \<le> x) [ea_CampaignLimit acct, a, b, c, d]"
proof -
  have clamp: "fst (if t then clamp_cap v w x else x) \<le> fst x" for t v w x by simp
  from assms obtain c1 c2 c3 c4 :: "int \<times> string" where
    st: "stages = [ea_CampaignLimit acct, fst c1, fst c2, fst c3, fst c4]"
    and le: "fst c1 \<le> ea_CampaignLimit acct" "fst c2 \<le> fst c1" "fst c3 \<le> fst c2" "fst c4 \<le> fst c3"
    unfolding stagedCap_def Let_def prod.inject
    using clamp [of _ _ _ "(ea_CampaignLimit acct, ''mailbox_daily_cap'')"] clamp clamp_cap_le(1)
    by (metis fst_conv)
  show thesis by (rule that [OF st]) (use le in simp)
qed

lemma plan_clamps_walking:
  assumes "plan_clamps now p (new_day acct sentThis sentAll) = (d, r)"
  shows "walking d r" "md_byOther d = 0" "md_byHealthPace d = 0" "md_byBehavior d = 0" "0 \<le> md_sentOther d"
    "md_gate d = open_gate" "md_configured d = max (ea_CampaignLimit acct) sentThis" "md_sentThis d = sentThis"
    "md_acct d = acct"
proof -
  obtain stages by' where st: "stagedCap now p acct = (stages, by')" by (cases "stagedCap now p acct")
  obtain a b c e where stages: "stages = [ea_CampaignLimit acct, a, b, c, e]"
    and sorted: "sorted_wrt (\<lambda>x y. y \<le> x) [ea_CampaignLimit acct, a, b, c, e]"
    using st by (rule staged_falls)
  let ?r0 = "cap_room (max (ea_CampaignLimit acct) sentThis) sentThis"
  have r0: "?r0 = cap_room (ea_CampaignLimit acct) sentThis" "?r0 = max (ea_CampaignLimit acct) sentThis - sentThis"
    by (auto simp: cap_room_def)
  obtain ds r' where wf: "waterfall sentThis ?r0 [a, b, c, e] = (ds, r')" by (cases "waterfall sentThis ?r0 [a, b, c, e]")
  then obtain d0 d1 d2 d3 where ds: "ds = [d0, d1, d2, d3]"
    using waterfall_sum [OF wf] by (auto simp: length_Suc_conv)
  have sum: "?r0 = d0 + d1 + d2 + d3 + r'" using waterfall_sum [OF wf] ds by simp
  have nn: "0 \<le> d0" "0 \<le> d1" "0 \<le> d2" "0 \<le> d3" "0 \<le> r'"
    using waterfall_falls [OF wf [unfolded r0(1)] sorted] ds by auto
  show "walking d r" "md_byOther d = 0" "md_byHealthPace d = 0" "md_byBehavior d = 0" "0 \<le> md_sentOther d"
    "md_gate d = open_gate" "md_configured d = max (ea_CampaignLimit acct) sentThis" "md_sentThis d = sentThis"
    "md_acct d = acct"
    using assms wf sum nn r0(2)
    by (auto simp: plan_clamps_def new_day_def st stages ds Let_def walking_def carries_def
        clamp_deltas_def day_deltas_def)
qed

lemmas walk_defs = walking_def carries_def clamp_deltas_def day_deltas_def

lemma plan_health_pace_walking:
  assumes "plan_health_pace d r = (d', r')" "walking d r" "md_byHealthPace d = 0"
  shows "walking d' r'"
    and "md_gate d' = md_gate d \<and> md_acct d' = md_acct d \<and> md_configured d' = md_configured d
       \<and> md_sentThis d' = md_sentThis d \<and> md_byBehavior d' = md_byBehavior d"
proof -
  let ?m = "volumeMultiplier (hr_state (md_health d))"
  have "0 \<le> r" using assms(2) by (simp add: walk_defs)
  then have b: "0 \<le> trunc (fmul (f_of r) ?m) \<and> trunc (fmul (f_of r) ?m) \<le> r" if "?m < 1"
    using dampened_bounds [of r ?m] volumeMultiplier_dampens [OF that] by simp
  show "walking d' r'"
    using assms b by (auto simp: plan_health_pace_def Let_def walk_defs split: if_split_asm)
  show "md_gate d' = md_gate d \<and> md_acct d' = md_acct d \<and> md_configured d' = md_configured d
       \<and> md_sentThis d' = md_sentThis d \<and> md_byBehavior d' = md_byBehavior d"
    using assms(1) by (auto simp: plan_health_pace_def Let_def split: if_split_asm)
qed

text \<open>A step of the clock either ends the day with everything charged, or walks on.\<close>

definition kept :: "mailboxDay \<Rightarrow> mailboxDay \<Rightarrow> bool" where
  "kept d d' \<longleftrightarrow> md_acct d' = md_acct d \<and> md_configured d' = md_configured d \<and> md_sentThis d' = md_sentThis d
     \<and> md_byGate d' = md_byGate d"

definition step_ok :: "mailboxDay \<Rightarrow> plan_step \<Rightarrow> bool" where
  "step_ok d0 s \<longleftrightarrow>
     (case s of
        Inl d \<Rightarrow> carries d 0 \<and> md_remaining d = 0 \<and> kept d0 d
      | Inr (d, r, secondsLeft) \<Rightarrow> walking d r \<and> kept d0 d)"

lemma plan_closed_ok: "walking d r \<Longrightarrow> step_ok d (Inl (plan_closed t d r))"
  by (simp add: step_ok_def plan_closed_def walk_defs kept_def)

lemma plan_hourly_walking:
  assumes "plan_hourly plan s d r = (d', r')" "walking d r" "0 \<le> s"
  shows "walking d' r' \<and> kept d d'"
proof -
  have "0 \<le> dp_HourlyLimit plan * tdiv (s + 3599) 3600" if "0 < dp_HourlyLimit plan"
    using that assms(3) by simp
  then show ?thesis
    using assms(1,2) by (auto simp: plan_hourly_def Let_def walk_defs kept_def split: if_split_asm)
qed

lemma behaviorDailyCap_nonneg:
  "0 \<le> r \<Longrightarrow> with_behavior p u (behaviorDailyCap wired now r t) = (c, q) \<Longrightarrow> 0 \<le> c"
proof -
  have "0 \<le> fst (RemainingToday now rs t)" for rs
    by (auto simp: RemainingToday_def Let_def unlimited_def split: prod.split)
  then have "0 \<le> fst (behaviorDailyCap wired now r t rs)" if "0 \<le> r" for rs
    using that by (simp add: behaviorDailyCap_def case_prod_unfold)
  then show "0 \<le> r \<Longrightarrow> with_behavior p u (behaviorDailyCap wired now r t) = (c, q) \<Longrightarrow> 0 \<le> c"
    by (auto simp: with_behavior_def split: option.split_asm prod.split_asm) (metis fst_conv)
qed

lemma plan_profile_open_ok:
  assumes "plan_profile_open wired now p d r s openAt = (res, q)" "walking d r" "0 \<le> s"
  shows "step_ok d res"
proof -
  let ?acct = "md_acct d" and ?t = "g_inst now"
  let ?i = "em_ID ?acct"
  let ?loc = "rs_Loc (behavior_of p ?i)"
  obtain capv p1 where c: "with_behavior p ?i (behaviorDailyCap wired ?t r openAt) = (capv, p1)"
    by (cases "with_behavior p ?i (behaviorDailyCap wired ?t r openAt)")
  obtain gap p2 where g: "with_behavior p1 ?i (behaviorGapFloor ?t openAt (ea_MinWaitTime ?acct)) = (gap, p2)"
    by (cases "with_behavior p1 ?i (behaviorGapFloor ?t openAt (ea_MinWaitTime ?acct))")
  obtain plan p3 where pl: "with_behavior p2 ?i (PlanOn ?t (PlanDateFor openAt ?loc)) = (plan, p3)"
    by (cases "with_behavior p2 ?i (PlanOn ?t (PlanDateFor openAt ?loc))")
  define next' where "next' = min r capv"
  define d1 where "d1 = d\<lparr>md_byBehavior := md_byBehavior d + (r - next')\<rparr>"
  have "0 \<le> r" using assms(2) by (simp add: walk_defs)
  with c have "0 \<le> capv" by (rule behaviorDailyCap_nonneg [rotated])
  with \<open>0 \<le> r\<close> have nx: "0 \<le> next'" "next' \<le> r" by (auto simp: next'_def)
  have w1: "walking d1 next'" using assms(2) nx by (simp add: d1_def walk_defs)
  have k1: "kept d d1" "md_acct d1 = ?acct" by (simp_all add: d1_def kept_def)
  define s1 where "s1 = min s (max 0 (whole_seconds (plan_work_end ?loc plan openAt) openAt))"
  have s1: "0 \<le> s1" using assms(3) by (simp add: s1_def)
  obtain d3 r3 where h: "plan_hourly plan s1 (d1\<lparr>md_minGap := gap\<rparr>) next' = (d3, r3)"
    by (cases "plan_hourly plan s1 (d1\<lparr>md_minGap := gap\<rparr>) next'")
  have w2: "walking (d1\<lparr>md_minGap := gap\<rparr>) next'" using w1 by (simp add: walk_defs)
  have res: "res = (if next' = 0 then Inl (plan_spent d1) else Inr (d3, r3, s1))"
    using assms(1) c g pl h unfolding next'_def d1_def s1_def
    by (cases "min r capv = 0") (simp_all add: plan_profile_open_def Let_def)
  show ?thesis
  proof (cases "next' = 0")
    case True
    then show ?thesis
      using res w1 k1 by (simp add: step_ok_def plan_spent_def walk_defs kept_def)
  next
    case False
    have "walking d3 r3 \<and> kept (d1\<lparr>md_minGap := gap\<rparr>) d3" using plan_hourly_walking [OF h w2 s1] .
    with False res k1 show ?thesis by (simp add: step_ok_def kept_def)
  qed
qed

lemma units_of_nonneg: "0 \<le> d \<Longrightarrow> 0 < u \<Longrightarrow> 0 \<le> units_of u d"
  by (simp add: units_of_def fadd_def fdiv_def f_of_def f64_nonneg pos_imp_zdiv_nonneg_iff)

lemma whole_seconds_nonneg: "g_inst u \<le> g_inst t \<Longrightarrow> 0 \<le> whole_seconds t u"
proof -
  assume "g_inst u \<le> g_inst t"
  then have "0 \<le> tsub (g_inst t) (g_inst u)" by (simp add: tsub_def)
  then have "0 \<le> units_of Second (tsub (g_inst t) (g_inst u))" by (rule units_of_nonneg) simp
  then show ?thesis unfolding whole_seconds_def by (intro trunc_ge_int) simp
qed

lemma plan_profile_ok:
  assumes "plan_profile wired now p d r s closesAt = (res, q)" "walking d r" "0 \<le> s" "md_byBehavior d = 0"
  shows "step_ok d res"
proof -
  let ?i = "em_ID (md_acct d)" and ?t = "g_inst now"
  let ?loc = "rs_Loc (behavior_of p ?i)"
  obtain today p1 where td: "with_behavior p ?i (PlanOn ?t (PlanDateFor now ?loc)) = (today, p1)"
    by (cases "with_behavior p ?i (PlanOn ?t (PlanDateFor now ?loc))")
  obtain spent p2 where sp: "(if dp_IsWorkingDay today \<and> MinuteOfDay now ?loc < dp_WorkEndMinute today
      then (case with_behavior p1 ?i (behaviorDailyCap wired ?t r now) of (left, p) \<Rightarrow> (left = 0, p))
      else (False, p1)) = (spent, p2)" by (metis prod.exhaust)
  obtain op p3 where pl: "with_behavior p2 ?i (placeWithinBehavior wired ?t now) = (op, p3)"
    by (cases "with_behavior p2 ?i (placeWithinBehavior wired ?t now)")
  have res: "(res, q) = (if spent then (Inl ((plan_spent d)\<lparr>md_byBehavior := r\<rparr>), p2)
      else case op of
          None \<Rightarrow> (Inl (d\<lparr>md_state := Some MailboxPlanNoWorkingDay, md_gate := shut gateNoWorkday,
                            md_byHours := r\<rparr>), p3)
        | Some openAt \<Rightarrow>
            if \<not> sameLocalDay openAt now (Some ?loc) then (Inl (plan_closed openAt d r), p3)
            else if after openAt now \<and> \<not> before openAt closesAt then (Inl (plan_closed openAt d r), p3)
            else if after openAt now
            then plan_profile_open wired now p3 (d\<lparr>md_reopensAt := Some openAt\<rparr>) r
                   (min s (whole_seconds closesAt openAt)) openAt
            else plan_profile_open wired now p3 d r s openAt)"
    using assms(1) unfolding plan_profile_def Let_def td prod.case sp pl by (simp split: option.split)
  show ?thesis
  proof (cases spent)
    case True
    with res assms(2,4) show ?thesis by (simp add: step_ok_def plan_spent_def walk_defs kept_def)
  next
    case False
    show ?thesis
    proof (cases op)
      case None
      with res False assms(2) show ?thesis by (simp add: step_ok_def walk_defs kept_def)
    next
      case (Some openAt)
      have keep: "step_ok d x" if "step_ok (d\<lparr>md_reopensAt := Some openAt\<rparr>) x" for x
        using that by (auto simp: step_ok_def kept_def split: sum.split_asm)
      have w: "walking (d\<lparr>md_reopensAt := Some openAt\<rparr>) r" using assms(2) by (simp add: walk_defs)
      have secs: "0 \<le> min s (whole_seconds closesAt openAt)" if "before openAt closesAt"
        using assms(3) whole_seconds_nonneg [of openAt closesAt] that by (simp add: before_def)
      show ?thesis
        using res [symmetric] False Some plan_closed_ok [OF assms(2)] plan_profile_open_ok [OF _ assms(2,3)]
          keep [OF plan_profile_open_ok [OF _ w secs]]
        by (auto split: if_split_asm)
    qed
  qed
qed

lemma plan_band_ok: "walking d r \<Longrightarrow> step_ok d (plan_band tzdb now d r s closesAt)"
  by (auto simp: plan_band_def Let_def plan_closed_ok) (auto simp: step_ok_def walk_defs kept_def)

lemma plan_clock_ok:
  assumes "plan_clock tzdb wired now p d r s closesAt = (res, q)" "walking d r" "0 \<le> s" "md_byBehavior d = 0"
  shows "step_ok d res"
  using assms plan_profile_ok plan_band_ok [OF assms(2), of tzdb now s closesAt]
  by (auto simp: plan_clock_def step_ok_def kept_def split: if_split_asm)

lemma plan_spacing_carries:
  assumes "walking d r"
  shows "carries (plan_spacing b now l d r s) (md_remaining (plan_spacing b now l d r s))"
    and "kept d (plan_spacing b now l d r s)"
proof -
  define start where "start = (case md_reopensAt d of None \<Rightarrow> now | Some t \<Rightarrow> if after t now then t else now)"
  define earliest where "earliest = (case l of None \<Rightarrow> None
      | Some l \<Rightarrow> if 0 < md_minGap d \<and> g_inst start < l + Second * md_minGap d
                  then Some (at_utc (l + Second * md_minGap d)) else None)"
  define s' where "s' = (case earliest of None \<Rightarrow> s | Some t \<Rightarrow> s - whole_seconds t start)"
  define pm where "pm = (if 0 \<le> s' then if 0 < md_minGap d then 1 + tdiv s' (md_minGap d) else r else 0)"
  have r: "0 \<le> r" using assms by (simp add: walk_defs)
  then have pm: "0 \<le> pm" by (auto simp: pm_def pos_imp_zdiv_nonneg_iff)
  let ?d = "d\<lparr>md_bySpacing := r - min r pm, md_remaining := min r pm\<rparr>"
  have eq: "plan_spacing b now l d r s = (if 0 < min r pm
      then ?d\<lparr>md_state := Some (if b then MailboxPlanNoWorker else MailboxPlanSending)\<rparr>
      else ?d\<lparr>md_state := Some MailboxPlanHoursClosed,
             md_reopensAt := (case earliest of None \<Rightarrow> md_reopensAt ?d | Some t \<Rightarrow> Some t)\<rparr>)"
    unfolding plan_spacing_def Let_def start_def [symmetric] earliest_def [symmetric] s'_def [symmetric]
      pm_def [symmetric] ..
  show "carries (plan_spacing b now l d r s) (md_remaining (plan_spacing b now l d r s))"
    unfolding eq using assms pm r by (auto simp: walk_defs)
  show "kept d (plan_spacing b now l d r s)" unfolding eq by (simp add: kept_def)
qed

text \<open>The gates a pass remembers are answers of the admission query.\<close>

definition send_reasons :: "gate_reason option set" where
  "send_reasons = {None, Some gateRecovery, Some gateCooldown, Some gateAdmission}"

definition gates_ok :: "campaignPass \<Rightarrow> bool" where
  "gates_ok p \<longleftrightarrow> (\<forall>u g. ps_sendGates p u = Some g \<longrightarrow> mg_reason g \<in> send_reasons)"

lemma admission_gate_reasons: "mg_reason (admission_gate now a) \<in> send_reasons"
  by (simp add: admission_gate_def open_gate_def send_reasons_def split: option.split)

lemma sendGate_ok:
  assumes "sendGate rd now p a = (g, q)" "gates_ok p"
  shows "gates_ok q \<and> mg_reason g \<in> send_reasons"
proof -
  have "mg_reason open_gate \<in> send_reasons" "mg_reason (shut gateAdmission) \<in> send_reasons"
    by (simp_all add: open_gate_def send_reasons_def)
  then show ?thesis
    using assms admission_gate_reasons
    by (auto simp: sendGate_def gates_ok_def Let_def simp del: mailboxGate.simps split: option.split_asm if_split_asm)
qed

lemma same_gates:
  "healthFor rd p u = (h, q) \<Longrightarrow> ps_sendGates q = ps_sendGates p"
  "workerReachable rd p a = (l, q) \<Longrightarrow> ps_sendGates q = ps_sendGates p"
  "with_behavior p u f = (x, q) \<Longrightarrow> ps_sendGates q = ps_sendGates p"
  by (auto simp: healthFor_def workerReachable_def with_behavior_def Let_def
      split: option.split_asm prod.split_asm)

text \<open>The gates a mailbox can be held by.\<close>

definition holding :: "gate_reason option set" where
  "holding = Some ` {gateAuth, gateResting, gateHealth, gateRecovery, gateCooldown, gateAdmission}"

lemma gateFor_ok:
  assumes "gateFor rd now p a r = ((g, r'), q)" "gates_ok p"
  shows "gates_ok q \<and> mg_reason g \<in> {None, Some gateBudget, Some gateNoWorker} \<union> holding"
proof -
  obtain g0 p1 where sg: "sendGate rd now p a = (g0, p1)" by (cases "sendGate rd now p a")
  note s = sendGate_ok [OF sg assms(2)]
  obtain h p2 where hf: "healthFor rd p1 (em_ID a) = (h, p2)" by (cases "healthFor rd p1 (em_ID a)")
  obtain l p3 where wr: "workerReachable rd p2 a = (l, p3)" by (cases "workerReachable rd p2 a")
  have ok: "gates_ok p2" "gates_ok p3"
    using s same_gates(1) [OF hf] same_gates(2) [OF wr] by (simp_all add: gates_ok_def)
  have hg: "mg_reason (fst (health_gate now h r)) \<in> {None, Some gateHealth}"
    by (simp add: health_gate_def open_gate_def split: option.split)
  obtain g1 r1 where h1: "health_gate now h r = (g1, r1)" by (cases "health_gate now h r")
  show ?thesis
    using assms(1) sg hf wr s ok hg h1
    by (auto simp: gateFor_def holding_def send_reasons_def open_gate_def split: if_split_asm)
qed

lemma plan_clock_gates:
  "plan_clock tzdb wired now p d r s closesAt = (res, q) \<Longrightarrow> ps_sendGates q = ps_sendGates p"
  by (auto simp: plan_clock_def plan_profile_def plan_profile_open_def Let_def
      split: prod.split_asm if_split_asm option.split_asm dest!: same_gates(3))

lemma planMailbox_adds_up:
  assumes "planMailbox tzdb wired rd now p acct sentThis sentAll lastSend windowSecondsLeft closesAt = (d, q)"
    and "0 \<le> windowSecondsLeft" "gates_ok p"
  shows "carries d (md_remaining d)" "md_configured d = max (ea_CampaignLimit acct) sentThis"
    "md_sentThis d = sentThis" "md_byGate d \<noteq> 0 \<longrightarrow> mg_reason (md_gate d) \<in> holding" "gates_ok q"
proof -
  obtain d0 r0 where cl: "plan_clamps (g_inst now) p (new_day acct sentThis sentAll) = (d0, r0)"
    by (cases "plan_clamps (g_inst now) p (new_day acct sentThis sentAll)")
  obtain gate gr p1 where gf: "gateFor rd (g_inst now) p acct 1 = ((gate, gr), p1)" by (metis prod.exhaust)
  obtain h p2 where hf: "healthFor rd p1 (em_ID acct) = (h, p2)" by (cases "healthFor rd p1 (em_ID acct)")
  note c = plan_clamps_walking [OF cl]
  note g = gateFor_ok [OF gf assms(3)]
  have g2: "gates_ok p2" using g same_gates(1) [OF hf] by (simp add: gates_ok_def)
  define d1 where "d1 = d0\<lparr>md_health := h\<rparr>"
  define left where "left = max 0 (r0 - md_sentOther d1)"
  define d2 where "d2 = d1\<lparr>md_byOther := r0 - left\<rparr>"
  obtain d3 r3 where hp: "plan_health_pace d2 left = (d3, r3)" by (cases "plan_health_pace d2 left")
  obtain res p3 where ck: "plan_clock tzdb wired now p2 d3 r3 windowSecondsLeft closesAt = (res, p3)"
    by (cases "plan_clock tzdb wired now p2 d3 r3 windowSecondsLeft closesAt")
  have r0: "0 \<le> r0" using c(1) by (simp add: walk_defs)
  have le: "0 \<le> left" "left \<le> r0" using r0 c(5) by (auto simp: left_def d1_def)
  have w2: "walking d2 left" "md_byHealthPace d2 = 0" "md_byBehavior d2 = 0"
    using c(1-4) le by (auto simp: d2_def d1_def walk_defs)
  have same2: "md_configured d2 = max (ea_CampaignLimit acct) sentThis" "md_sentThis d2 = sentThis" "md_byGate d2 = 0"
    using c w2 by (simp_all add: d2_def d1_def walk_defs)
  note hpw = plan_health_pace_walking [OF hp w2(1,2)]
  have b3: "md_byBehavior d3 = 0" using hpw(2) w2(3) by simp
  note ok = plan_clock_ok [OF ck hpw(1) assms(2) b3]
  have g3: "gates_ok p3" using g2 plan_clock_gates [OF ck] by (simp add: gates_ok_def)
  let ?held = "\<not> gate_open gate \<and> mg_reason gate \<noteq> Some gateBudget \<and> mg_reason gate \<noteq> Some gateNoWorker"
  have res: "(d, q) = (if ?held then (plan_held gate d1 r0, p2)
     else if left = 0 then (plan_spent d2, p2)
     else case res of Inl d \<Rightarrow> (d, p3)
        | Inr (d, left, secondsLeft) \<Rightarrow>
            if windowSecondsLeft \<le> 0
            then (d\<lparr>md_state := Some MailboxPlanWindowClosed, md_remaining := left\<rparr>, p3)
            else (plan_spacing (mg_reason gate = Some gateNoWorker) now lastSend d left secondsLeft, p3))"
    using assms(1) [symmetric]
    unfolding planMailbox_def cl gf hf prod.case Let_def d1_def [symmetric] left_def [symmetric]
      d2_def [symmetric] hp ck
    by (cases res) (simp_all only: sum.case prod.case split: prod.split)
  have fields3: "md_configured d3 = max (ea_CampaignLimit acct) sentThis" "md_sentThis d3 = sentThis" "md_byGate d3 = 0"
    using hpw same2 by (auto simp: walk_defs)
  have all: "carries d (md_remaining d) \<and> md_configured d = max (ea_CampaignLimit acct) sentThis
    \<and> md_sentThis d = sentThis \<and> (md_byGate d \<noteq> 0 \<longrightarrow> mg_reason (md_gate d) \<in> holding) \<and> gates_ok q"
  proof (cases ?held)
    case True
    with res have d: "d = plan_held gate d1 r0" "q = p2" by auto
    have "mg_reason gate \<in> holding" using g True by auto
    with c g2 d show ?thesis by (auto simp: plan_held_def d1_def walk_defs)
  next
    case notheld: False
    show ?thesis
    proof (cases "left = 0")
      case True
      with res notheld have "d = plan_spent d2" "q = p2" by auto
      with True w2 same2 g2 show ?thesis by (auto simp: plan_spent_def walk_defs)
    next
      case False
      show ?thesis
      proof (cases res)
        case (Inl dd)
        with res notheld False have "d = dd" "q = p3" by auto
        with Inl ok g3 fields3 show ?thesis by (auto simp: step_ok_def kept_def)
      next
        case (Inr b)
        obtain dd rr ss where b: "b = (dd, rr, ss)" by (cases b)
        with Inr ok have w: "walking dd rr" "kept d3 dd" by (auto simp: step_ok_def)
        have res': "q = p3" "d = (if windowSecondsLeft \<le> 0
            then dd\<lparr>md_state := Some MailboxPlanWindowClosed, md_remaining := rr\<rparr>
            else plan_spacing (mg_reason gate = Some gateNoWorker) now lastSend dd rr ss)"
          using res notheld False Inr b by (auto split: if_split_asm)
        show ?thesis
          using w plan_spacing_carries [OF w(1)] g3 fields3 unfolding res'
          by (auto simp: kept_def walk_defs)
      qed
    qed
  qed
  then show "carries d (md_remaining d)" "md_configured d = max (ea_CampaignLimit acct) sentThis"
    "md_sentThis d = sentThis" "md_byGate d \<noteq> 0 \<longrightarrow> mg_reason (md_gate d) \<in> holding" "gates_ok q" by blast+
qed

section \<open>The waterfall of the pool\<close>

definition tally_sum :: "tally list \<Rightarrow> int" where
  "tally_sum ts = sum_list (map (\<lambda>(k, e, m). e) ts)"

definition tally_kinds :: "tally list \<Rightarrow> limit_kind set" where
  "tally_kinds ts = fst ` set ts"

lemma bump_kinds [simp]: "tally_kinds (bump k n ts) = tally_kinds ts"
  by (induction k n ts rule: bump.induct) (auto simp: tally_kinds_def)

lemma bump_sum: "k \<in> tally_kinds ts \<Longrightarrow> tally_sum (bump k n ts) = tally_sum ts + n"
  by (induction k n ts rule: bump.induct) (auto simp: tally_kinds_def tally_sum_def)

lemma bump_nonneg:
  "0 \<le> n \<Longrightarrow> \<forall>(k, e, m) \<in> set ts. 0 \<le> e \<Longrightarrow> \<forall>(k, e, m) \<in> set (bump k' n ts). 0 \<le> e"
  by (induction k' n ts rule: bump.induct) auto

definition tallied :: "int \<Rightarrow> tally list \<Rightarrow> bool" where
  "tallied n ts \<longleftrightarrow> tally_sum ts = n \<and> (\<forall>(k, e, m) \<in> set ts. 0 \<le> e) \<and> tally_kinds ts = tally_kinds empty_tallies"

lemma tallied_add:
  assumes "tallied n ts" "fst c \<in> tally_kinds empty_tallies" "0 \<le> snd c"
  shows "tallied (n + snd c) (add_tally c ts)"
proof (cases "snd c = 0")
  case True
  with assms show ?thesis by (simp add: add_tally_def)
next
  case False
  with assms bump_nonneg [of "snd c" ts "fst c"] show ?thesis
    by (simp add: add_tally_def tallied_def bump_sum)
qed

lemma tallied_fold:
  assumes "tallied n ts" "\<forall>c \<in> set cs. fst c \<in> tally_kinds empty_tallies \<and> 0 \<le> snd c"
  shows "tallied (n + sum_list (map snd cs)) (fold add_tally cs ts)"
  using assms
proof (induction cs arbitrary: n ts)
  case (Cons c cs)
  have "tallied (n + snd c) (add_tally c ts)" using Cons.prems by (intro tallied_add) auto
  then have "tallied (n + snd c + sum_list (map snd cs)) (fold add_tally cs (add_tally c ts))"
    using Cons.prems by (intro Cons.IH) auto
  then show ?case by (simp add: add.assoc)
qed simp

text \<open>A day whose charges are all tallied.\<close>

definition day_ok :: "mailboxDay \<Rightarrow> bool" where
  "day_ok d \<longleftrightarrow> carries d (md_remaining d) \<and> (md_byGate d \<noteq> 0 \<longrightarrow> mg_reason (md_gate d) \<in> holding)"

lemma charges_ok:
  assumes "day_ok d"
  shows "\<forall>c \<in> set (charges d). fst c \<in> tally_kinds empty_tallies \<and> 0 \<le> snd c"
    and "md_configured d = md_sentThis d + sum_list (map snd (charges d)) + md_remaining d"
    and "0 \<le> md_remaining d"
proof -
  have gate: "sum_list (map snd (gate_charge d)) = md_byGate d"
    using assms by (auto simp: day_ok_def holding_def gate_charge_def split: option.split gate_reason.split)
  have kinds: "\<forall>c \<in> set (gate_charge d). fst c \<in> tally_kinds empty_tallies \<and> snd c = md_byGate d"
  proof (cases "mg_reason (md_gate d)")
    case (Some why)
    then show ?thesis by (cases why) (auto simp: gate_charge_def tally_kinds_def empty_tallies_def)
  qed (simp add: gate_charge_def)
  have nn: "\<forall>x \<in> set (clamp_deltas d @ day_deltas d). 0 \<le> x" "0 \<le> md_remaining d"
    using assms by (simp_all add: day_ok_def carries_def)
  show "\<forall>c \<in> set (charges d). fst c \<in> tally_kinds empty_tallies \<and> 0 \<le> snd c"
  proof
    fix c
    assume "c \<in> set (charges d)"
    then consider "c \<in> set (gate_charge d)" | "c \<in> set (charges d) - set (gate_charge d)" by blast
    then show "fst c \<in> tally_kinds empty_tallies \<and> 0 \<le> snd c"
    proof cases
      case 1
      with kinds nn(1) show ?thesis by (auto simp: day_deltas_def)
    next
      case 2
      with nn(1) show ?thesis
        by (auto simp: charges_def tally_kinds_def empty_tallies_def clamp_deltas_def day_deltas_def)
    qed
  qed
  show "md_configured d = md_sentThis d + sum_list (map snd (charges d)) + md_remaining d" "0 \<le> md_remaining d"
    using assms gate nn by (simp_all add: day_ok_def carries_def charges_def clamp_deltas_def day_deltas_def)
qed

lemma pool_tallies_sum:
  assumes "\<forall>d \<in> set days. day_ok d"
  shows "tallied (sum_list (map (\<lambda>d. sum_list (map snd (charges d))) days)) (pool_tallies days)"
proof -
  have "tallied (n + sum_list (map (\<lambda>d. sum_list (map snd (charges d))) days))
          (fold (\<lambda>d. fold add_tally (charges d)) days ts)" if "tallied n ts" for n ts
    using assms that
  proof (induction days arbitrary: n ts)
    case (Cons d days)
    have "tallied (n + sum_list (map snd (charges d))) (fold add_tally (charges d) ts)"
      using Cons.prems charges_ok(1) by (intro tallied_fold) auto
    from Cons.IH [OF _ this] Cons.prems(1) show ?case by (simp add: add.assoc)
  qed simp
  moreover have "tallied 0 empty_tallies" by (simp add: tallied_def empty_tallies_def tally_sum_def)
  ultimately show ?thesis unfolding pool_tallies_def by (metis add_0)
qed

lemma pool_limits_sum:
  assumes "tallied n ts"
  shows "sum_list (map cl_Emails (pool_limits ts)) = n" "\<forall>l \<in> set (pool_limits ts). 0 < cl_Emails l"
proof -
  have "sum_list (map cl_Emails (pool_limits ts)) = tally_sum ts" if "\<forall>(k, e, m) \<in> set ts. 0 \<le> e"
    using that by (induction ts) (auto simp: pool_limits_def tally_sum_def)
  then show "sum_list (map cl_Emails (pool_limits ts)) = n" using assms by (simp add: tallied_def)
  show "\<forall>l \<in> set (pool_limits ts). 0 < cl_Emails l" by (auto simp: pool_limits_def)
qed

text \<open>What a clamp state accounts for: what is left and what the limits took.\<close>

definition accounts_for :: "int \<Rightarrow> clamp_state \<Rightarrow> bool" where
  "accounts_for n st \<longleftrightarrow>
     (case st of (left, limits, b) \<Rightarrow>
        left + sum_list (map cl_Emails limits) = n \<and> (\<forall>l \<in> set limits. 0 < cl_Emails l))"

lemma clamp_to_zero: "accounts_for n st \<Longrightarrow> 0 \<le> fst st \<Longrightarrow> accounts_for n (clamp_to k 0 st) \<and> 0 \<le> fst (clamp_to k 0 st)"
  by (cases st) (auto simp: accounts_for_def clamp_to_def)

lemma clamp_if_less_ok: "accounts_for n st \<Longrightarrow> accounts_for n (clamp_if_less k x st)"
  by (cases st) (auto simp: accounts_for_def clamp_if_less_def clamp_to_def)

lemma running_clamps_ok: "accounts_for n st \<Longrightarrow> 0 \<le> fst st \<Longrightarrow> accounts_for n (running_clamps p c s st)"
  unfolding running_clamps_def Let_def using clamp_to_zero by auto

lemma lead_clamps_ok: "accounts_for n st \<Longrightarrow> accounts_for n (lead_clamps c su nl st)"
  by (simp add: lead_clamps_def Let_def clamp_if_less_ok)

lemma plan_days_ok:
  assumes "plan_days tzdb wired rd now sentBy lastSends s closesAt as p = Some days" "0 \<le> s" "gates_ok p"
  shows "\<forall>d \<in> set days. day_ok d"
  using assms
proof (induction as arbitrary: p days)
  case (Cons a as)
  obtain sent p1 where st: "sentTodayFor rd p (em_ID a) = (sent, p1)" by (cases "sentTodayFor rd p (em_ID a)")
  have g1: "gates_ok p1"
    using st Cons.prems(3) by (auto simp: sentTodayFor_def gates_ok_def split: option.split_asm)
  obtain n where n: "sent = Some n" using Cons.prems(1) st by (cases sent) auto
  let ?by = "case sentBy (em_ID a) of None \<Rightarrow> 0 | Some n \<Rightarrow> n"
  obtain d p2 where pm: "planMailbox tzdb wired rd now p1 a ?by n (lastSends (em_ID a)) s closesAt = (d, p2)"
    by (cases "planMailbox tzdb wired rd now p1 a ?by n (lastSends (em_ID a)) s closesAt")
  obtain ds where rest: "plan_days tzdb wired rd now sentBy lastSends s closesAt as p2 = Some ds" "days = d # ds"
    using Cons.prems(1) st n pm by auto
  have "day_ok d" using planMailbox_adds_up [OF pm Cons.prems(2) g1] by (simp add: day_ok_def)
  moreover have "\<forall>d \<in> set ds. day_ok d"
    using Cons.IH [OF rest(1) Cons.prems(2)] planMailbox_adds_up(5) [OF pm Cons.prems(2) g1] by blast
  ultimately show ?case using rest(2) by simp
qed simp

lemma org_allowance_ok:
  "org_allowance pl c org st = Some (st', orow) \<Longrightarrow> accounts_for n st \<Longrightarrow> accounts_for n st'"
  by (auto simp: org_allowance_def Let_def clamp_if_less_ok split: if_split_asm option.split_asm)

lemma plan_of_days_adds_up:
  assumes "plan_of_days pl p c now org win days = Some plan" "\<forall>d \<in> set days. day_ok d"
  shows "sp_ConfiguredCeiling plan = sp_SentToday plan + sum_list (map cl_Emails (sp_Limits plan)) + sp_ExpectedRemaining plan"
    and "\<forall>l \<in> set (sp_Limits plan). 0 < cl_Emails l" "sp_Projected plan = sp_SentToday plan + sp_ExpectedRemaining plan"
proof -
  obtain window secs closes where win: "win = (window, secs, closes)" by (cases win)
  define ts where "ts = pool_tallies days"
  define pool where "pool = sum_list (map md_remaining days)"
  define taken where "taken = sum_list (map (\<lambda>d. sum_list (map snd (charges d))) days)"
  have ceiling: "sum_list (map md_configured days) = sum_list (map md_sentThis days) + taken + pool" "0 \<le> pool"
    using assms(2) unfolding taken_def pool_def
    by (induction days) (use charges_ok in \<open>auto simp: algebra_simps\<close>)
  have start: "accounts_for (taken + pool) (pool, pool_limits ts, biggest_tally ts)"
    using pool_limits_sum [OF pool_tallies_sum [OF assms(2)]] by (simp add: accounts_for_def ts_def taken_def)
  then have run: "accounts_for (taken + pool) (running_clamps p c secs (pool, pool_limits ts, biggest_tally ts))"
    using ceiling(2) by (intro running_clamps_ok) simp_all
  obtain st orow leads where
    st: "org_allowance pl c org (running_clamps p c secs (pool, pool_limits ts, biggest_tally ts)) = Some (st, orow)"
    and plan: "plan = write_plan pl c now window days leads orow (lead_clamps c leads (new_leads_today pl c) st)"
    using assms(1) unfolding plan_of_days_def win prod.case Let_def ts_def [symmetric] pool_def [symmetric]
    by (auto split: option.split_asm)
  have "accounts_for (taken + pool) (lead_clamps c leads (new_leads_today pl c) st)"
    using org_allowance_ok [OF st run] by (rule lead_clamps_ok)
  then show "sp_ConfiguredCeiling plan = sp_SentToday plan + sum_list (map cl_Emails (sp_Limits plan)) + sp_ExpectedRemaining plan"
    "\<forall>l \<in> set (sp_Limits plan). 0 < cl_Emails l" "sp_Projected plan = sp_SentToday plan + sp_ExpectedRemaining plan"
    unfolding plan using ceiling by (auto simp: accounts_for_def write_plan_def Let_def split: prod.split)
qed

lemma dayWindow_ramp: "dayWindow tzdb (projectRampLevel c t) now = dayWindow tzdb c now"
proof -
  have parts: "effectiveWindows (c\<lparr>ca_RampLevel := l, ca_RampLevelDate := d\<rparr>) = effectiveWindows c"
    "campaign_ClockTimezone (c\<lparr>ca_RampLevel := l, ca_RampLevelDate := d\<rparr>) = campaign_ClockTimezone c"
    "end_minute (c\<lparr>ca_RampLevel := l, ca_RampLevelDate := d\<rparr>) = end_minute c"
    "ends_today (c\<lparr>ca_RampLevel := l, ca_RampLevelDate := d\<rparr>) = ends_today c" for l d
    by (simp_all add: effectiveWindows_def campaign_ClockTimezone_def end_minute_def ends_today_def fun_eq_iff
        cong: if_cong)
  then have "windowed_day (c\<lparr>ca_RampLevel := l, ca_RampLevelDate := d\<rparr>) = windowed_day c"
    "always_open_day (c\<lparr>ca_RampLevel := l, ca_RampLevelDate := d\<rparr>) = always_open_day c" for l d
    by (simp_all add: windowed_day_def always_open_day_def fun_eq_iff)
  with parts have "dayWindow tzdb (c\<lparr>ca_RampLevel := l, ca_RampLevelDate := d\<rparr>) now = dayWindow tzdb c now" for l d
    unfolding dayWindow_def by (simp cong: if_cong)
  then show ?thesis by (simp add: projectRampLevel_def)
qed

lemma prefillPool_gates: "prefillPool rd p as = Some q \<Longrightarrow> ps_sendGates q = ps_sendGates p"
  by (auto simp: prefillPool_def Let_def split: option.split_asm)

text \<open>
  Claim C4. Today's plan of a campaign adds up. The sum of the mailboxes' own caps is what the
  campaign has sent today, plus what every limit of the waterfall took, plus what is still
  expected: the projected day is the configured day less the listed limits, and no limit is listed
  that took nothing. Given a day whose sending time is not negative, whatever the queries answer.
\<close>

theorem plan_adds_up:
  assumes "PlanCampaignDay tzdb src pl rd st now orgDailyLimit = Some plan"
    and "pl_campaign pl = Some c" "0 \<le> fst (snd (dayWindow tzdb c now))"
  shows "sp_ConfiguredCeiling plan
      = sp_SentToday plan + sum_list (map cl_Emails (sp_Limits plan)) + sp_ExpectedRemaining plan
    \<and> sp_Projected plan = sp_SentToday plan + sp_ExpectedRemaining plan
    \<and> (\<forall>l \<in> set (sp_Limits plan). 0 < cl_Emails l) \<and> sp_Projected plan \<le> sp_ConfiguredCeiling plan"
proof -
  let ?c = "projectRampLevel c (g_inst now)"
  obtain window secs closes where win: "dayWindow tzdb ?c now = (window, secs, closes)"
    by (cases "dayWindow tzdb ?c now")
  obtain accounts p sentBy lastSends days where
    p: "prefillPool rd (newCampaignPass tzdb src (g_inst now) st ?c accounts) accounts = Some p"
    and days: "plan_days tzdb (src_behavior src) rd now sentBy lastSends secs closes accounts p = Some days"
    and plan: "plan_of_days pl p ?c now orgDailyLimit (window, secs, closes) days = Some plan"
    using assms(1,2) win by (auto simp: PlanCampaignDay_def Let_def split: option.split_asm)
  have "gates_ok p"
    using prefillPool_gates [OF p] by (simp add: gates_ok_def newCampaignPass_def split: prod.split)
  moreover have "0 \<le> secs" using assms(3) win dayWindow_ramp [of tzdb c "g_inst now" now] by simp
  ultimately have "\<forall>d \<in> set days. day_ok d" using days by (intro plan_days_ok)
  note up = plan_of_days_adds_up [OF plan this]
  have "0 \<le> sum_list (map cl_Emails (sp_Limits plan))"
    using up(2) by (intro sum_list_nonneg) auto
  with up show ?thesis by simp
qed

text \<open>A weekday morning of the sample campaign: a served mailbox with one due lead.\<close>

definition sample_monday :: gtime where
  "sample_monday = \<lparr>g_inst = 1767607200 * Second, g_loc = UTC\<rparr>"

definition sample_sources :: pass_sources where
  "sample_sources = \<lparr>src_domainAuth = None, src_lifecycles = None, src_coldRamp = None, src_behavior = False,
     src_risk = None\<rparr>"

definition sample_plan_reads :: plan_reads where
  "sample_plan_reads =
     \<lparr>pl_campaign = Some sample_campaign, pl_senders = Some [sample_account],
      pl_sentBySender = Some [[1] \<mapsto> 3], pl_orgSent = Some 0,
      pl_supply = (\<lambda>_ _. Some \<lparr>su_DueNow = 1, su_DueNowNewLeads = 1, su_DueLaterToday = 0,
        su_DueLaterTodayNewLeads = 0, su_WaitingOnStep = 0, su_WaitingOnCondition = 0, su_Held = 0,
        su_WaitingOnSender = 0, su_NextDueAt = None\<rparr>),
      pl_newLeadsToday = None, pl_pending = None\<rparr>"

definition sample_day_reads :: pass_reads where
  "sample_day_reads =
     \<lparr>pr_sentToday = (\<lambda>_. None), pr_sentTodayAll = (\<lambda>_. Some [[1] \<mapsto> 5]), pr_health = None,
      pr_workerLive = None, pr_admission = None, pr_lastEmailTimes = (\<lambda>_. Some Map.empty)\<rparr>"

lemma sample_plan:
  "map_option (\<lambda>p. (sp_ConfiguredCeiling p, sp_SentToday p, map cl_Emails (sp_Limits p), sp_ExpectedRemaining p))
     (PlanCampaignDay (\<lambda>_. None) sample_sources sample_plan_reads sample_day_reads sample_store sample_monday (- 1))
   = Some (50, 3, [20, 5, 2, 19], 1)"
  by code_simp

theorem plan_adds_up_witness:
  "\<exists>plan. PlanCampaignDay (\<lambda>_. None) sample_sources sample_plan_reads sample_day_reads sample_store sample_monday (- 1)
       = Some plan
     \<and> sp_Projected plan = 4 \<and> 50 = sp_Projected plan + sum_list (map cl_Emails (sp_Limits plan))"
proof -
  obtain plan where plan: "PlanCampaignDay (\<lambda>_. None) sample_sources sample_plan_reads sample_day_reads
      sample_store sample_monday (- 1) = Some plan"
    and fields: "sp_ConfiguredCeiling plan = 50" "sp_SentToday plan = 3" "sp_ExpectedRemaining plan = 1"
    using sample_plan by auto
  have c: "pl_campaign sample_plan_reads = Some sample_campaign" by (simp add: sample_plan_reads_def)
  have day: "0 \<le> fst (snd (dayWindow (\<lambda>_. None) sample_campaign sample_monday))" by code_simp
  from plan_adds_up [OF plan c day] plan fields show ?thesis by auto
qed

section \<open>Days whose sending time is negative\<close>

text \<open>The sending time of a day is not negative when no interval begins after the end date.\<close>

lemma minutes_from_nonneg:
  assumes "\<forall>iv \<in> set ivs. iv_Start iv \<le> min (iv_End iv) endMin"
  shows "0 \<le> minutes_from ivs endMin start"
  unfolding minutes_from_def using assms by (intro sum_list_nonneg) (auto simp: Let_def)

lemma dayWindow_nonneg:
  assumes "ca_EndDate c = None" "\<forall>ivs \<in> set (effectiveWindows c). \<forall>iv \<in> set ivs. iv_Start iv \<le> iv_End iv \<and> iv_Start iv \<le> 1440"
    and "length (effectiveWindows c) = 7"
  shows "0 \<le> fst (snd (dayWindow tzdb c now))"
proof -
  let ?tz = "loadLocation tzdb (campaign_ClockTimezone c)"
  have "0 \<le> weekday_of t \<and> weekday_of t < 7" for t by (simp add: weekday_of_def weekday_of_days_def)
  then have "effectiveWindows c ! nat (weekday_of t) \<in> set (effectiveWindows c)" for t
    using assms(3) by (intro nth_mem) (metis nat_less_iff of_nat_numeral)
  then have "\<forall>iv \<in> set (effectiveWindows c ! nat (weekday_of t)). iv_Start iv \<le> min (iv_End iv) 1440" for t
    using assms(2) by fastforce
  then have nn: "0 \<le> minutes_from (effectiveWindows c ! nat (weekday_of t)) 1440 m" for t m
    by (rule minutes_from_nonneg)
  show ?thesis
    using assms(1) nn whole_seconds_nonneg
    by (auto simp: dayWindow_def Let_def always_open_day_def windowed_day_def end_minute_def before_def
        split: option.split)
qed

definition lunch_campaign :: Campaign where
  "lunch_campaign = sample_campaign\<lparr>
     cs_ScheduleWindows := replicate 7 [\<lparr>iv_Start = 540, iv_End = 720\<rparr>, \<lparr>iv_Start = 840, iv_End = 1020\<rparr>],
     ca_EndDate := Some (1767616200 * Second)\<rparr>"

text \<open>
  A campaign that sends from 9 to 12 and from 14 to 17 and ends today at 12:30 is asked at 11:30:
  it is open for another half hour, and the plan counts minus one hour. The interval that begins
  after the end is clipped to an end before its start and taken off the time that is left.
\<close>

theorem end_between_windows_counts_negative:
  "case dayWindow (\<lambda>_. None) lunch_campaign (add_dur sample_monday (90 * Minute)) of (w, left, closes) \<Rightarrow>
     cw_OpenNow w \<and> cw_MinutesLeft w = - 60 \<and> left = - 3600 \<and> closes = at_utc (1767616200 * Second)"
  by code_simp

text \<open>
  A throttled mailbox with one send left: the health band takes it, and the plan says the hours of
  the mailbox are closed, while the gate of the send path says its budget is spent.
\<close>

definition throttled_pass :: campaignPass where
  "throttled_pass = sample_campaignPass\<lparr>ps_risk := ''trusted'',
     ps_health := [[1] \<mapsto> \<lparr>hr_state = ''throttled'', hr_blockedUntil = None, hr_known = True,
       hr_cloudStatus = False, hr_cloudMissing = False\<rparr>]\<rparr>"

theorem paced_out_is_shown_as_closed:
  "case planMailbox (\<lambda>_. None) False sample_day_reads sample_monday throttled_pass
          (sample_account\<lparr>ea_CampaignLimit := 4\<rparr>) 3 3 None 3600 sample_monday of (d, _) \<Rightarrow>
     md_byHealthPace d = 1 \<and> md_bySpacing d = 0 \<and> md_state d = Some MailboxPlanHoursClosed"
  "mg_reason (fst (fst (gateFor sample_day_reads (g_inst sample_monday) throttled_pass
      (sample_account\<lparr>ea_CampaignLimit := 4\<rparr>) 1))) = Some gateBudget"
  by code_simp+

text \<open>
  Every mailbox of a pool is counted once, as available or as held, and the capacity stays within
  the configured caps.
\<close>

lemma effectiveCap_le: "effectiveCap now p a \<le> ea_CampaignLimit a"
proof -
  obtain st by' where "stagedCap now p a = (st, by')" by (cases "stagedCap now p a")
  from this obtain x y z w where "st = [ea_CampaignLimit a, x, y, z, w]"
    "sorted_wrt (\<lambda>x y. y \<le> x) [ea_CampaignLimit a, x, y, z, w]" by (rule staged_falls)
  with \<open>stagedCap now p a = (st, by')\<close> show ?thesis by (simp add: effectiveCap_def)
qed

lemma pool_capacity_counts:
  assumes "pool_capacity wired rd now as (out, p) = (res, q)" "\<forall>a \<in> set as. 0 \<le> ea_CampaignLimit a"
    and "0 \<le> wc_Remaining out" "wc_Capacity out \<le> wc_ConfiguredCeiling out"
  shows "wc_Mailboxes res + wc_Held res = wc_Mailboxes out + wc_Held out + int (length as)
    \<and> 0 \<le> wc_Remaining res \<and> wc_Capacity res \<le> wc_ConfiguredCeiling res"
  using assms
proof (induction as arbitrary: out p)
  case (Cons a as)
  obtain held p1 where h: "capacity_held wired rd now p a = (held, p1)" by (cases "capacity_held wired rd now p a")
  obtain sent p2 where st: "sentTodayFor rd p1 (em_ID a) = (sent, p2)" by (cases "sentTodayFor rd p1 (em_ID a)")
  define o1 where "o1 = out\<lparr>wc_ConfiguredCeiling := wc_ConfiguredCeiling out + ea_CampaignLimit a\<rparr>"
  define o2 where "o2 = o1\<lparr>wc_Mailboxes := wc_Mailboxes o1 + 1, wc_Capacity := wc_Capacity o1 + effectiveCap (g_inst now) p a\<rparr>"
  define o3 where "o3 = (if held \<or> effectiveCap (g_inst now) p a \<le> 0 then o1\<lparr>wc_Held := wc_Held o1 + 1\<rparr>
     else case sent of None \<Rightarrow> o2
        | Some n \<Rightarrow> o2\<lparr>wc_Remaining := wc_Remaining o2 + max 0 (effectiveCap (g_inst now) p a - n)\<rparr>)"
  have run: "\<exists>p3. pool_capacity wired rd now as (o3, p3) = (res, q)"
    using Cons.prems(1) h st unfolding o3_def o2_def o1_def
    by (cases sent) (auto simp: Let_def split: if_split_asm)
  have "wc_Mailboxes o3 + wc_Held o3 = wc_Mailboxes out + wc_Held out + 1" "0 \<le> wc_Remaining o3"
    "wc_Capacity o3 \<le> wc_ConfiguredCeiling o3"
    using Cons.prems(2-4) effectiveCap_le [of "g_inst now" p a]
    by (auto simp: o3_def o2_def o1_def split: option.split)
  with run Cons.IH Cons.prems(2) show ?case by fastforce
qed simp

end
