(* ===== verification/Campaign_Pass.thy ===== *)
theory Campaign_Pass
  imports Mailbox_Gate Mailbox_Rotation Send_Time Lead_Selection
begin

text \<open>
  One scheduling pass of a campaign, \<open>internal/scheduler/campaign_scheduler.go\<close> with the follow-up
  rotation of \<open>campaign_follow_up.go\<close> and the selection of \<open>campaign_sender.go\<close>: the placement of
  one due lead on the pool, every hard constraint and the pacing, and the pass over the due leads.

  The queries, the random draws and the logarithm are arguments, and a pass runs at one instant.
  Instants read from the database carry the location of the clock. Of the activity log the event
  types are modelled, without message and metadata.
\<close>

section \<open>What a placement reads and draws\<close>

record lead_contact = contact_tz +
  lc_ESPProvider :: string
  lc_MailHost :: string

record senderMeta =
  sm_weight :: int
  sm_rotationPosition :: int
  sm_lastSentAt :: "instant option"

text \<open>\<open>None\<close> is a query that failed.\<close>

record lead_reads =
  lr_outreach :: "(uuid \<Rightarrow> SendTimeOptimizationSettings option option) option"
  lr_contact :: "(uuid \<Rightarrow> lead_contact option) option"
  lr_lastSequenceTime :: "uuid \<Rightarrow> instant option option"
  lr_sequenceWait :: "uuid \<Rightarrow> int option"
  lr_lastSendTimes :: "uuid list \<Rightarrow> (uuid \<rightharpoonup> instant) option"
  lr_lastSender :: "uuid \<Rightarrow> uuid option option"
  lr_lastEmailTime :: "uuid \<Rightarrow> instant option option"
  lr_booked :: "uuid \<Rightarrow> gtime \<Rightarrow> instant option list option"
  lr_senderMeta :: "uuid \<rightharpoonup> senderMeta"

record place_draws =
  pd_defer :: int
  pd_gaps :: "uuid \<Rightarrow> rat \<times> rat"
  pd_gap :: "rat \<times> rat"
  pd_rotation :: rat
  pd_interval :: rat
  pd_jitter :: "int \<Rightarrow> int"
  pd_past :: "nat \<Rightarrow> int"
  pd_conflicts :: "nat \<Rightarrow> int"
  pd_lunch :: "rat \<times> int"
  pd_early :: "rat \<times> int"
  pd_second :: int

record place_env =
  pe_tzdb :: tzdb
  pe_psl :: suffix_list
  pe_idna :: idna
  pe_log2 :: "rat \<Rightarrow> rat"
  pe_wired :: bool
  pe_rd :: pass_reads
  pe_lead :: lead_reads
  pe_draws :: place_draws
  pe_sorted :: "instant option list \<Rightarrow> instant option list"
  pe_now :: gtime
  pe_preview :: bool

definition at_clock :: "place_env \<Rightarrow> instant \<Rightarrow> gtime" where
  "at_clock env t = \<lparr>g_inst = t, g_loc = g_loc (pe_now env)\<rparr>"

datatype place_error = Sched scheduler_error | ReadError

datatype decision = Decision string | DecisionOnce string

text \<open>The answer of a placement: slot, pair, mailbox, error, and what it logged.\<close>

record placement =
  pc_at :: "gtime option"
  pc_pair :: "ContactSequencePair option"
  pc_account :: "uuid option"
  pc_err :: "place_error option"
  pc_events :: "decision list"

definition failed :: "place_error \<Rightarrow> placement" where
  "failed e = \<lparr>pc_at = None, pc_pair = None, pc_account = None, pc_err = Some e, pc_events = []\<rparr>"

definition deferred :: "gtime \<Rightarrow> uuid \<Rightarrow> scheduler_error \<Rightarrow> decision list \<Rightarrow> placement" where
  "deferred at' acct e ev =
     \<lparr>pc_at = Some at', pc_pair = None, pc_account = Some acct, pc_err = Some (Sched e), pc_events = ev\<rparr>"

definition logged :: "place_env \<Rightarrow> decision list \<Rightarrow> decision list" where
  "logged env ev = (if pe_preview env then [] else ev)"

definition defer_day :: "place_env \<Rightarrow> Campaign \<Rightarrow> gtime" where
  "defer_day env c = deferToNextDay (pe_tzdb env) (pe_now env) (pd_defer (pe_draws env)) c (pe_preview env)"

section \<open>When the lead is due\<close>

definition sendTimePref :: "place_env \<Rightarrow> Campaign \<Rightarrow> sendTimePreference" where
  "sendTimePref env c =
     (case (lr_outreach (pe_lead env), ca_OrganizationID c) of
        (Some q, Some org) \<Rightarrow> sendTimePreferenceFrom (case q org of None \<Rightarrow> None | Some s \<Rightarrow> s)
      | _ \<Rightarrow> sendTimePreferenceFrom None)"

definition recipient_contact :: "place_env \<Rightarrow> Campaign \<Rightarrow> ContactSequencePair \<Rightarrow> lead_contact option" where
  "recipient_contact env c pair =
     (if ca_ESPMatchMode c \<noteq> ''off'' \<or> stp_enabled (sendTimePref env c)
      then (case lr_contact (pe_lead env) of None \<Rightarrow> None | Some q \<Rightarrow> q (cp_ContactID pair)) else None)"

definition recipient_provider :: "place_env \<Rightarrow> Campaign \<Rightarrow> ContactSequencePair \<Rightarrow> string" where
  "recipient_provider env c pair =
     (if ca_ESPMatchMode c = ''off'' then []
      else case recipient_contact env c pair of
             None \<Rightarrow> []
           | Some k \<Rightarrow> recipientESP (pe_psl env) (pe_idna env) (lc_ESPProvider k) (lc_MailHost k) (ct_Email k))"

text \<open>The wait after the last email, the floor of routing, and never before now.\<close>

definition waited_time :: "place_env \<Rightarrow> ContactSequencePair \<Rightarrow> gtime option" where
  "waited_time env pair =
     (case lr_lastSequenceTime (pe_lead env) (cp_ContactID pair) of
        None \<Rightarrow> None
      | Some None \<Rightarrow> Some (pe_now env)
      | Some (Some sent) \<Rightarrow>
          (case lr_sequenceWait (pe_lead env) (cp_SequenceID pair) of
             None \<Rightarrow> None
           | Some wait \<Rightarrow> Some (at_clock env (sent + Day * BranchWaitAfter wait (cp_Instant pair)))))"

definition base_time :: "place_env \<Rightarrow> ContactSequencePair \<Rightarrow> gtime option" where
  "base_time env pair =
     (case waited_time env pair of
        None \<Rightarrow> None
      | Some base \<Rightarrow>
          (let base = (case cp_NotBefore pair of
                         Some t \<Rightarrow> if g_inst base < t then at_clock env t else base
                       | None \<Rightarrow> base)
           in Some (if before base (pe_now env) then pe_now env else base)))"

definition started_time :: "place_env \<Rightarrow> Campaign \<Rightarrow> gtime \<Rightarrow> gtime" where
  "started_time env c base =
     (case ca_StartDate c of
        Some s \<Rightarrow> if g_inst base < s then at_clock env s else base
      | None \<Rightarrow> base)"

definition past_end :: "Campaign \<Rightarrow> gtime \<Rightarrow> bool" where
  "past_end c t = (case ca_EndDate c of None \<Rightarrow> False | Some e \<Rightarrow> e < g_inst t)"

section \<open>Follow-ups that rotate\<close>

definition boundSender :: "EmailAccount list \<Rightarrow> uuid option \<Rightarrow> EmailAccount option" where
  "boundSender accounts i = (case i of None \<Rightarrow> None | Some u \<Rightarrow> find (\<lambda>a. em_ID a = u) accounts)"

record followUpRotation =
  fr_active :: bool
  fr_previous :: "EmailAccount option"
  fr_domain :: string

definition rotatedFollowUp :: "Campaign \<Rightarrow> ContactSequencePair \<Rightarrow> EmailAccount option \<Rightarrow> followUpRotation" where
  "rotatedFollowUp c pair previous =
     (if \<not> Rotates (ca_FollowUpSender c) \<or> cp_IsNewLead pair
      then \<lparr>fr_active = False, fr_previous = None, fr_domain = []\<rparr>
      else \<lparr>fr_active = True, fr_previous = previous,
            fr_domain = (if ca_FollowUpSender c = ''same_domain''
                         then (case previous of None \<Rightarrow> [] | Some a \<Rightarrow> SenderDomain a) else [])\<rparr>)"

record Candidate = AccountCandidate +
  cd_Account :: EmailAccount

fun busy_domain ::
  "string \<Rightarrow> (uuid \<rightharpoonup> mailboxGate) \<Rightarrow> EmailAccount list \<Rightarrow> gtime option \<times> bool \<Rightarrow> gtime option \<times> bool" where
  "busy_domain dmn gates [] acc = acc"
| "busy_domain dmn gates (a # as) (back, busy) =
     (if SenderDomain a \<noteq> dmn then busy_domain dmn gates as (back, busy)
      else case gates (em_ID a) of
             None \<Rightarrow> busy_domain dmn gates as (back, busy)
           | Some g \<Rightarrow>
               if \<not> mg_paced g then busy_domain dmn gates as (back, busy)
               else busy_domain dmn gates as
                      ((case mg_reopensAt g of
                          None \<Rightarrow> back
                        | Some t \<Rightarrow> (case back of None \<Rightarrow> Some t | Some b \<Rightarrow> if before t b then Some t else back)),
                       True))"

definition sameDomain ::
  "followUpRotation \<Rightarrow> Candidate list \<Rightarrow> EmailAccount list \<Rightarrow> (uuid \<rightharpoonup> mailboxGate)
     \<Rightarrow> Candidate list option \<times> gtime option \<times> bool" where
  "sameDomain r candidates accounts gates =
     (let same = filter (\<lambda>c. SenderDomain (cd_Account c) = fr_domain r) candidates
      in if same \<noteq> [] then (Some same, None, False)
         else (None, busy_domain (fr_domain r) gates accounts (None, False)))"

definition avoidPrevious :: "followUpRotation \<Rightarrow> Candidate list \<Rightarrow> Candidate list" where
  "avoidPrevious r pick =
     (case fr_previous r of
        None \<Rightarrow> pick
      | Some prev \<Rightarrow>
          if \<not> fr_active r \<or> length pick < 2 then pick
          else (let out = filter (\<lambda>c. ac_ID c \<noteq> em_ID prev) pick in if out = [] then pick else out))"

section \<open>The candidates of the pool\<close>

definition computeWeight :: "(rat \<Rightarrow> rat) \<Rightarrow> int \<Rightarrow> int \<Rightarrow> rat" where
  "computeWeight log2 remaining warmupAgeDays =
     (if remaining \<le> 0 then 0
      else fmul (f_of remaining) (fadd 1 (log2 (f_of (warmupAgeDays + 1)))))"

definition providerMatches :: "Campaign \<Rightarrow> string \<Rightarrow> string \<Rightarrow> bool" where
  "providerMatches c recipientProvider acctProvider \<longleftrightarrow>
     (if ca_ESPMatchMode c = ''off'' \<or> recipientProvider = [] then True
      else if acctProvider = ''smtp_imap'' then ca_ESPMatchMode c \<noteq> ''strict''
      else acctProvider = recipientProvider)"

text \<open>Why mailboxes were left out, and the mailboxes that were not.\<close>

record gather =
  ga_count :: "gate_reason \<Rightarrow> int"
  ga_sendRecheck :: "gtime option"
  ga_reopensAt :: "gtime option"
  ga_gates :: "uuid \<rightharpoonup> mailboxGate"
  ga_candidates :: "Candidate list"

definition empty_gather :: gather where
  "empty_gather = \<lparr>ga_count = (\<lambda>_. 0), ga_sendRecheck = None, ga_reopensAt = None, ga_gates = Map.empty,
     ga_candidates = []\<rparr>"

definition sooner :: "gtime option \<Rightarrow> gtime option \<Rightarrow> gtime option" where
  "sooner t old = (case t of None \<Rightarrow> old
     | Some t \<Rightarrow> (case old of None \<Rightarrow> Some t | Some o' \<Rightarrow> if before t o' then Some t else old))"

text \<open>The counter a reason bumps: a send authority gate is held with the recoveries.\<close>

definition standing_counter :: "gate_reason \<Rightarrow> gate_reason option" where
  "standing_counter r =
     (case r of gateHours \<Rightarrow> None | gateNoWorkday \<Rightarrow> None | gateAdmission \<Rightarrow> Some gateRecovery | _ \<Rightarrow> Some r)"

definition bump_count :: "gate_reason option \<Rightarrow> gather \<Rightarrow> gather" where
  "bump_count r g = (case r of None \<Rightarrow> g | Some r \<Rightarrow> g\<lparr>ga_count := (ga_count g)(r := ga_count g r + 1)\<rparr>)"

definition leave_standing :: "uuid \<Rightarrow> mailboxGate \<Rightarrow> gather \<Rightarrow> gather" where
  "leave_standing i gate g =
     (let g = bump_count (case mg_reason gate of None \<Rightarrow> None | Some r \<Rightarrow> standing_counter r) g
      in g\<lparr>ga_gates := (ga_gates g)(i \<mapsto> gate), ga_sendRecheck := sooner (mg_reopensAt gate) (ga_sendRecheck g)\<rparr>)"

definition leave_window :: "uuid \<Rightarrow> mailboxGate \<Rightarrow> gather \<Rightarrow> gather" where
  "leave_window i gate g =
     (let g = g\<lparr>ga_gates := (ga_gates g)(i \<mapsto> gate)\<rparr>
      in if mg_reason gate = Some gateBudget then bump_count (Some gateBudget) g
         else if mg_reason gate = Some gateHours
         then (bump_count (Some gateHours) g)\<lparr>ga_reopensAt := sooner (mg_reopensAt gate) (ga_reopensAt g)\<rparr>
         else g)"

definition warmup_age :: "place_env \<Rightarrow> EmailAccount \<Rightarrow> int" where
  "warmup_age env a =
     (case ea_Warmup a of
        None \<Rightarrow> 0
      | Some w \<Rightarrow> trunc (fdiv (hours_of (tsub (g_inst (pe_now env)) w)) 24))"

definition make_candidate ::
  "place_env \<Rightarrow> Campaign \<Rightarrow> string \<Rightarrow> (uuid \<rightharpoonup> instant) \<Rightarrow> campaignPass \<Rightarrow> EmailAccount \<Rightarrow> int \<Rightarrow> int
     \<Rightarrow> gtime option \<Rightarrow> location option \<Rightarrow> Candidate" where
  "make_candidate env c recipient lastSends p a sentToday remaining openAt openLoc =
     (let age = warmup_age env a; meta = lr_senderMeta (pe_lead env) (em_ID a)
      in \<lparr>ac_ID = em_ID a, ac_RemainingToday = remaining, ac_WarmupAgeDays = age,
          ac_Weight = computeWeight (pe_log2 env) remaining age,
          ac_SenderWeight = (case meta of None \<Rightarrow> 0 | Some m \<Rightarrow> sm_weight m),
          ac_RotationPosition = (case meta of None \<Rightarrow> sentToday | Some m \<Rightarrow> sm_rotationPosition m),
          ac_SenderLastSentAt = (case meta of None \<Rightarrow> lastSends (em_ID a) | Some m \<Rightarrow> sm_lastSentAt m),
          ac_HasSenderMetadata = (meta \<noteq> None),
          ac_ProviderMatch = providerMatches c recipient (senderESP (ea_Provider a) (ea_MailHost a)),
          ac_Behavior = behavior_of p (em_ID a), ac_OpenAt = openAt, ac_OpenLoc = openLoc,
          cd_Account = a\<rparr>)"

text \<open>\<open>None\<close> when a count could not be read.\<close>

fun gather_pool ::
  "place_env \<Rightarrow> Campaign \<Rightarrow> string \<Rightarrow> (uuid \<rightharpoonup> instant) \<Rightarrow> EmailAccount option \<Rightarrow> gtime
     \<Rightarrow> EmailAccount list \<Rightarrow> gather \<times> campaignPass \<Rightarrow> (gather \<times> campaignPass) option" where
  "gather_pool env c recipient lastSends bound cand_t [] (g, p) = Some (g, p)"
| "gather_pool env c recipient lastSends bound cand_t (a # as) (g, p) =
     (case sentTodayFor (pe_rd env) p (em_ID a) of
        (None, p) \<Rightarrow> None
      | (Some sentToday, p) \<Rightarrow>
          (let acctLimit = effectiveCap (g_inst (pe_now env)) p a
           in case gateFor (pe_rd env) (g_inst (pe_now env)) p a (acctLimit - sentToday) of
                ((gate, remaining), p) \<Rightarrow>
                  if \<not> gate_open gate
                  then gather_pool env c recipient lastSends bound cand_t as (leave_standing (em_ID a) gate g, p)
                  else (case windowFor (pe_tzdb env) (pe_wired env) (pe_now env) p a cand_t acctLimit remaining
                               (case bound of None \<Rightarrow> False | Some b \<Rightarrow> em_ID b = em_ID a) of
                          ((openAt, openLoc, remaining, wgate), p) \<Rightarrow>
                            if \<not> gate_open wgate
                            then gather_pool env c recipient lastSends bound cand_t as (leave_window (em_ID a) wgate g, p)
                            else gather_pool env c recipient lastSends bound cand_t as
                                   (g\<lparr>ga_candidates := ga_candidates g
                                        @ [make_candidate env c recipient lastSends p a sentToday remaining openAt openLoc]\<rparr>,
                                    p))))"

section \<open>A pool with no candidate\<close>

definition reopening_slot :: "gather \<Rightarrow> ScheduleWindows \<Rightarrow> location \<Rightarrow> gtime" where
  "reopening_slot g windows tz =
     nextScheduleSlot (case ga_reopensAt g of None \<Rightarrow> \<lparr>g_inst = zero_time, g_loc = UTC\<rparr> | Some t \<Rightarrow> t) windows tz"

definition earlier_of :: "gtime \<Rightarrow> gtime \<Rightarrow> gtime" where
  "earlier_of t u = (if before t u then t else u)"

definition empty_pool ::
  "place_env \<Rightarrow> Campaign \<Rightarrow> EmailAccount list \<Rightarrow> ScheduleWindows \<Rightarrow> location \<Rightarrow> gather \<Rightarrow> placement" where
  "empty_pool env c accounts windows tz g =
     (let n = int (length accounts); count = ga_count g; first = em_ID (hd accounts);
          recheck = add_dur (pe_now env) workerRecheck;
          once = (\<lambda>e. logged env [DecisionOnce e])
      in if count gateAuth = n
         then (failed (Sched ErrDomainAuthFailing))\<lparr>pc_events := logged env [Decision ''domain_auth_gated'']\<rparr>
         else if 0 < count gateRecovery \<or> 0 < count gateCooldown
         then deferred (case ga_sendRecheck g of None \<Rightarrow> recheck | Some t \<Rightarrow> earlier_of t recheck) first
                ErrCampaignDeferred (once ''mailboxes_send_recovery'')
         else if 0 < count gateNoWorker
         then deferred (if 0 < count gateHours then earlier_of (reopening_slot g windows tz) recheck else recheck)
                first ErrCampaignDeferred (once ''mailboxes_no_worker'')
         else if 0 < count gateBudget \<or> 0 < count gateHours
         then deferred
                (if 0 < count gateBudget
                 then if 0 < count gateHours then earlier_of (reopening_slot g windows tz) (defer_day env c)
                      else defer_day env c
                 else reopening_slot g windows tz)
                first ErrCampaignDeferred
                (if 0 < count gateBudget \<and> count gateHours = 0 then once ''daily_cap_reached''
                 else if 0 < count gateBudget then once ''mailboxes_unavailable'' else [])
         else if count gateResting = n
         then deferred (defer_day env c) first ErrCampaignDeferred (once ''mailboxes_resting'')
         else if 0 < count gateHealth \<or> 0 < count gateResting
         then deferred (defer_day env c) first ErrCampaignDeferred (once ''mailboxes_unavailable'')
         else failed (Sched ErrNoEligibleMailbox))"

section \<open>The mailbox of the send\<close>

definition pickBound :: "Candidate list \<Rightarrow> EmailAccount option \<Rightarrow> Candidate option" where
  "pickBound candidates acct =
     (case acct of None \<Rightarrow> None | Some a \<Rightarrow> find (\<lambda>c. ac_ID c = em_ID a \<and> 0 < ac_Weight c) candidates)"

fun stable_loop :: "Candidate option \<Rightarrow> Candidate list \<Rightarrow> Candidate option" where
  "stable_loop best [] = best"
| "stable_loop best (c # cs) =
     (case best of
        None \<Rightarrow> stable_loop (Some c) cs
      | Some b \<Rightarrow>
          if ac_Weight b < ac_Weight c \<or> (ac_Weight c = ac_Weight b \<and> ac_ID c < ac_ID b)
          then stable_loop (Some c) cs else stable_loop best cs)"

definition stableCandidate :: "Candidate list \<Rightarrow> Candidate option" where
  "stableCandidate = stable_loop None"

text \<open>The last send of every candidate, read once per mailbox and pass; \<open>None\<close> when the query fails.\<close>

definition read_last_sends :: "place_env \<Rightarrow> Candidate list \<Rightarrow> campaignPass \<Rightarrow> campaignPass option" where
  "read_last_sends env candidates p =
     (let ids = filter (\<lambda>i. i \<notin> ps_lastSendsRead p) (map ac_ID candidates)
      in if ids = [] then Some p
         else case pr_lastEmailTimes (pe_rd env) ids of
                None \<Rightarrow> None
              | Some sends \<Rightarrow> Some (p\<lparr>ps_lastSendsRead := ps_lastSendsRead p \<union> set ids,
                                    ps_lastSends := ps_lastSends p ++ sends\<rparr>))"

definition gap_draw :: "place_env \<Rightarrow> Candidate \<Rightarrow> campaignPass \<Rightarrow> int \<times> campaignPass" where
  "gap_draw env c p =
     (case ps_gapDraws p (ac_ID c) of
        Some gap \<Rightarrow> (gap, p)
      | None \<Rightarrow>
          (case with_behavior p (ac_ID c)
                  (behaviorGapWith (g_inst (pe_now env)) (pe_now env) (ea_MinWaitTime (cd_Account c))
                     (pd_gaps (pe_draws env) (ac_ID c))) of
             (gap, p) \<Rightarrow> (gap, p\<lparr>ps_gapDraws := (ps_gapDraws p)(ac_ID c \<mapsto> gap)\<rparr>)))"

fun gap_clear_loop :: "place_env \<Rightarrow> Candidate list \<Rightarrow> campaignPass \<Rightarrow> Candidate list \<times> campaignPass" where
  "gap_clear_loop env [] p = ([], p)"
| "gap_clear_loop env (c # cs) p =
     (if (case ac_OpenAt c of None \<Rightarrow> False | Some t \<Rightarrow> after t (pe_now env)) then gap_clear_loop env cs p
      else case gap_draw env c p of (gap, p) \<Rightarrow>
        (case gap_clear_loop env cs p of (clear, q) \<Rightarrow>
           (if (case ps_lastSends p (ac_ID c) of
                  None \<Rightarrow> True | Some l \<Rightarrow> \<not> g_inst (pe_now env) < l + Second * gap)
            then c # clear else clear, q)))"

definition gapClearCandidates :: "place_env \<Rightarrow> Candidate list \<Rightarrow> campaignPass \<Rightarrow> Candidate list \<times> campaignPass" where
  "gapClearCandidates env candidates p =
     (case read_last_sends env candidates p of
        None \<Rightarrow> ([], p) | Some p \<Rightarrow> gap_clear_loop env candidates p)"

text \<open>ESP matching of a lead that has no mailbox yet; \<open>None\<close> when a strict match finds none.\<close>

definition espMatching ::
  "Campaign \<Rightarrow> string \<Rightarrow> Candidate option \<Rightarrow> Candidate list \<Rightarrow> Candidate list option" where
  "espMatching c recipient boundCand candidates =
     (if boundCand \<noteq> None \<or> ca_ESPMatchMode c = ''off'' \<or> recipient = [] then Some candidates
      else (let matching = filter ac_ProviderMatch candidates
            in if ca_ESPMatchMode c = ''strict'' then (if matching = [] then None else Some matching)
               else if ca_ESPMatchMode c = ''prefer'' then Some (if matching = [] then candidates else matching)
               else Some candidates))"

text \<open>A new draw of the rotation, over the mailboxes whose gap has passed when there are any.\<close>

definition rotate_pool ::
  "place_env \<Rightarrow> Campaign \<Rightarrow> followUpRotation \<Rightarrow> Candidate list \<Rightarrow> Candidate list \<Rightarrow> campaignPass
     \<Rightarrow> Candidate option \<times> campaignPass" where
  "rotate_pool env c rotation candidates wholePool p =
     (if pe_preview env then (stableCandidate candidates, p)
      else case gapClearCandidates env candidates p of (clear, p) \<Rightarrow>
        (case (if clear \<noteq> [] then (clear, p)
               else if ca_ESPMatchMode c = ''prefer'' \<and> length candidates < length wholePool
               then (case gapClearCandidates env wholePool p of
                       (clear, p) \<Rightarrow> (if clear \<noteq> [] then clear else candidates, p))
               else (candidates, p)) of
           (pick, p) \<Rightarrow> (selectAccountByRotationMode (ca_RotationMode c) (avoidPrevious rotation pick) (ca_ID c)
                           (pd_rotation (pe_draws env)), p)))"

record chosen =
  ch_selected :: Candidate
  ch_pool :: "Candidate list"
  ch_whole :: "Candidate list"

definition wait_for_bound :: "place_env \<Rightarrow> Campaign \<Rightarrow> EmailAccount \<Rightarrow> mailboxGate \<Rightarrow> placement" where
  "wait_for_bound env c b gate =
     deferred (case mg_reopensAt gate of None \<Rightarrow> defer_day env c | Some t \<Rightarrow> t) (em_ID b) ErrSenderBusy
       (logged env [DecisionOnce ''sender_busy''])"

definition pick_rotated ::
  "place_env \<Rightarrow> Campaign \<Rightarrow> followUpRotation \<Rightarrow> Candidate list \<Rightarrow> Candidate list \<Rightarrow> campaignPass
     \<Rightarrow> (placement + chosen) \<times> campaignPass" where
  "pick_rotated env c rotation pool wholePool p =
     (case rotate_pool env c rotation pool wholePool p of
        (None, p) \<Rightarrow> (Inl (failed (Sched ErrNoEligibleMailbox)), p)
      | (Some s, p) \<Rightarrow> (Inr \<lparr>ch_selected = s, ch_pool = pool, ch_whole = wholePool\<rparr>, p))"

definition choose_from ::
  "place_env \<Rightarrow> Campaign \<Rightarrow> EmailAccount list \<Rightarrow> EmailAccount option \<Rightarrow> followUpRotation
     \<Rightarrow> (uuid \<rightharpoonup> mailboxGate) \<Rightarrow> Candidate option \<Rightarrow> string \<Rightarrow> Candidate list \<Rightarrow> Candidate list \<Rightarrow> campaignPass
     \<Rightarrow> (placement + chosen) \<times> campaignPass" where
  "choose_from env c accounts bound rotation gates boundCand recipient candidates wholePool p =
     (case espMatching c recipient boundCand candidates of
        None \<Rightarrow> (Inl (deferred (defer_day env c) (em_ID (hd accounts)) ErrLeadDeferred
                       (logged env [DecisionOnce ''provider_match_deferred''])), p)
      | Some pool \<Rightarrow>
          (case boundCand of
             Some s \<Rightarrow> (Inr \<lparr>ch_selected = s, ch_pool = pool, ch_whole = wholePool\<rparr>, p)
           | None \<Rightarrow>
               (case bound of
                  Some b \<Rightarrow>
                    (case gates (em_ID b) of
                       Some gate \<Rightarrow>
                         if mg_paced gate then (Inl (wait_for_bound env c b gate), p)
                         else pick_rotated env c rotation pool wholePool p
                     | None \<Rightarrow> pick_rotated env c rotation pool wholePool p)
                | None \<Rightarrow> pick_rotated env c rotation pool wholePool p)))"

text \<open>A follow-up that rotates within a domain draws from that domain, or waits for it.\<close>

definition choose_mailbox ::
  "place_env \<Rightarrow> Campaign \<Rightarrow> EmailAccount list \<Rightarrow> EmailAccount option \<Rightarrow> EmailAccount option
     \<Rightarrow> followUpRotation \<Rightarrow> string \<Rightarrow> gather \<Rightarrow> campaignPass \<Rightarrow> (placement + chosen) \<times> campaignPass" where
  "choose_mailbox env c accounts bound prefer' rotation recipient g p =
     (let candidates = ga_candidates g; gates = ga_gates g; boundCand = pickBound candidates prefer'
      in if fr_domain rotation = []
         then choose_from env c accounts bound rotation gates boundCand recipient candidates candidates p
         else case sameDomain rotation candidates accounts gates of
             (same, back, busy) \<Rightarrow>
               if busy
               then (Inl (deferred (case back of None \<Rightarrow> defer_day env c | Some t \<Rightarrow> t)
                            (case fr_previous rotation of None \<Rightarrow> [] | Some a \<Rightarrow> em_ID a) ErrSenderBusy
                            (logged env [DecisionOnce ''sender_busy''])), p)
               else (case same of
                       None \<Rightarrow> choose_from env c accounts bound rotation gates boundCand recipient candidates candidates p
                     | Some s \<Rightarrow> choose_from env c accounts bound rotation gates boundCand recipient s s p))"

section \<open>The slot of the send\<close>

definition gap_of_send :: "place_env \<Rightarrow> Candidate \<Rightarrow> gtime \<Rightarrow> campaignPass \<Rightarrow> int \<times> campaignPass" where
  "gap_of_send env s cand_t p =
     (let i = ac_ID s; wait = ea_MinWaitTime (cd_Account s); now = g_inst (pe_now env)
      in if pe_preview env then with_behavior p i (behaviorGapFloor now cand_t wait)
         else case with_behavior p i (behaviorGapWith now cand_t wait (pd_gap (pe_draws env))) of
           (gap, p) \<Rightarrow>
             ((case ps_gapDraws p i of
                 Some drawn \<Rightarrow>
                   if \<not> rs_Enabled (ac_Behavior s)
                      \<or> sameLocalDay (pe_now env) cand_t (Some (rs_Loc (ac_Behavior s)))
                   then drawn else gap
               | None \<Rightarrow> gap), p))"

text \<open>A slot with the floor it may not go below and whether that floor is the lead's own.\<close>

record slot =
  sl_at :: gtime
  sl_floor :: gtime
  sl_lead :: bool

definition is_bound :: "EmailAccount option \<Rightarrow> Candidate \<Rightarrow> bool" where
  "is_bound bound s = (case bound of None \<Rightarrow> False | Some b \<Rightarrow> em_ID b = ac_ID s)"

definition opening_slot :: "EmailAccount option \<Rightarrow> Candidate \<Rightarrow> gtime \<Rightarrow> slot" where
  "opening_slot bound s cand_t =
     (case ac_OpenAt s of
        Some open' \<Rightarrow>
          if after open' cand_t then \<lparr>sl_at = open', sl_floor = open', sl_lead = is_bound bound s\<rparr>
          else \<lparr>sl_at = cand_t, sl_floor = cand_t, sl_lead = False\<rparr>
      | None \<Rightarrow> \<lparr>sl_at = cand_t, sl_floor = cand_t, sl_lead = False\<rparr>)"

text \<open>Even distribution of the pool's remaining sends over the day.\<close>

definition distribute ::
  "place_env \<Rightarrow> Candidate \<Rightarrow> Candidate list \<Rightarrow> int \<Rightarrow> ScheduleWindows \<Rightarrow> location \<Rightarrow> slot \<Rightarrow> campaignPass
     \<Rightarrow> slot \<times> campaignPass" where
  "distribute env s pool gap windows tz sl p =
     (let n = poolRemainingOn pool (sl_at sl)
      in if pe_preview env \<or> n \<le> 0 then (sl, p)
         else case with_behavior p (ac_ID s) (remainingSendMinutes (pe_now env) (sl_at sl) windows tz) of
           ((minutes, ok), p) \<Rightarrow>
             if ok \<and> 0 < minutes
             then (let spread = add_dur (pe_now env)
                                  (poolSendInterval minutes n gap (int (length pool)) (pd_interval (pe_draws env)))
                   in (if after spread (sl_at sl) then sl\<lparr>sl_at := spread\<rparr> else sl, p))
             else (sl, p))"

text \<open>The gap after the mailbox's last email moves the slot and its floor.\<close>

definition gap_slot ::
  "place_env \<Rightarrow> EmailAccount option \<Rightarrow> Candidate \<Rightarrow> int \<Rightarrow> ScheduleWindows \<Rightarrow> location \<Rightarrow> instant option
     \<Rightarrow> slot \<Rightarrow> slot" where
  "gap_slot env bound s gap windows tz lastEmail sl =
     (case lastEmail of
        None \<Rightarrow> sl
      | Some l \<Rightarrow>
          (let earliest = at_clock env (l + Second * gap);
               sl = (if before (sl_at sl) earliest then sl\<lparr>sl_at := nextScheduleSlot earliest windows tz\<rparr> else sl)
           in if before (sl_floor sl) earliest
              then sl\<lparr>sl_floor := nextScheduleSlot earliest windows tz, sl_lead := (is_bound bound s \<or> sl_lead sl)\<rparr>
              else sl))"

definition jittered :: "place_env \<Rightarrow> gtime \<Rightarrow> gtime" where
  "jittered env t =
     (let spread = min (tdiv (trunc (minutes_of (tsub (g_inst t) (g_inst (pe_now env))))) 2) 20;
          t = (if \<not> pe_preview env \<and> 0 < spread
               then add_dur t (Minute * randomJitter (- spread) spread (pd_jitter (pe_draws env) (2 * spread)))
               else t)
      in notBefore (pe_now env) (pd_past (pe_draws env) 0) t)"

text \<open>Clear of the sends booked on the mailbox, then the curve of the day.\<close>

definition clear_of_booked :: "place_env \<Rightarrow> int \<Rightarrow> instant option list \<Rightarrow> gtime \<Rightarrow> gtime" where
  "clear_of_booked env gap booked t =
     (let r = resolveConflicts (pe_sorted env) (pd_conflicts (pe_draws env)) (g_inst t) booked gap
      in if r = g_inst t then t else at_clock env r)"

definition curved :: "place_env \<Rightarrow> Candidate \<Rightarrow> location \<Rightarrow> gtime \<Rightarrow> gtime" where
  "curved env s tz t =
     (if \<not> pe_preview env \<and> \<not> rs_Enabled (ac_Behavior s)
      then applyDistributionCurve (fst (pd_lunch (pe_draws env))) (snd (pd_lunch (pe_draws env)))
             (fst (pd_early (pe_draws env))) (snd (pd_early (pe_draws env))) t tz
      else t)"

text \<open>Aimed at the recipient's hours, which become the floor.\<close>

definition recipient_aimed ::
  "place_env \<Rightarrow> Campaign \<Rightarrow> ContactSequencePair \<Rightarrow> Candidate \<Rightarrow> ScheduleWindows \<Rightarrow> location \<Rightarrow> slot \<Rightarrow> campaignPass
     \<Rightarrow> slot \<times> campaignPass" where
  "recipient_aimed env c pair s windows tz sl p =
     (let pref = sendTimePref env c
      in if \<not> stp_enabled pref then (sl, p)
         else case with_behavior p (ac_ID s)
                (recipientSlot (pe_tzdb env) (pe_wired env) (g_inst (pe_now env)) (sl_at sl) windows tz
                   (map_option contact_tz.truncate (recipient_contact env c pair)) pref (ca_EndDate c)) of
           (snapped, p) \<Rightarrow>
             (case snapped of
                None \<Rightarrow> (sl, p)
              | Some t \<Rightarrow> (if after t (sl_at sl) then \<lparr>sl_at = t, sl_floor = t, sl_lead = True\<rparr> else sl, p)))"

definition scheduledSlot :: "place_env \<Rightarrow> gtime \<Rightarrow> gtime" where
  "scheduledSlot env t =
     (let past = pd_past (pe_draws env) 2
      in if pe_preview env then notBefore (pe_now env) past t
         else finalSlot (pe_now env) past (pd_second (pe_draws env)) t)"

text \<open>A floor more than the grace away is a deferral, never a send.\<close>

definition sendable :: "place_env \<Rightarrow> gtime \<Rightarrow> bool" where
  "sendable env floor' \<longleftrightarrow>
     \<not> CampaignNotDueGraceSeconds * Second < tsub (g_inst floor') (g_inst (pe_now env))"

definition answer_slot ::
  "place_env \<Rightarrow> ContactSequencePair \<Rightarrow> Candidate \<Rightarrow> gtime \<Rightarrow> slot \<Rightarrow> decision list \<Rightarrow> placement" where
  "answer_slot env pair s at' sl ev =
     (if sendable env (sl_floor sl)
      then \<lparr>pc_at = Some (scheduledSlot env at'), pc_pair = Some pair, pc_account = Some (ac_ID s),
            pc_err = None, pc_events = ev\<rparr>
      else deferred (scheduledSlot env at') (ac_ID s)
             (if sl_lead sl then ErrLeadDeferred else ErrCampaignDeferred) ev)"

definition last_email_of_day :: "place_env \<Rightarrow> chosen \<Rightarrow> gtime \<Rightarrow> decision list" where
  "last_email_of_day env ch t =
     (if poolRemainingOn (ch_pool ch) t = 1 \<and> poolRemainingOn (ch_whole ch) t = 1
      then logged env [DecisionOnce ''daily_cap_reached''] else [])"

definition place_slot ::
  "place_env \<Rightarrow> Campaign \<Rightarrow> ContactSequencePair \<Rightarrow> EmailAccount option \<Rightarrow> ScheduleWindows \<Rightarrow> location
     \<Rightarrow> gtime \<Rightarrow> chosen \<Rightarrow> campaignPass \<Rightarrow> placement \<times> campaignPass" where
  "place_slot env c pair bound windows tz cand_t ch p =
     (let s = ch_selected ch
      in case gap_of_send env s cand_t p of (gap, p) \<Rightarrow>
         (let sl = opening_slot bound s cand_t; ev = last_email_of_day env ch (sl_at sl)
          in case distribute env s (ch_pool ch) gap windows tz sl p of (sl, p) \<Rightarrow>
            (case lr_lastEmailTime (pe_lead env) (ac_ID s) of
               None \<Rightarrow> ((failed ReadError)\<lparr>pc_events := ev\<rparr>, p)
             | Some lastEmail \<Rightarrow>
                 (let sl = gap_slot env bound s gap windows tz lastEmail sl;
                      sl = sl\<lparr>sl_at := jittered env (sl_at sl)\<rparr>
                  in case (if pe_preview env then Some []
                           else lr_booked (pe_lead env) (ac_ID s) (sl_at sl)) of
                       None \<Rightarrow> ((failed ReadError)\<lparr>pc_events := ev\<rparr>, p)
                     | Some booked \<Rightarrow>
                         (let sl = (if pe_preview env then sl
                                    else sl\<lparr>sl_at := clear_of_booked env gap booked (sl_at sl)\<rparr>);
                              sl = sl\<lparr>sl_at := curved env s tz (sl_at sl)\<rparr>
                          in case recipient_aimed env c pair s windows tz sl p of (sl, p) \<Rightarrow>
                            (case with_behavior p (ac_ID s)
                                    (intersectWindows (pe_wired env) (g_inst (pe_now env))
                                       (notBefore (pe_now env) (pd_past (pe_draws env) 1) (sl_at sl)) windows tz) of
                               (at', p) \<Rightarrow> (answer_slot env pair s at' sl ev, p)))))))"

section \<open>Placing one lead\<close>

definition rotation_last_sends :: "place_env \<Rightarrow> Campaign \<Rightarrow> EmailAccount list \<Rightarrow> (uuid \<rightharpoonup> instant)" where
  "rotation_last_sends env c accounts =
     (if needsRotationFallback (ca_RotationMode c)
      then (case lr_lastSendTimes (pe_lead env)
                   (filter (\<lambda>i. lr_senderMeta (pe_lead env) i = None) (map em_ID accounts)) of
              None \<Rightarrow> Map.empty | Some sends \<Rightarrow> sends)
      else Map.empty)"

text \<open>The mailbox the lead last heard from, when no binding is recorded.\<close>

definition preferred_sender ::
  "place_env \<Rightarrow> EmailAccount list \<Rightarrow> ContactSequencePair \<Rightarrow> EmailAccount option \<Rightarrow> EmailAccount option" where
  "preferred_sender env accounts pair bound =
     (if bound = None \<and> cp_AssignedSender pair = None \<and> \<not> cp_IsNewLead pair
      then (case lr_lastSender (pe_lead env) (cp_ContactID pair) of
              None \<Rightarrow> bound | Some heard \<Rightarrow> boundSender accounts heard)
      else bound)"

definition place_on_pool ::
  "place_env \<Rightarrow> Campaign \<Rightarrow> EmailAccount list \<Rightarrow> ContactSequencePair \<Rightarrow> ScheduleWindows \<Rightarrow> location \<Rightarrow> gtime
     \<Rightarrow> campaignPass \<Rightarrow> placement \<times> campaignPass" where
  "place_on_pool env c accounts pair windows tz cand_t p =
     (let recipient = recipient_provider env c pair;
          bound0 = boundSender accounts (cp_AssignedSender pair);
          prefer0 = preferred_sender env accounts pair bound0;
          rotation = rotatedFollowUp c pair prefer0;
          bound = (if fr_active rotation then None else bound0);
          prefer' = (if fr_active rotation then None else prefer0)
      in case gather_pool env c recipient (rotation_last_sends env c accounts) bound cand_t accounts (empty_gather, p) of
           None \<Rightarrow> (failed ReadError, p)
         | Some (g, p) \<Rightarrow>
             if ga_candidates g = [] then (empty_pool env c accounts windows tz g, p)
             else (case choose_mailbox env c accounts bound prefer' rotation recipient g p of
                     (Inl refused, p) \<Rightarrow> (refused, p)
                   | (Inr ch, p) \<Rightarrow> place_slot env c pair bound windows tz cand_t ch p))"

definition placeCampaignSend ::
  "place_env \<Rightarrow> Campaign \<Rightarrow> EmailAccount list \<Rightarrow> ContactSequencePair \<Rightarrow> campaignPass \<Rightarrow> placement \<times> campaignPass" where
  "placeCampaignSend env c accounts pair p =
     (case base_time env pair of
        None \<Rightarrow> (failed ReadError, p)
      | Some base \<Rightarrow>
          (let tz = loadLocation (pe_tzdb env) (campaign_ClockTimezone c);
               windows = effectiveWindows c;
               start = started_time env c base
           in if past_end c start then (failed (Sched ErrCampaignEnded), p)
              else if BlocksSending (ps_risk p)
              then (deferred (defer_day env c) (em_ID (hd accounts)) ErrCampaignDeferred
                      (logged env [Decision ''org_suspended'']), p)
              else place_on_pool env c accounts pair windows tz (nextScheduleSlot start windows tz) p))"

section \<open>The pass over the due leads\<close>

definition CampaignPlacementCandidates :: int where "CampaignPlacementCandidates = 200"

text \<open>The queries of the campaign itself; each lead is placed with draws of its own.\<close>

record campaign_reads =
  cn_campaign :: "Campaign option"
  cn_advanced :: bool
  cn_reloaded :: "Campaign option"
  cn_senders :: "EmailAccount list option"
  cn_newLeadsToday :: "int option"
  cn_routes :: route_reads
  cn_draws :: "nat \<Rightarrow> place_draws"

definition advanced_campaign :: "campaign_reads \<Rightarrow> Campaign \<Rightarrow> Campaign" where
  "advanced_campaign cn c =
     (if ca_RampEnabled c \<and> cn_advanced cn then (case cn_reloaded cn of None \<Rightarrow> c | Some r \<Rightarrow> r) else c)"

text \<open>Whether new leads are left out today; \<open>None\<close> when their count cannot be read.\<close>

definition exclude_new :: "campaign_reads \<Rightarrow> Campaign \<Rightarrow> bool option" where
  "exclude_new cn c =
     (if 0 < ca_MaxNewLeadsPerDay c
      then map_option (\<lambda>n. ca_MaxNewLeadsPerDay c \<le> n) (cn_newLeadsToday cn) else Some False)"

definition routing_paced :: "Campaign \<Rightarrow> (uuid \<rightharpoonup> gtime) \<Rightarrow> (uuid \<rightharpoonup> instant)" where
  "routing_paced c paced = (if Rotates (ca_FollowUpSender c) then Map.empty else (\<lambda>u. map_option g_inst (paced u)))"

text \<open>No lead is due: wait for the new-lead cap, for the next due moment, or finish.\<close>

definition await_or_finish :: "place_env \<Rightarrow> uuid \<Rightarrow> instant option \<Rightarrow> placement" where
  "await_or_finish env first recheckAt =
     (case recheckAt of
        Some r \<Rightarrow> deferred (at_clock env r) first ErrCampaignDeferred [DecisionOnce ''awaiting_next_step'']
      | None \<Rightarrow> failed (Sched ErrCampaignCompleted))"

definition nothing_due ::
  "place_env \<Rightarrow> campaign_reads \<Rightarrow> Campaign \<Rightarrow> uuid \<Rightarrow> bool \<Rightarrow> (uuid \<rightharpoonup> instant) \<Rightarrow> instant option \<Rightarrow> placement" where
  "nothing_due env cn c first excl paced recheckAt =
     (if \<not> excl then await_or_finish env first recheckAt
      else case FindRoutedPairs (cn_routes cn) False paced 1 of
          None \<Rightarrow> await_or_finish env first recheckAt
        | Some (again, againDue, againWait) \<Rightarrow>
            if again \<noteq> []
            then (let day = defer_day env c
                  in deferred (case recheckAt of None \<Rightarrow> day
                                 | Some r \<Rightarrow> if r < g_inst day then at_clock env r else day)
                       first ErrCampaignDeferred [Decision ''new_lead_cap_reached''])
            else await_or_finish env first
                   (case againDue of
                      None \<Rightarrow> recheckAt
                    | Some d \<Rightarrow> (case recheckAt of None \<Rightarrow> Some d | Some r \<Rightarrow> if d < r then Some d else recheckAt)))"

definition lead_refusal :: "placement \<Rightarrow> bool" where
  "lead_refusal pl =
     (case pc_err pl of Some (Sched e) \<Rightarrow> errors_is (Some e) ErrLeadDeferred | _ \<Rightarrow> False)"

text \<open>The leads in order until one is not refused for a reason of its own.\<close>

fun try_leads ::
  "place_env \<Rightarrow> (nat \<Rightarrow> place_draws) \<Rightarrow> Campaign \<Rightarrow> EmailAccount list \<Rightarrow> nat \<Rightarrow> ContactSequencePair list
     \<Rightarrow> campaignPass \<Rightarrow> gtime option \<Rightarrow> uuid option \<Rightarrow> decision list \<Rightarrow> placement" where
  "try_leads env draws c accounts i [] p leadSlot leadAccount ev =
     \<lparr>pc_at = leadSlot, pc_pair = None, pc_account = leadAccount, pc_err = Some (Sched ErrCampaignDeferred),
      pc_events = ev @ [DecisionOnce ''leads_waiting'']\<rparr>"
| "try_leads env draws c accounts i (pair # pairs) p leadSlot leadAccount ev =
     (case placeCampaignSend (env\<lparr>pe_draws := draws i\<rparr>) c accounts pair p of
        (pl, p) \<Rightarrow>
          if \<not> lead_refusal pl then pl\<lparr>pc_events := ev @ pc_events pl\<rparr>
          else (case (case leadSlot of
                        None \<Rightarrow> (pc_at pl, pc_account pl)
                      | Some b \<Rightarrow> (case pc_at pl of
                                     None \<Rightarrow> (leadSlot, leadAccount)
                                   | Some t \<Rightarrow> if before t b then (Some t, pc_account pl) else (leadSlot, leadAccount))) of
                  (leadSlot, leadAccount) \<Rightarrow>
                    try_leads env draws c accounts (Suc i) pairs p leadSlot leadAccount (ev @ pc_events pl)))"

definition route_and_place ::
  "place_env \<Rightarrow> campaign_reads \<Rightarrow> Campaign \<Rightarrow> EmailAccount list \<Rightarrow> campaignPass \<Rightarrow> (uuid \<rightharpoonup> gtime) \<Rightarrow> placement" where
  "route_and_place env cn c accounts p paced =
     (case exclude_new cn c of
        None \<Rightarrow> failed ReadError
      | Some excl \<Rightarrow>
          (let paced = routing_paced c paced; first = em_ID (hd accounts)
           in case FindRoutedPairs (cn_routes cn) excl paced CampaignPlacementCandidates of
                None \<Rightarrow> failed ReadError
              | Some (candidates, recheckAt, senderWait) \<Rightarrow>
                  if candidates = [] then nothing_due env cn c first excl paced recheckAt
                  else try_leads env (cn_draws cn) c accounts 0 candidates p None (Some first) []))"

definition CalculateNextCampaignTime ::
  "place_env \<Rightarrow> pass_sources \<Rightarrow> store \<Rightarrow> campaign_reads \<Rightarrow> placement" where
  "CalculateNextCampaignTime env0 src st cn =
     (let env = env0\<lparr>pe_preview := False\<rparr>
      in case cn_campaign cn of
        None \<Rightarrow> failed ReadError
      | Some c \<Rightarrow>
          if ca_Status c \<noteq> ''active'' then failed (Sched ErrCampaignNotActive)
          else (let c = advanced_campaign cn c
                in case cn_senders cn of
                     None \<Rightarrow> failed ReadError
                   | Some accounts \<Rightarrow>
                       if accounts = [] then failed (Sched ErrNoEmailAccounts)
                       else (case prefillPool (pe_rd env)
                                    (newCampaignPass (pe_tzdb env) src (g_inst (pe_now env)) st c accounts) accounts of
                               None \<Rightarrow> failed ReadError
                             | Some p \<Rightarrow>
                                 (case pacedSenders (pe_tzdb env) (pe_wired env) (pe_rd env) (pe_now env)
                                         (\<lambda>_. pd_defer (pe_draws env)) accounts (Map.empty, p) of
                                    (paced, p) \<Rightarrow> route_and_place env cn c accounts p paced))))"

section \<open>Resuming a parked campaign\<close>

text \<open>A campaign parked for having no usable mailbox has one again.\<close>

fun any_usable :: "bool \<Rightarrow> gtime \<Rightarrow> EmailAccount list \<Rightarrow> campaignPass \<Rightarrow> bool" where
  "any_usable wired now [] p = False"
| "any_usable wired now (a # as) p =
     (if ea_Status a \<noteq> ''active'' then any_usable wired now as p
      else if ps_enforceAuth p \<and> DomainAuthBlocked a (g_inst now) (ps_authGrace p) then any_usable wired now as p
      else if \<not> rs_Enabled (behavior_of p (em_ID a)) then True
      else (case with_behavior p (em_ID a) (placeWithinBehavior wired (g_inst now) now) of
              (None, p) \<Rightarrow> any_usable wired now as p
            | (Some _, p) \<Rightarrow> True))"

definition CanResumeNoAccounts ::
  "tzdb \<Rightarrow> pass_sources \<Rightarrow> store \<Rightarrow> gtime \<Rightarrow> campaign_reads \<Rightarrow> bool option" where
  "CanResumeNoAccounts tzdb src st now cn =
     (case cn_campaign cn of
        None \<Rightarrow> None
      | Some c \<Rightarrow>
          if ca_Status c \<noteq> ''paused_no_accounts'' then Some False
          else (case cn_senders cn of
                  None \<Rightarrow> None
                | Some accounts \<Rightarrow>
                    if accounts = [] then Some False
                    else Some (any_usable (src_behavior src) now accounts
                                 (newCampaignPass tzdb src (g_inst now) st c accounts))))"


end
