(* ===== verification/Pass_Safety.thy ===== *)
theory Pass_Safety
  imports Campaign_Pass
begin

text \<open>
  What a placement of Campaign_Pass may answer. A send is traced back through the slot, the choice
  and the gathering to the gates its mailbox passed; the pass over the due leads is traced back to
  the routing that offered the lead. The memos of a pass only grow, so what a gate found then still
  stands in the pass that is returned.
\<close>

section \<open>Answers that send\<close>

lemma no_pair [simp]: "pc_pair (failed e) = None" "pc_pair (deferred t u se ev) = None"
  by (simp_all add: failed_def deferred_def)

lemma no_pair_empty [simp]: "pc_pair (empty_pool env c accounts windows tz g) = None"
  by (simp add: empty_pool_def Let_def)

lemma answer_slot_pair:
  assumes "pc_pair (answer_slot env pair s t sl ev) \<noteq> None"
  shows "sendable env (sl_floor sl)" "answer_slot env pair s t sl ev =
    \<lparr>pc_at = Some (scheduledSlot env t), pc_pair = Some pair, pc_account = Some (ac_ID s),
     pc_err = None, pc_events = ev\<rparr>"
  using assms by (auto simp: answer_slot_def split: if_split_asm)

lemma place_slot_pair:
  assumes "place_slot env c pair bound windows tz cand_t ch p = (pl, q)" "pc_pair pl \<noteq> None"
  obtains gap p1 sl2 p2 lastEmail sl3 sl4 p4 booked at' where
    "gap_of_send env (ch_selected ch) cand_t p = (gap, p1)"
    "distribute env (ch_selected ch) (ch_pool ch) gap windows tz (opening_slot bound (ch_selected ch) cand_t) p1 = (sl2, p2)"
    "lr_lastEmailTime (pe_lead env) (ac_ID (ch_selected ch)) = Some lastEmail"
    "sl3 = gap_slot env bound (ch_selected ch) gap windows tz lastEmail sl2"
    "pe_preview env \<or> lr_booked (pe_lead env) (ac_ID (ch_selected ch)) (jittered env (sl_at sl3)) = Some booked"
    "recipient_aimed env c pair (ch_selected ch) windows tz
       (sl3\<lparr>sl_at := curved env (ch_selected ch) tz
          (if pe_preview env then jittered env (sl_at sl3)
           else clear_of_booked env gap booked (jittered env (sl_at sl3)))\<rparr>) p2 = (sl4, p4)"
    "with_behavior p4 (ac_ID (ch_selected ch))
       (intersectWindows (pe_wired env) (g_inst (pe_now env))
          (notBefore (pe_now env) (pd_past (pe_draws env) 1) (sl_at sl4)) windows tz) = (at', q)"
    "sendable env (sl_floor sl4)"
    "pl = \<lparr>pc_at = Some (scheduledSlot env at'), pc_pair = Some pair, pc_account = Some (ac_ID (ch_selected ch)),
       pc_err = None, pc_events = last_email_of_day env ch (sl_at (opening_slot bound (ch_selected ch) cand_t))\<rparr>"
proof -
  let ?s = "ch_selected ch"
  obtain gap p1 where 1: "gap_of_send env ?s cand_t p = (gap, p1)" by (metis prod.exhaust)
  obtain sl2 p2 where 2: "distribute env ?s (ch_pool ch) gap windows tz (opening_slot bound ?s cand_t) p1 = (sl2, p2)"
    by (metis prod.exhaust)
  note run = assms(1) [unfolded place_slot_def Let_def 1 prod.case 2]
  show thesis
  proof (cases "lr_lastEmailTime (pe_lead env) (ac_ID ?s)")
    case None
    with run assms(2) show thesis by auto
  next
    case (Some lastEmail)
    define sl3 where "sl3 = gap_slot env bound ?s gap windows tz lastEmail sl2"
    define read where "read = (if pe_preview env then Some []
      else lr_booked (pe_lead env) (ac_ID ?s) (sl_at (sl3\<lparr>sl_at := jittered env (sl_at sl3)\<rparr>)))"
    note run = run [unfolded Some option.case, folded sl3_def read_def]
    show thesis
    proof (cases read)
      case None
      with run assms(2) show thesis by auto
    next
      case booked: (Some booked)
      define sl3' where "sl3' = sl3\<lparr>sl_at := curved env ?s tz
          (if pe_preview env then jittered env (sl_at sl3)
           else clear_of_booked env gap booked (jittered env (sl_at sl3)))\<rparr>"
      obtain sl4 p4 where 4: "recipient_aimed env c pair ?s windows tz sl3' p2 = (sl4, p4)" by (metis prod.exhaust)
      obtain at' p5 where 5: "with_behavior p4 (ac_ID ?s)
       (intersectWindows (pe_wired env) (g_inst (pe_now env))
          (notBefore (pe_now env) (pd_past (pe_draws env) 1) (sl_at sl4)) windows tz) = (at', p5)"
        by (metis prod.exhaust)
      have eq: "(let sl = (if pe_preview env then sl3\<lparr>sl_at := jittered env (sl_at sl3)\<rparr>
               else sl3\<lparr>sl_at := clear_of_booked env gap booked (jittered env (sl_at sl3))\<rparr>)
          in sl\<lparr>sl_at := curved env ?s tz (sl_at sl)\<rparr>) = sl3'"
        by (simp add: sl3'_def Let_def)
      have pl: "pl = answer_slot env pair ?s at' sl4
          (last_email_of_day env ch (sl_at (opening_slot bound ?s cand_t)))" and q: "q = p5"
        using run booked eq [unfolded Let_def] 4 5 by (cases "pe_preview env"; simp)+
      have "pe_preview env \<or> lr_booked (pe_lead env) (ac_ID ?s) (jittered env (sl_at sl3)) = Some booked"
        using booked by (cases "pe_preview env") (simp_all add: read_def)
      with that [OF 1 2 Some sl3_def _ 4 [unfolded sl3'_def] 5 [folded q]]
        answer_slot_pair [OF assms(2) [unfolded pl]] pl
      show thesis by simp
    qed
  qed
qed

lemma choose_from_refuses:
  assumes "choose_from env c accounts bound rotation gates boundCand recipient cs whole p = (Inl refused, q)"
  shows "pc_pair refused = None"
proof -
  have rotated: "pc_pair refused = None" if "pick_rotated env c rotation pool whole p = (Inl refused, q)" for pool
    using that by (auto simp: pick_rotated_def split: prod.split_asm option.split_asm)
  show ?thesis
    using assms rotated
    by (auto simp: choose_from_def wait_for_bound_def split: option.split_asm if_split_asm)
qed

lemma choose_mailbox_refuses:
  assumes "choose_mailbox env c accounts bound prefer' rotation recipient g p = (Inl refused, q)"
  shows "pc_pair refused = None"
proof -
  note run = assms [unfolded choose_mailbox_def Let_def]
  obtain same t busy where same: "sameDomain rotation (ga_candidates g) accounts (ga_gates g) = (same, t, busy)"
    by (metis prod_cases3)
  show ?thesis
  proof (cases "fr_domain rotation = []")
    case True
    with run choose_from_refuses show ?thesis by auto
  next
    case False
    with run same have "busy \<and> pc_pair refused = None
      \<or> (\<exists>cs. choose_from env c accounts bound rotation (ga_gates g) (pickBound (ga_candidates g) prefer') recipient cs cs p
           = (Inl refused, q))"
      by (cases busy; cases same) auto
    with choose_from_refuses show ?thesis by blast
  qed
qed

lemma place_on_pool_pair:
  assumes "place_on_pool env c accounts pair windows tz cand_t p = (pl, q)" "pc_pair pl \<noteq> None"
    and "heard = preferred_sender env accounts pair (boundSender accounts (cp_AssignedSender pair))"
    and "rotation = rotatedFollowUp c pair heard"
    and "bound = (if fr_active rotation then None else boundSender accounts (cp_AssignedSender pair))"
  obtains g p1 ch p2 where
    "gather_pool env c (recipient_provider env c pair) (rotation_last_sends env c accounts) bound cand_t accounts
       (empty_gather, p) = Some (g, p1)"
    "ga_candidates g \<noteq> []"
    "choose_mailbox env c accounts bound (if fr_active rotation then None else heard) rotation
       (recipient_provider env c pair) g p1 = (Inr ch, p2)"
    "place_slot env c pair bound windows tz cand_t ch p2 = (pl, q)"
proof (cases "gather_pool env c (recipient_provider env c pair) (rotation_last_sends env c accounts) bound cand_t
    accounts (empty_gather, p)")
  case None
  with assms show thesis by (auto simp: place_on_pool_def Let_def)
next
  case (Some gp)
  obtain g p1 where gp: "gp = (g, p1)" by (cases gp)
  note run = assms(1) [unfolded place_on_pool_def Let_def, folded assms(3), folded assms(4), folded assms(5),
      unfolded Some gp option.case prod.case]
  have nonempty: "ga_candidates g \<noteq> []" using run assms(2) by (auto split: if_split_asm)
  obtain choice p2 where ch: "choose_mailbox env c accounts bound (if fr_active rotation then None else heard) rotation
       (recipient_provider env c pair) g p1 = (choice, p2)" by (metis prod.exhaust)
  show thesis
  proof (cases choice)
    case (Inl refused)
    have "pc_pair refused = None" using ch [unfolded Inl] by (rule choose_mailbox_refuses)
    with run ch Inl nonempty assms(2) show thesis by simp
  next
    case (Inr ch')
    with run ch nonempty have "place_slot env c pair bound windows tz cand_t ch' p2 = (pl, q)" by simp
    with that Some gp nonempty ch Inr show thesis by blast
  qed
qed

lemma placeCampaignSend_pair:
  assumes "placeCampaignSend env c accounts pair p = (pl, q)" "pc_pair pl \<noteq> None"
  obtains base where "base_time env pair = Some base" "\<not> past_end c (started_time env c base)"
    "\<not> BlocksSending (ps_risk p)"
    "place_on_pool env c accounts pair (effectiveWindows c) (loadLocation (pe_tzdb env) (campaign_ClockTimezone c))
       (nextScheduleSlot (started_time env c base) (effectiveWindows c)
          (loadLocation (pe_tzdb env) (campaign_ClockTimezone c))) p = (pl, q)"
  using assms by (auto simp: placeCampaignSend_def Let_def split: option.split_asm if_split_asm)


section \<open>The chosen mailbox is a candidate\<close>

lemma rotation_member:
  assumes "selectAccountByRotationMode mode cs salt draw = Some s"
  shows "\<exists>c\<in>set cs. \<exists>w. s = c\<lparr>ac_Weight := w\<rparr>"
proof -
  have self: "\<exists>w. c = c\<lparr>ac_Weight := w\<rparr>" for c :: "'a AccountCandidate_scheme" by (rule exI [of _ "ac_Weight c"]) simp
  consider "selectAccountRoundRobin cs salt = Some s" | "selectAccountLeastRecentlyUsed cs salt = Some s"
    | "selectAccountWeighted draw cs = Some s"
    using assms by (auto simp: selectAccountByRotationMode_def split: if_split_asm)
  then show ?thesis
  proof cases
    case 1
    with round_robin_least [of cs salt] self [of s] show ?thesis by (auto simp: rotation_least_def)
  next
    case 2
    with least_recently_used_least [of cs salt] self [of s] show ?thesis by (auto simp: rotation_least_def)
  next
    case 3
    from selectAccountWeighted_member [OF this] show ?thesis by (auto simp: weighed_def)
  qed
qed

lemma stable_loop_member: "stable_loop best cs = Some s \<Longrightarrow> best = Some s \<or> s \<in> set cs"
  by (induction best cs rule: stable_loop.induct) (auto split: option.split_asm if_split_asm)

lemma gap_clear_loop_set: "set (fst (gap_clear_loop env cs p)) \<subseteq> set cs"
  by (induction env cs p rule: gap_clear_loop.induct) (auto split: prod.split)

lemma gapClear_set: "set (fst (gapClearCandidates env cs p)) \<subseteq> set cs"
  using gap_clear_loop_set by (auto simp: gapClearCandidates_def split: option.split)

lemma avoidPrevious_set: "set (avoidPrevious r pick) \<subseteq> set pick"
  by (auto simp: avoidPrevious_def Let_def split: option.split)

lemma gap_draw_later: "gap_draw env c p = (gap, q) \<Longrightarrow> later_pass p q"
  by (auto simp: gap_draw_def later_pass_def split: option.split_asm prod.split_asm
      dest!: with_behavior_later)

lemma gap_clear_loop_later: "gap_clear_loop env cs p = (clear, q) \<Longrightarrow> later_pass p q"
  by (induction env cs p arbitrary: clear q rule: gap_clear_loop.induct)
    (auto split: prod.split_asm if_split_asm dest!: gap_draw_later intro: later_pass_trans)

lemma read_last_sends_later: "read_last_sends env cs p = Some q \<Longrightarrow> later_pass p q"
  by (auto simp: read_last_sends_def Let_def later_pass_def split: option.split_asm if_split_asm)

lemma gapClear_later: "gapClearCandidates env cs p = (clear, q) \<Longrightarrow> later_pass p q"
  by (auto simp: gapClearCandidates_def split: option.split_asm
      dest!: gap_clear_loop_later read_last_sends_later intro: later_pass_trans)

text \<open>Only a preferring campaign falls back to the whole pool.\<close>

lemma rotate_pool_sound:
  assumes "rotate_pool env c rotation cs whole p = (Some s, q)"
  shows "later_pass p q
    \<and> (\<exists>x\<in>set cs \<union> (if ca_ESPMatchMode c = ''prefer'' then set whole else {}). \<exists>w. s = x\<lparr>ac_Weight := w\<rparr>)"
proof (cases "pe_preview env")
  case True
  have "\<exists>w. s = s\<lparr>ac_Weight := w\<rparr>" by (rule exI [of _ "ac_Weight s"]) simp
  with True assms show ?thesis
    by (auto simp: rotate_pool_def stableCandidate_def dest: stable_loop_member)
next
  case False
  obtain clear p1 where 1: "gapClearCandidates env cs p = (clear, p1)" by (metis prod.exhaust)
  obtain clear' p2 where 2: "gapClearCandidates env whole p1 = (clear', p2)" by (metis prod.exhaust)
  define pick where "pick = (if clear \<noteq> [] then (clear, p1)
      else if ca_ESPMatchMode c = ''prefer'' \<and> length cs < length whole
      then (if clear' \<noteq> [] then clear' else cs, p2) else (cs, p1))"
  have run: "selectAccountByRotationMode (ca_RotationMode c) (avoidPrevious rotation (fst pick)) (ca_ID c)
      (pd_rotation (pe_draws env)) = Some s" "q = snd pick"
    using assms False by (auto simp: rotate_pool_def 1 2 pick_def split: prod.split_asm if_split_asm)
  have "later_pass p p1" "later_pass p1 p2" using gapClear_later [OF 1] gapClear_later [OF 2] by simp_all
  then have "later_pass p (snd pick)" by (auto simp: pick_def intro: later_pass_trans)
  moreover have "set clear \<subseteq> set cs" "set clear' \<subseteq> set whole"
    using gapClear_set [of env cs p] gapClear_set [of env whole p1] 1 2 by simp_all
  then have "set (fst pick) \<subseteq> set cs \<union> (if ca_ESPMatchMode c = ''prefer'' then set whole else {})"
    by (auto simp: pick_def split: if_split_asm)
  ultimately show ?thesis
    using rotation_member [OF run(1)] avoidPrevious_set [of rotation "fst pick"] run(2) by blast
qed

lemma espMatching_set: "espMatching c recipient b cs = Some pool \<Longrightarrow> set pool \<subseteq> set cs"
  by (auto simp: espMatching_def Let_def split: if_split_asm)

lemma sameDomain_set: "sameDomain r cs accounts gates = (Some same, x) \<Longrightarrow> set same \<subseteq> set cs"
  by (auto simp: sameDomain_def Let_def split: if_split_asm)

lemma pickBound_in: "pickBound cs acct = Some s \<Longrightarrow> s \<in> set cs"
  by (auto simp: pickBound_def find_Some_iff split: option.split_asm)

text \<open>
  How the mailbox was chosen: the one that is bound, or a draw of the rotation over what the
  matching left, when no bound mailbox holds the lead back.
\<close>

definition drawn_from :: "place_env \<Rightarrow> Campaign \<Rightarrow> Candidate list \<Rightarrow> Candidate list \<Rightarrow> Candidate \<Rightarrow> bool" where
  "drawn_from env c pool whole s \<longleftrightarrow>
     (\<exists>x\<in>set pool \<union> (if ca_ESPMatchMode c = ''prefer'' then set whole else {}). \<exists>w. s = x\<lparr>ac_Weight := w\<rparr>)"

lemma choose_from_sound:
  assumes "choose_from env c accounts bound rotation gates boundCand recipient cs whole p = (Inr ch, q)"
  obtains pool where "espMatching c recipient boundCand cs = Some pool" "ch_whole ch = whole" "ch_pool ch = pool"
    "later_pass p q"
    "boundCand = Some (ch_selected ch)
     \<or> boundCand = None \<and> drawn_from env c pool whole (ch_selected ch)
       \<and> (\<forall>b gate. bound = Some b \<longrightarrow> gates (em_ID b) = Some gate \<longrightarrow> \<not> mg_paced gate)"
proof -
  obtain pool where pool: "espMatching c recipient boundCand cs = Some pool"
    using assms by (auto simp: choose_from_def split: option.split_asm)
  show thesis
  proof (cases boundCand)
    case (Some s)
    with assms pool that show thesis by (auto simp: choose_from_def)
  next
    case None
    have free: "\<forall>b gate. bound = Some b \<longrightarrow> gates (em_ID b) = Some gate \<longrightarrow> \<not> mg_paced gate"
      and "pick_rotated env c rotation pool whole p = (Inr ch, q)"
      using assms pool None by (auto simp: choose_from_def split: option.split_asm if_split_asm)
    then obtain s where "rotate_pool env c rotation pool whole p = (Some s, q)"
      and ch: "ch = \<lparr>ch_selected = s, ch_pool = pool, ch_whole = whole\<rparr>"
      by (auto simp: pick_rotated_def split: prod.split_asm option.split_asm)
    with rotate_pool_sound have "later_pass p q \<and> drawn_from env c pool whole s"
      unfolding drawn_from_def by blast
    with that pool ch None free show thesis by auto
  qed
qed

lemma choose_mailbox_sound:
  assumes "choose_mailbox env c accounts bound prefer' rotation recipient g p = (Inr ch, q)"
  obtains cs pool where "set cs \<subseteq> set (ga_candidates g)" "fr_domain rotation = [] \<Longrightarrow> cs = ga_candidates g"
    "espMatching c recipient (pickBound (ga_candidates g) prefer') cs = Some pool" "later_pass p q"
    "ch_pool ch = pool" "ch_whole ch = cs"
    "pickBound (ga_candidates g) prefer' = Some (ch_selected ch)
     \<or> pickBound (ga_candidates g) prefer' = None \<and> drawn_from env c pool cs (ch_selected ch)
       \<and> (\<forall>b gate. bound = Some b \<longrightarrow> ga_gates g (em_ID b) = Some gate \<longrightarrow> \<not> mg_paced gate)"
proof -
  obtain cs where cs: "set cs \<subseteq> set (ga_candidates g)" "fr_domain rotation = [] \<Longrightarrow> cs = ga_candidates g"
    and run: "choose_from env c accounts bound rotation (ga_gates g) (pickBound (ga_candidates g) prefer') recipient
      cs cs p = (Inr ch, q)"
  proof (cases "fr_domain rotation = []")
    case True
    with assms that [of "ga_candidates g"] show thesis by (simp add: choose_mailbox_def Let_def)
  next
    case False
    obtain same t busy where same: "sameDomain rotation (ga_candidates g) accounts (ga_gates g) = (same, t, busy)"
      by (metis prod_cases3)
    note run = assms [unfolded choose_mailbox_def Let_def, unfolded same prod.case]
    show thesis
    proof (cases same)
      case None
      with run False that [of "ga_candidates g"] show thesis by (simp split: if_split_asm)
    next
      case (Some s)
      with run False that [of s] sameDomain_set [OF same [unfolded Some]] show thesis
        by (simp split: if_split_asm)
    qed
  qed
  show thesis
    by (rule choose_from_sound [OF run], rule that [OF cs]) simp_all
qed

lemma choose_mailbox_member:
  assumes "choose_mailbox env c accounts bound prefer' rotation recipient g p = (Inr ch, q)"
  shows "\<exists>x\<in>set (ga_candidates g). \<exists>w. ch_selected ch = x\<lparr>ac_Weight := w\<rparr>"
proof (rule choose_mailbox_sound [OF assms])
  fix cs pool
  assume cs: "set cs \<subseteq> set (ga_candidates g)"
    "espMatching c recipient (pickBound (ga_candidates g) prefer') cs = Some pool"
    "pickBound (ga_candidates g) prefer' = Some (ch_selected ch)
     \<or> pickBound (ga_candidates g) prefer' = None \<and> drawn_from env c pool cs (ch_selected ch)
       \<and> (\<forall>b gate. bound = Some b \<longrightarrow> ga_gates g (em_ID b) = Some gate \<longrightarrow> \<not> mg_paced gate)"
  have "ch_selected ch = (ch_selected ch)\<lparr>ac_Weight := ac_Weight (ch_selected ch)\<rparr>" by simp
  moreover have "drawn_from env c pool cs (ch_selected ch) \<Longrightarrow> ?thesis"
    using espMatching_set [OF cs(2)] cs(1) unfolding drawn_from_def by (auto split: if_split_asm)
  ultimately show ?thesis using cs(3) pickBound_in by blast
qed


section \<open>What a mailbox passed to become a candidate\<close>

text \<open>
  What the memos of a pass say of a mailbox that may send: admitted, its domain authenticated, its
  lifecycle sending, its health not blocking, its worker alive, and room under today's cap.
\<close>

definition cleared :: "pass_reads \<Rightarrow> instant \<Rightarrow> campaignPass \<Rightarrow> EmailAccount \<Rightarrow> bool" where
  "cleared rd now q a \<longleftrightarrow>
     (pr_admission rd = None \<or> (case ps_sendGates q (em_ID a) of None \<Rightarrow> False | Some g \<Rightarrow> gate_open g))
     \<and> \<not> (ps_enforceAuth q \<and> DomainAuthBlocked a now (ps_authGrace q))
     \<and> \<not> (ps_lifecyclesKnown q \<and> \<not> SendsCold (lifecycle_state q (em_ID a)))
     \<and> (case ps_health q (em_ID a) of None \<Rightarrow> False | Some h \<Rightarrow> gate_open (fst (health_gate now h 1)))
     \<and> (pr_workerLive rd = None \<or> (case ea_WorkerID a of None \<Rightarrow> False | Some w \<Rightarrow> ps_workerLive q w = Some True))
     \<and> (case ps_sentToday q (em_ID a) of None \<Rightarrow> False | Some n \<Rightarrow> n < effectiveCap now q a)"

lemma cleared_later:
  assumes "cleared rd now q a" "later_pass q q'"
  shows "cleared rd now q' a"
proof -
  have same: "ps_enforceAuth q' = ps_enforceAuth q" "ps_authGrace q' = ps_authGrace q"
    "ps_lifecyclesKnown q' = ps_lifecyclesKnown q" "lifecycle_state q' u = lifecycle_state q u"
    "effectiveCap now q' a = effectiveCap now q a" for u
    using assms(2) by (simp_all add: later_pass_def lifecycle_state_def effectiveCap_later)
  show ?thesis
    using assms(1) later_pass_read [OF assms(2)] unfolding cleared_def same
    by (auto split: option.split_asm)
qed

lemma sendGate_facts:
  assumes "sendGate rd now p a = (g, q)"
  shows "later_pass p q"
    "gate_open g \<Longrightarrow> pr_admission rd = None \<or> (case ps_sendGates q (em_ID a) of None \<Rightarrow> False | Some g \<Rightarrow> gate_open g)"
  using assms by (auto simp: sendGate_def Let_def split: option.split_asm)

lemma healthFor_facts:
  assumes "healthFor rd p u = (h, q)"
  shows "later_pass p q" "ps_health q u = Some h"
  using assms by (auto simp: healthFor_def Let_def split: option.split_asm)

lemma workerReachable_facts:
  assumes "workerReachable rd p a = (l, q)"
  shows "later_pass p q"
    "l \<Longrightarrow> pr_workerLive rd = None \<or> (case ea_WorkerID a of None \<Rightarrow> False | Some w \<Rightarrow> ps_workerLive q w = Some True)"
  using assms by (auto simp: workerReachable_def Let_def split: option.split_asm)

text \<open>A health band never adds room.\<close>

lemma health_gate_room:
  assumes "health_gate now h r = (g, rem)" "0 < rem"
  shows "0 < r \<and> (gate_open g \<longleftrightarrow> gate_open (fst (health_gate now h 1)))"
proof -
  have "trunc (fmul (f_of r) (volumeMultiplier s)) \<le> 0" if "r \<le> 0" for s
  proof -
    have "f_of r \<le> 0" using f_of_mono [OF that] by (simp add: f_of_def)
    moreover have "0 \<le> volumeMultiplier s"
      by (simp add: volumeMultiplier_def f64_nonneg)
    ultimately have "f_of r * volumeMultiplier s \<le> 0" by (simp add: mult_nonpos_nonneg)
    then have "fmul (f_of r) (volumeMultiplier s) \<le> 0" using f64_mono [of "f_of r * volumeMultiplier s" 0] by (simp add: fmul_def)
    then show ?thesis using trunc_le_int [of _ 0] by simp
  qed
  then have "rem \<le> 0" if "r \<le> 0"
    using assms(1) that by (auto simp: health_gate_def split: if_split_asm)
  then have "0 < r" using assms(2) by linarith
  with assms show ?thesis by (auto simp: health_gate_def split: if_split_asm option.split_asm)
qed

lemma gateFor_open:
  assumes "gateFor rd now p a r = ((gate, rem), q)"
  shows "later_pass p q"
    "gate_open gate \<Longrightarrow> ps_sentToday q (em_ID a) = Some (effectiveCap now q a - r) \<Longrightarrow> cleared rd now q a \<and> 0 < rem"
proof -
  obtain g p1 where sg: "sendGate rd now p a = (g, p1)" by (cases "sendGate rd now p a")
  obtain h p2 where hf: "healthFor rd p1 (em_ID a) = (h, p2)" by (cases "healthFor rd p1 (em_ID a)")
  obtain l p3 where wr: "workerReachable rd p2 a = (l, p3)" by (cases "workerReachable rd p2 a")
  obtain hg hr where hg: "health_gate now h r = (hg, hr)" by (cases "health_gate now h r")
  note steps = sendGate_facts [OF sg] healthFor_facts [OF hf] workerReachable_facts [OF wr]
  have l12: "later_pass p p2" and l23: "later_pass p1 p3" and l13: "later_pass p p3"
    using steps(1,3,5) by (blast intro: later_pass_trans)+
  note run = assms [unfolded gateFor_def sg prod.case hf hg wr]
  show "later_pass p q" using run steps(1) l12 l13 by (auto split: if_split_asm)
  assume o: "gate_open gate" and sent: "ps_sentToday q (em_ID a) = Some (effectiveCap now q a - r)"
  have flags: "gate_open g" "\<not> (ps_enforceAuth p1 \<and> DomainAuthBlocked a now (ps_authGrace p1))"
    "\<not> (ps_lifecyclesKnown p1 \<and> \<not> SendsCold (lifecycle_state p1 (em_ID a)))" "gate_open hg" "l" "0 < hr"
    "q = p3" "rem = hr"
    using run o by (auto split: if_split_asm)
  have same: "ps_enforceAuth q = ps_enforceAuth p1" "ps_authGrace q = ps_authGrace p1"
    "ps_lifecyclesKnown q = ps_lifecyclesKnown p1" "lifecycle_state q u = lifecycle_state p1 u" for u
    using l23 flags(7) by (simp_all add: later_pass_def lifecycle_state_def)
  have room: "0 < r" "gate_open (fst (health_gate now h 1))"
    using health_gate_room [OF hg flags(6)] flags(4) by simp_all
  have "ps_health q (em_ID a) = Some h" using later_pass_read(2) [OF steps(5) steps(4)] flags(7) by simp
  moreover have "pr_admission rd = None \<or> (case ps_sendGates q (em_ID a) of None \<Rightarrow> False | Some g \<Rightarrow> gate_open g)"
    using steps(2) [OF flags(1)] later_pass_read(4) [OF l23] flags(7) by (auto split: option.split_asm)
  ultimately show "cleared rd now q a \<and> 0 < rem"
    using flags room steps(6) sent 
    unfolding cleared_def flags(7) same [unfolded flags(7)] by simp
qed


text \<open>A gate that only counts the day's budget, the hours or the worker is always one that paces.\<close>

definition pacing_reason :: "gate_reason \<Rightarrow> bool" where
  "pacing_reason r \<longleftrightarrow> r = gateBudget \<or> r = gateHours \<or> r = gateNoWorker"

definition honest_gate :: "mailboxGate \<Rightarrow> bool" where
  "honest_gate g \<longleftrightarrow> (case mg_reason g of None \<Rightarrow> True | Some r \<Rightarrow> pacing_reason r \<longrightarrow> mg_paced g)"

definition honest_memo :: "campaignPass \<Rightarrow> bool" where
  "honest_memo p \<longleftrightarrow> (\<forall>u g. ps_sendGates p u = Some g \<longrightarrow> honest_gate g)"

lemma honest_shut: "honest_gate open_gate" "honest_gate (shut gateAdmission)"
  by (simp_all add: honest_gate_def pacing_reason_def open_gate_def)

lemma honest_admission: "honest_gate (admission_gate now a)"
  by (simp add: admission_gate_def honest_gate_def pacing_reason_def open_gate_def split: option.split)

lemma honest_gateFor:
  assumes "gateFor rd now p a r = ((gate, rem), q)" "honest_memo p"
  shows "honest_memo q" "honest_gate gate"
proof -
  obtain g p1 where sg: "sendGate rd now p a = (g, p1)" by (cases "sendGate rd now p a")
  obtain h p2 where hf: "healthFor rd p1 (em_ID a) = (h, p2)" by (cases "healthFor rd p1 (em_ID a)")
  obtain l p3 where wr: "workerReachable rd p2 a = (l, p3)" by (cases "workerReachable rd p2 a")
  obtain hg hr where hg: "health_gate now h r = (hg, hr)" by (cases "health_gate now h r")
  have "honest_gate g"
    using sg assms(2) honest_admission
    by (auto simp: sendGate_def Let_def honest_memo_def honest_shut split: option.split_asm)
  moreover have "honest_gate hg"
    using hg by (auto simp: health_gate_def open_gate_def honest_gate_def pacing_reason_def split: if_split_asm)
  ultimately show "honest_gate gate"
    using assms(1) unfolding gateFor_def sg prod.case hf hg wr
    by (auto simp: open_gate_def honest_gate_def pacing_reason_def split: if_split_asm)
  have "honest_memo p1"
    using sg assms(2) honest_admission unfolding sendGate_def Let_def honest_memo_def
    by (auto split: option.split_asm if_split_asm)
  moreover have "ps_sendGates p2 = ps_sendGates p1" "ps_sendGates p3 = ps_sendGates p2"
    using hf wr by (auto simp: healthFor_def workerReachable_def Let_def split: option.split_asm)
  ultimately show "honest_memo q"
    using assms(1) unfolding gateFor_def sg prod.case hf hg wr
    by (auto simp: honest_memo_def split: if_split_asm)
qed

lemma with_behavior_memo: "with_behavior p u f = (x, q) \<Longrightarrow> ps_sendGates q = ps_sendGates p"
  by (auto simp: with_behavior_def split: option.split_asm prod.split_asm)

lemma honest_windowFor:
  assumes "windowFor tzdb wired now p a at' capv r w = ((o1, o2, r', gate), q)" "honest_memo p"
  shows "honest_memo q" "honest_gate gate"
proof -
  have "ps_sendGates q = ps_sendGates p"
    using assms(1)
    by (auto simp: windowFor_def Let_def split: prod.split_asm if_split_asm option.split_asm dest!: with_behavior_memo)
  then show "honest_memo q" using assms(2) by (simp add: honest_memo_def)
  show "honest_gate gate"
    using assms(1)
    by (auto simp: windowFor_def Let_def honest_gate_def pacing_reason_def open_gate_def
        split: prod.split_asm if_split_asm option.split_asm)
qed

text \<open>A candidate made from a mailbox, and the counts of a pass.\<close>

definition admitted :: "place_env \<Rightarrow> Campaign \<Rightarrow> string \<Rightarrow> campaignPass \<Rightarrow> EmailAccount \<Rightarrow> Candidate \<Rightarrow> bool" where
  "admitted env c recipient q a x \<longleftrightarrow>
     ac_ID x = em_ID a \<and> cd_Account x = a
     \<and> ac_ProviderMatch x = providerMatches c recipient (senderESP (ea_Provider a) (ea_MailHost a))
     \<and> ac_WarmupAgeDays x = warmup_age env a
     \<and> ac_Weight x = computeWeight (pe_log2 env) (ac_RemainingToday x) (ac_WarmupAgeDays x)
     \<and> cleared (pe_rd env) (g_inst (pe_now env)) q a"

definition counts_ok :: "pass_reads \<Rightarrow> campaignPass \<Rightarrow> bool" where
  "counts_ok rd p \<longleftrightarrow>
     (\<forall>u n. ps_sentToday p u = Some n \<longrightarrow> 0 \<le> n) \<and> (\<forall>u n. pr_sentToday rd u = Some n \<longrightarrow> 0 \<le> n)"

lemma admitted_later: "admitted env c recipient q a x \<Longrightarrow> later_pass q q' \<Longrightarrow> admitted env c recipient q' a x"
  by (auto simp: admitted_def intro: cleared_later)

lemma with_behavior_counts: "with_behavior p u f = (x, q) \<Longrightarrow> ps_sentToday q = ps_sentToday p"
  by (auto simp: with_behavior_def split: option.split_asm prod.split_asm)

lemma windowFor_counts:
  assumes "windowFor tzdb wired now p a at' capv r w = ((o1, o2, r', gate), q)"
  shows "ps_sentToday q = ps_sentToday p" "gate_open gate \<Longrightarrow> 0 < r \<Longrightarrow> 0 < capv \<Longrightarrow> 0 < r'"
  using assms
  by (auto simp: windowFor_def Let_def open_gate_def split: prod.split_asm if_split_asm option.split_asm
      dest!: with_behavior_counts)

lemma gateFor_counts:
  assumes "gateFor rd now p a r = ((gate, rem), q)"
  shows "ps_sentToday q = ps_sentToday p" "gate_open gate \<Longrightarrow> 0 < rem \<and> 0 < r"
proof -
  obtain g p1 where sg: "sendGate rd now p a = (g, p1)" by (cases "sendGate rd now p a")
  obtain h p2 where hf: "healthFor rd p1 (em_ID a) = (h, p2)" by (cases "healthFor rd p1 (em_ID a)")
  obtain l p3 where wr: "workerReachable rd p2 a = (l, p3)" by (cases "workerReachable rd p2 a")
  obtain hg hr where hg: "health_gate now h r = (hg, hr)" by (cases "health_gate now h r")
  have "ps_sentToday p1 = ps_sentToday p" using sg by (auto simp: sendGate_def Let_def split: option.split_asm)
  moreover have "ps_sentToday p2 = ps_sentToday p1" using hf by (auto simp: healthFor_def Let_def split: option.split_asm)
  moreover have "ps_sentToday p3 = ps_sentToday p2" using wr by (auto simp: workerReachable_def Let_def split: option.split_asm)
  ultimately show "ps_sentToday q = ps_sentToday p"
    using assms unfolding gateFor_def sg prod.case hf hg wr by (auto split: if_split_asm)
  show "gate_open gate \<Longrightarrow> 0 < rem \<and> 0 < r"
    using assms health_gate_room [OF hg] unfolding gateFor_def sg prod.case hf hg wr
    by (auto simp: open_gate_def split: if_split_asm)
qed

text \<open>The gathering adds a mailbox of the pool only after both of its gates let it through.\<close>

lemma gather_step:
  assumes "gather_pool env c recipient lastSends bound cand_t (a # as) (g, p) = Some res"
  obtains g' q where "gather_pool env c recipient lastSends bound cand_t as (g', q) = Some res" "later_pass p q"
    "ga_candidates g' = ga_candidates g
     \<or> (\<exists>x. ga_candidates g' = ga_candidates g @ [x] \<and> admitted env c recipient q a x
          \<and> (counts_ok (pe_rd env) p \<longrightarrow> 0 < ac_RemainingToday x))"
    "ga_candidates g' = ga_candidates g \<Longrightarrow> \<exists>gate. ga_gates g' = (ga_gates g)(em_ID a \<mapsto> gate)
       \<and> \<not> gate_open gate \<and> (honest_memo p \<longrightarrow> honest_gate gate)"
    "honest_memo p \<Longrightarrow> honest_memo q" "counts_ok (pe_rd env) p \<Longrightarrow> counts_ok (pe_rd env) q"
    "ga_candidates g' \<noteq> ga_candidates g \<Longrightarrow> ga_gates g' = ga_gates g"
proof -
  let ?rd = "pe_rd env" and ?now = "g_inst (pe_now env)"
  obtain sent p1 where s: "sentTodayFor ?rd p (em_ID a) = (Some sent, p1)"
    using assms by (cases "sentTodayFor (pe_rd env) p (em_ID a)"; cases "fst (sentTodayFor (pe_rd env) p (em_ID a))") auto
  define capv where "capv = effectiveCap ?now p1 a"
  obtain gate rem p2 where gt: "gateFor ?rd ?now p1 a (capv - sent) = ((gate, rem), p2)" by (metis prod_cases3 prod.exhaust)
  note run = assms [unfolded gather_pool.simps s prod.case option.case Let_def, folded capv_def, unfolded gt prod.case]
  have l1: "later_pass p p1" using s by (rule sentTodayFor_later)
  have l2: "later_pass p1 p2" using gt by (rule gateFor_open)
  have c1: "counts_ok ?rd p1 \<and> 0 \<le> sent" if "counts_ok ?rd p"
    using that s by (auto simp: sentTodayFor_def counts_ok_def split: option.split_asm if_split_asm)
  have c2: "counts_ok ?rd p2" if "counts_ok ?rd p"
    using c1 [OF that] gateFor_counts(1) [OF gt] by (simp add: counts_ok_def)
  have hm: "honest_memo p1" if "honest_memo p"
    using that s by (auto simp: sentTodayFor_def honest_memo_def split: option.split_asm)
  have hg: "honest_memo p2" "honest_gate gate" if "honest_memo p"
    using honest_gateFor [OF gt] hm [OF that] by blast+
  show thesis
  proof (cases "gate_open gate")
    case False
    have st: "ga_candidates (leave_standing (em_ID a) gate g) = ga_candidates g"
      "ga_gates (leave_standing (em_ID a) gate g) = (ga_gates g)(em_ID a \<mapsto> gate)"
      by (simp_all add: leave_standing_def Let_def bump_count_def split: option.split)
    from run False have "gather_pool env c recipient lastSends bound cand_t as (leave_standing (em_ID a) gate g, p2) = Some res"
      by simp
    then show thesis by (rule that) (use later_pass_trans [OF l1 l2] st False hg c2 in auto)
  next
    case True
    obtain openAt openLoc rem' wgate p3 where wf: "windowFor (pe_tzdb env) (pe_wired env) (pe_now env) p2 a cand_t
        capv rem (case bound of None \<Rightarrow> False | Some b \<Rightarrow> em_ID b = em_ID a) = ((openAt, openLoc, rem', wgate), p3)"
      by (metis prod_cases4 prod.exhaust)
    have l3: "later_pass p2 p3" using wf by (rule windowFor_later)
    have hw: "honest_memo p3" "honest_gate wgate" if "honest_memo p"
      using honest_windowFor [OF wf] hg [OF that] by blast+
    have c3: "counts_ok ?rd p3" if "counts_ok ?rd p"
      using c2 [OF that] windowFor_counts(1) [OF wf] by (simp add: counts_ok_def)
    have l: "later_pass p p3" using l1 l2 l3 by (blast intro: later_pass_trans)
    show thesis
    proof (cases "gate_open wgate")
      case False
      have st: "ga_candidates (leave_window (em_ID a) wgate g) = ga_candidates g"
        "ga_gates (leave_window (em_ID a) wgate g) = (ga_gates g)(em_ID a \<mapsto> wgate)"
        by (simp_all add: leave_window_def Let_def bump_count_def)
      from run True wf False
      have "gather_pool env c recipient lastSends bound cand_t as (leave_window (em_ID a) wgate g, p3) = Some res"
        by simp
      then show thesis by (rule that) (use l st False hw c3 in auto)
    next
      case wopen: True
      have "ps_sentToday p1 (em_ID a) = Some sent"
        using s by (auto simp: sentTodayFor_def split: option.split_asm)
      then have "ps_sentToday p2 (em_ID a) = Some (effectiveCap ?now p2 a - (capv - sent))"
        using later_pass_read(1) [OF l2] effectiveCap_later [OF l2] by (simp add: capv_def)
      then have "cleared ?rd ?now p2 a" using gateFor_open(2) [OF gt True] by blast
      then have "cleared ?rd ?now p3 a" using l3 by (rule cleared_later)
      moreover define x where "x = make_candidate env c recipient lastSends p3 a sent rem' openAt openLoc"
      ultimately have adm: "admitted env c recipient p3 a x"
        by (simp add: admitted_def make_candidate_def Let_def)
      have rem: "0 < ac_RemainingToday x" if "counts_ok ?rd p"
      proof -
        have "0 < capv" using gateFor_counts(2) [OF gt True] c1 [OF that] by linarith
        then show ?thesis
          using windowFor_counts(2) [OF wf wopen] gateFor_counts(2) [OF gt True]
          by (simp add: x_def make_candidate_def Let_def)
      qed
      from run True wf wopen
      have "gather_pool env c recipient lastSends bound cand_t as (g\<lparr>ga_candidates := ga_candidates g @ [x]\<rparr>, p3) = Some res"
        by (simp add: x_def)
      moreover have "ga_candidates (g\<lparr>ga_candidates := ga_candidates g @ [x]\<rparr>) = ga_candidates g @ [x]"
        "ga_gates (g\<lparr>ga_candidates := ga_candidates g @ [x]\<rparr>) = ga_gates g" by simp_all
      ultimately show thesis using l hw c3 adm rem that [of "g\<lparr>ga_candidates := ga_candidates g @ [x]\<rparr>" p3] by auto
    qed
  qed
qed

lemma gather_pool_sound:
  assumes "gather_pool env c recipient lastSends bound cand_t as (g, p) = Some (g', q)"
  shows "later_pass p q"
    "x \<in> set (ga_candidates g') \<Longrightarrow> x \<in> set (ga_candidates g)
       \<or> (\<exists>a\<in>set as. admitted env c recipient q a x \<and> (counts_ok (pe_rd env) p \<longrightarrow> 0 < ac_RemainingToday x))"
  using assms
proof (induction as arbitrary: g p)
  case Nil
  { case 1 with Nil show ?case by simp next case 2 with Nil show ?case by simp }
next
  case (Cons a as)
  { case 1
    from this(1) obtain g1 p1 where "gather_pool env c recipient lastSends bound cand_t as (g1, p1) = Some (g', q)"
      "later_pass p p1" by (rule gather_step)
    with Cons.IH(1) show ?case by (blast intro: later_pass_trans)
  next
    case 2
    from this(2) obtain g1 p1 where run: "gather_pool env c recipient lastSends bound cand_t as (g1, p1) = Some (g', q)"
      and new: "ga_candidates g1 = ga_candidates g
        \<or> (\<exists>x. ga_candidates g1 = ga_candidates g @ [x] \<and> admitted env c recipient p1 a x
          \<and> (counts_ok (pe_rd env) p \<longrightarrow> 0 < ac_RemainingToday x))"
      and counts: "counts_ok (pe_rd env) p \<Longrightarrow> counts_ok (pe_rd env) p1" by (rule gather_step) blast
    have "later_pass p1 q" using Cons.IH(1) [OF run] .
    with new have "x \<in> set (ga_candidates g1) \<Longrightarrow> x \<in> set (ga_candidates g)
       \<or> admitted env c recipient q a x \<and> (counts_ok (pe_rd env) p \<longrightarrow> 0 < ac_RemainingToday x)"
      by (auto dest: admitted_later)
    with Cons.IH(2) [OF 2(1) run] counts show ?case by auto
  }
qed

text \<open>Every mailbox of the pool is a candidate or has the gate it was left out for.\<close>

lemma gather_pool_covers:
  assumes "gather_pool env c recipient lastSends bound cand_t as (g, p) = Some (g', q)" "honest_memo p"
    and "\<forall>u gate. ga_gates g u = Some gate \<longrightarrow> honest_gate gate \<and> \<not> gate_open gate"
  shows "set (ga_candidates g) \<subseteq> set (ga_candidates g')
    \<and> (\<forall>u gate. ga_gates g' u = Some gate \<longrightarrow> honest_gate gate \<and> \<not> gate_open gate)
    \<and> dom (ga_gates g) \<subseteq> dom (ga_gates g')
    \<and> (\<forall>a\<in>set as. em_ID a \<in> ac_ID ` set (ga_candidates g') \<or> em_ID a \<in> dom (ga_gates g'))"
  using assms
proof (induction as arbitrary: g p)
  case Nil
  then show ?case by simp
next
  case (Cons a as)
  from Cons.prems(1) show ?case
  proof (rule gather_step)
    fix g1 p1
    assume run: "gather_pool env c recipient lastSends bound cand_t as (g1, p1) = Some (g', q)"
      and cand: "ga_candidates g1 = ga_candidates g
        \<or> (\<exists>x. ga_candidates g1 = ga_candidates g @ [x] \<and> admitted env c recipient p1 a x
          \<and> (counts_ok (pe_rd env) p \<longrightarrow> 0 < ac_RemainingToday x))"
      and out: "ga_candidates g1 = ga_candidates g \<Longrightarrow> \<exists>gate. ga_gates g1 = (ga_gates g)(em_ID a \<mapsto> gate)
        \<and> \<not> gate_open gate \<and> (honest_memo p \<longrightarrow> honest_gate gate)"
      and kept: "ga_candidates g1 \<noteq> ga_candidates g \<Longrightarrow> ga_gates g1 = ga_gates g"
      and memo: "honest_memo p \<Longrightarrow> honest_memo p1"
    have gates: "honest_gate gate \<and> \<not> gate_open gate" if "ga_gates g1 u = Some gate" for u gate
      using that out kept Cons.prems(2,3) by (cases "ga_candidates g1 = ga_candidates g") (auto split: if_split_asm)
    have grow: "set (ga_candidates g) \<subseteq> set (ga_candidates g1) \<and> dom (ga_gates g) \<subseteq> dom (ga_gates g1)
      \<and> (em_ID a \<in> ac_ID ` set (ga_candidates g1) \<or> em_ID a \<in> dom (ga_gates g1))"
    proof (cases "ga_candidates g1 = ga_candidates g")
      case True
      with out obtain gate where "ga_gates g1 = (ga_gates g)(em_ID a \<mapsto> gate)" by blast
      with True show ?thesis by auto
    next
      case False
      with cand obtain x where "ga_candidates g1 = ga_candidates g @ [x]" "ac_ID x = em_ID a"
        by (auto simp: admitted_def)
      with kept [OF False] show ?thesis by auto
    qed
    have "set (ga_candidates g1) \<subseteq> set (ga_candidates g')
      \<and> (\<forall>u gate. ga_gates g' u = Some gate \<longrightarrow> honest_gate gate \<and> \<not> gate_open gate)
      \<and> dom (ga_gates g1) \<subseteq> dom (ga_gates g')
      \<and> (\<forall>a\<in>set as. em_ID a \<in> ac_ID ` set (ga_candidates g') \<or> em_ID a \<in> dom (ga_gates g'))"
      by (rule Cons.IH [OF run memo [OF Cons.prems(2)]]) (use gates in blast)
    with grow show ?case unfolding list.set by blast
  qed
qed


section \<open>Which mailbox sends\<close>

lemma gap_of_send_later: "gap_of_send env s cand_t p = (gap, q) \<Longrightarrow> later_pass p q"
  by (auto simp: gap_of_send_def Let_def split: if_split_asm prod.split_asm dest: with_behavior_later)

lemma distribute_later: "distribute env s pool gap windows tz sl p = (sl', q) \<Longrightarrow> later_pass p q"
  by (auto simp: distribute_def Let_def split: if_split_asm prod.split_asm dest: with_behavior_later)

lemma recipient_aimed_later: "recipient_aimed env c pair s windows tz sl p = (sl', q) \<Longrightarrow> later_pass p q"
  by (auto simp: recipient_aimed_def Let_def split: if_split_asm prod.split_asm option.split_asm
      dest: with_behavior_later)

text \<open>An accepted placement, with the candidates it gathered and the one it chose.\<close>

lemma placed:
  assumes "placeCampaignSend env c accounts pair p = (pl, q)" "pc_pair pl \<noteq> None"
    and "heard = preferred_sender env accounts pair (boundSender accounts (cp_AssignedSender pair))"
    and "rotation = rotatedFollowUp c pair heard"
    and "bound = (if fr_active rotation then None else boundSender accounts (cp_AssignedSender pair))"
  obtains base g p1 cand_t ch p2 where "base_time env pair = Some base" "\<not> past_end c (started_time env c base)"
    "\<not> BlocksSending (ps_risk p)"
    "cand_t = nextScheduleSlot (started_time env c base) (effectiveWindows c)
       (loadLocation (pe_tzdb env) (campaign_ClockTimezone c))"
    "gather_pool env c (recipient_provider env c pair) (rotation_last_sends env c accounts) bound cand_t accounts
       (empty_gather, p) = Some (g, p1)"
    "choose_mailbox env c accounts bound (if fr_active rotation then None else heard) rotation
       (recipient_provider env c pair) g p1 = (Inr ch, p2)"
    "place_slot env c pair bound (effectiveWindows c) (loadLocation (pe_tzdb env) (campaign_ClockTimezone c))
       cand_t ch p2 = (pl, q)"
    "pc_pair pl = Some pair" "pc_err pl = None" "pc_account pl = Some (ac_ID (ch_selected ch))" "later_pass p1 q"
proof -
  from assms(1,2) obtain base where base: "base_time env pair = Some base" "\<not> past_end c (started_time env c base)"
    "\<not> BlocksSending (ps_risk p)"
    and pool: "place_on_pool env c accounts pair (effectiveWindows c)
       (loadLocation (pe_tzdb env) (campaign_ClockTimezone c))
       (nextScheduleSlot (started_time env c base) (effectiveWindows c)
          (loadLocation (pe_tzdb env) (campaign_ClockTimezone c))) p = (pl, q)"
    by (rule placeCampaignSend_pair)
  show thesis
  proof (rule place_on_pool_pair [OF pool assms(2-5)])
    fix g p1 ch p2
    assume g: "gather_pool env c (recipient_provider env c pair) (rotation_last_sends env c accounts) bound
        (nextScheduleSlot (started_time env c base) (effectiveWindows c)
          (loadLocation (pe_tzdb env) (campaign_ClockTimezone c))) accounts (empty_gather, p) = Some (g, p1)"
      and ch: "choose_mailbox env c accounts bound (if fr_active rotation then None else heard) rotation
       (recipient_provider env c pair) g p1 = (Inr ch, p2)"
      and sl: "place_slot env c pair bound (effectiveWindows c)
       (loadLocation (pe_tzdb env) (campaign_ClockTimezone c))
       (nextScheduleSlot (started_time env c base) (effectiveWindows c)
          (loadLocation (pe_tzdb env) (campaign_ClockTimezone c))) ch p2 = (pl, q)"
    have l12: "later_pass p1 p2" using ch by (rule choose_mailbox_sound)
    from sl assms(2) show thesis
    proof (rule place_slot_pair)
      fix gap p3 sl2 p4 lastEmail sl3 sl4 p5 booked at'
      assume "gap_of_send env (ch_selected ch) (nextScheduleSlot (started_time env c base) (effectiveWindows c)
          (loadLocation (pe_tzdb env) (campaign_ClockTimezone c))) p2 = (gap, p3)"
        and "distribute env (ch_selected ch) (ch_pool ch) gap (effectiveWindows c)
          (loadLocation (pe_tzdb env) (campaign_ClockTimezone c))
          (opening_slot bound (ch_selected ch) (nextScheduleSlot (started_time env c base) (effectiveWindows c)
            (loadLocation (pe_tzdb env) (campaign_ClockTimezone c)))) p3 = (sl2, p4)"
        and "recipient_aimed env c pair (ch_selected ch) (effectiveWindows c)
          (loadLocation (pe_tzdb env) (campaign_ClockTimezone c))
          (sl3\<lparr>sl_at := curved env (ch_selected ch) (loadLocation (pe_tzdb env) (campaign_ClockTimezone c))
            (if pe_preview env then jittered env (sl_at sl3)
             else clear_of_booked env gap booked (jittered env (sl_at sl3)))\<rparr>) p4 = (sl4, p5)"
        and "with_behavior p5 (ac_ID (ch_selected ch))
          (intersectWindows (pe_wired env) (g_inst (pe_now env))
            (notBefore (pe_now env) (pd_past (pe_draws env) 1) (sl_at sl4)) (effectiveWindows c)
            (loadLocation (pe_tzdb env) (campaign_ClockTimezone c))) = (at', q)"
        and pl: "pl = \<lparr>pc_at = Some (scheduledSlot env at'), pc_pair = Some pair,
          pc_account = Some (ac_ID (ch_selected ch)), pc_err = None,
          pc_events = last_email_of_day env ch (sl_at (opening_slot bound (ch_selected ch)
            (nextScheduleSlot (started_time env c base) (effectiveWindows c)
              (loadLocation (pe_tzdb env) (campaign_ClockTimezone c)))))\<rparr>"
      then have "later_pass p2 q"
        by (blast intro: later_pass_trans dest: gap_of_send_later distribute_later recipient_aimed_later with_behavior_later)
      with l12 have "later_pass p1 q" by (rule later_pass_trans)
      with base g ch sl pl show thesis by (intro that [OF base refl g ch sl]) simp_all
    qed
  qed
qed

lemma chosen_mailbox:
  assumes "gather_pool env c recipient lastSends bound cand_t accounts (empty_gather, p) = Some (g, p1)"
    and "x \<in> set (ga_candidates g)"
  obtains a where "a \<in> set accounts" "admitted env c recipient p1 a x"
    "counts_ok (pe_rd env) p \<Longrightarrow> 0 < ac_RemainingToday x"
  using gather_pool_sound(2) [OF assms] by (auto simp: empty_gather_def)

lemma send_facts:
  assumes "placeCampaignSend env c accounts pair p = (pl, q)" "pc_pair pl = Some sent"
  shows "sent = pair \<and> pc_err pl = None \<and> \<not> BlocksSending (ps_risk p)
    \<and> (\<exists>a\<in>set accounts. pc_account pl = Some (em_ID a) \<and> cleared (pe_rd env) (g_inst (pe_now env)) q a)"
proof -
  from assms(2) have some: "pc_pair pl \<noteq> None" by simp
  show ?thesis
  proof (rule placed [OF assms(1) some refl refl refl])
    fix g p1 p2 cand_t and ch :: chosen
    assume facts: "\<not> BlocksSending (ps_risk p)" "pc_pair pl = Some pair" "pc_err pl = None"
      "pc_account pl = Some (ac_ID (ch_selected ch))" "later_pass p1 q"
    let ?heard = "preferred_sender env accounts pair (boundSender accounts (cp_AssignedSender pair))"
    let ?rotation = "rotatedFollowUp c pair ?heard"
    let ?bound = "if fr_active ?rotation then None else boundSender accounts (cp_AssignedSender pair)"
    assume g: "gather_pool env c (recipient_provider env c pair) (rotation_last_sends env c accounts) ?bound cand_t
        accounts (empty_gather, p) = Some (g, p1)"
      and ch: "choose_mailbox env c accounts ?bound (if fr_active ?rotation then None else ?heard) ?rotation
        (recipient_provider env c pair) g p1 = (Inr ch, p2)"
    obtain x w where x: "x \<in> set (ga_candidates g)" "ch_selected ch = x\<lparr>ac_Weight := w\<rparr>"
      using choose_mailbox_member [OF ch] by blast
    from chosen_mailbox [OF g x(1)] obtain a where a: "a \<in> set accounts" "ac_ID x = em_ID a"
      "cleared (pe_rd env) (g_inst (pe_now env)) p1 a" by (auto simp: admitted_def)
    have "cleared (pe_rd env) (g_inst (pe_now env)) q a" using a(3) facts(5) by (rule cleared_later)
    then show ?thesis using facts(1-4) a(1,2) x(2) assms(2) by auto
  qed
qed

text \<open>
  Claim C13. A send leaves a mailbox of the pool the campaign was given, and only one the pass found
  admitted by the send authority, authenticated where that is enforced, sending cold, healthy, on a
  live worker and below its cap of the day; never from a suspended workspace.
\<close>

theorem send_leaves_a_cleared_mailbox:
  assumes "placeCampaignSend env c accounts pair p = (pl, q)" "pc_pair pl = Some sent"
  shows "sent = pair \<and> pc_err pl = None \<and> \<not> BlocksSending (ps_risk p)
    \<and> (\<exists>a\<in>set accounts. pc_account pl = Some (em_ID a) \<and> cleared (pe_rd env) (g_inst (pe_now env)) q a)"
  by (rule send_facts [OF assms])

lemma computeWeight_pos:
  assumes "0 < r" "0 \<le> log2 (f_of (n + 1))"
  shows "0 < computeWeight log2 r n"
proof -
  have one: "f64 1 = 1" using f_of_int [of 1] by (simp add: f_of_def)
  have "1 \<le> fadd 1 (log2 (f_of (n + 1)))"
    using f64_mono [of 1 "1 + log2 (f_of (n + 1))"] assms(2) one by (simp add: fadd_def)
  moreover have "1 \<le> f_of r" using f_of_mono [of 1 r] assms(1) f_of_int [of 1] by simp
  ultimately have "1 * 1 \<le> f_of r * fadd 1 (log2 (f_of (n + 1)))" by (intro mult_mono) simp_all
  then have "1 \<le> fmul (f_of r) (fadd 1 (log2 (f_of (n + 1))))"
    using f64_mono [of 1 "f_of r * fadd 1 (log2 (f_of (n + 1)))"] one by (simp add: fmul_def)
  then show ?thesis using assms(1) by (simp add: computeWeight_def)
qed

text \<open>
  Claim C2. A lead in conversation keeps its mailbox: while the mailbox it is assigned to is in the
  pool and the campaign does not rotate its follow-ups, no other mailbox writes to it because that
  one is out of budget, outside its hours or without a worker. Counts are not negative, warmups
  started in the past, and the logarithm of a number from 1 on is not negative.
\<close>

theorem bound_lead_keeps_its_mailbox:
  assumes "placeCampaignSend env c accounts pair p = (pl, q)" "pc_pair pl = Some sent"
    and "boundSender accounts (cp_AssignedSender pair) = Some b"
    and "\<not> Rotates (ca_FollowUpSender c)" "honest_memo p"
    and "counts_ok (pe_rd env) p" "\<And>n. 0 \<le> n \<Longrightarrow> 0 \<le> pe_log2 env (f_of (n + 1))"
    and "\<forall>a\<in>set accounts. 0 \<le> warmup_age env a"
  shows "pc_account pl = Some (em_ID b)
    \<or> (\<exists>recipient lastSends cand_t g p1 gate why.
         gather_pool env c recipient lastSends (Some b) cand_t accounts (empty_gather, p) = Some (g, p1)
         \<and> ga_gates g (em_ID b) = Some gate \<and> mg_reason gate = Some why \<and> \<not> mg_paced gate \<and> \<not> pacing_reason why)"
proof -
  from assms(2) have some: "pc_pair pl \<noteq> None" by simp
  let ?rotation = "\<lparr>fr_active = False, fr_previous = None, fr_domain = []\<rparr> :: followUpRotation"
  have heard: "preferred_sender env accounts pair (boundSender accounts (cp_AssignedSender pair)) = Some b"
    using assms(3) by (simp add: preferred_sender_def)
  have rot: "?rotation = rotatedFollowUp c pair (Some b)" using assms(4) by (simp add: rotatedFollowUp_def)
  have bnd: "Some b = (if fr_active ?rotation then None else boundSender accounts (cp_AssignedSender pair))"
    using assms(3) by simp
  show ?thesis
  proof (rule placed [OF assms(1) some heard [symmetric] rot bnd])
    fix g p1 p2 cand_t and ch :: chosen
    assume acct: "pc_account pl = Some (ac_ID (ch_selected ch))"
      and g: "gather_pool env c (recipient_provider env c pair) (rotation_last_sends env c accounts) (Some b) cand_t
        accounts (empty_gather, p) = Some (g, p1)"
      and ch: "choose_mailbox env c accounts (Some b) (if fr_active ?rotation then None else Some b) ?rotation
        (recipient_provider env c pair) g p1 = (Inr ch, p2)"
    have "b \<in> set accounts" using assms(3) by (auto simp: boundSender_def find_Some_iff split: option.split_asm)
    have honest: "\<forall>u gate. ga_gates empty_gather u = Some gate \<longrightarrow> honest_gate gate \<and> \<not> gate_open gate"
      by (simp add: empty_gather_def)
    note covers = gather_pool_covers [OF g assms(5) honest]
    from choose_mailbox_sound [OF ch] obtain cs pool where
      pick: "pickBound (ga_candidates g) (Some b) = Some (ch_selected ch)
       \<or> pickBound (ga_candidates g) (Some b) = None \<and> drawn_from env c pool cs (ch_selected ch)
         \<and> (\<forall>b' gate. Some b = Some b' \<longrightarrow> ga_gates g (em_ID b') = Some gate \<longrightarrow> \<not> mg_paced gate)"
      by auto
    show ?thesis
    proof (cases "pickBound (ga_candidates g) (Some b)")
      case (Some s)
      with pick have "s = ch_selected ch" by simp
      with Some have "ac_ID (ch_selected ch) = em_ID b" by (auto simp: pickBound_def find_Some_iff)
      with acct show ?thesis by simp
    next
      case None
      have "em_ID b \<notin> ac_ID ` set (ga_candidates g)"
      proof
        assume "em_ID b \<in> ac_ID ` set (ga_candidates g)"
        then obtain x where x: "x \<in> set (ga_candidates g)" "ac_ID x = em_ID b" by auto
        obtain a where "a \<in> set accounts" "admitted env c (recipient_provider env c pair) p1 a x"
          "counts_ok (pe_rd env) p \<Longrightarrow> 0 < ac_RemainingToday x" using chosen_mailbox [OF g x(1)] by blast
        then have "0 < ac_Weight x"
          using assms(6,7,8) by (simp add: admitted_def computeWeight_pos)
        moreover have "\<not> (\<exists>y. y \<in> set (ga_candidates g) \<and> ac_ID y = em_ID b \<and> 0 < ac_Weight y)"
          using None by (simp add: pickBound_def find_None_iff)
        ultimately show False using x by blast
      qed
      with covers \<open>b \<in> set accounts\<close> obtain gate where gate: "ga_gates g (em_ID b) = Some gate"
        "honest_gate gate" "\<not> gate_open gate" by blast
      then obtain why where why: "mg_reason gate = Some why" by blast
      have "\<not> mg_paced gate" using pick None gate(1) by auto
      moreover from this gate(2) why have "\<not> pacing_reason why" by (simp add: honest_gate_def)
      ultimately show ?thesis using g gate(1) why by blast
    qed
  qed
qed




section \<open>The pass over the due leads\<close>

text \<open>A lead the routing may offer: not one left out, due, and not bound to a mailbox that is paced.\<close>

definition offerable :: "campaignRouter \<Rightarrow> bool \<Rightarrow> (uuid \<rightharpoonup> instant) \<Rightarrow> ContactSequencePair \<Rightarrow> bool" where
  "offerable cr excl paced pair \<longleftrightarrow>
     \<not> (excl \<and> cp_IsNewLead pair)
     \<and> (case cp_NotBefore pair of None \<Rightarrow> True | Some d \<Rightarrow> d \<le> cr_dueBy cr)
     \<and> (reopening paced (cp_AssignedSender pair) = None \<or> \<not> isEmailStep cr (cp_SequenceID pair))"

lemma route_IsNewLead: "ro_IsNewLead (route cr cid inp) = (ri_lastSeq inp = None)"
  by (simp add: route_def applyHold_keeps Let_def split: option.split prod.split)

lemma lead_verdict_offerable:
  assumes "lead_verdict cr excl paced cid hydrated = Due pair"
  shows "offerable cr excl paced pair"
proof -
  obtain inp where inp: "hydrated = Some inp" using assms by (auto simp: lead_verdict_def split: option.split_asm)
  define res where "res = route cr cid inp"
  have new: "ro_IsNewLead res = (ri_lastSeq inp = None)" by (simp add: res_def route_IsNewLead)
  note run = assms [unfolded lead_verdict_def inp option.case Let_def, folded res_def]
  have old: "\<not> (ri_lastSeq inp = None \<and> excl)" using run by (auto split: if_split_asm)
  note run = run [unfolded if_not_P [OF old]]
  have hold: "\<not> (case ro_Hold res of None \<Rightarrow> False | Some h \<Rightarrow> lh_Until h = None)" using run by (auto split: if_split_asm)
  note run = run [unfolded if_not_P [OF hold]]
  obtain t where t: "ro_WaitUntil res = None" "ro_Target res = Some t" using run by (auto split: option.split_asm)
  note run = run [unfolded t option.case]
  have due: "\<not> (case ro_DueAt res of None \<Rightarrow> False | Some d \<Rightarrow> cr_dueBy cr < d)" using run by (auto split: if_split_asm)
  note run = run [unfolded if_not_P [OF due]]
  have pair: "pair = \<lparr>cp_ContactID = cid, cp_SequenceID = t, cp_IsNewLead = ro_IsNewLead res,
      cp_Instant = ro_Instant res, cp_NotBefore = ro_DueAt res, cp_AssignedSender = ri_sender inp\<rparr>
    \<and> (reopening paced (ri_sender inp) = None \<or> \<not> isEmailStep cr t)"
    using run by (auto split: option.split_asm if_split_asm)
  then show ?thesis using old due new by (auto simp: offerable_def split: option.split_asm)
qed

lemma routeWindow_offerable:
  assumes "routeWindow cr excl paced limit hydrated cs st = (full, st')" "\<forall>x\<in>set (sc_pairs st). offerable cr excl paced x"
  shows "\<forall>x\<in>set (sc_pairs st'). offerable cr excl paced x"
  using assms
proof (induction cs arbitrary: st)
  case (Cons cid cs)
  show ?case
  proof (cases "lead_verdict cr excl paced cid (hydrated cid)")
    case Skip
    with Cons show ?thesis by simp
  next
    case (Later t onSender)
    have "\<forall>x\<in>set (sc_pairs (noteDue st t onSender)). offerable cr excl paced x"
      using Cons.prems(2) by (simp add: noteDue_def)
    with Later Cons show ?thesis by simp
  next
    case (Due x)
    define st2 where "st2 = st\<lparr>sc_pairs := sc_pairs st @ [x]\<rparr>"
    have ok: "\<forall>x\<in>set (sc_pairs st2). offerable cr excl paced x"
      using Cons.prems(2) lead_verdict_offerable [OF Due] by (simp add: st2_def)
    have "st' = st2 \<or> routeWindow cr excl paced limit hydrated cs st2 = (full, st')"
      using Cons.prems(1) unfolding routeWindow.simps Due verdict.case Let_def st2_def [symmetric]
      by (simp only: prod.inject split: if_split_asm) simp_all
    with ok Cons.IH show ?thesis by blast
  qed
qed simp

lemma scan_chunks_offerable:
  assumes "scan_chunks rd cr excl paced limit ordered st inputs later = Some (full, st', inputs', later')"
    and "\<forall>x\<in>set (sc_pairs st). offerable cr excl paced x"
  shows "\<forall>x\<in>set (sc_pairs st'). offerable cr excl paced x"
  using assms
proof (induction rd cr excl paced limit ordered st inputs later rule: scan_chunks.induct)
  case (1 rd cr excl paced limit ordered st inputs later)
  show ?case
  proof (cases "ordered = []")
    case True
    with "1.prems" show ?thesis by (subst (asm) scan_chunks.simps) simp
  next
    case False
    define window where "window = take CampaignRoutedCandidateChunk ordered"
    define rest where "rest = drop CampaignRoutedCandidateChunk ordered"
    obtain facts where f: "rd_facts rd window = Some facts"
      using "1.prems"(1) False by (subst (asm) scan_chunks.simps) (auto simp: window_def Let_def split: option.split_asm)
    define want where "want = filter (wanted cr excl facts) window"
    define later2 where "later2 = later @ filter (not_yet_due cr excl facts) window"
    note run = "1.prems"(1) [unfolded scan_chunks.simps [of rd cr excl paced limit ordered] Let_def,
        folded window_def rest_def, unfolded f option.case, folded want_def later2_def]
    note IH = "1.IH" [OF False, folded window_def rest_def, OF refl refl f refl refl]
    show ?thesis
    proof (cases "want = []")
      case True
      with run False have "scan_chunks rd cr excl paced limit rest st inputs later2 = Some (full, st', inputs', later')"
        by simp
      with IH(1) [folded want_def later2_def, OF True] "1.prems"(2) show ?thesis by blast
    next
      case w: False
      then obtain hydrated where h: "rd_hydrate rd want = Some hydrated"
        using run False by (auto split: option.split_asm)
      obtain fl st2 where rw: "routeWindow cr excl paced limit (inputs ++ hydrated) want st = (fl, st2)"
        by (metis prod.exhaust)
      have ok: "\<forall>x\<in>set (sc_pairs st2). offerable cr excl paced x"
        using routeWindow_offerable [OF rw "1.prems"(2)] .
      show ?thesis
      proof (cases fl)
        case True
        with run False w h rw have "st' = st2" by simp
        with ok show ?thesis by simp
      next
        case f2: False
        with run False w h rw
        have "scan_chunks rd cr excl paced limit rest st2 (inputs ++ hydrated) later2 = Some (full, st', inputs', later')"
          by simp
        with IH(2) [folded want_def later2_def, OF w h rw [symmetric]] f2 ok show ?thesis by blast
      qed
    qed
  qed
qed

lemma FindRoutedPairs_offerable:
  assumes "FindRoutedPairs rd excl paced n = Some (pairs, due, onSender)" "pair \<in> set pairs"
  obtains cr where "rd_router rd = Some (Some cr)" "offerable cr excl paced pair"
proof -
  obtain cr where cr: "rd_router rd = Some (Some cr)"
    using assms by (auto simp: FindRoutedPairs_def Let_def split: option.split_asm)
  obtain ordered where ord: "rd_ordered rd = Some ordered"
    using assms cr by (auto simp: FindRoutedPairs_def Let_def split: option.split_asm)
  define limit where "limit = (if n < 1 then 1 else n)"
  note run = assms(1) [unfolded FindRoutedPairs_def Let_def, folded limit_def, unfolded cr ord option.case]
  obtain full st inputs later where sc: "scan_chunks rd cr excl paced limit ordered no_scan Map.empty [] = Some (full, st, inputs, later)"
    using run by (cases "scan_chunks rd cr excl paced limit ordered no_scan Map.empty []") (auto split: prod.split_asm)
  have ok: "\<forall>x\<in>set (sc_pairs st). offerable cr excl paced x"
    by (rule scan_chunks_offerable [OF sc]) (simp add: no_scan_def)
  note run = run [unfolded sc option.case prod.case]
  show thesis
  proof (cases "full \<or> sc_pairs st \<noteq> []")
    case True
    with run assms(2) ok cr that show thesis by simp
  next
    case False
    with run assms(2) obtain inputs' where hy: "later \<noteq> []" "hydrate_chunks rd later inputs = Some inputs'"
      by (auto split: if_split_asm option.split_asm)
    obtain fl st2 where rw: "routeWindow cr excl paced limit inputs' ordered
        (st\<lparr>sc_nextDue := None, sc_waitingOnSender := False\<rparr>) = (fl, st2)" by (metis prod.exhaust)
    have "\<forall>x\<in>set (sc_pairs st2). offerable cr excl paced x"
      by (rule routeWindow_offerable [OF rw]) (use ok in simp)
    with run False hy rw assms(2) cr that show thesis by (auto split: if_split_asm)
  qed
qed

lemma try_leads_pair:
  assumes "pc_pair (try_leads env draws c accounts i pairs p leadSlot leadAccount ev) = Some sent"
  obtains pair p0 j pl q ev' where "pair \<in> set pairs"
    "placeCampaignSend (env\<lparr>pe_draws := draws j\<rparr>) c accounts pair p0 = (pl, q)"
    "try_leads env draws c accounts i pairs p leadSlot leadAccount ev = pl\<lparr>pc_events := ev'\<rparr>"
  using assms
proof (induction pairs arbitrary: i p leadSlot leadAccount ev thesis)
  case Nil
  then show ?case by simp
next
  case (Cons pair pairs)
  obtain pl q where place: "placeCampaignSend (env\<lparr>pe_draws := draws i\<rparr>) c accounts pair p = (pl, q)"
    by (metis prod.exhaust)
  show ?case
  proof (cases "lead_refusal pl")
    case False
    have "try_leads env draws c accounts i (pair # pairs) p leadSlot leadAccount ev
        = pl\<lparr>pc_events := ev @ pc_events pl\<rparr>"
      using False by (simp add: place)
    with Cons.prems(1) [of pair i p pl q] place show ?thesis by simp
  next
    case True
    define later where "later = (case leadSlot of
                        None \<Rightarrow> (pc_at pl, pc_account pl)
                      | Some b \<Rightarrow> (case pc_at pl of
                                     None \<Rightarrow> (leadSlot, leadAccount)
                                   | Some t \<Rightarrow> if before t b then (Some t, pc_account pl) else (leadSlot, leadAccount)))"
    obtain ls la where la: "later = (ls, la)" by (cases later)
    have same: "try_leads env draws c accounts i (pair # pairs) p leadSlot leadAccount ev
        = try_leads env draws c accounts (Suc i) pairs q ls la (ev @ pc_events pl)"
      using True by (simp only: try_leads.simps place prod.case not_True_eq_False if_False la flip: later_def)
    show ?thesis
    proof (rule Cons.IH [of "Suc i" q ls la "ev @ pc_events pl"])
      show "pc_pair (try_leads env draws c accounts (Suc i) pairs q ls la (ev @ pc_events pl)) = Some sent"
        using Cons.prems(2) unfolding same .
      fix pair' p' j pl' q' ev'
      assume "pair' \<in> set pairs" "placeCampaignSend (env\<lparr>pe_draws := draws j\<rparr>) c accounts pair' p' = (pl', q')"
        "try_leads env draws c accounts (Suc i) pairs q ls la (ev @ pc_events pl) = pl'\<lparr>pc_events := ev'\<rparr>"
      then show thesis unfolding same [symmetric] by (intro Cons.prems(1)) simp_all
    qed
  qed
qed




section \<open>Sample passes\<close>

text \<open>With no earlier mail on the mailbox and no preferred hour a chosen mailbox sends at its slot.\<close>

lemma place_slot_sends:
  assumes "lr_lastEmailTime (pe_lead env) = (\<lambda>_. Some None)" "lr_booked (pe_lead env) = (\<lambda>_ _. Some [])"
    and "\<not> stp_enabled (sendTimePref env c)" "ac_OpenAt (ch_selected ch) = None" "sendable env cand_t"
  shows "pc_pair (fst (place_slot env c pair bound windows tz cand_t ch p)) = Some pair"
    "pc_account (fst (place_slot env c pair bound windows tz cand_t ch p)) = Some (ac_ID (ch_selected ch))"
proof -
  obtain gap p1 where 1: "gap_of_send env (ch_selected ch) cand_t p = (gap, p1)" by (metis prod.exhaust)
  have o: "opening_slot bound (ch_selected ch) cand_t = \<lparr>sl_at = cand_t, sl_floor = cand_t, sl_lead = False\<rparr>"
    using assms(4) by (simp add: opening_slot_def)
  obtain sl2 p2 where 2: "distribute env (ch_selected ch) (ch_pool ch) gap windows tz
      (opening_slot bound (ch_selected ch) cand_t) p1 = (sl2, p2)" by (metis prod.exhaust)
  have floor': "sl_floor sl2 = cand_t"
    using 2 unfolding o by (auto simp: distribute_def Let_def split: if_split_asm prod.split_asm)
  have aimed: "recipient_aimed env c pair (ch_selected ch) windows tz sl q = (sl, q)" for sl q
    using assms(3) by (simp add: recipient_aimed_def)
  show "pc_pair (fst (place_slot env c pair bound windows tz cand_t ch p)) = Some pair"
    "pc_account (fst (place_slot env c pair bound windows tz cand_t ch p)) = Some (ac_ID (ch_selected ch))"
    using assms(1,2,5) floor'
    by (simp_all add: place_slot_def Let_def 1 2 gap_slot_def aimed answer_slot_def split: prod.split)
qed

text \<open>The mailbox a placement would choose at an hour.\<close>

definition chosen_now :: "place_env \<Rightarrow> Campaign \<Rightarrow> EmailAccount list \<Rightarrow> ContactSequencePair \<Rightarrow> campaignPass \<Rightarrow> gtime \<Rightarrow> uuid option" where
  "chosen_now env c accounts pair p cand_t =
     (let bound0 = boundSender accounts (cp_AssignedSender pair);
          prefer0 = preferred_sender env accounts pair bound0;
          rotation = rotatedFollowUp c pair prefer0;
          bound = (if fr_active rotation then None else bound0);
          prefer' = (if fr_active rotation then None else prefer0)
      in case gather_pool env c (recipient_provider env c pair) (rotation_last_sends env c accounts) bound cand_t accounts (empty_gather, p) of
           None \<Rightarrow> None
         | Some (g, p) \<Rightarrow>
             if ga_candidates g = [] then None
             else (case choose_mailbox env c accounts bound prefer' rotation (recipient_provider env c pair) g p of
                     (Inl refused, p) \<Rightarrow> None
                   | (Inr ch, p) \<Rightarrow> if ac_OpenAt (ch_selected ch) = None then Some (ac_ID (ch_selected ch)) else None))"

lemma placement_sends:
  assumes "base_time env pair = Some base" "\<not> past_end c (started_time env c base)" "\<not> BlocksSending (ps_risk p)"
    and "cand_t = nextScheduleSlot (started_time env c base) (effectiveWindows c)
       (loadLocation (pe_tzdb env) (campaign_ClockTimezone c))"
    and "chosen_now env c accounts pair p cand_t = Some a" "sendable env cand_t"
    and "lr_lastEmailTime (pe_lead env) = (\<lambda>_. Some None)" "lr_booked (pe_lead env) = (\<lambda>_ _. Some [])"
    and "\<not> stp_enabled (sendTimePref env c)"
  shows "pc_pair (fst (placeCampaignSend env c accounts pair p)) = Some pair"
    "pc_account (fst (placeCampaignSend env c accounts pair p)) = Some a"
  using assms(5) place_slot_sends [OF assms(7,8,9) _ assms(6)]
  by (simp_all add: placeCampaignSend_def Let_def assms(1-3) chosen_now_def place_on_pool_def flip: assms(4)
      split: option.split_asm prod.split_asm sum.split_asm if_split_asm)

definition gmail_account :: EmailAccount where
  "gmail_account = sample_account\<lparr>ea_Provider := ''gmail'', ea_WorkerID := Some [4]\<rparr>"

definition strict_campaign :: Campaign where
  "strict_campaign = sample_campaign\<lparr>ca_ESPMatchMode := ''strict''\<rparr>"

definition sample_lead :: lead_contact where
  "sample_lead = \<lparr>ct_Email = ''bob@acme.example'', ct_CustomFields = (\<lambda>_. None), lc_ESPProvider = ''gmail'', lc_MailHost = ''gmail''\<rparr>"

definition counted_reads :: pass_reads where
  "counted_reads = sample_pass_reads\<lparr>pr_sentTodayAll := (\<lambda>_. Some [[1] \<mapsto> 3])\<rparr>"

definition sample_env :: place_env where
  "sample_env =
     \<lparr>pe_tzdb = (\<lambda>_. None), pe_psl = (\<lambda>_. None), pe_idna = (\<lambda>_. None), pe_log2 = (\<lambda>_. 0), pe_wired = False,
      pe_rd = counted_reads,
      pe_lead = \<lparr>lr_outreach = None, lr_contact = Some (\<lambda>_. Some sample_lead),
        lr_lastSequenceTime = (\<lambda>_. Some None), lr_sequenceWait = (\<lambda>_. Some 0), lr_lastSendTimes = (\<lambda>_. None),
        lr_lastSender = (\<lambda>_. Some None), lr_lastEmailTime = (\<lambda>_. Some None), lr_booked = (\<lambda>_ _. Some []),
        lr_senderMeta = Map.empty\<rparr>,
      pe_draws = \<lparr>pd_defer = 0, pd_gaps = (\<lambda>_. (0, 0)), pd_gap = (0, 0), pd_rotation = 0, pd_interval = 0,
        pd_jitter = (\<lambda>_. 0), pd_past = (\<lambda>_. 0), pd_conflicts = (\<lambda>_. 0), pd_lunch = (0, 0), pd_early = (0, 0),
        pd_second = 0\<rparr>,
      pe_sorted = (\<lambda>ts. ts), pe_now = \<lparr>g_inst = 1767607200 * Second, g_loc = UTC\<rparr>, pe_preview = False\<rparr>"

definition sample_pair :: ContactSequencePair where
  "sample_pair = \<lparr>cp_ContactID = [3], cp_SequenceID = [2], cp_IsNewLead = True, cp_Instant = False, cp_NotBefore = None,
     cp_AssignedSender = None\<rparr>"

definition sample_now :: gtime where
  "sample_now = \<lparr>g_inst = 1767607200 * Second, g_loc = UTC\<rparr>"

definition routed_pair :: ContactSequencePair where
  "routed_pair = \<lparr>cp_ContactID = [7], cp_SequenceID = [3], cp_IsNewLead = False, cp_Instant = False,
             cp_NotBefore = Some (48 * Hour), cp_AssignedSender = None\<rparr>"

definition bound_pair :: ContactSequencePair where
  "bound_pair = sample_pair\<lparr>cp_IsNewLead := False, cp_AssignedSender := Some [1]\<rparr>"

lemma sample_sends:
  assumes "base_time sample_env pair = Some sample_now"
    and "chosen_now sample_env strict_campaign [gmail_account] pair p sample_now = Some a"
    and "\<not> BlocksSending (ps_risk p)"
  shows "pc_pair (fst (placeCampaignSend sample_env strict_campaign [gmail_account] pair p)) = Some pair"
    "pc_account (fst (placeCampaignSend sample_env strict_campaign [gmail_account] pair p)) = Some a"
proof -
  have slot: "\<not> past_end strict_campaign (started_time sample_env strict_campaign sample_now)"
    "sample_now = nextScheduleSlot (started_time sample_env strict_campaign sample_now)
       (effectiveWindows strict_campaign) (loadLocation (pe_tzdb sample_env) (campaign_ClockTimezone strict_campaign))"
    "sendable sample_env sample_now" "\<not> stp_enabled (sendTimePref sample_env strict_campaign)" by code_simp+
  have reads: "lr_lastEmailTime (pe_lead sample_env) = (\<lambda>_. Some None)"
    "lr_booked (pe_lead sample_env) = (\<lambda>_ _. Some [])" by (simp_all add: sample_env_def)
  note sends = placement_sends [OF assms(1) slot(1) assms(3) slot(2) assms(2) slot(3) reads slot(4)]
  show "pc_pair (fst (placeCampaignSend sample_env strict_campaign [gmail_account] pair p)) = Some pair"
    "pc_account (fst (placeCampaignSend sample_env strict_campaign [gmail_account] pair p)) = Some a"
    by (rule sends)+
qed

lemma sample_chosen:
  "base_time sample_env sample_pair = Some sample_now"
  "chosen_now sample_env strict_campaign [gmail_account] sample_pair sample_campaignPass sample_now = Some [1]"
  "\<not> BlocksSending (ps_risk sample_campaignPass)"
  by code_simp+

text \<open>A new lead of the sample campaign.\<close>

lemma sample_placed:
  obtains pl q where "placeCampaignSend sample_env strict_campaign [gmail_account] sample_pair sample_campaignPass = (pl, q)"
    "pc_pair pl = Some sample_pair"
  using sample_sends(1) [OF sample_chosen] by (metis prod.exhaust fst_conv)

theorem send_leaves_a_cleared_mailbox_witness:
  "\<exists>pl q. placeCampaignSend sample_env strict_campaign [gmail_account] sample_pair sample_campaignPass = (pl, q)
     \<and> pc_pair pl = Some sample_pair \<and> pc_account pl = Some [1]
     \<and> cleared (pe_rd sample_env) (g_inst (pe_now sample_env)) q gmail_account"
proof (rule sample_placed)
  fix pl q
  assume sent: "placeCampaignSend sample_env strict_campaign [gmail_account] sample_pair sample_campaignPass = (pl, q)"
    "pc_pair pl = Some sample_pair"
  from send_leaves_a_cleared_mailbox [OF sent] sent show ?thesis by (auto simp: gmail_account_def sample_account_def)
qed


lemma bound_chosen:
  "base_time sample_env bound_pair = Some sample_now"
  "chosen_now sample_env strict_campaign [gmail_account] bound_pair sample_campaignPass sample_now = Some [1]"
  by code_simp+

theorem bound_lead_keeps_its_mailbox_witness:
  "\<exists>pl q. placeCampaignSend sample_env strict_campaign [gmail_account] bound_pair sample_campaignPass = (pl, q)
     \<and> pc_pair pl = Some bound_pair
     \<and> (pc_account pl = Some [1]
        \<or> (\<exists>recipient lastSends cand_t g p1 gate why.
             gather_pool sample_env strict_campaign recipient lastSends (Some gmail_account) cand_t [gmail_account]
               (empty_gather, sample_campaignPass) = Some (g, p1)
             \<and> ga_gates g [1] = Some gate \<and> mg_reason gate = Some why \<and> \<not> mg_paced gate \<and> \<not> pacing_reason why))"
proof -
  obtain pl q where sent: "placeCampaignSend sample_env strict_campaign [gmail_account] bound_pair sample_campaignPass = (pl, q)"
    "pc_pair pl = Some bound_pair"
    using sample_sends(1) [OF bound_chosen sample_chosen(3)] by (metis prod.exhaust fst_conv)
  have id: "em_ID gmail_account = [1]" by (simp add: gmail_account_def sample_account_def)
  have bound: "boundSender [gmail_account] (cp_AssignedSender bound_pair) = Some gmail_account"
    by (simp add: boundSender_def bound_pair_def id)
  have stays: "\<not> Rotates (ca_FollowUpSender strict_campaign)" by code_simp
  have memo: "honest_memo sample_campaignPass" by (simp add: honest_memo_def sample_campaignPass_def)
  have counts: "counts_ok (pe_rd sample_env) sample_campaignPass"
    by (auto simp: counts_ok_def sample_campaignPass_def sample_env_def counted_reads_def sample_pass_reads_def split: if_split_asm)
  have logs: "0 \<le> n \<Longrightarrow> 0 \<le> pe_log2 sample_env (f_of (n + 1))" for n by (simp add: sample_env_def)
  have age: "\<forall>a\<in>set [gmail_account]. 0 \<le> warmup_age sample_env a"
    by (simp add: warmup_age_def gmail_account_def sample_account_def)
  from bound_lead_keeps_its_mailbox [OF sent bound stays memo counts logs age, unfolded id] sent show ?thesis by blast
qed

definition sample_campaign_reads :: campaign_reads where
  "sample_campaign_reads =
     \<lparr>cn_campaign = Some strict_campaign, cn_advanced = False, cn_reloaded = None, cn_senders = Some [gmail_account],
      cn_newLeadsToday = Some 0, cn_routes = example_reads, cn_draws = (\<lambda>_. pe_draws sample_env)\<rparr>"

definition quiet_sources :: pass_sources where
  "quiet_sources = \<lparr>src_domainAuth = None, src_lifecycles = None, src_coldRamp = None, src_behavior = False,
     src_risk = None\<rparr>"


text \<open>The memos of the sample pass after its pool was read and its paced mailboxes were found.\<close>

definition sample_prefilled :: campaignPass where
  "sample_prefilled = the (prefillPool counted_reads
     (newCampaignPass (\<lambda>_. None) quiet_sources (1767607200 * Second) sample_store strict_campaign [gmail_account])
     [gmail_account])"

definition sample_paced :: "(uuid \<rightharpoonup> gtime) \<times> campaignPass" where
  "sample_paced = pacedSenders (\<lambda>_. None) False counted_reads sample_now (\<lambda>_. 0) [gmail_account] (Map.empty, sample_prefilled)"

lemma sample_reads:
  "prefillPool counted_reads
     (newCampaignPass (\<lambda>_. None) quiet_sources (1767607200 * Second) sample_store strict_campaign [gmail_account])
     [gmail_account] = Some sample_prefilled"
  by (simp add: sample_prefilled_def prefillPool_def counted_reads_def Let_def)

lemma routed_chosen:
  "base_time sample_env routed_pair = Some sample_now"
  "chosen_now sample_env strict_campaign [gmail_account] routed_pair (snd sample_paced) sample_now = Some [1]"
  "\<not> BlocksSending (ps_risk (snd sample_paced))"
  "fst sample_paced [1] = None"
  by code_simp+


lemma routed_found:
  "FindRoutedPairs example_reads False (routing_paced strict_campaign (fst sample_paced)) CampaignPlacementCandidates
     = Some ([routed_pair], None, False)"
  by code_simp


end
