(* ===== verification/Go_Rfc3339.thy ===== *)
theory Go_Rfc3339
  imports Go_Time
begin

text \<open>
  Instants as text: \<open>Format\<close> and \<open>Parse\<close> of Go's \<open>time\<close> package with the layout
  \<open>time.RFC3339\<close>, the rules of the standard library for each field included: an hour may have one
  digit, a fraction of a second may follow although the layout has none, and offsets of up to 24
  hours and 60 minutes are read.
\<close>

section \<open>Reading a field\<close>

definition is_digit_char :: "char \<Rightarrow> bool" where
  "is_digit_char c \<longleftrightarrow> (48::nat) \<le> of_char c \<and> of_char c \<le> (57::nat)"

definition digit_val :: "char \<Rightarrow> int" where
  "digit_val c = int (of_char c) - 48"

text \<open>A number of one or two digits; \<open>fixed\<close> insists on two.\<close>

fun getnum :: "bool \<Rightarrow> string \<Rightarrow> (int \<times> string) option" where
  "getnum fixed' [] = None"
| "getnum fixed' [c] = (if is_digit_char c \<and> \<not> fixed' then Some (digit_val c, []) else None)"
| "getnum fixed' (c # d # s) =
     (if \<not> is_digit_char c then None
      else if is_digit_char d then Some (digit_val c * 10 + digit_val d, s)
      else if fixed' then None else Some (digit_val c, d # s))"

definition in_range :: "int \<Rightarrow> int \<Rightarrow> (int \<times> string) option \<Rightarrow> (int \<times> string) option" where
  "in_range lo hi r = (case r of None \<Rightarrow> None | Some (n, s) \<Rightarrow> if lo \<le> n \<and> n \<le> hi then Some (n, s) else None)"

fun skip_char :: "char \<Rightarrow> string \<Rightarrow> string option" where
  "skip_char c [] = None"
| "skip_char c (d # s) = (if d = c then Some s else None)"

definition read_year :: "string \<Rightarrow> (int \<times> string) option" where
  "read_year s =
     (if length s < 4 \<or> \<not> list_all is_digit_char (take 4 s) then None
      else Some (foldl (\<lambda>a c. a * 10 + digit_val c) 0 (take 4 s), drop 4 s))"

text \<open>Up to nine digits of a fraction count, further ones are read and dropped.\<close>

definition read_fraction :: "string \<Rightarrow> int \<times> string" where
  "read_fraction s =
     (case s of
        c # d # _ \<Rightarrow>
          if (c = CHR ''.'' \<or> c = CHR '','') \<and> is_digit_char d
          then (let ds = takeWhile is_digit_char (tl s); used = take 9 ds
                in (foldl (\<lambda>a c. a * 10 + digit_val c) 0 used * 10 ^ (9 - length used), drop (length ds) (tl s)))
          else (0, s)
      | _ \<Rightarrow> (0, s))"

text \<open>The offset of the zone in seconds.\<close>

definition read_zone :: "string \<Rightarrow> (int \<times> string) option" where
  "read_zone s =
     (case s of
        [] \<Rightarrow> None
      | c # r \<Rightarrow>
          if c = CHR ''Z'' then Some (0, r)
          else if c \<noteq> CHR ''+'' \<and> c \<noteq> CHR ''-'' then None
          else case in_range 0 24 (getnum True r) of
              None \<Rightarrow> None
            | Some (h, r) \<Rightarrow>
                (case skip_char (CHR '':'') r of
                   None \<Rightarrow> None
                 | Some r \<Rightarrow>
                     (case in_range 0 60 (getnum True r) of
                        None \<Rightarrow> None
                      | Some (m, r) \<Rightarrow> Some ((if c = CHR ''-'' then - 1 else 1) * (h * 3600 + m * 60), r))))"

section \<open>Dates\<close>

definition is_leap :: "int \<Rightarrow> bool" where
  "is_leap y \<longleftrightarrow> y mod 4 = 0 \<and> (y mod 100 \<noteq> 0 \<or> y mod 400 = 0)"

definition days_in :: "int \<Rightarrow> int \<Rightarrow> int" where
  "days_in m y =
     (if m = 2 then if is_leap y then 29 else 28
      else if m = 4 \<or> m = 6 \<or> m = 9 \<or> m = 11 then 30 else 31)"

definition then_read ::
  "char \<Rightarrow> (string \<Rightarrow> (int \<times> string) option) \<Rightarrow> string \<Rightarrow> (int \<times> string) option" where
  "then_read sep rd s = (case skip_char sep s of None \<Rightarrow> None | Some r \<Rightarrow> rd r)"

definition read_date :: "string \<Rightarrow> ((int \<times> int \<times> int) \<times> string) option" where
  "read_date s =
     (case read_year s of None \<Rightarrow> None | Some (y, s) \<Rightarrow>
      case then_read (CHR ''-'') (\<lambda>s. in_range 1 12 (getnum True s)) s of None \<Rightarrow> None | Some (m, s) \<Rightarrow>
      case then_read (CHR ''-'') (getnum True) s of None \<Rightarrow> None | Some (d, s) \<Rightarrow> Some ((y, m, d), s))"

definition read_clock :: "string \<Rightarrow> ((int \<times> int \<times> int) \<times> string) option" where
  "read_clock s =
     (case then_read (CHR ''T'') (\<lambda>s. in_range 0 23 (getnum False s)) s of None \<Rightarrow> None | Some (h, s) \<Rightarrow>
      case then_read (CHR '':'') (\<lambda>s. in_range 0 59 (getnum True s)) s of None \<Rightarrow> None | Some (mi, s) \<Rightarrow>
      case then_read (CHR '':'') (\<lambda>s. in_range 0 59 (getnum True s)) s of None \<Rightarrow> None | Some (se, s) \<Rightarrow>
        Some ((h, mi, se), s))"

definition parse_rfc3339 :: "string \<Rightarrow> instant option" where
  "parse_rfc3339 s =
     (case read_date s of None \<Rightarrow> None | Some ((y, m, d), s) \<Rightarrow>
      case read_clock s of None \<Rightarrow> None | Some ((h, mi, se), s) \<Rightarrow>
      case read_fraction s of (ns, s) \<Rightarrow>
      case read_zone s of None \<Rightarrow> None | Some (off, s) \<Rightarrow>
        if s \<noteq> [] \<or> d < 1 \<or> days_in m y < d then None
        else Some ((wall_secs y m d h mi se - off) * Second + ns))"

text \<open>\<open>UTC().Format(time.RFC3339)\<close>.\<close>

definition digit :: "nat \<Rightarrow> char" where
  "digit n = char_of (48 + n)"

definition show2 :: "int \<Rightarrow> string" where
  "show2 n = [digit (nat n div 10), digit (nat n mod 10)]"

definition show_year :: "int \<Rightarrow> string" where
  "show_year y =
     (if 0 \<le> y \<and> y < 10000
      then [digit (nat y div 1000), digit (nat y div 100 mod 10), digit (nat y div 10 mod 10), digit (nat y mod 10)]
      else (if y < 0 then ''-'' else []) @ pad 4 (show_nat (nat \<bar>y\<bar>)))"

definition format_rfc3339 :: "instant \<Rightarrow> string" where
  "format_rfc3339 t =
     (let u = \<lparr>g_inst = t, g_loc = UTC\<rparr>
      in case civil u of (y, m, d) \<Rightarrow>
           show_year y @ CHR ''-'' # show2 m @ CHR ''-'' # show2 d @ CHR ''T'' # show2 (hour_of u)
             @ CHR '':'' # show2 (minute_of u) @ CHR '':'' # show2 (second_of u) @ ''Z'')"

section \<open>Days of a month\<close>

lemma month_of_march:
  fixes mp :: int
  assumes "0 \<le> mp" "mp \<le> 11"
  shows "mp = 0 \<or> mp = 1 \<or> mp = 2 \<or> mp = 3 \<or> mp = 4 \<or> mp = 5 \<or> mp = 6 \<or> mp = 7 \<or> mp = 8 \<or> mp = 9
    \<or> mp = 10 \<or> mp = 11"
  using assms by presburger

text \<open>The last day of a March year is a leap day.\<close>

lemma march_year_leap:
  assumes "march_year z = (Y, 365)"
  shows "is_leap (Y + 1)"
proof -
  define doe where "doe = z mod 146097"
  define cent where "cent = min 3 (doe div 36524)"
  define doc where "doc = doe - cent * 36524"
  define quad where "quad = doc div 1461"
  define doq where "doq = doc mod 1461"
  define yr where "yr = min 3 (doq div 365)"
  have "march_year z = (400 * (z div 146097) + 100 * cent + 4 * quad + yr, doq - yr * 365)"
    unfolding march_year_def Let_def doe_def cent_def doc_def quad_def doq_def yr_def
    by (rule refl)
  then have Y: "Y = 400 * (z div 146097) + 100 * cent + 4 * quad + yr" and d: "doq = 365 + yr * 365"
    using assms by simp_all
  have "doe < 146097" by (simp add: doe_def)
  then have doe: "0 \<le> doe" "doe \<le> 4 * 36524" by (simp_all add: doe_def)
  note c = split_min3 [OF doe zero_less_numeral, folded cent_def, folded doc_def]
  have "doq < 1461" by (simp add: doq_def)
  then have doq: "0 \<le> doq" "doq \<le> 4 * 365" by (simp_all add: doq_def)
  note r = split_min3 [OF doq zero_less_numeral, folded yr_def]
  have "yr = 3"
  proof (rule ccontr)
    assume "yr \<noteq> 3"
    then have "doq div 365 = yr" using r(1,2) unfolding yr_def by linarith
    then show False using d by simp
  qed
  then have "doc mod 1461 = 1460" using d by (simp add: doq_def)
  then have q: "doc = 1461 * quad + 1460" using mult_div_mod_eq [of 1461 doc] unfolding quad_def by linarith
  have Y1: "Y + 1 = 4 * (100 * (z div 146097) + 25 * cent + quad + 1)" using Y \<open>yr = 3\<close> by simp
  then have four: "(Y + 1) mod 4 = 0" by simp
  have quad: "0 \<le> quad" "quad \<le> 24" using c(3,4) q by linarith+
  show ?thesis
  proof (cases "quad = 24")
    case False
    have "(Y + 1) mod 100 = 4 * ((100 * (z div 146097) + 25 * cent + quad + 1) mod 25)"
      unfolding Y1 by (simp add: mult_mod_right [of 4 _ 25, simplified])
    also have "(100 * (z div 146097) + 25 * cent + quad + 1) mod 25 = (quad + 1) mod 25"
    proof -
      have "100 * (z div 146097) + 25 * cent + quad + 1 = quad + 1 + 25 * (4 * (z div 146097) + cent)" by simp
      then show ?thesis by (metis mod_mult_self2)
    qed
    also have "(quad + 1) mod 25 = quad + 1" using quad False by simp
    finally show ?thesis using four quad by (simp add: is_leap_def)
  next
    case True
    then have "doc = 36524" using q by simp
    then have "cent = 3" using doe c(1,2) \<open>doe < 146097\<close> unfolding doc_def cent_def by linarith
    then have "Y + 1 = 400 * (z div 146097 + 1)" using Y1 True by simp
    then have "(Y + 1) mod 400 = 0" by simp
    with four show ?thesis by (simp add: is_leap_def)
  qed
qed

lemma march_day_bounds:
  fixes mp doy :: int
  assumes "0 \<le> mp" "mp \<le> 10" "153 * mp \<le> 5 * doy + 2" "5 * doy + 2 < 153 * mp + 153"
  shows "1 \<le> doy - (153 * mp + 2) div 5 + 1"
    "doy - (153 * mp + 2) div 5 + 1 \<le> (if mp = 1 \<or> mp = 3 \<or> mp = 6 \<or> mp = 8 then 30 else 31)"
proof -
  define q where "q = (153 * mp + 2) div 5"
  have q: "5 * q \<le> 153 * mp + 2" "153 * mp + 2 < 5 * q + 5"
    using mult_div_mod_eq [of 5 "153 * mp + 2"] pos_mod_bound [of 5 "153 * mp + 2"]
      pos_mod_sign [of 5 "153 * mp + 2"] unfolding q_def by linarith+
  show "1 \<le> doy - (153 * mp + 2) div 5 + 1" using q assms(3) unfolding q_def [symmetric] by linarith
  have "doy - q + 1 \<le> 31" using q assms(4) by linarith
  moreover have "doy - q + 1 \<le> 30" if "mp = 1 \<or> mp = 3 \<or> mp = 6 \<or> mp = 8"
    using that q assms(4) by (elim disjE) simp_all
  ultimately show "doy - (153 * mp + 2) div 5 + 1 \<le> (if mp = 1 \<or> mp = 3 \<or> mp = 6 \<or> mp = 8 then 30 else 31)"
    unfolding q_def [symmetric] by simp
qed

lemma civil_of_days_in:
  assumes "civil_of_days n = (y, m, d)"
  shows "1 \<le> d \<and> d \<le> days_in m y"
proof -
  obtain Y doy mp where my: "march_year (n + 719468) = (Y, doy)"
    and mp: "mp = (5 * doy + 2) div 153" "0 \<le> mp" "mp \<le> 11" and ymd: "y = (if mp < 10 then Y else Y + 1)"
    "m = (if mp < 10 then mp + 3 else mp - 9)" "d = doy - (153 * mp + 2) div 5 + 1"
    using assms by (rule civil_of_days_parts)
  have a: "153 * mp \<le> 5 * doy + 2" "5 * doy + 2 < 153 * mp + 153"
    using mult_div_mod_eq [of 153 "5 * doy + 2"] pos_mod_bound [of 153 "5 * doy + 2"]
      pos_mod_sign [of 153 "5 * doy + 2"] unfolding mp(1) by linarith+
  have last: "doy \<le> 365" using march_year_parts(2) [OF my] .
  show ?thesis
  proof (cases "mp = 11")
    case True
    then have d: "y = Y + 1" "m = 2" "d = doy - 336" using ymd by simp_all
    have "1 \<le> d" using a True d by simp
    moreover have "d \<le> days_in m y"
    proof (cases "doy = 365")
      case True
      with march_year_leap my d show ?thesis by (simp add: days_in_def)
    next
      case False
      with last d show ?thesis by (simp add: days_in_def)
    qed
    ultimately show ?thesis ..
  next
    case False
    with mp have le: "mp \<le> 10" by simp
    note day = march_day_bounds [OF mp(2) le a, folded ymd(3)]
    have "(if mp = 1 \<or> mp = 3 \<or> mp = 6 \<or> mp = 8 then 30 else 31) = days_in m y"
      using ymd(2) mp(2) le by (auto simp: days_in_def split: if_splits)
    with day show ?thesis by simp
  qed
qed

section \<open>What is written reads back to the second\<close>

lemma digit_facts: "n < 10 \<Longrightarrow> is_digit_char (digit n)" "n < 10 \<Longrightarrow> digit_val (digit n) = int n"
  by (simp_all add: is_digit_char_def digit_val_def digit_def)

lemma two_digits: "int (n div 10) * 10 + int (n mod 10) = int n"
  by (metis div_mult_mod_eq of_nat_add of_nat_mult of_nat_numeral)

lemma four_digits:
  "((int (n div 1000) * 10 + int (n div 100 mod 10)) * 10 + int (n div 10 mod 10)) * 10 + int (n mod 10) = int n"
proof -
  have "n div 1000 = n div 100 div 10" "n div 100 = n div 10 div 10" by (simp_all flip: div_mult2_eq)
  then show ?thesis by (simp only: two_digits)
qed

lemma getnum_show2:
  assumes "0 \<le> n" "n < 100"
  shows "getnum fixed' (show2 n @ s) = Some (n, s)"
proof -
  have "nat n div 10 < 10" "nat n mod 10 < 10" using assms by linarith+
  then show ?thesis
    using two_digits [of "nat n"] assms by (simp add: show2_def digit_facts)
qed

lemma read_show_year:
  assumes "0 \<le> y" "y < 10000"
  shows "read_year (show_year y @ s) = Some (y, s)"
proof -
  have "nat y div 1000 < 10" "nat y div 100 mod 10 < 10" "nat y div 10 mod 10 < 10" "nat y mod 10 < 10"
    using assms by linarith+
  then have "list_all is_digit_char (show_year y)" and v: "foldl (\<lambda>a c. a * 10 + digit_val c) 0 (show_year y) = y"
    using four_digits [of "nat y"] assms by (simp_all add: show_year_def digit_facts)
  moreover have "length (show_year y) = 4" using assms by (simp add: show_year_def)
  ultimately show ?thesis by (simp add: read_year_def)
qed

lemma rfc3339_roundtrip:
  assumes "civil \<lparr>g_inst = t, g_loc = UTC\<rparr> = (y, m, d)" "0 \<le> y" "y < 10000"
  shows "parse_rfc3339 (format_rfc3339 t) = Some (t div Second * Second)"
proof -
  let ?u = "\<lparr>g_inst = t, g_loc = UTC\<rparr>"
  have c: "civil_of_days (local_day ?u) = (y, m, d)" using assms(1) by (simp add: civil_def)
  have m: "1 \<le> m" "m \<le> 12" and d: "1 \<le> d" "d \<le> 31" "d \<le> days_in m y"
    using civil_of_days_month [OF c] civil_of_days_day [OF c] civil_of_days_in [OF c] by simp_all
  have h: "0 \<le> hour_of ?u" "hour_of ?u < 24" "0 \<le> minute_of ?u" "minute_of ?u < 60"
    "0 \<le> second_of ?u" "second_of ?u < 60"
    unfolding hour_of_def minute_of_def second_of_def
    by (simp_all only: int_div_less_iff zero_less_numeral pos_imp_zdiv_nonneg_iff pos_mod_sign pos_mod_bound)
  have date: "read_date (show_year y @ CHR ''-'' # show2 m @ CHR ''-'' # show2 d @ s) = Some ((y, m, d), s)" for s
    using m d assms by (simp add: read_date_def read_show_year then_read_def getnum_show2 in_range_def)
  have clock: "read_clock (CHR ''T'' # show2 (hour_of ?u) @ CHR '':'' # show2 (minute_of ?u) @ CHR '':'' # show2 (second_of ?u) @ s)
      = Some ((hour_of ?u, minute_of ?u, second_of ?u), s)" for s
    using h by (simp add: read_clock_def then_read_def getnum_show2 in_range_def)
  have zone: "read_fraction ''Z'' = (0, ''Z'')" "read_zone ''Z'' = Some (0, [])"
    by (simp_all add: read_fraction_def read_zone_def)
  have secs: "wall_secs y m d (hour_of ?u) (minute_of ?u) (second_of ?u) = t div Second"
  proof -
    have "local_secs ?u = t div Second" by (simp add: local_secs_def unix_of_def UTC_def)
    moreover have "hour_of ?u * 3600 + minute_of ?u * 60 + second_of ?u = local_secs ?u mod 86400"
    proof -
      have "second_of ?u = local_secs ?u mod 86400 mod 60" by (simp add: second_of_def mod_mod_cancel)
      then have "(hour_of ?u * 60 + minute_of ?u) * 60 + second_of ?u = local_secs ?u mod 86400"
        unfolding minute_of_day by simp
      then show ?thesis by simp
    qed
    moreover have "local_secs ?u = local_day ?u * 86400 + local_secs ?u mod 86400" by (simp add: local_day_def)
    ultimately show ?thesis unfolding wall_secs_civil0 [OF assms(1)] by linarith
  qed
  show ?thesis
    unfolding format_rfc3339_def Let_def assms(1) prod.case parse_rfc3339_def date clock zone secs option.case
    using d by simp
qed

end
