(* ===== verification/Org_Risk.thy ===== *)
theory Org_Risk
  imports Mailbox_Gate Go_Rfc3339 "HOL-Library.AList" "HOL-Library.List_Lexorder" "HOL-Library.Char_ord"
    "HOL-Library.Product_Lexorder" "HOL-Library.Multiset"
begin

text \<open>
  The abuse posture of a workspace, \<open>internal/app/orgrisk/service.go\<close> over the columns of
  \<open>internal/repository/pg_org_risk.go\<close>: the evidence detectors record, the score and band fused from
  it, the pin of an operator, and the transaction every change goes through. A Go map that is
  ranged over is a list of its entries with distinct keys, in the order of the range. The clock is
  an argument; a transaction that fails leaves the table as it was.
\<close>

section \<open>The record\<close>

text \<open>A value of a \<open>map[string]any\<close>, as it is decoded from the JSON column.\<close>

datatype json = JNull | JBool bool | JNum rat | JStr string | JArr "json list" | JObj "(string \<times> json) list"

type_synonym signals = "(string \<times> json) list"

record Signal =
  sg_Key :: string
  sg_Weight :: int
  sg_Detail :: string
  sg_Class :: string
  sg_Evidence :: signals
  sg_TTL :: duration

record OrgRiskOverride =
  ov_State :: string
  ov_Reason :: string
  ov_By :: "uuid option"
  ov_At :: "instant option"

record OrgRisk =
  or_OrganizationID :: uuid
  or_State :: string
  or_Score :: int
  or_Reason :: string
  or_Signals :: signals
  or_EvaluatedAt :: "instant option"
  or_Override :: "OrgRiskOverride option"

text \<open>The risk columns of an organization's row.\<close>

record riskRow =
  rk_state :: string
  rk_score :: int
  rk_reason :: "string option"
  rk_signals :: signals
  rk_evaluatedAt :: "instant option"
  rk_override :: "string option"
  rk_overrideReason :: "string option"
  rk_overrideBy :: "uuid option"
  rk_overrideAt :: "instant option"

type_synonym risk_table = "uuid \<rightharpoonup> riskRow"

definition ForcesFreeWarmupPool :: "string \<Rightarrow> bool" where
  "ForcesFreeWarmupPool s \<longleftrightarrow> s = ''restricted'' \<or> s = ''suspended''"

definition Restricted :: "OrgRisk option \<Rightarrow> bool" where
  "Restricted r =
     (case r of None \<Rightarrow> False | Some r \<Rightarrow> or_State r = ''restricted'' \<or> or_State r = ''suspended'')"

section \<open>Fusing the evidence\<close>

definition WatchScore :: int where "WatchScore = 25"
definition RestrictedScore :: int where "RestrictedScore = 50"
definition SuspendedScore :: int where "SuspendedScore = 85"
definition CircumstantialCap :: int where "CircumstantialCap = 40"
definition SubstantiveFloor :: int where "SubstantiveFloor = 25"

definition substantiveKeys :: "string list" where
  "substantiveKeys = [''signup'', ''signup_disposable'', ''list_quality'', ''recipient_harm'']"

definition families :: "string \<rightharpoonup> string" where
  "families = [''cluster_signup_ip'' \<mapsto> ''signup_cluster'', ''cluster_signup_identity'' \<mapsto> ''signup_cluster'']"

definition BandFor :: "int \<Rightarrow> string" where
  "BandFor score =
     (if SuspendedScore \<le> score then ''suspended'' else if RestrictedScore \<le> score then ''restricted''
      else if WatchScore \<le> score then ''watch'' else ''trusted'')"

definition bandRank :: "string \<Rightarrow> int" where
  "bandRank s = (if s = ''watch'' then 1 else if s = ''restricted'' then 2 else if s = ''suspended'' then 3 else 0)"

definition atMost :: "string \<Rightarrow> string \<Rightarrow> string" where
  "atMost band ceil' = (if bandRank ceil' < bandRank band then ceil' else band)"

definition weightOf :: "json option \<Rightarrow> int" where
  "weightOf raw = (case raw of Some (JNum v) \<Rightarrow> trunc v | _ \<Rightarrow> 0)"

definition classOf :: "string \<Rightarrow> json option \<Rightarrow> string" where
  "classOf key raw =
     (case raw of
        Some (JStr s) \<Rightarrow>
          if s = ''substantive'' \<or> s = ''circumstantial'' then s
          else if key \<in> set substantiveKeys then ''substantive'' else ''circumstantial''
      | _ \<Rightarrow> if key \<in> set substantiveKeys then ''substantive'' else ''circumstantial'')"

text \<open>The family and class an entry counts for, and its weight; other values are not entries.\<close>

definition member_of :: "string \<Rightarrow> (string \<times> json) list \<Rightarrow> string \<times> string" where
  "member_of key entry =
     (case families key of None \<Rightarrow> key | Some f \<Rightarrow> f, classOf key (map_of entry ''class''))"

fun heaviest_loop :: "signals \<Rightarrow> ((string \<times> string) \<times> int) list \<Rightarrow> ((string \<times> string) \<times> int) list" where
  "heaviest_loop [] h = h"
| "heaviest_loop ((key, raw) # sigs) h =
     (case raw of
        JObj entry \<Rightarrow>
          (let m = member_of key entry; w = weightOf (map_of entry ''weight'');
               old = (case map_of h m of None \<Rightarrow> 0 | Some v \<Rightarrow> v)
           in heaviest_loop sigs (if old < w then AList.update m w h else h))
      | _ \<Rightarrow> heaviest_loop sigs h)"

fun total_loop :: "((string \<times> string) \<times> int) list \<Rightarrow> int \<times> int \<Rightarrow> int \<times> int" where
  "total_loop [] acc = acc"
| "total_loop (((f, cls), w) # h) (circ, subst) =
     total_loop h (if cls = ''substantive'' then (circ, subst + w) else (circ + w, subst))"

definition fuse :: "signals \<Rightarrow> int \<times> int" where
  "fuse sigs = total_loop (heaviest_loop sigs []) (0, 0)"

definition Evaluate :: "signals \<Rightarrow> string \<times> int" where
  "Evaluate sigs =
     (case fuse sigs of (circ, subst) \<Rightarrow>
        let circ = (if CircumstantialCap < circ then CircumstantialCap else circ);
            score = circ + subst;
            score = (if 100 < score then 100 else score);
            band = BandFor score
        in (if subst < SubstantiveFloor then atMost band ''watch'' else band, score))"

definition Score :: "signals \<Rightarrow> int" where
  "Score sigs = snd (Evaluate sigs)"

section \<open>The sentence an operator reads\<close>

definition detailOf :: "string \<Rightarrow> (string \<times> json) list \<Rightarrow> string" where
  "detailOf key entry = (case map_of entry ''detail'' of Some (JStr d) \<Rightarrow> if d = [] then key else d | _ \<Rightarrow> key)"

definition reason_entries :: "signals \<Rightarrow> (int \<times> string) list" where
  "reason_entries sigs =
     concat (map (\<lambda>(key, raw). case raw of
         JObj entry \<Rightarrow> [(weightOf (map_of entry ''weight''), detailOf key entry)] | _ \<Rightarrow> []) sigs)"

definition join_semi :: "string list \<Rightarrow> string" where
  "join_semi ds = (case ds of [] \<Rightarrow> [] | d # ds \<Rightarrow> d @ concat (map (\<lambda>e. ''; '' @ e) ds))"

text \<open>Heaviest first, then by text; two entries the sort cannot tell apart are equal.\<close>

definition Reason :: "signals \<Rightarrow> string" where
  "Reason sigs = join_semi (map snd (take 3 (sort_key (\<lambda>(w, d). (- w, d)) (reason_entries sigs))))"

section \<open>Ageing out\<close>

definition expired :: "instant \<Rightarrow> json \<Rightarrow> bool" where
  "expired now raw =
     (case raw of
        JObj entry \<Rightarrow>
          (case map_of entry ''expires_at'' of
             Some (JStr text) \<Rightarrow>
               text \<noteq> [] \<and> (case parse_rfc3339 text of None \<Rightarrow> False | Some t \<Rightarrow> t < now)
           | _ \<Rightarrow> False)
      | _ \<Rightarrow> False)"

definition PruneExpired :: "signals \<Rightarrow> instant \<Rightarrow> signals" where
  "PruneExpired sigs now = filter (\<lambda>(key, raw). \<not> expired now raw) sigs"

definition derive :: "instant \<Rightarrow> signals \<Rightarrow> signals \<times> string \<times> int \<times> string" where
  "derive now sigs =
     (let sigs = PruneExpired sigs now
      in case Evaluate sigs of (state, score) \<Rightarrow> (sigs, state, score, Reason sigs))"

section \<open>The table\<close>

definition buildOrgRisk :: "uuid \<Rightarrow> riskRow \<Rightarrow> OrgRisk" where
  "buildOrgRisk org row =
     \<lparr>or_OrganizationID = org, or_State = rk_state row, or_Score = rk_score row,
      or_Reason = (case rk_reason row of None \<Rightarrow> [] | Some r \<Rightarrow> r),
      or_Signals = rk_signals row, or_EvaluatedAt = rk_evaluatedAt row,
      or_Override =
        (case rk_override row of
           None \<Rightarrow> None
         | Some s \<Rightarrow> Some \<lparr>ov_State = s,
                        ov_Reason = (case rk_overrideReason row of None \<Rightarrow> [] | Some r \<Rightarrow> r),
                        ov_By = rk_overrideBy row, ov_At = rk_overrideAt row\<rparr>)\<rparr>"

definition nullif_empty :: "string \<Rightarrow> string option" where
  "nullif_empty s = (if s = [] then None else Some s)"

definition coalesce :: "'a option \<Rightarrow> 'a option \<Rightarrow> 'a option" where
  "coalesce a b = (case a of Some x \<Rightarrow> Some x | None \<Rightarrow> b)"

definition GetOrgRiskStates :: "risk_table \<Rightarrow> uuid list \<Rightarrow> (uuid \<rightharpoonup> string)" where
  "GetOrgRiskStates tab orgs = (\<lambda>o'. if o' \<in> set orgs then map_option rk_state (tab o') else None)"

text \<open>
  The transaction: read under the lock, derive, drop the pin when asked, write. A query that fails
  rolls everything back, and no row is no organization.
\<close>

definition drop_pin :: "riskRow \<Rightarrow> riskRow" where
  "drop_pin row = row\<lparr>rk_override := None, rk_overrideReason := None, rk_overrideBy := None, rk_overrideAt := None\<rparr>"

definition write_row :: "instant \<Rightarrow> riskRow \<Rightarrow> signals \<times> string \<times> int \<times> string \<Rightarrow> riskRow" where
  "write_row now row d =
     (case d of (sigs, state, score, reason) \<Rightarrow>
        row\<lparr>rk_signals := sigs, rk_score := score,
            rk_state := (case rk_override row of None \<Rightarrow> state | Some s \<Rightarrow> s),
            rk_reason := (if rk_override row \<noteq> None
                          then coalesce (case rk_overrideReason row of None \<Rightarrow> None | Some r \<Rightarrow> nullif_empty r)
                                 (nullif_empty reason)
                          else nullif_empty reason),
            rk_evaluatedAt := Some now\<rparr>)"

definition rederive ::
  "bool \<Rightarrow> instant \<Rightarrow> risk_table \<Rightarrow> uuid \<Rightarrow> bool \<Rightarrow> (signals \<Rightarrow> signals \<times> string \<times> int \<times> string)
     \<Rightarrow> OrgRisk option option \<times> risk_table" where
  "rederive fault now tab org clearOverride drv =
     (if fault then (None, tab)
      else case tab org of
          None \<Rightarrow> (Some None, tab)
        | Some row \<Rightarrow>
            (let new = write_row now (if clearOverride then drop_pin row else row) (drv (rk_signals row))
             in (Some (Some (buildOrgRisk org new)), tab(org \<mapsto> new))))"

definition pin_row :: "instant \<Rightarrow> riskRow \<Rightarrow> string \<Rightarrow> string \<Rightarrow> uuid option \<Rightarrow> riskRow" where
  "pin_row now row state reason by' =
     row\<lparr>rk_state := state, rk_reason := nullif_empty reason, rk_override := Some state,
         rk_overrideReason := nullif_empty reason, rk_overrideBy := by', rk_overrideAt := Some now,
         rk_evaluatedAt := Some now\<rparr>"

definition nil_uuid :: uuid where "nil_uuid = replicate 16 0"

definition SetOrgRiskOverride ::
  "bool \<Rightarrow> instant \<Rightarrow> risk_table \<Rightarrow> uuid \<Rightarrow> string \<Rightarrow> string \<Rightarrow> uuid \<Rightarrow> OrgRisk option option \<times> risk_table" where
  "SetOrgRiskOverride fault now tab org state reason by' =
     (if fault then (None, tab)
      else case tab org of
          None \<Rightarrow> (Some None, tab)
        | Some row \<Rightarrow>
            (let new = pin_row now row state reason (if by' = nil_uuid then None else Some by')
             in (Some (Some (buildOrgRisk org new)), tab(org \<mapsto> new))))"

definition OrgsWithSignal :: "uuid list \<Rightarrow> risk_table \<Rightarrow> string \<Rightarrow> uuid list" where
  "OrgsWithSignal orgs tab key =
     filter (\<lambda>o'. case tab o' of None \<Rightarrow> False | Some row \<Rightarrow> key \<in> fst ` set (rk_signals row)) orgs"

definition dated :: "json \<Rightarrow> bool" where
  "dated raw = (case raw of JObj entry \<Rightarrow> ''expires_at'' \<in> fst ` set entry | _ \<Rightarrow> False)"

definition OrgsWithExpiringSignals :: "uuid list \<Rightarrow> risk_table \<Rightarrow> uuid list" where
  "OrgsWithExpiringSignals orgs tab =
     filter (\<lambda>o'. case tab o' of None \<Rightarrow> False | Some row \<Rightarrow> \<exists>kv\<in>set (rk_signals row). dated (snd kv)) orgs"

section \<open>The service\<close>

datatype risk_error = InternalError | NotFound string | BadRequest string

text \<open>What a change of band writes to the organization's feed and to the operators.\<close>

datatype risk_event =
    NotifyOperator uuid string string int string
  | LogAction uuid string string int string

definition resolved :: "OrgRisk option option \<Rightarrow> risk_error + OrgRisk" where
  "resolved r =
     (case r of
        None \<Rightarrow> Inl InternalError
      | Some None \<Rightarrow> Inl (NotFound ''no such organization'')
      | Some (Some risk) \<Rightarrow> Inr risk)"

definition GetOrgRisk :: "bool \<Rightarrow> risk_table \<Rightarrow> uuid \<Rightarrow> OrgRisk option option" where
  "GetOrgRisk fault tab org = (if fault then None else Some (map_option (buildOrgRisk org) (tab org)))"

definition Get :: "bool \<Rightarrow> risk_table \<Rightarrow> uuid \<Rightarrow> risk_error + OrgRisk" where
  "Get fault tab org = resolved (GetOrgRisk fault tab org)"

text \<open>The wiring of the service: an audit log, an operator channel.\<close>

record risk_service =
  rsv_audit :: bool
  rsv_opsNotify :: bool

definition auditTransition :: "risk_service \<Rightarrow> uuid \<Rightarrow> OrgRisk option \<Rightarrow> OrgRisk \<Rightarrow> risk_event list" where
  "auditTransition svc org before' after' =
     (if \<not> rsv_audit svc then []
      else if (case before' of None \<Rightarrow> False | Some b \<Rightarrow> or_State b = or_State after') then []
      else (let fr = (case before' of None \<Rightarrow> ''trusted'' | Some b \<Rightarrow> or_State b)
            in (if rsv_opsNotify svc
                then [NotifyOperator org fr (or_State after') (or_Score after') (or_Reason after')] else [])
               @ [LogAction org fr (or_State after') (or_Score after') (or_Reason after')]))"

text \<open>
  The faults of a change: the read before it, whose error is ignored, and the transaction.
\<close>

definition answer ::
  "risk_service \<Rightarrow> uuid \<Rightarrow> OrgRisk option option \<Rightarrow> OrgRisk option option \<times> risk_table
     \<Rightarrow> (risk_error + OrgRisk) \<times> risk_event list \<times> risk_table" where
  "answer svc org before' r =
     (case resolved (fst r) of
        Inl e \<Rightarrow> (Inl e, [], snd r)
      | Inr risk \<Rightarrow>
          (Inr risk, auditTransition svc org (case before' of None \<Rightarrow> None | Some b \<Rightarrow> b) risk, snd r))"

definition apply_signals ::
  "risk_service \<Rightarrow> bool \<times> bool \<Rightarrow> instant \<Rightarrow> risk_table \<Rightarrow> uuid \<Rightarrow> (signals \<Rightarrow> signals)
     \<Rightarrow> (risk_error + OrgRisk) \<times> risk_event list \<times> risk_table" where
  "apply_signals svc faults now tab org mutate =
     answer svc org (GetOrgRisk (fst faults) tab org)
       (rederive (snd faults) now tab org False (\<lambda>sigs. derive now (mutate sigs)))"

definition clampWeight :: "int \<Rightarrow> int" where
  "clampWeight w = (let w = (if w < 0 then 0 else w) in if 100 < w then 100 else w)"

definition signal_entry :: "instant \<Rightarrow> Signal \<Rightarrow> json" where
  "signal_entry now sig =
     (let class' = (if sg_Class sig \<noteq> ''circumstantial'' \<and> sg_Class sig \<noteq> ''substantive''
                    then classOf (sg_Key sig) None else sg_Class sig)
      in JObj ([(''weight'', JNum (of_int (clampWeight (sg_Weight sig)))), (''detail'', JStr (sg_Detail sig)),
                (''class'', JStr class')]
               @ (if sg_Evidence sig \<noteq> [] then [(''evidence'', JObj (sg_Evidence sig))] else [])
               @ (if 0 < sg_TTL sig then [(''expires_at'', JStr (format_rfc3339 (now + sg_TTL sig)))] else [])))"

definition RecordSignal ::
  "risk_service \<Rightarrow> bool \<times> bool \<Rightarrow> instant \<Rightarrow> risk_table \<Rightarrow> uuid \<Rightarrow> Signal
     \<Rightarrow> (risk_error + OrgRisk) \<times> risk_event list \<times> risk_table" where
  "RecordSignal svc faults now tab org sig =
     (if sg_Key sig = [] then (Inl (BadRequest ''a signal needs a key''), [], tab)
      else apply_signals svc faults now tab org (\<lambda>sigs. AList.update (sg_Key sig) (signal_entry now sig) sigs))"

definition ClearSignal ::
  "risk_service \<Rightarrow> bool \<times> bool \<Rightarrow> instant \<Rightarrow> risk_table \<Rightarrow> uuid \<Rightarrow> string
     \<Rightarrow> (risk_error + OrgRisk) \<times> risk_event list \<times> risk_table" where
  "ClearSignal svc faults now tab org key =
     apply_signals svc faults now tab org (\<lambda>sigs. AList.delete key sigs)"

definition SetOverride ::
  "risk_service \<Rightarrow> bool \<times> bool \<Rightarrow> instant \<Rightarrow> risk_table \<Rightarrow> uuid \<Rightarrow> string \<Rightarrow> string \<Rightarrow> uuid
     \<Rightarrow> (risk_error + OrgRisk) \<times> risk_event list \<times> risk_table" where
  "SetOverride svc faults now tab org state reason actor =
     (if \<not> risk_Valid state then (Inl (BadRequest ''unknown risk state''), [], tab)
      else answer svc org (GetOrgRisk (fst faults) tab org)
             (SetOrgRiskOverride (snd faults) now tab org state reason actor))"

definition ClearOverride ::
  "risk_service \<Rightarrow> bool \<times> bool \<Rightarrow> instant \<Rightarrow> risk_table \<Rightarrow> uuid
     \<Rightarrow> (risk_error + OrgRisk) \<times> risk_event list \<times> risk_table" where
  "ClearOverride svc faults now tab org =
     answer svc org (GetOrgRisk (fst faults) tab org)
       (rederive (snd faults) now tab org True (derive now))"

text \<open>The sweep re-derives every organization with dated evidence and counts what it retired.\<close>

fun sweep_loop ::
  "risk_service \<Rightarrow> (uuid \<Rightarrow> bool \<times> bool) \<Rightarrow> instant \<Rightarrow> uuid list \<Rightarrow> int \<times> risk_event list \<times> risk_table
     \<Rightarrow> int \<times> risk_event list \<times> risk_table" where
  "sweep_loop svc faults now [] acc = acc"
| "sweep_loop svc faults now (org # orgs) (swept, evs, tab) =
     (case apply_signals svc (faults org) now tab org (\<lambda>sigs. PruneExpired sigs now) of
        (Inl e, ev, tab') \<Rightarrow> sweep_loop svc faults now orgs (swept, evs @ ev, tab')
      | (Inr risk, ev, tab') \<Rightarrow>
          (let held = (case tab org of None \<Rightarrow> [] | Some row \<Rightarrow> rk_signals row)
           in sweep_loop svc faults now orgs
                (if length (PruneExpired held now) \<noteq> length held then swept + 1 else swept, evs @ ev, tab')))"

definition SweepExpired ::
  "risk_service \<Rightarrow> bool \<Rightarrow> (uuid \<Rightarrow> bool \<times> bool) \<Rightarrow> instant \<Rightarrow> uuid list \<Rightarrow> risk_table
     \<Rightarrow> int \<times> risk_event list \<times> risk_table" where
  "SweepExpired svc listFault faults now orgs tab =
     (if listFault then (0, [], tab)
      else sweep_loop svc faults now (OrgsWithExpiringSignals orgs tab) (0, [], tab))"

section \<open>Reading a record\<close>

definition is_entry :: "json option \<Rightarrow> bool" where
  "is_entry raw = (case raw of Some (JObj _) \<Rightarrow> True | _ \<Rightarrow> False)"

definition HasSignal :: "OrgRisk option \<Rightarrow> string \<Rightarrow> bool" where
  "HasSignal risk key = (case risk of None \<Rightarrow> False | Some r \<Rightarrow> is_entry (map_of (or_Signals r) key))"

definition EvidenceInt :: "OrgRisk option \<Rightarrow> string \<Rightarrow> string \<Rightarrow> int" where
  "EvidenceInt risk key field =
     (case risk of
        None \<Rightarrow> 0
      | Some r \<Rightarrow>
          (case map_of (or_Signals r) key of
             Some (JObj entry) \<Rightarrow>
               (case map_of entry ''evidence'' of Some (JObj ev) \<Rightarrow> weightOf (map_of ev field) | _ \<Rightarrow> 0)
           | _ \<Rightarrow> 0))"

section \<open>What the fusing computes\<close>

text \<open>The entries with the member each counts for.\<close>

definition weighed_entries :: "signals \<Rightarrow> ((string \<times> string) \<times> int) list" where
  "weighed_entries sigs =
     concat (map (\<lambda>(key, raw). case raw of
         JObj entry \<Rightarrow> [(member_of key entry, weightOf (map_of entry ''weight''))] | _ \<Rightarrow> []) sigs)"

text \<open>The heaviest weight of a member, the members, and the sum over a class.\<close>

definition member_weight :: "signals \<Rightarrow> string \<times> string \<Rightarrow> int" where
  "member_weight sigs m = Max (insert 0 (snd ` {e \<in> set (weighed_entries sigs). fst e = m}))"

definition evidence_of :: "signals \<Rightarrow> bool \<Rightarrow> int" where
  "evidence_of sigs conduct =
     (\<Sum>m \<in> {m \<in> fst ` set (weighed_entries sigs). (snd m = ''substantive'') = conduct}. member_weight sigs m)"

definition held_weight :: "((string \<times> string) \<times> int) list \<Rightarrow> string \<times> string \<Rightarrow> int" where
  "held_weight h m = (case map_of h m of None \<Rightarrow> 0 | Some v \<Rightarrow> v)"

lemma held_weight_update [simp]: "held_weight (AList.update k v h) m = (if m = k then v else held_weight h m)"
  by (simp add: held_weight_def update_conv')

lemma heaviest_loop_facts:
  assumes "distinct (map fst h)"
  shows "distinct (map fst (heaviest_loop sigs h))
    \<and> fst ` set (heaviest_loop sigs h) \<subseteq> fst ` set h \<union> fst ` set (weighed_entries sigs)
    \<and> held_weight (heaviest_loop sigs h) m
        = Max (insert (held_weight h m) (snd ` {e \<in> set (weighed_entries sigs). fst e = m}))"
  using assms
proof (induction sigs arbitrary: h)
  case Nil
  then show ?case by (simp add: weighed_entries_def)
next
  case (Cons s sigs)
  obtain key raw where s: "s = (key, raw)" by (cases s)
  have other: ?case if "\<nexists>entry. raw = JObj entry"
    using Cons that by (cases raw) (simp_all add: s weighed_entries_def)
  have entry: ?case if raw: "raw = JObj entry" for entry
  proof -
    define k where "k = member_of key entry"
    define w where "w = weightOf (map_of entry ''weight'')"
    define h' where "h' = (if held_weight h k < w then AList.update k w h else h)"
    have step: "heaviest_loop (s # sigs) h = heaviest_loop sigs h'"
      by (simp add: s raw k_def w_def h'_def held_weight_def Let_def)
    have ent: "weighed_entries (s # sigs) = (k, w) # weighed_entries sigs"
      by (simp add: s raw weighed_entries_def k_def w_def)
    have d: "distinct (map fst h')" using Cons.prems by (simp add: h'_def distinct_update)
    note IH = Cons.IH [OF d]
    have keys: "fst ` set h' \<subseteq> insert k (fst ` set h)" unfolding h'_def
      by (auto simp: update_keys simp flip: set_map split: if_split_asm)
    define A where "A = snd ` {e \<in> set (weighed_entries sigs). fst e = m}"
    have A: "finite A" by (simp add: A_def)
    have "Max (insert (held_weight h' m) A)
        = Max (insert (held_weight h m) (snd ` {e \<in> set ((k, w) # weighed_entries sigs). fst e = m}))"
    proof (cases "m = k")
      case True
      have "{e \<in> set ((k, w) # weighed_entries sigs). fst e = m} = insert (k, w) {e \<in> set (weighed_entries sigs). fst e = m}"
        unfolding True by auto
      then have "snd ` {e \<in> set ((k, w) # weighed_entries sigs). fst e = m} = insert w A"
        unfolding A_def by simp
      moreover have "held_weight h' m = max (held_weight h m) w" using True by (auto simp: h'_def)
      moreover have "Max (insert (max (held_weight h m) w) A) = Max (insert (held_weight h m) (insert w A))"
        using A by (cases "A = {}") (simp_all add: max.assoc)
      ultimately show ?thesis by simp
    next
      case False
      then have "snd ` {e \<in> set ((k, w) # weighed_entries sigs). fst e = m} = A"
        unfolding A_def by auto
      then show ?thesis using False by (simp add: h'_def)
    qed
    moreover have "fst ` set (heaviest_loop sigs h')
        \<subseteq> fst ` set h \<union> fst ` set ((k, w) # weighed_entries sigs)"
    proof -
      have "fst ` set (heaviest_loop sigs h') \<subseteq> fst ` set h' \<union> fst ` set (weighed_entries sigs)"
        using IH by (elim conjE)
      also have "\<dots> \<subseteq> insert k (fst ` set h) \<union> fst ` set (weighed_entries sigs)" using keys by blast
      finally show ?thesis by simp
    qed
    ultimately show ?thesis using IH unfolding step ent A_def by simp
  qed
  from other entry show ?case by blast
qed

lemma total_loop_sums:
  "total_loop h (c, s) =
     (c + sum_list (map snd (filter (\<lambda>e. snd (fst e) \<noteq> ''substantive'') h)),
      s + sum_list (map snd (filter (\<lambda>e. snd (fst e) = ''substantive'') h)))"
  by (induction h "(c, s)" arbitrary: c s rule: total_loop.induct) auto

lemma held_sum:
  assumes "distinct (map fst h)" "fst ` set h \<subseteq> M" "finite M" "\<And>m. m \<in> M \<Longrightarrow> m \<notin> fst ` set h \<Longrightarrow> f m = 0"
    and "\<And>m. held_weight h m = f m"
  shows "sum_list (map snd (filter (\<lambda>e. P (fst e)) h)) = (\<Sum>m \<in> {m \<in> M. P m}. f m)"
proof -
  define g where "g = filter (\<lambda>e. P (fst e)) h"
  have d: "distinct (map fst g)" unfolding g_def using assms(1) by (rule distinct_map_filter)
  have "map snd g = map (f \<circ> fst) g"
  proof (rule map_cong [OF refl])
    fix e assume "e \<in> set g"
    then have "map_of h (fst e) = Some (snd e)" using assms(1) by (simp add: g_def)
    then show "snd e = (f \<circ> fst) e" using assms(5) [of "fst e"] by (simp add: held_weight_def)
  qed
  then have "sum_list (map snd g) = sum_list (map f (map fst g))" by (simp only: map_map)
  also have "\<dots> = (\<Sum>m \<in> fst ` set g. f m)" using sum.distinct_set_conv_list [OF d, of f] by simp
  also have "\<dots> = (\<Sum>m \<in> {m \<in> M. P m}. f m)"
  proof (rule sum.mono_neutral_left)
    show "fst ` set g \<subseteq> {m \<in> M. P m}" using assms(2) by (auto simp: g_def)
    show "\<forall>m \<in> {m \<in> M. P m} - fst ` set g. f m = 0"
    proof
      fix m assume m: "m \<in> {m \<in> M. P m} - fst ` set g"
      have "fst ` set g = {m \<in> fst ` set h. P m}" by (auto simp: g_def)
      with m have "m \<notin> fst ` set h" by blast
      then show "f m = 0" using assms(4) m by blast
    qed
  qed (use assms(3) in simp)
  finally show ?thesis unfolding g_def .
qed

lemma fuse_is_evidence: "fuse sigs = (evidence_of sigs False, evidence_of sigs True)"
proof -
  define h where "h = heaviest_loop sigs []"
  note f = heaviest_loop_facts [of "[]" sigs, folded h_def]
  have w: "held_weight h m = member_weight sigs m" for m
    using f by (simp add: member_weight_def held_weight_def)
  have out: "member_weight sigs m = 0" if "m \<notin> fst ` set h" for m
  proof -
    from that have "map_of h m = None" by (simp add: map_of_eq_None_iff)
    with w [of m] show ?thesis by (simp add: held_weight_def)
  qed
  have "sum_list (map snd (filter (\<lambda>e. (snd (fst e) = ''substantive'') = b) h)) = evidence_of sigs b" for b
    unfolding evidence_of_def
    by (rule held_sum [where P = "\<lambda>m. (snd m = ''substantive'') = b"]) (use f out w in auto)
  from this [of True] this [of False] show ?thesis
    by (simp add: fuse_def total_loop_sums flip: h_def)
qed

lemma member_weight_nonneg: "0 \<le> member_weight sigs m"
  by (simp add: member_weight_def)

lemma evidence_nonneg: "0 \<le> evidence_of sigs b"
  unfolding evidence_of_def by (rule sum_nonneg) (rule member_weight_nonneg)

section \<open>Verdicts\<close>

lemma bandRank_atMost: "bandRank (atMost band ''watch'') \<le> 1"
  by (simp add: atMost_def bandRank_def)

lemma BandFor_Valid: "risk_Valid (BandFor s)"
  by (simp add: BandFor_def risk_Valid_def)

lemma Evaluate_eq:
  "Evaluate sigs =
     (let score = min 100 (min CircumstantialCap (evidence_of sigs False) + evidence_of sigs True)
      in (if evidence_of sigs True < SubstantiveFloor then atMost (BandFor score) ''watch'' else BandFor score, score))"
  by (simp add: Evaluate_def fuse_is_evidence Let_def min_def)

lemma Evaluate_Valid: "risk_Valid (fst (Evaluate sigs))"
  using BandFor_Valid by (auto simp: Evaluate_eq Let_def atMost_def risk_Valid_def)

lemma Score_range: "0 \<le> Score sigs" "Score sigs \<le> 100"
  using evidence_nonneg by (simp_all add: Score_def Evaluate_eq Let_def CircumstantialCap_def)

text \<open>Bands that take something away need conduct, not shape.\<close>

lemma harsh_needs_conduct:
  assumes "fst (Evaluate sigs) = ''restricted'' \<or> fst (Evaluate sigs) = ''suspended''"
  shows "SubstantiveFloor \<le> evidence_of sigs True"
proof (rule ccontr)
  assume "\<not> ?thesis"
  then have "fst (Evaluate sigs) = atMost (BandFor (snd (Evaluate sigs))) ''watch''"
    by (simp add: Evaluate_eq Let_def)
  with assms bandRank_atMost [of "BandFor (snd (Evaluate sigs))"] show False
    by (auto simp: bandRank_def)
qed

section \<open>The order of a map does not matter\<close>

lemma weighed_entries_set: "mset sigs = mset sigs' \<Longrightarrow> set (weighed_entries sigs) = set (weighed_entries sigs')"
  by (auto simp: weighed_entries_def dest: mset_eq_setD)

lemma mset_concat_map: "mset xs = mset ys \<Longrightarrow> mset (concat (map f xs)) = mset (concat (map f ys))"
proof -
  assume "mset xs = mset ys"
  then have "mset (map (mset \<circ> f) xs) = mset (map (mset \<circ> f) ys)" by simp
  then have "sum_list (map (mset \<circ> f) xs) = sum_list (map (mset \<circ> f) ys)" by (metis sum_mset_sum_list)
  then show ?thesis by (simp add: mset_concat o_def)
qed

lemma derive_eq:
  "derive now sigs = (PruneExpired sigs now, fst (Evaluate (PruneExpired sigs now)),
     snd (Evaluate (PruneExpired sigs now)), Reason (PruneExpired sigs now))"
  by (simp add: derive_def Let_def case_prod_beta)

text \<open>
  Claim C40. Go ranges over a map in any order. The posture, the sentence and the pruned evidence of
  a workspace are the same for every order.
\<close>

theorem posture_ignores_map_order:
  assumes "mset sigs = mset sigs'"
  shows "Evaluate sigs = Evaluate sigs' \<and> Reason sigs = Reason sigs'
    \<and> mset (PruneExpired sigs now) = mset (PruneExpired sigs' now)
    \<and> snd (derive now sigs) = snd (derive now sigs')"
proof -
  have ev: "Evaluate s = Evaluate s'" if "mset s = mset s'" for s s'
    using weighed_entries_set [OF that] by (simp add: Evaluate_eq evidence_of_def member_weight_def)
  have re: "Reason s = Reason s'" if "mset s = mset s'" for s s'
  proof -
    have "mset (reason_entries s) = mset (reason_entries s')"
      unfolding reason_entries_def by (rule mset_concat_map [OF that])
    moreover have "inj_on (\<lambda>(w::int, d::string). (- w, d)) (set (reason_entries s))" by (auto simp: inj_on_def)
    ultimately have "sort_key (\<lambda>(w, d). (- w, d)) (reason_entries s) = sort_key (\<lambda>(w, d). (- w, d)) (reason_entries s')"
      by (intro sort_key_inj_key_eq) simp_all
    then show ?thesis by (simp add: Reason_def)
  qed
  have pr: "mset (PruneExpired sigs now) = mset (PruneExpired sigs' now)"
    using assms by (simp add: PruneExpired_def)
  show ?thesis
    using ev [OF assms] re [OF assms] pr ev [OF pr] re [OF pr] by (simp only: derive_eq snd_conv)
qed

section \<open>Every change keeps the posture derived\<close>

text \<open>
  A row is sound when its score is that of its evidence and its band is the pin of an operator or,
  without one, the band of its evidence.
\<close>

definition row_sound :: "riskRow \<Rightarrow> bool" where
  "row_sound row \<longleftrightarrow>
     distinct (map fst (rk_signals row)) \<and> rk_score row = Score (rk_signals row)
     \<and> rk_state row = (case rk_override row of None \<Rightarrow> fst (Evaluate (rk_signals row)) | Some s \<Rightarrow> s)
     \<and> risk_Valid (rk_state row)"

definition table_sound :: "risk_table \<Rightarrow> bool" where
  "table_sound tab \<longleftrightarrow> (\<forall>org row. tab org = Some row \<longrightarrow> row_sound row)"

text \<open>The defaults of the columns, for a new organization.\<close>

definition new_row :: riskRow where
  "new_row = \<lparr>rk_state = ''trusted'', rk_score = 0, rk_reason = None, rk_signals = [], rk_evaluatedAt = None,
     rk_override = None, rk_overrideReason = None, rk_overrideBy = None, rk_overrideAt = None\<rparr>"

inductive risk_step :: "risk_table \<Rightarrow> risk_table \<Rightarrow> bool" where
  created: "tab org = None \<Longrightarrow> risk_step tab (tab(org \<mapsto> new_row))"
| recorded: "RecordSignal svc faults now tab org sig = (r, evs, tab') \<Longrightarrow> risk_step tab tab'"
| cleared: "ClearSignal svc faults now tab org key = (r, evs, tab') \<Longrightarrow> risk_step tab tab'"
| pinned: "SetOverride svc faults now tab org state reason actor = (r, evs, tab') \<Longrightarrow> risk_step tab tab'"
| unpinned: "ClearOverride svc faults now tab org = (r, evs, tab') \<Longrightarrow> risk_step tab tab'"
| swept: "SweepExpired svc listFault sweepFaults now orgs tab = (n, evs, tab') \<Longrightarrow> risk_step tab tab'"

lemma table_sound_upd: "table_sound tab \<Longrightarrow> row_sound row \<Longrightarrow> table_sound (tab(org \<mapsto> row))"
  by (simp add: table_sound_def)

lemma new_row_sound: "row_sound new_row"
  by (simp add: row_sound_def new_row_def Score_def) code_simp

lemma write_row_sound:
  assumes "row_sound row" "distinct (map fst sigs)"
  shows "row_sound (write_row now row (derive now sigs))" "row_sound (write_row now (drop_pin row) (derive now sigs))"
proof -
  have d: "distinct (map fst (PruneExpired sigs now))"
    unfolding PruneExpired_def using assms(2) by (rule distinct_map_filter)
  note facts = write_row_def derive_def row_sound_def Let_def Score_def
  show "row_sound (write_row now row (derive now sigs))"
    using assms(1) d Evaluate_Valid [of "PruneExpired sigs now"]
    by (auto simp: facts split: option.split prod.split)
  show "row_sound (write_row now (drop_pin row) (derive now sigs))"
    using d Evaluate_Valid [of "PruneExpired sigs now"]
    by (auto simp: facts drop_pin_def split: prod.split)
qed

lemma rederive_sound:
  assumes "rederive fault now tab org clr (\<lambda>s. derive now (mutate s)) = (r, tab')" "table_sound tab"
    and "\<And>s. distinct (map fst s) \<Longrightarrow> distinct (map fst (mutate s))"
  shows "table_sound tab'"
proof (cases "fault \<or> tab org = None")
  case True
  with assms show ?thesis by (auto simp: rederive_def split: if_split_asm)
next
  case False
  then obtain row where row: "tab org = Some row" "\<not> fault" by blast
  then have "row_sound row" using assms(2) by (simp add: table_sound_def)
  then have "distinct (map fst (mutate (rk_signals row)))" using assms(3) by (simp add: row_sound_def)
  with \<open>row_sound row\<close>
  have "row_sound (write_row now (if clr then drop_pin row else row) (derive now (mutate (rk_signals row))))"
    using write_row_sound by (cases clr) simp_all
  with assms(1,2) row show ?thesis by (auto simp: rederive_def Let_def intro: table_sound_upd)
qed

lemma answer_table: "answer svc org b (r, tab) = (x, evs, tab') \<Longrightarrow> tab' = tab"
  by (auto simp: answer_def split: sum.split_asm)

lemma apply_signals_sound:
  assumes "apply_signals svc faults now tab org mutate = (r, evs, tab')" "table_sound tab"
    and "\<And>s. distinct (map fst s) \<Longrightarrow> distinct (map fst (mutate s))"
  shows "table_sound tab'"
proof -
  obtain r' tab1 where run: "rederive (snd faults) now tab org False (\<lambda>s. derive now (mutate s)) = (r', tab1)"
    by (metis prod.exhaust)
  with assms(1) have "tab' = tab1" by (auto simp: apply_signals_def dest: answer_table)
  with rederive_sound [OF run assms(2,3)] show ?thesis by simp
qed

lemma distinct_prune: "distinct (map fst s) \<Longrightarrow> distinct (map fst (PruneExpired s now))"
  unfolding PruneExpired_def by (rule distinct_map_filter)

lemma sweep_loop_sound:
  "sweep_loop svc faults now orgs (n, evs, tab) = (n', evs', tab') \<Longrightarrow> table_sound tab \<Longrightarrow> table_sound tab'"
proof (induction orgs arbitrary: n evs tab)
  case (Cons org orgs)
  obtain r ev tab1 where run: "apply_signals svc (faults org) now tab org (\<lambda>s. PruneExpired s now) = (r, ev, tab1)"
    by (metis prod.exhaust)
  have "table_sound tab1" using apply_signals_sound [OF run Cons.prems(2)] distinct_prune by blast
  moreover obtain m where "sweep_loop svc faults now orgs (m, evs @ ev, tab1) = (n', evs', tab')"
    using Cons.prems(1) run by (cases r) (auto simp: Let_def)
  ultimately show ?case using Cons.IH by blast
qed simp

lemma SetOverride_sound:
  assumes "SetOverride svc faults now tab org state reason actor = (r, evs, tab')" "table_sound tab"
  shows "table_sound tab'"
proof (cases "risk_Valid state \<and> \<not> snd faults \<and> tab org \<noteq> None")
  case False
  with assms show ?thesis
    by (auto simp: SetOverride_def SetOrgRiskOverride_def split: if_split_asm dest: answer_table)
next
  case True
  then obtain row where row: "tab org = Some row" by blast
  have "row_sound (pin_row now row state reason b)" for b
    using True row assms(2) by (simp add: table_sound_def row_sound_def pin_row_def)
  with True row assms show ?thesis
    by (auto simp: SetOverride_def SetOrgRiskOverride_def Let_def intro!: table_sound_upd dest!: answer_table)
qed

lemma risk_step_sound: "risk_step tab tab' \<Longrightarrow> table_sound tab \<Longrightarrow> table_sound tab'"
proof (induction rule: risk_step.induct)
  case (created tab org)
  then show ?case using new_row_sound by (blast intro: table_sound_upd)
next
  case (recorded svc faults now tab org sig r evs tab')
  then show ?case
    by (auto simp: RecordSignal_def distinct_update split: if_split_asm elim!: apply_signals_sound)
next
  case (cleared svc faults now tab org key r evs tab')
  then show ?case
    unfolding ClearSignal_def by (rule apply_signals_sound) (simp add: distinct_delete)
next
  case (pinned svc faults now tab org state reason actor r evs tab')
  then show ?case by (rule SetOverride_sound)
next
  case (unpinned svc faults now tab org r evs tab')
  obtain r' tab1 where run: "rederive (snd faults) now tab org True (derive now) = (r', tab1)"
    by (metis prod.exhaust)
  with unpinned(1) have "tab' = tab1" by (auto simp: ClearOverride_def dest: answer_table)
  with rederive_sound [where mutate = "\<lambda>s. s", OF run unpinned(2)] show ?case by simp
next
  case (swept svc listFault sweepFaults now orgs tab n evs tab')
  then show ?case by (auto simp: SweepExpired_def split: if_split_asm elim!: sweep_loop_sound)
qed

lemma reachable_sound: "risk_step\<^sup>*\<^sup>* Map.empty tab \<Longrightarrow> table_sound tab"
  by (induction rule: rtranclp_induct) (auto simp: table_sound_def [of Map.empty] intro: risk_step_sound)

section \<open>What the posture promises\<close>

text \<open>
  Claim C12. Whatever detectors, operators and the sweep did, and whichever of their queries failed,
  the stored score is the score of the stored evidence, between 0 and 100, and the stored band is the
  operator's pin or else the band of that evidence.
\<close>

theorem posture_follows_evidence:
  assumes "risk_step\<^sup>*\<^sup>* Map.empty tab" "tab org = Some row"
  shows "rk_score row = Score (rk_signals row) \<and> 0 \<le> rk_score row \<and> rk_score row \<le> 100
    \<and> distinct (map fst (rk_signals row)) \<and> risk_Valid (rk_state row)
    \<and> rk_state row = (case rk_override row of None \<Rightarrow> fst (Evaluate (rk_signals row)) | Some s \<Rightarrow> s)"
proof -
  have "row_sound row" using reachable_sound [OF assms(1)] assms(2) by (simp add: table_sound_def)
  note row = this [unfolded row_sound_def]
  then have "0 \<le> rk_score row" "rk_score row \<le> 100" by (simp_all only: Score_range)
  with row show ?thesis by blast
qed

text \<open>
  Claim C3. Shape alone takes nothing away: a workspace no operator pinned, whose evidence of conduct
  is below the floor, sends at its full caps from any pool, however much circumstantial evidence it
  has.
\<close>

theorem shape_takes_nothing_away:
  assumes "risk_step\<^sup>*\<^sup>* Map.empty tab" "tab org = Some row" "rk_override row = None"
    and "evidence_of (rk_signals row) True < SubstantiveFloor"
    and "state = orgRiskState (Some (\<lambda>o'. Some (GetOrgRiskStates tab [o']))) (Some org)"
  shows "state = rk_state row \<and> \<not> BlocksSending state \<and> CapMultiplier state = 1 \<and> \<not> ForcesFreeWarmupPool state
    \<and> \<not> Restricted (Some (buildOrgRisk org row))"
proof -
  have row: "row_sound row" using reachable_sound [OF assms(1)] assms(2) by (simp add: table_sound_def)
  have "risk_Valid (rk_state row)" using row unfolding row_sound_def by blast
  then have state: "state = rk_state row"
    using assms(2,5) by (simp add: orgRiskState_def GetOrgRiskStates_def)
  have "rk_state row \<noteq> ''restricted'' \<and> rk_state row \<noteq> ''suspended''"
    using row assms(3,4) harsh_needs_conduct [of "rk_signals row"] unfolding row_sound_def by auto
  with state show ?thesis
    unfolding BlocksSending_def CapMultiplier_def ForcesFreeWarmupPool_def Restricted_def buildOrgRisk_def
    by simp
qed

lemma answer_ok: "answer svc org b (Some (Some risk'), tab1) = (Inr risk, evs, tab') \<longleftrightarrow>
    risk = risk' \<and> tab' = tab1 \<and> evs = auditTransition svc org (case b of None \<Rightarrow> None | Some b \<Rightarrow> b) risk'"
  by (auto simp: answer_def resolved_def)

lemma signal_entry_expired:
  assumes "civil \<lparr>g_inst = now + sg_TTL sig, g_loc = UTC\<rparr> = (y, m, d)" "0 \<le> y" "y < 10000"
  shows "expired later (signal_entry now sig) \<longleftrightarrow>
    0 < sg_TTL sig \<and> (now + sg_TTL sig) div Second * Second < later"
proof -
  have "format_rfc3339 (now + sg_TTL sig) \<noteq> []"
    by (simp add: format_rfc3339_def Let_def show2_def split: prod.split)
  then show ?thesis
    using rfc3339_roundtrip [OF assms] by (simp add: expired_def signal_entry_def Let_def)
qed

lemma key_filtered:
  assumes "distinct (map fst sigs)" "map_of sigs key = Some v"
  shows "key \<in> fst ` set (filter (\<lambda>(k, raw). P raw) sigs) \<longleftrightarrow> P v"
proof
  assume "key \<in> fst ` set (filter (\<lambda>(k, raw). P raw) sigs)"
  then obtain raw where "(key, raw) \<in> set sigs" "P raw" by auto
  with assms show "P v" by simp
next
  assume "P v"
  moreover have "(key, v) \<in> set sigs" using assms(2) by (rule map_of_SomeD)
  ultimately show "key \<in> fst ` set (filter (\<lambda>(k, raw). P raw) sigs)"
    by (intro image_eqI [of _ _ "(key, v)"]) simp_all
qed

text \<open>
  Claim C39. A finding stands for its TTL. Once it is recorded, a later derivation keeps it exactly up
  to the second its expiry was written with, and a finding without a TTL for good.
\<close>

theorem finding_stands_for_its_ttl:
  assumes "RecordSignal svc faults now tab org sig = (Inr risk, evs, tab')" "table_sound tab"
    and "civil \<lparr>g_inst = now + sg_TTL sig, g_loc = UTC\<rparr> = (y, m, d)" "0 \<le> y" "y < 10000" "now \<le> later"
  shows "\<exists>row. tab' org = Some row \<and> risk = buildOrgRisk org row
    \<and> (sg_Key sig \<in> fst ` set (PruneExpired (rk_signals row) later)
       \<longleftrightarrow> sg_TTL sig \<le> 0 \<or> later \<le> (now + sg_TTL sig) div Second * Second)"
proof -
  have key: "sg_Key sig \<noteq> []" and run: "apply_signals svc faults now tab org
      (\<lambda>sigs. AList.update (sg_Key sig) (signal_entry now sig) sigs) = (Inr risk, evs, tab')"
    using assms(1) by (auto simp: RecordSignal_def split: if_split_asm)
  obtain row where row: "tab org = Some row" and ok: "\<not> snd faults"
    using run by (cases "tab org"; cases "snd faults")
      (auto simp: apply_signals_def answer_def resolved_def rederive_def)
  define sigs where "sigs = AList.update (sg_Key sig) (signal_entry now sig) (rk_signals row)"
  define new where "new = write_row now row (derive now sigs)"
  have new: "tab' org = Some new" "risk = buildOrgRisk org new"
    using run row ok
    by (simp_all add: apply_signals_def rederive_def Let_def answer_ok new_def sigs_def)
  have d: "distinct (map fst sigs)"
    using assms(2) row by (simp add: sigs_def distinct_update table_sound_def row_sound_def)
  have held: "rk_signals new = PruneExpired sigs now"
    by (simp add: new_def write_row_def derive_def Let_def split: prod.split)
  have twice: "PruneExpired (PruneExpired sigs now) later = filter (\<lambda>(k, raw). \<not> expired now raw \<and> \<not> expired later raw) sigs"
    by (auto simp: PruneExpired_def intro: filter_cong)
  have "sg_Key sig \<in> fst ` set (PruneExpired (rk_signals new) later)
      \<longleftrightarrow> \<not> expired now (signal_entry now sig) \<and> \<not> expired later (signal_entry now sig)"
  proof -
    have "map_of sigs (sg_Key sig) = Some (signal_entry now sig)"
      by (simp add: sigs_def update_conv')
    then show ?thesis
      unfolding held twice by (rule key_filtered [OF d, where P = "\<lambda>raw. \<not> expired now raw \<and> \<not> expired later raw"])
  qed
  then show ?thesis
    using new assms(6) signal_entry_expired [OF assms(3-5)] by force
qed

section \<open>A workspace with a noisy neighbourhood\<close>

definition sample_signal :: "string \<Rightarrow> int \<Rightarrow> duration \<Rightarrow> Signal" where
  "sample_signal key w ttl = \<lparr>sg_Key = key, sg_Weight = w, sg_Detail = key, sg_Class = [], sg_Evidence = [],
     sg_TTL = ttl\<rparr>"

lemma sample_key: "sg_Key (sample_signal key w ttl) = key"
  by (simp add: sample_signal_def)

definition quiet_service :: risk_service where
  "quiet_service = \<lparr>rsv_audit = True, rsv_opsNotify = False\<rparr>"

text \<open>Two circumstantial findings, the first heavier than a finding may be.\<close>

definition after_signal :: "Signal \<Rightarrow> riskRow \<Rightarrow> riskRow" where
  "after_signal sig row = write_row 0 row (derive 0 (AList.update (sg_Key sig) (signal_entry 0 sig) (rk_signals row)))"

definition first_row :: riskRow where
  "first_row = after_signal (sample_signal ''cluster_signup_ip'' 400 0) new_row"

definition sample_row :: riskRow where
  "sample_row = after_signal (sample_signal ''mailbox_burst'' 60 0) first_row"

lemma record_after_signal:
  assumes "sg_Key sig \<noteq> []"
  obtains evs where "RecordSignal quiet_service (False, False) 0 (Map.empty([7] \<mapsto> row)) [7] sig
    = (Inr (buildOrgRisk [7] (after_signal sig row)), evs, Map.empty([7] \<mapsto> after_signal sig row))"
  using assms
  by (simp add: RecordSignal_def apply_signals_def rederive_def Let_def after_signal_def answer_def resolved_def)

lemma sample_reachable: "risk_step\<^sup>*\<^sup>* Map.empty (Map.empty([7] \<mapsto> sample_row))"
proof -
  have step: "risk_step (Map.empty([7] \<mapsto> row)) (Map.empty([7] \<mapsto> after_signal sig row))"
    if "sg_Key sig \<noteq> []" for sig row
    using that by (rule record_after_signal) (rule risk_step.recorded)
  have a: "risk_step\<^sup>*\<^sup>* Map.empty (Map.empty([7] \<mapsto> new_row))"
    by (rule r_into_rtranclp, rule risk_step.created) simp
  have b: "risk_step (Map.empty([7] \<mapsto> new_row)) (Map.empty([7] \<mapsto> first_row))"
    unfolding first_row_def by (rule step) (simp only: sample_key list.distinct not_False_eq_True)
  have c: "risk_step (Map.empty([7] \<mapsto> first_row)) (Map.empty([7] \<mapsto> sample_row))"
    unfolding sample_row_def by (rule step) (simp only: sample_key list.distinct not_False_eq_True)
  show ?thesis
    by (rule rtranclp.rtrancl_into_rtrancl [where r = risk_step, OF rtranclp.rtrancl_into_rtrancl [where r = risk_step, OF a b] c])
qed

lemma sample_row_facts:
  "rk_override sample_row = None" "snd (fuse (rk_signals sample_row)) = 0" "rk_score sample_row = 40"
  "rk_state sample_row = ''watch''" "length (rk_signals sample_row) = 2"
  by code_simp+

theorem posture_follows_evidence_witness:
  "rk_state sample_row = ''watch'' \<and> Score (rk_signals sample_row) = 40 \<and> length (rk_signals sample_row) = 2"
proof -
  from posture_follows_evidence [OF sample_reachable fun_upd_same]
  have "rk_score sample_row = Score (rk_signals sample_row)" by (elim conjE)
  then show ?thesis by (simp only: sample_row_facts)
qed

theorem shape_takes_nothing_away_witness:
  "CapMultiplier (orgRiskState (Some (\<lambda>o'. Some (GetOrgRiskStates (Map.empty([7] \<mapsto> sample_row)) [o']))) (Some [7])) = 1
   \<and> rk_score sample_row = 40"
proof -
  have "evidence_of (rk_signals sample_row) True < SubstantiveFloor"
    using sample_row_facts(2) by (simp add: fuse_is_evidence SubstantiveFloor_def)
  from shape_takes_nothing_away [OF sample_reachable fun_upd_same sample_row_facts(1) this refl] sample_row_facts(3)
  show ?thesis by blast
qed

theorem posture_ignores_map_order_witness:
  "Evaluate [(''list_quality'', JObj [(''weight'', JNum 30)]), (''mailbox_burst'', JObj [(''weight'', JNum 30)])]
     = Evaluate [(''mailbox_burst'', JObj [(''weight'', JNum 30)]), (''list_quality'', JObj [(''weight'', JNum 30)])]
   \<and> Evaluate [(''list_quality'', JObj [(''weight'', JNum 30)]), (''mailbox_burst'', JObj [(''weight'', JNum 30)])]
     = (''restricted'', 60)"
proof -
  have "mset [(''list_quality'', JObj [(''weight'', JNum 30)]), (''mailbox_burst'', JObj [(''weight'', JNum 30)])]
     = mset [(''mailbox_burst'', JObj [(''weight'', JNum 30)]), (''list_quality'', JObj [(''weight'', JNum 30)])]"
    by (simp add: add_mset_commute)
  from posture_ignores_map_order [OF this, of 0]
  have "Evaluate [(''list_quality'', JObj [(''weight'', JNum 30)]), (''mailbox_burst'', JObj [(''weight'', JNum 30)])]
     = Evaluate [(''mailbox_burst'', JObj [(''weight'', JNum 30)]), (''list_quality'', JObj [(''weight'', JNum 30)])]"
    by (elim conjE)
  moreover have "Evaluate [(''list_quality'', JObj [(''weight'', JNum 30)]), (''mailbox_burst'', JObj [(''weight'', JNum 30)])]
     = (''restricted'', 60)" by code_simp
  ultimately show ?thesis by blast
qed

text \<open>Recorded at noon for ninety minutes: kept at the second of its expiry, gone one nanosecond later.\<close>

theorem finding_stands_for_its_ttl_witness:
  "''mailbox_burst'' \<in> fst ` set (PruneExpired (rk_signals
       (after_signal (sample_signal ''mailbox_burst'' 60 (90 * Minute)) new_row)) (90 * Minute))
   \<and> ''mailbox_burst'' \<notin> fst ` set (PruneExpired (rk_signals
       (after_signal (sample_signal ''mailbox_burst'' 60 (90 * Minute)) new_row)) (90 * Minute + 1))"
proof -
  let ?sig = "sample_signal ''mailbox_burst'' 60 (90 * Minute)"
  have fields: "sg_Key ?sig = ''mailbox_burst''" "sg_TTL ?sig = 90 * Minute" by (simp_all add: sample_signal_def)
  then have "sg_Key ?sig \<noteq> []" by simp
  then obtain evs where run: "RecordSignal quiet_service (False, False) 0 (Map.empty([7] \<mapsto> new_row)) [7] ?sig
    = (Inr (buildOrgRisk [7] (after_signal ?sig new_row)), evs, Map.empty([7] \<mapsto> after_signal ?sig new_row))"
    by (rule record_after_signal)
  have sound: "table_sound (Map.empty([7] \<mapsto> new_row))" using new_row_sound by (simp add: table_sound_def)
  have year: "civil \<lparr>g_inst = 0 + sg_TTL ?sig, g_loc = UTC\<rparr> = (1970, 1, 1)" unfolding fields by code_simp
  note stands = finding_stands_for_its_ttl [OF run sound year, unfolded fields fun_upd_same]
  from stands [of "90 * Minute"] stands [of "90 * Minute + 1"] show ?thesis by auto
qed

end
