(* ===== verification/Spec2Isabelle.thy ===== *)
theory Spec2Isabelle
  imports Prelude Go_Float Go_Time Bitmask Send_Behavior Day_Plan
    Behavior_Store Behavior_Service Wall_Clock Schedule_Windows Behavior_Placement Warmup_Ramp Send_Lifecycle Send_Time
    Campaign_Pacing Mailbox_Rotation Mail_Host Mail_Detection
    Worker_Placement Worker_Rotation Worker_Assignment Branching Lead_Routing Lead_Selection Mailbox_Gate Send_Plan Campaign_Pass Pass_Safety
    Go_Rfc3339 Org_Risk
begin

text \<open>
  Warmbly sends cold and warmup mail from a pool of mailboxes. This development models
  the parts of its Go back end that decide when, from which mailbox and how much is sent.
\<close>

end
